(* ===== verification/Prelude.thy ===== *)
theory Prelude
  imports Main "HOL-Library.Word"
begin

unbundle bit_operations_syntax

text \<open>
  The types and the generic lemmas the component theories share.  Machine integers are
  words of their C width.  Memory is a list of bytes, and a wider integer is read from it
  and written to it in the order of a little-endian host, the one the program is built for:
  \<open>join_le\<close> puts a list of narrow words together with the first one least significant and
  \<open>split_le\<close> takes a word apart the same way.  With bytes they are the C casts between
  \<open>uint8_t *\<close> and wider pointers; with wider elements they are the union of a vector
  register and its lanes.
\<close>

type_synonym byte = "8 word"
type_synonym u16 = "16 word"
type_synonym u32 = "32 word"
type_synonym u64 = "64 word"

named_theorems list_mem "lemmas on lists used as memory"
named_theorems word_bytes "lemmas on words and the narrower words they consist of"

section \<open>Words as lists of narrower words\<close>

fun join_le :: "'b::len word list \<Rightarrow> 'a::len word" where
  "join_le [] = 0"
| "join_le (b # bs) = ucast b OR push_bit LENGTH('b) (join_le bs)"

definition split_le :: "nat \<Rightarrow> 'a::len word \<Rightarrow> 'b::len word list" where
  "split_le n w = map (\<lambda>i. ucast (drop_bit (LENGTH('b) * i) w)) [0..<n]"

definition join_be :: "'b::len word list \<Rightarrow> 'a::len word" where
  "join_be bs = join_le (rev bs)"

definition split_be :: "nat \<Rightarrow> 'a::len word \<Rightarrow> 'b::len word list" where
  "split_be n w = rev (split_le n w)"

lemma length_split_le [simp]: "length (split_le n w) = n"
  by (simp add: split_le_def)

lemma length_split_be [simp]: "length (split_be n w) = n"
  by (simp add: split_be_def)

lemma nth_split_le [simp]:
  "i < n \<Longrightarrow> (split_le n (w::'a::len word) ! i :: 'b::len word) = ucast (drop_bit (LENGTH('b) * i) w)"
  by (simp add: split_le_def)

lemma bit_join_le [bit_simps]:
  fixes bs :: "'b::len word list"
  shows "bit (join_le bs :: 'a::len word) n \<longleftrightarrow>
    n < LENGTH('a) \<and> n < LENGTH('b) * length bs \<and>
    bit (bs ! (n div LENGTH('b))) (n mod LENGTH('b))"
proof (induction bs arbitrary: n)
  case Nil
  then show ?case by simp
next
  case (Cons b bs)
  show ?case
  proof (cases "n < LENGTH('b)")
    case True
    then show ?thesis
      by (auto simp: bit_simps)
  next
    case False
    then have nd: "n div LENGTH('b) = Suc ((n - LENGTH('b)) div LENGTH('b))"
      and nm: "n mod LENGTH('b) = (n - LENGTH('b)) mod LENGTH('b)"
      by (simp_all add: le_div_geq le_mod_geq)
    from False have le: "LENGTH('b) \<le> n" by simp
    have "bit (join_le (b # bs) :: 'a word) n \<longleftrightarrow>
        n < LENGTH('a) \<and> bit (join_le bs :: 'a word) (n - LENGTH('b))"
      using le by (auto simp: bit_simps dest: bit_imp_le_length)
    also have "\<dots> \<longleftrightarrow> n < LENGTH('a) \<and> n < LENGTH('b) * length (b # bs) \<and>
        bit (bs ! ((n - LENGTH('b)) div LENGTH('b))) ((n - LENGTH('b)) mod LENGTH('b))"
      using le by (auto simp: Cons.IH)
    finally show ?thesis
      by (simp add: nd nm)
  qed
qed

lemma join_split_le [word_bytes]:
  fixes w :: "'a::len word"
  assumes "LENGTH('a) = n * LENGTH('b::len)"
  shows "join_le (split_le n w :: 'b word list) = w"
proof (rule bit_word_eqI)
  fix i
  assume i: "i < LENGTH('a)"
  then have "i div LENGTH('b) < n"
    using assms by (simp add: less_mult_imp_div_less)
  moreover have "LENGTH('b) * (i div LENGTH('b)) + i mod LENGTH('b) = i"
    by (simp add: mult_div_mod_eq)
  ultimately show "bit (join_le (split_le n w :: 'b word list) :: 'a word) i \<longleftrightarrow> bit w i"
    using i assms by (simp add: bit_simps mult.commute)
qed

lemma split_join_le [word_bytes]:
  fixes bs :: "'b::len word list"
  assumes "length bs * LENGTH('b) \<le> LENGTH('a::len)" and "n = length bs"
  shows "split_le n (join_le bs :: 'a word) = bs"
proof (rule nth_equalityI)
  show "length (split_le n (join_le bs :: 'a word) :: 'b word list) = length bs"
    using assms by simp
  fix i
  assume "i < length (split_le n (join_le bs :: 'a word) :: 'b word list)"
  then have i: "i < length bs" using assms by simp
  show "split_le n (join_le bs :: 'a word) ! i = bs ! i"
  proof (rule bit_word_eqI)
    fix k
    assume k: "k < LENGTH('b)"
    have "LENGTH('b) * i + k < LENGTH('b) * Suc i" using k by simp
    also have "\<dots> \<le> LENGTH('b) * length bs" using i by (intro mult_le_mono2) simp
    finally have "LENGTH('b) * i + k < LENGTH('b) * length bs" .
    moreover from this have "LENGTH('b) * i + k < LENGTH('a)"
      using assms by (simp add: mult.commute)
    ultimately show "bit (split_le n (join_le bs :: 'a word) ! i :: 'b word) k = bit (bs ! i) k"
      using k i assms by (simp add: bit_simps)
  qed
qed

lemma join_split_be [word_bytes]:
  fixes w :: "'a::len word"
  assumes "LENGTH('a) = n * LENGTH('b::len)"
  shows "join_be (split_be n w :: 'b word list) = w"
  using assms by (simp add: join_be_def split_be_def join_split_le)

lemma split_join_be [word_bytes]:
  fixes bs :: "'b::len word list"
  assumes "length bs * LENGTH('b) \<le> LENGTH('a::len)" and "n = length bs"
  shows "split_be n (join_be bs :: 'a word) = bs"
  using assms by (simp add: join_be_def split_be_def split_join_le)

section \<open>Bounds and bits of the fixed widths\<close>

lemma unat_u32_less: "unat (x :: u32) < 2 ^ 32"
  using unsigned_less [of x] by simp

lemma unat_u64_less: "unat (x :: u64) < 2 ^ 64"
  using unsigned_less [of x] by simp

lemma unat_ucast_fits:
  assumes "unat (x :: 'a::len word) < 2 ^ LENGTH('b::len)"
  shows "unat (ucast x :: 'b word) = unat x"
  using assms unfolding unsigned_ucast_eq by (simp only: take_bit_nat_eq_self)

text \<open>A word equation is decided bit by bit; the concrete bit numbers let the masks evaluate.\<close>

lemma upt_32: "[0..<32] = [0,1,2,3,4,5,6,7,8,9,10,11,12,13,14,15,16,17,18,19,20,21,22,23,24,25,26,27,28,29,30,31::nat]"
  by (simp add: upt_rec)

lemma upt_64: "[0..<64] = [0,1,2,3,4,5,6,7,8,9,10,11,12,13,14,15,16,17,18,19,20,21,22,23,24,25,26,27,28,29,30,31,
    32,33,34,35,36,37,38,39,40,41,42,43,44,45,46,47,48,49,50,51,52,53,54,55,56,57,58,59,60,61,62,63::nat]"
  by (simp add: upt_rec)

lemma u32_bit_eqI: "list_all (\<lambda>n. bit x n = bit y n) [0..<32] \<Longrightarrow> (x::u32) = y"
  by (rule bit_word_eqI) (simp add: list_all_iff)

lemma u64_bit_eqI: "list_all (\<lambda>n. bit x n = bit y n) [0..<64] \<Longrightarrow> (x::u64) = y"
  by (rule bit_word_eqI) (simp add: list_all_iff)

lemmas bit_eval = bit_simps bit_numeral_rec

text \<open>A statement about a single byte is decided by trying the 256 values.\<close>

definition all_bytes :: "byte list" where
  "all_bytes = map word_of_int [0..255]"

lemma byte_cases:
  assumes "list_all P all_bytes"
  shows "P b"
proof -
  have "uint b \<in> set [0..255]"
    using unsigned_less [of b, where ?'a = int] by simp
  then have "b \<in> set all_bytes"
    unfolding all_bytes_def by (metis (mono_tags) image_eqI list.set_map word_of_int_uint)
  with assms show ?thesis by (simp add: list_all_iff)
qed

section \<open>Memory\<close>

text \<open>\<open>memcpy(dst + off, src, length src)\<close> on a destination that has the room.\<close>

definition blit :: "'a list \<Rightarrow> nat \<Rightarrow> 'a list \<Rightarrow> 'a list" where
  "blit dst off src = take off dst @ src @ drop (off + length src) dst"

text \<open>\<open>mem_slice\<close> is the \<open>n\<close> elements a pointer into the memory sees.\<close>

definition mem_slice :: "'a list \<Rightarrow> nat \<Rightarrow> nat \<Rightarrow> 'a list" where
  "mem_slice mem off n = take n (drop off mem)"

lemma length_blit [simp]:
  "off + length src \<le> length dst \<Longrightarrow> length (blit dst off src) = length dst"
  by (simp add: blit_def)

lemma length_mem_slice [simp]: "off + n \<le> length mem \<Longrightarrow> length (mem_slice mem off n) = n"
  by (simp add: mem_slice_def)

lemma nth_blit [list_mem]:
  assumes "off + length src \<le> length dst" and "i < length dst"
  shows "blit dst off src ! i = (if off \<le> i \<and> i < off + length src then src ! (i - off) else dst ! i)"
  using assms by (auto simp: blit_def nth_append min_def)

lemma nth_mem_slice [simp]:
  "i < n \<Longrightarrow> off + n \<le> length mem \<Longrightarrow> mem_slice mem off n ! i = mem ! (off + i)"
  by (simp add: mem_slice_def)

lemma mem_slice_blit_same [simp]:
  assumes "off + length src \<le> length dst" and "n = length src"
  shows "mem_slice (blit dst off src) off n = src"
  using assms by (simp add: mem_slice_def blit_def)

lemma mem_slice_blit_disjoint [list_mem]:
  assumes "off + length src \<le> length dst" and "o2 + n \<le> length dst"
    and "o2 + n \<le> off \<or> off + length src \<le> o2"
  shows "mem_slice (blit dst off src) o2 n = mem_slice dst o2 n"
  using assms by (intro nth_equalityI) (auto simp: list_mem)

lemma blit_full [simp]: "length src = length dst \<Longrightarrow> blit dst 0 src = src"
  by (simp add: blit_def)

lemma mem_slice_full [simp]: "n = length mem \<Longrightarrow> mem_slice mem 0 n = mem"
  by (simp add: mem_slice_def)

lemma mem_slice_mem_slice [simp]:
  "b + k \<le> n \<Longrightarrow> mem_slice (mem_slice mem a n) b k = mem_slice mem (a + b) k"
  by (simp add: mem_slice_def drop_take min_def add.commute)

lemma mem_slice_add: "mem_slice mem p (a + b) = mem_slice mem p a @ mem_slice mem (p + a) b"
  by (simp add: mem_slice_def take_add add.commute)

lemma mem_slice_concat:
  "mem_slice mem p (k * n) = concat (map (\<lambda>j. mem_slice mem (p + k * j) k) [0..<n])"
proof (induction n)
  case (Suc n)
  have "k * Suc n = k * n + k" by simp
  with Suc show ?case by (simp only: mem_slice_add) simp
qed (simp add: mem_slice_def)

text \<open>\<open>for (i = 0; i < n; i++) xs[i] = f(i, xs[i]);\<close>\<close>

definition update_loop :: "nat \<Rightarrow> (nat \<Rightarrow> 'w \<Rightarrow> 'w) \<Rightarrow> 'w list \<Rightarrow> 'w list" where
  "update_loop n f xs = fold (\<lambda>i xs. xs[i := f i (xs ! i)]) [0..<n] xs"

lemma update_loop_nth:
  assumes "n \<le> length xs"
  shows "length (update_loop n f xs) = length xs \<and>
    (\<forall>k < length xs. update_loop n f xs ! k = (if k < n then f k (xs ! k) else xs ! k))"
  using assms
  by (induction n) (auto simp: update_loop_def nth_list_update less_Suc_eq)

lemma update_loop_eq:
  assumes "n \<le> length xs"
  shows "update_loop n f xs = map (\<lambda>i. f i (xs ! i)) [0..<n] @ drop n xs"
  using assms update_loop_nth [OF assms, of f]
  by (intro nth_equalityI) (auto simp: nth_append)

lemma length_update_loop [simp]: "n \<le> length xs \<Longrightarrow> length (update_loop n f xs) = length xs"
  using update_loop_nth by blast

text \<open>Equal pieces put together, and taken apart again.\<close>

lemma mem_slice_pieces:
  assumes "\<forall>x \<in> set xs. length (f x) = k" and "i < length xs"
  shows "mem_slice (concat (map f xs)) (k * i) k = f (xs ! i)"
  using assms
proof (induction xs arbitrary: i)
  case (Cons x xs)
  then show ?case
    by (cases i) (simp_all add: mem_slice_def)
qed simp

lemma length_pieces: "\<forall>x \<in> set xs. length (f x) = k \<Longrightarrow> length (concat (map f xs)) = k * length xs"
  by (induction xs) simp_all

text \<open>A sequence of writes to places that do not overlap.\<close>

definition blits :: "(nat \<times> 'a list) list \<Rightarrow> 'a list \<Rightarrow> 'a list" where
  "blits ws mem = fold (\<lambda>(a, bs) mem. blit mem a bs) ws mem"

lemma blits_simps [simp]:
  "blits [] mem = mem"
  "blits ((a, bs) # ws) mem = blits ws (blit mem a bs)"
  "blits (us @ ws) mem = blits ws (blits us mem)"
  by (simp_all add: blits_def)

lemma length_blits:
  "\<forall>(a, bs) \<in> set ws. a + length bs \<le> length mem \<Longrightarrow> length (blits ws mem) = length mem"
  by (induction ws arbitrary: mem) auto

lemma mem_slice_blits_disjoint:
  assumes "\<forall>(a, bs) \<in> set ws. a + length bs \<le> length mem" and "p + n \<le> length mem"
    and "\<forall>(a, bs) \<in> set ws. p + n \<le> a \<or> a + length bs \<le> p"
  shows "mem_slice (blits ws mem) p n = mem_slice mem p n"
  using assms by (induction ws arbitrary: mem) (auto simp: mem_slice_blit_disjoint)

lemma mem_slice_blits:
  assumes "\<forall>(a, bs) \<in> set ws. a + length bs \<le> length mem" and "(a, bs) \<in> set ws"
    and "\<forall>(a', bs') \<in> set ws. (a', bs') = (a, bs) \<or> a + length bs \<le> a' \<or> a' + length bs' \<le> a"
  shows "mem_slice (blits ws mem) a (length bs) = bs"
  using assms
proof (induction ws arbitrary: mem)
  case (Cons w ws)
  obtain a' bs' where w: "w = (a', bs')" by force
  show ?case
  proof (cases "(a, bs) \<in> set ws")
    case True
    then show ?thesis using Cons by (auto simp: w)
  next
    case False
    with Cons.prems have "(a', bs') = (a, bs)"
        and "\<forall>(a', bs') \<in> set ws. a + length bs \<le> a' \<or> a' + length bs' \<le> a"
      by (auto simp: w)
    with Cons.prems show ?thesis
      by (auto simp: w mem_slice_blits_disjoint)
  qed
qed simp

lemma of_nat_word_eq_0: "of_nat n = (0 :: 32 word) \<longleftrightarrow> n mod 2 ^ 32 = 0"
  by (simp add: word_of_nat_eq_0_iff dvd_eq_mod_eq_0)

section \<open>Bytewise operations\<close>

definition xor_list :: "'a::len word list \<Rightarrow> 'a word list \<Rightarrow> 'a word list" where
  "xor_list xs ys = map2 (XOR) xs ys"

lemma length_xor_list [simp]: "length (xor_list xs ys) = min (length xs) (length ys)"
  by (simp add: xor_list_def)

lemma nth_xor_list [simp]:
  "i < length xs \<Longrightarrow> i < length ys \<Longrightarrow> xor_list xs ys ! i = xs ! i XOR ys ! i"
  by (simp add: xor_list_def)

lemma xor_list_cancel [simp]:
  "length xs = length ys \<Longrightarrow> xor_list (xor_list xs ys) ys = xs"
  by (intro nth_equalityI) (auto simp: xor.assoc)

lemma xor_list_commute: "length xs = length ys \<Longrightarrow> xor_list xs ys = xor_list ys xs"
  by (intro nth_equalityI) (auto simp: xor.commute)

lemma mem_slice_xor_list:
  "length xs = length ys \<Longrightarrow> mem_slice (xor_list xs ys) p n = xor_list (mem_slice xs p n) (mem_slice ys p n)"
  by (simp add: mem_slice_def xor_list_def take_map drop_map take_zip drop_zip)

lemma join_le_xor_list:
  fixes xs ys :: "'b::len word list"
  assumes "length xs = length ys"
  shows "(join_le (xor_list xs ys) :: 'a::len word) = join_le xs XOR join_le ys"
proof (rule bit_word_eqI)
  fix n
  have "n div LENGTH('b) < length ys" if "n < LENGTH('b) * length ys"
    using that by (simp add: less_mult_imp_div_less mult.commute)
  with assms show "bit (join_le (xor_list xs ys) :: 'a word) n \<longleftrightarrow> bit (join_le xs XOR join_le ys :: 'a word) n"
    by (auto simp: bit_simps)
qed

lemma join_le_zeros [simp]: "join_le (replicate n (0 :: 'b::len word)) = (0 :: 'a::len word)"
  by (induction n) simp_all

section \<open>Rotations as the sources write them\<close>

lemma word_rotl_shifts:
  assumes "0 < N" and "N < LENGTH('a)"
  shows "push_bit N v OR drop_bit (LENGTH('a) - N) v = word_rotl N (v :: 'a::len word)"
proof (rule bit_word_eqI)
  fix k assume k: "k < LENGTH('a)"
  then have "(k + (LENGTH('a) - N)) mod LENGTH('a) = (if N \<le> k then k - N else k + (LENGTH('a) - N))"
    using assms by (auto simp: mod_if)
  with k assms show "bit (push_bit N v OR drop_bit (LENGTH('a) - N) v) k \<longleftrightarrow> bit (word_rotl N v) k"
    by (auto simp: bit_simps bit_word_rotl_iff add.commute dest: bit_imp_le_length)
qed

lemma word_rotr_shifts:
  assumes "0 < N" and "N < LENGTH('a)"
  shows "drop_bit N v OR push_bit (LENGTH('a) - N) v = word_rotr N (v :: 'a::len word)"
proof (rule bit_word_eqI)
  fix k assume k: "k < LENGTH('a)"
  then have "(k + N) mod LENGTH('a) = (if k + N < LENGTH('a) then k + N else k + N - LENGTH('a))"
    using assms by (auto simp: mod_if)
  with k assms show "bit (drop_bit N v OR push_bit (LENGTH('a) - N) v) k \<longleftrightarrow> bit (word_rotr N v) k"
    by (auto simp: bit_simps bit_word_rotr_iff add.commute dest: bit_imp_le_length)
qed

end
