(* ===== verification/IntUtil.thy ===== *)
theory IntUtil
  imports Prelude
begin

unbundle bit_operations_syntax

text \<open>
  The integer helpers of \<^verbatim>\<open>src/src/hash/monero/common/int-util.h\<close>: rotations by a
  masked amount, the 64 x 64 to 128 bit product and the 128 by 32 bit division written with
  32-bit halves, and the byte swaps with their loops over arrays.  \<open>place_length\<close> of
  \<^verbatim>\<open>hash-ops.h\<close> is here too.  The pointer results of the C functions are returned as
  further components; a failed \<open>assert\<close> and a division by zero are \<open>None\<close>.
\<close>

section \<open>Rotations\<close>

definition rol32 :: "u32 \<Rightarrow> u32 \<Rightarrow> u32" where
  "rol32 x r = push_bit (unat (r AND 31)) x OR drop_bit (unat (- r AND 31)) x"

definition rol64 :: "u64 \<Rightarrow> u32 \<Rightarrow> u64" where
  "rol64 x r = push_bit (unat (r AND 63)) x OR drop_bit (unat (- r AND 63)) x"

section \<open>Multiplication and division\<close>

definition hi_dword :: "u64 \<Rightarrow> u64" where
  "hi_dword val = drop_bit 32 val"

definition lo_dword :: "u64 \<Rightarrow> u64" where
  "lo_dword val = val AND 0xFFFFFFFF"

text \<open>The result is \<open>(product_lo, product_hi)\<close>.\<close>

definition mul128 :: "u64 \<Rightarrow> u64 \<Rightarrow> (u64 \<times> u64) option" where
  "mul128 multiplier multiplicand =
    (let a = hi_dword multiplier;
         b = lo_dword multiplier;
         c = hi_dword multiplicand;
         d = lo_dword multiplicand;
         ac = a * c;
         ad = a * d;
         bc = b * c;
         bd = b * d;
         adbc = ad + bc;
         adbc_carry = (if adbc < ad then 1 else 0);
         product_lo = bd + push_bit 32 adbc;
         product_lo_carry = (if product_lo < bd then 1 else 0);
         product_hi = ac + drop_bit 32 adbc + push_bit 32 adbc_carry + product_lo_carry
     in if ac \<le> product_hi then Some (product_lo, product_hi) else None)"

text \<open>The result is the quotient and the new remainder.\<close>

definition div_with_reminder :: "u64 \<Rightarrow> u32 \<Rightarrow> u32 \<Rightarrow> (u64 \<times> u32) option" where
  "div_with_reminder dividend divisor remainder =
    (let dividend = dividend OR push_bit 32 (ucast remainder)
     in if divisor = 0 then None
        else Some (dividend div ucast divisor, ucast (dividend mod ucast divisor)))"

text \<open>The result is \<open>(quotient_hi, quotient_lo, remainder)\<close>.\<close>

definition div128_32 :: "u64 \<Rightarrow> u64 \<Rightarrow> u32 \<Rightarrow> (u64 \<times> u64 \<times> u32) option" where
  "div128_32 dividend_hi dividend_lo divisor =
    (case div_with_reminder (hi_dword dividend_hi) divisor 0 of None \<Rightarrow> None
     | Some (q3, r3) \<Rightarrow>
    (case div_with_reminder (lo_dword dividend_hi) divisor r3 of None \<Rightarrow> None
     | Some (q2, r2) \<Rightarrow>
    (case div_with_reminder (hi_dword dividend_lo) divisor r2 of None \<Rightarrow> None
     | Some (q1, r1) \<Rightarrow>
    (case div_with_reminder (lo_dword dividend_lo) divisor r1 of None \<Rightarrow> None
     | Some (q0, r0) \<Rightarrow>
       Some (push_bit 32 q3 OR q2, push_bit 32 q1 OR q0, r0)))))"

section \<open>Byte swaps\<close>

definition IDENT32 :: "u32 \<Rightarrow> u32" where "IDENT32 x = x"
definition IDENT64 :: "u64 \<Rightarrow> u64" where "IDENT64 x = x"

definition SWAP32 :: "u32 \<Rightarrow> u32" where
  "SWAP32 x =
    (push_bit 24 (x AND 0x000000ff) OR
     push_bit 8 (x AND 0x0000ff00) OR
     drop_bit 8 (x AND 0x00ff0000) OR
     drop_bit 24 (x AND 0xff000000))"

definition SWAP64 :: "u64 \<Rightarrow> u64" where
  "SWAP64 x =
    (push_bit 56 (x AND 0x00000000000000ff) OR
     push_bit 40 (x AND 0x000000000000ff00) OR
     push_bit 24 (x AND 0x0000000000ff0000) OR
     push_bit 8 (x AND 0x00000000ff000000) OR
     drop_bit 8 (x AND 0x000000ff00000000) OR
     drop_bit 24 (x AND 0x0000ff0000000000) OR
     drop_bit 40 (x AND 0x00ff000000000000) OR
     drop_bit 56 (x AND 0xff00000000000000))"

definition ident32 :: "u32 \<Rightarrow> u32" where "ident32 x = x"
definition ident64 :: "u64 \<Rightarrow> u64" where "ident64 x = x"

definition swap32 :: "u32 \<Rightarrow> u32" where
  "swap32 x =
    (let x = push_bit 8 (x AND 0x00ff00ff) OR drop_bit 8 (x AND 0xff00ff00)
     in push_bit 16 x OR drop_bit 16 x)"

definition swap64 :: "u64 \<Rightarrow> u64" where
  "swap64 x =
    (let x = push_bit 8 (x AND 0x00ff00ff00ff00ff) OR drop_bit 8 (x AND 0xff00ff00ff00ff00);
         x = push_bit 16 (x AND 0x0000ffff0000ffff) OR drop_bit 16 (x AND 0xffff0000ffff0000)
     in push_bit 32 x OR drop_bit 32 x)"

text \<open>The loops; \<open>n\<close> is the number of elements and \<open>i\<close> the loop variable.\<close>

definition mem_inplace_ident :: "'a list \<Rightarrow> nat \<Rightarrow> 'a list" where
  "mem_inplace_ident mem n = mem"

function swap_loop :: "('a \<Rightarrow> 'a) \<Rightarrow> 'a list \<Rightarrow> 'a list \<Rightarrow> nat \<Rightarrow> nat \<Rightarrow> 'a list" where
  "swap_loop swap dst src i n =
    (if i < n then swap_loop swap (dst[i := swap (src ! i)]) src (Suc i) n else dst)"
  by pat_completeness auto
termination
  by (relation "measure (\<lambda>(swap, dst, src, i, n). n - i)") auto

declare swap_loop.simps [simp del]

function swap_inplace_loop :: "('a \<Rightarrow> 'a) \<Rightarrow> 'a list \<Rightarrow> nat \<Rightarrow> nat \<Rightarrow> 'a list" where
  "swap_inplace_loop swap mem i n =
    (if i < n then swap_inplace_loop swap (mem[i := swap (mem ! i)]) (Suc i) n else mem)"
  by pat_completeness auto
termination
  by (relation "measure (\<lambda>(swap, mem, i, n). n - i)") auto

declare swap_inplace_loop.simps [simp del]

definition mem_inplace_swap32 :: "u32 list \<Rightarrow> nat \<Rightarrow> u32 list" where
  "mem_inplace_swap32 mem n = swap_inplace_loop swap32 mem 0 n"

definition mem_inplace_swap64 :: "u64 list \<Rightarrow> nat \<Rightarrow> u64 list" where
  "mem_inplace_swap64 mem n = swap_inplace_loop swap64 mem 0 n"

definition memcpy_ident32 :: "u32 list \<Rightarrow> u32 list \<Rightarrow> nat \<Rightarrow> u32 list" where
  "memcpy_ident32 dst src n = blit dst 0 (take n src)"

definition memcpy_ident64 :: "u64 list \<Rightarrow> u64 list \<Rightarrow> nat \<Rightarrow> u64 list" where
  "memcpy_ident64 dst src n = blit dst 0 (take n src)"

definition memcpy_swap32 :: "u32 list \<Rightarrow> u32 list \<Rightarrow> nat \<Rightarrow> u32 list" where
  "memcpy_swap32 dst src n = swap_loop swap32 dst src 0 n"

definition memcpy_swap64 :: "u64 list \<Rightarrow> u64 list \<Rightarrow> nat \<Rightarrow> u64 list" where
  "memcpy_swap64 dst src n = swap_loop swap64 dst src 0 n"

text \<open>On a little-endian host with 8-byte \<open>size_t\<close>.\<close>

definition place_length :: "byte list \<Rightarrow> nat \<Rightarrow> u64 \<Rightarrow> byte list" where
  "place_length buffer bufsize len = blit buffer (bufsize - 8) (split_le 8 (swap64 len))"

section \<open>Correctness\<close>

lemma unat_hi_dword: "unat (hi_dword x) = unat x div 2 ^ 32"
  by (simp only: hi_dword_def unat_drop_bit_eq) (simp add: drop_bit_eq_div)

lemma unat_lo_dword: "unat (lo_dword x) = unat x mod 2 ^ 32"
proof -
  have "x AND 0xFFFFFFFF = take_bit 32 x"
    by (simp only: take_bit_eq_mask mask_eq_exp_minus_1) simp
  then show ?thesis
    by (simp only: lo_dword_def unsigned_take_bit_eq) (simp add: take_bit_eq_mod)
qed

lemma hi_dword_less: "unat (hi_dword x) < 2 ^ 32"
  using unat_u64_less [of x] by (simp add: unat_hi_dword less_mult_imp_div_less)

lemma lo_dword_less: "unat (lo_dword x) < 2 ^ 32"
  by (simp add: unat_lo_dword)

lemma hi_lo_dword: "unat x = unat (hi_dword x) * 2 ^ 32 + unat (lo_dword x)"
  unfolding unat_hi_dword unat_lo_dword by (simp add: mult.commute)

lemma unat_mult_dword:
  fixes x y :: u64
  assumes "unat x < 2 ^ 32" and "unat y < 2 ^ 32"
  shows "unat (x * y) = unat x * unat y"
proof -
  have "unat x * unat y \<le> (2 ^ 32 - 1) * (2 ^ 32 - 1)"
    using assms by (intro mult_le_mono) simp_all
  also have "\<dots> < 2 ^ LENGTH(64)" by simp
  finally show ?thesis by (subst unat_word_ariths) simp
qed

lemma unat_add_carry:
  fixes x y :: u64
  shows "unat (x + y) + (if x + y < x then 2 ^ 64 else 0) = unat x + unat y"
proof (cases "unat x + unat y < 2 ^ 64")
  case True
  then have "unat (x + y) = unat x + unat y"
    by (subst unat_word_ariths) simp
  then show ?thesis by (simp add: word_less_nat_alt)
next
  case False
  moreover have "unat x < 2 ^ 64" "unat y < 2 ^ 64"
    using unat_u64_less [of x] unat_u64_less [of y] by simp_all
  ultimately have "unat (x + y) = unat x + unat y - 2 ^ 64"
    by (subst unat_word_ariths) (simp add: mod_if)
  with False \<open>unat y < 2 ^ 64\<close> show ?thesis by (simp add: word_less_nat_alt)
qed

lemma unat_plus_exact:
  fixes x y :: u64
  assumes "unat x + unat y < 2 ^ 64"
  shows "unat (x + y) = unat x + unat y"
  using assms by (subst unat_word_ariths) simp

lemma unat_push32: "unat (push_bit 32 (x :: u64)) = unat x mod 2 ^ 32 * 2 ^ 32"
proof -
  have "unat (push_bit 32 x) = unat x * 2 ^ 32 mod (2 ^ 32 * 2 ^ 32)"
    by (simp add: unat_word_ariths push_bit_eq_mult)
  then show ?thesis
    by (simp only: mult_mod_left)
qed

text \<open>The schoolbook product of two numbers of two digits each, with the carries of the middle
  and of the lower half.\<close>

lemma schoolbook:
  fixes a b c d s l ca cl :: nat
  assumes "s + ca * 2 ^ 64 = a * d + b * c" and "l + cl * 2 ^ 64 = b * d + s mod 2 ^ 32 * 2 ^ 32"
  shows "(a * 2 ^ 32 + b) * (c * 2 ^ 32 + d) =
    (a * c + s div 2 ^ 32 + ca * 2 ^ 32 + cl) * 2 ^ 64 + l"
proof -
  have "(a * 2 ^ 32 + b) * (c * 2 ^ 32 + d) = a * c * 2 ^ 64 + (a * d + b * c) * 2 ^ 32 + b * d"
    by (simp add: algebra_simps)
  moreover have "s = s div 2 ^ 32 * 2 ^ 32 + s mod 2 ^ 32"
    by (simp add: mult.commute)
  ultimately show ?thesis
    using assms by algebra
qed

lemma unat_product_less: "unat (x :: u64) * unat (y :: u64) < 2 ^ 128"
proof -
  have "unat x * unat y \<le> (2 ^ 64 - 1) * (2 ^ 64 - 1)"
    using unat_u64_less [of x] unat_u64_less [of y] by (intro mult_le_mono) simp_all
  then show ?thesis by simp
qed

lemma mul128_product:
  "\<exists>lo hi. mul128 x y = Some (lo, hi) \<and> unat x * unat y = unat hi * 2 ^ 64 + unat lo"
proof -
  let ?a = "hi_dword x" and ?b = "lo_dword x" and ?c = "hi_dword y" and ?d = "lo_dword y"
  define adbc where "adbc = ?a * ?d + ?b * ?c"
  define carry :: u64 where "carry = (if adbc < ?a * ?d then 1 else 0)"
  define lo where "lo = ?b * ?d + push_bit 32 adbc"
  define lo_carry :: u64 where "lo_carry = (if lo < ?b * ?d then 1 else 0)"
  define hi where "hi = ?a * ?c + drop_bit 32 adbc + push_bit 32 carry + lo_carry"
  note products = unat_mult_dword [OF hi_dword_less hi_dword_less, of x y]
    unat_mult_dword [OF hi_dword_less lo_dword_less, of x y]
    unat_mult_dword [OF lo_dword_less hi_dword_less, of x y]
    unat_mult_dword [OF lo_dword_less lo_dword_less, of x y]
  have adbc: "unat adbc + unat carry * 2 ^ 64 = unat ?a * unat ?d + unat ?b * unat ?c"
    using unat_add_carry [of "?a * ?d" "?b * ?c"]
    unfolding products adbc_def [symmetric] by (auto simp: carry_def)
  have lo: "unat lo + unat lo_carry * 2 ^ 64 = unat ?b * unat ?d + unat adbc mod 2 ^ 32 * 2 ^ 32"
    using unat_add_carry [of "?b * ?d" "push_bit 32 adbc"]
    unfolding products unat_push32 lo_def [symmetric] by (auto simp: lo_carry_def)
  define h where "h = unat ?a * unat ?c + unat adbc div 2 ^ 32 + unat carry * 2 ^ 32 + unat lo_carry"
  have total: "unat x * unat y = h * 2 ^ 64 + unat lo"
    using schoolbook [OF adbc lo] unfolding h_def hi_lo_dword [of x] hi_lo_dword [of y] .
  with unat_product_less [of x y] have h_less: "h < 2 ^ 64" by simp
  have "unat (drop_bit 32 adbc) = unat adbc div 2 ^ 32"
    using unat_hi_dword [of adbc] by (simp only: hi_dword_def)
  moreover have "unat (push_bit 32 carry) = unat carry * 2 ^ 32"
    unfolding unat_push32 by (simp add: carry_def)
  ultimately have hi: "unat hi = h"
    using h_less unfolding hi_def h_def by (simp add: unat_plus_exact products del: One_nat_def)
  have "?a * ?c \<le> hi"
    by (simp add: word_le_nat_alt hi h_def products)
  then have "mul128 x y = Some (lo, hi)"
    unfolding mul128_def Let_def
    by (simp add: hi_def lo_def lo_carry_def carry_def adbc_def)
  with total hi show ?thesis by blast
qed

text \<open>C27: \<open>mul128\<close> returns the two halves of the exact 128-bit product of any two 64-bit
  factors, and its final assertion never fails.\<close>

theorem mul128_correct:
  "\<exists>lo hi. mul128 x y = Some (lo, hi) \<and> unat x * unat y = unat hi * 2 ^ 64 + unat lo"
  by (rule mul128_product)

lemma or_push32:
  fixes x :: u64
  assumes "unat x < 2 ^ 32"
  shows "unat (x OR push_bit 32 (ucast (r :: u32))) = unat r * 2 ^ 32 + unat x"
proof -
  have bx: "\<not> bit x n" if "32 \<le> n" for n
  proof -
    have "take_bit 32 x = x"
      using assms by (metis take_bit_nat_eq_self_iff unsigned_take_bit_eq unsigned_word_eqI)
    then show ?thesis using that by (metis bit_take_bit_iff not_le)
  qed
  have "x OR push_bit 32 (ucast r) = x + push_bit 32 (ucast r)"
    by (rule disjunctive_add [symmetric]) (auto simp: bit_simps bx)
  moreover have "unat (push_bit 32 (ucast r :: u64)) = unat r * 2 ^ 32"
  proof -
    have "unat r < 2 ^ 32" using unsigned_less [of r] by simp
    then show ?thesis by (simp add: unat_push32 unsigned_ucast_eq take_bit_nat_eq_self)
  qed
  moreover have "unat r < 2 ^ 32" using unsigned_less [of r] by simp
  ultimately show ?thesis
    using assms by (simp add: unat_plus_exact)
qed

lemma div_with_reminder_step:
  assumes "divisor \<noteq> 0" and "unat dividend < 2 ^ 32" and "unat r < unat divisor"
  obtains q r' where "div_with_reminder dividend divisor r = Some (q, r')"
    and "unat r * 2 ^ 32 + unat dividend = unat q * unat divisor + unat r'"
    and "unat r' < unat divisor" and "unat q < 2 ^ 32"
proof -
  define t where "t = dividend OR push_bit 32 (ucast r)"
  have t: "unat t = unat r * 2 ^ 32 + unat dividend"
    unfolding t_def using assms(2) by (rule or_push32)
  have d: "unat (ucast divisor :: u64) = unat divisor"
    using unat_u32_less [of divisor] by (intro unat_ucast_fits) simp
  have pos: "0 < unat divisor" using assms(1) by (simp add: unat_gt_0)
  have q: "unat (t div ucast divisor) = unat t div unat divisor"
    by (simp add: unat_div d)
  have m: "unat (t mod ucast divisor) = unat t mod unat divisor"
    by (simp add: unat_mod d)
  have "unat t mod unat divisor < 2 ^ 32"
    using pos by (rule less_trans [OF mod_less_divisor unat_u32_less])
  then have r': "unat (ucast (t mod ucast divisor) :: u32) = unat t mod unat divisor"
    by (simp add: unsigned_ucast_eq take_bit_nat_eq_self m)
  show thesis
  proof (rule that)
    show "div_with_reminder dividend divisor r =
        Some (t div ucast divisor, ucast (t mod ucast divisor))"
      using assms(1) by (simp add: div_with_reminder_def t_def Let_def)
    show "unat r * 2 ^ 32 + unat dividend =
        unat (t div ucast divisor) * unat divisor + unat (ucast (t mod ucast divisor) :: u32)"
      unfolding q r' t [symmetric] by (simp add: mult.commute)
    show "unat (ucast (t mod ucast divisor) :: u32) < unat divisor"
      unfolding r' using pos by simp
    have "unat t < unat divisor * 2 ^ 32"
      using assms(2,3) unfolding t by simp
    then show "unat (t div ucast divisor) < 2 ^ 32"
      unfolding q by (simp add: less_mult_imp_div_less mult.commute)
  qed
qed

lemma push_or_dwords:
  fixes x y :: u64
  assumes "unat x < 2 ^ 32" and "unat y < 2 ^ 32"
  shows "unat (push_bit 32 x OR y) = unat x * 2 ^ 32 + unat y"
proof -
  have "unat (ucast x :: u32) = unat x"
    using assms(1) by (intro unat_ucast_fits) simp
  moreover from this have "ucast (ucast x :: u32) = x"
    using unat_u64_less [of x] by (intro unsigned_word_eqI) (subst unat_ucast_fits; simp)
  ultimately show ?thesis
    using or_push32 [OF assms(2), of "ucast x"] by (simp add: or.commute)
qed

text \<open>C35: for every divisor but 0, \<open>div128_32\<close> returns the exact quotient and remainder of the
  128-bit dividend.\<close>

theorem div128_32_correct:
  assumes "divisor \<noteq> 0"
  shows "\<exists>qh ql r. div128_32 hi lo divisor = Some (qh, ql, r) \<and>
    unat hi * 2 ^ 64 + unat lo = (unat qh * 2 ^ 64 + unat ql) * unat divisor + unat r \<and>
    unat r < unat divisor"
proof -
  have r0: "unat (0 :: u32) < unat divisor" using assms by (simp add: unat_gt_0)
  obtain q3 r3 where 3: "div_with_reminder (hi_dword hi) divisor 0 = Some (q3, r3)"
      "unat (0 :: u32) * 2 ^ 32 + unat (hi_dword hi) = unat q3 * unat divisor + unat r3"
      "unat r3 < unat divisor" "unat q3 < 2 ^ 32"
    by (rule div_with_reminder_step [OF assms hi_dword_less r0])
  obtain q2 r2 where 2: "div_with_reminder (lo_dword hi) divisor r3 = Some (q2, r2)"
      "unat r3 * 2 ^ 32 + unat (lo_dword hi) = unat q2 * unat divisor + unat r2"
      "unat r2 < unat divisor" "unat q2 < 2 ^ 32"
    by (rule div_with_reminder_step [OF assms lo_dword_less 3(3)])
  obtain q1 r1 where 1: "div_with_reminder (hi_dword lo) divisor r2 = Some (q1, r1)"
      "unat r2 * 2 ^ 32 + unat (hi_dword lo) = unat q1 * unat divisor + unat r1"
      "unat r1 < unat divisor" "unat q1 < 2 ^ 32"
    by (rule div_with_reminder_step [OF assms hi_dword_less 2(3)])
  obtain q0 r where 0: "div_with_reminder (lo_dword lo) divisor r1 = Some (q0, r)"
      "unat r1 * 2 ^ 32 + unat (lo_dword lo) = unat q0 * unat divisor + unat r"
      "unat r < unat divisor" "unat q0 < 2 ^ 32"
    by (rule div_with_reminder_step [OF assms lo_dword_less 1(3)])
  have run: "div128_32 hi lo divisor =
      Some (push_bit 32 q3 OR q2, push_bit 32 q1 OR q0, r)"
    by (simp add: div128_32_def 0(1) 1(1) 2(1) 3(1))
  have quot: "unat (push_bit 32 q3 OR q2) = unat q3 * 2 ^ 32 + unat q2"
      "unat (push_bit 32 q1 OR q0) = unat q1 * 2 ^ 32 + unat q0"
    by (simp_all only: push_or_dwords 0 1 2 3)
  have "unat hi * 2 ^ 64 + unat lo = ((unat q3 * 2 ^ 32 + unat q2) * 2 ^ 64 +
      (unat q1 * 2 ^ 32 + unat q0)) * unat divisor + unat r"
    using 0(2) 1(2) 2(2) 3(2) unfolding hi_lo_dword [of hi] hi_lo_dword [of lo]
    by (simp add: algebra_simps)
  with run quot 0(3) show ?thesis by (auto simp del: unat_0)
qed

theorem div128_32_correct_witness:
  "\<exists>qh ql r. div128_32 3 5 7 = Some (qh, ql, r) \<and>
    unat (3 :: u64) * 2 ^ 64 + unat (5 :: u64) = (unat qh * 2 ^ 64 + unat ql) * unat (7 :: u32) + unat r \<and>
    unat r < unat (7 :: u32)"
  by (rule div128_32_correct) simp

lemma swap_inplace_loop_nth:
  assumes "n \<le> length mem" and "k < length mem"
  shows "swap_inplace_loop f mem i n ! k = (if i \<le> k \<and> k < n then f (mem ! k) else mem ! k)
    \<and> length (swap_inplace_loop f mem i n) = length mem"
  using assms
proof (induction f mem i n rule: swap_inplace_loop.induct)
  case (1 f mem i n)
  show ?case
  proof (cases "i < n")
    case True
    with 1 show ?thesis
      by (subst (1 2) swap_inplace_loop.simps) (auto simp: nth_list_update)
  next
    case False
    then show ?thesis by (subst (1 2) swap_inplace_loop.simps) auto
  qed
qed

lemma swap32_eq_SWAP32: "swap32 x = SWAP32 x"
  unfolding swap32_def SWAP32_def Let_def
  by (rule u32_bit_eqI) (simp only: upt_32, simp add: bit_eval)

lemma swap64_eq_SWAP64: "swap64 x = SWAP64 x"
  unfolding swap64_def SWAP64_def Let_def
  by (rule u64_bit_eqI) (simp only: upt_64, simp add: bit_eval)

lemma swap32_bytes: "swap32 x = join_be (split_le 4 x :: byte list)"
  unfolding swap32_def join_be_def split_le_def Let_def
  by (rule u32_bit_eqI) (simp only: upt_32, simp add: bit_eval upt_rec)

lemma swap64_bytes: "swap64 x = join_be (split_le 8 x :: byte list)"
  unfolding swap64_def join_be_def split_le_def Let_def
  by (rule u64_bit_eqI) (simp only: upt_64, simp add: bit_eval upt_rec)

lemma swap32_swap32 [simp]: "swap32 (swap32 x) = x"
  unfolding swap32_bytes by (simp add: join_be_def split_join_le join_split_le)

lemma swap64_swap64 [simp]: "swap64 (swap64 x) = x"
  unfolding swap64_bytes by (simp add: join_be_def split_join_le join_split_le)

lemma swap_inplace_loop_all:
  assumes "n \<le> length mem"
  shows "swap_inplace_loop f mem 0 n = map f (take n mem) @ drop n mem"
proof (rule nth_equalityI)
  show "length (swap_inplace_loop f mem 0 n) = length (map f (take n mem) @ drop n mem)"
    using assms swap_inplace_loop_nth [OF assms, of 0 f 0]
    by (cases mem) (simp_all add: swap_inplace_loop.simps)
next
  fix k assume "k < length (swap_inplace_loop f mem 0 n)"
  moreover have "length (swap_inplace_loop f mem 0 n) = length mem"
    using assms swap_inplace_loop_nth [OF assms, of 0 f 0]
    by (cases mem) (simp_all add: swap_inplace_loop.simps)
  ultimately show "swap_inplace_loop f mem 0 n ! k = (map f (take n mem) @ drop n mem) ! k"
    using assms swap_inplace_loop_nth [OF assms, of k f 0] by (simp add: nth_append)
qed

lemma swap_loop_nth:
  assumes "n \<le> length dst"
  shows "length (swap_loop f dst src i n) = length dst \<and>
    (\<forall>k < length dst. swap_loop f dst src i n ! k = (if i \<le> k \<and> k < n then f (src ! k) else dst ! k))"
  using assms
proof (induction f dst src i n rule: swap_loop.induct)
  case (1 f dst src i n)
  show ?case
  proof (cases "i < n")
    case True
    with 1 show ?thesis
      by (subst (1 2) swap_loop.simps) (auto simp: nth_list_update Suc_le_eq le_less)
  next
    case False
    then show ?thesis by (subst (1 2) swap_loop.simps) auto
  qed
qed

lemma swap_loop_all:
  assumes "n \<le> length dst" and "n \<le> length src"
  shows "swap_loop f dst src 0 n = map f (take n src) @ drop n dst"
  using assms swap_loop_nth [OF assms(1), of f src 0]
  by (intro nth_equalityI) (auto simp: nth_append)

section \<open>Properties of the byte swaps\<close>

text \<open>The functions \<open>swap32\<close> and \<open>swap64\<close>, which swap in two and three steps, and
  the macros \<open>SWAP32\<close> and \<open>SWAP64\<close>, which move every byte, all reverse the bytes of their
  argument.\<close>

theorem swaps_reverse_bytes:
  "split_le 4 (swap32 x) = rev (split_le 4 x :: byte list) \<and> SWAP32 x = swap32 x \<and>
   split_le 8 (swap64 y) = rev (split_le 8 y :: byte list) \<and> SWAP64 y = swap64 y"
  unfolding swap32_eq_SWAP32 [symmetric] swap64_eq_SWAP64 [symmetric]
  by (simp add: swap32_bytes swap64_bytes join_be_def split_join_le)

text \<open>The loops over arrays swap the first \<open>n\<close> elements and leave the others; so
  \<open>memcpy_swap\<close> followed by \<open>mem_inplace_swap\<close> on the copy restores the source.\<close>

theorem swap_arrays:
  assumes "n \<le> length dst32" and "n \<le> length src32" and "m \<le> length dst64" and "m \<le> length src64"
  shows "memcpy_swap32 dst32 src32 n = map swap32 (take n src32) @ drop n dst32 \<and>
    mem_inplace_swap32 (memcpy_swap32 dst32 src32 n) n = take n src32 @ drop n dst32 \<and>
    memcpy_swap64 dst64 src64 m = map swap64 (take m src64) @ drop m dst64 \<and>
    mem_inplace_swap64 (memcpy_swap64 dst64 src64 m) m = take m src64 @ drop m dst64"
  using assms
  by (simp add: memcpy_swap32_def memcpy_swap64_def mem_inplace_swap32_def mem_inplace_swap64_def
      swap_loop_all swap_inplace_loop_all comp_def)

theorem swap_arrays_witness:
  "mem_inplace_swap32 (memcpy_swap32 [1, 2, 3] [4, 5] 2) 2 = [4, 5, 3] \<and>
    mem_inplace_swap64 (memcpy_swap64 [1, 2, 3] [4, 5, 6] 2) 2 = [4, 5, 3]"
proof -
  have l: "2 \<le> length [1, 2, 3 :: u32]" "2 \<le> length [4, 5 :: u32]"
    "2 \<le> length [1, 2, 3 :: u64]" "2 \<le> length [4, 5, 6 :: u64]"
    by simp_all
  from swap_arrays [OF l]
  have "mem_inplace_swap32 (memcpy_swap32 [1, 2, 3] [4, 5] 2) 2 = take 2 [4, 5] @ drop 2 [1, 2, 3] \<and>
      mem_inplace_swap64 (memcpy_swap64 [1, 2, 3] [4, 5, 6] 2) 2 = take 2 [4, 5, 6] @ drop 2 [1, 2, 3]"
    by blast
  then show ?thesis by simp
qed

end
