(* ===== verification/Endian.thy ===== *)
theory Endian
  imports IntUtil
begin

unbundle bit_operations_syntax

text \<open>
  The byte-order accessors of \<^verbatim>\<open>include/fingera/endian.hpp\<close> and
  \<^verbatim>\<open>include/fingera/impl/endian.ipp\<close>.  The four conversions come from
  Boost.Endian and are an argument of every definition; what their documentation promises on
  a little-endian host is the locale \<open>boost_endian\<close>, which the byte swaps of
  \<^verbatim>\<open>int-util.h\<close> satisfy at 32 and 64 bits.  A memory is a list of bytes and a
  pointer an offset into it; a float or double is accessed through the integer of its size,
  so values are words here.
\<close>

record 'a conversion =
  native_to_little :: "'a \<Rightarrow> 'a"
  native_to_big :: "'a \<Rightarrow> 'a"
  little_to_native :: "'a \<Rightarrow> 'a"
  big_to_native :: "'a \<Rightarrow> 'a"

definition to_little :: "'a conversion \<Rightarrow> 'a \<Rightarrow> 'a" where
  "to_little E value = native_to_little E value"

definition to_big :: "'a conversion \<Rightarrow> 'a \<Rightarrow> 'a" where
  "to_big E value = native_to_big E value"

definition from_little :: "'a conversion \<Rightarrow> 'a \<Rightarrow> 'a" where
  "from_little E value = little_to_native E value"

definition from_big :: "'a conversion \<Rightarrow> 'a \<Rightarrow> 'a" where
  "from_big E value = big_to_native E value"

text \<open>The pointer casts: a native access reads or writes the bytes in the host's order.\<close>

definition native_load :: "byte list \<Rightarrow> nat \<Rightarrow> 'a::len word" where
  "native_load mem p = join_le (mem_slice mem p (LENGTH('a) div 8))"

definition native_store :: "byte list \<Rightarrow> nat \<Rightarrow> 'a::len word \<Rightarrow> byte list" where
  "native_store mem p v = blit mem p (split_le (LENGTH('a) div 8) v)"

definition read_little :: "'a::len word conversion \<Rightarrow> byte list \<Rightarrow> nat \<Rightarrow> 'a word" where
  "read_little E mem p = from_little E (native_load mem p)"

definition write_little :: "'a::len word conversion \<Rightarrow> byte list \<Rightarrow> nat \<Rightarrow> 'a word \<Rightarrow> byte list" where
  "write_little E mem p v = native_store mem p (to_little E v)"

definition read_big :: "'a::len word conversion \<Rightarrow> byte list \<Rightarrow> nat \<Rightarrow> 'a word" where
  "read_big E mem p = from_big E (native_load mem p)"

definition write_big :: "'a::len word conversion \<Rightarrow> byte list \<Rightarrow> nat \<Rightarrow> 'a word \<Rightarrow> byte list" where
  "write_big E mem p v = native_store mem p (to_big E v)"

section \<open>The conversions of the host\<close>

definition host_endian32 :: "u32 conversion" where
  "host_endian32 = \<lparr>native_to_little = ident32, native_to_big = swap32,
    little_to_native = ident32, big_to_native = swap32\<rparr>"

definition host_endian64 :: "u64 conversion" where
  "host_endian64 = \<lparr>native_to_little = ident64, native_to_big = swap64,
    little_to_native = ident64, big_to_native = swap64\<rparr>"

section \<open>What Boost.Endian promises\<close>

lemma length_native_store [simp]:
  "p + LENGTH('a) div 8 \<le> length mem \<Longrightarrow> length (native_store mem p (v :: 'a::len word)) = length mem"
  by (simp add: native_store_def)

locale boost_endian =
  fixes E :: "'a::len word conversion" and n :: nat
  assumes width: "LENGTH('a) = n * 8"
    and native_to_little_bytes: "split_le n (native_to_little E v) = (split_le n v :: byte list)"
    and native_to_big_bytes: "split_le n (native_to_big E v) = (split_be n v :: byte list)"
    and little_to_native_inverse: "little_to_native E (native_to_little E v) = v"
    and big_to_native_inverse: "big_to_native E (native_to_big E v) = v"
begin

lemma width_div: "LENGTH('a) div 8 = n"
  by (simp add: width)

lemma load_store:
  assumes "p + n \<le> length mem"
  shows "native_load (native_store mem p v) p = (v :: 'a word)"
  using assms by (simp add: native_load_def native_store_def width_div join_split_le width)

lemma load_bytes:
  assumes "p + n \<le> length mem"
  shows "split_le n (native_load mem p :: 'a word) = mem_slice mem p n"
  using assms by (simp add: native_load_def width_div width split_join_le)

lemma bytes_eqI: "(split_le n v :: byte list) = split_le n w \<Longrightarrow> v = (w :: 'a word)"
  by (metis join_split_le [where 'b = 8] width len_bit0 len_num1 len_num0 mult_1 mult.commute
      numeral_Bit0 numeral_One mult_2 one_add_one)

lemma read_write_little:
  "p + n \<le> length mem \<Longrightarrow> read_little E (write_little E mem p v) p = v"
  by (simp add: read_little_def write_little_def to_little_def from_little_def load_store
      little_to_native_inverse)

lemma read_write_big:
  "p + n \<le> length mem \<Longrightarrow> read_big E (write_big E mem p v) p = v"
  by (simp add: read_big_def write_big_def to_big_def from_big_def load_store
      big_to_native_inverse)

lemma write_little_bytes: "write_little E mem p v = blit mem p (split_le n v)"
  by (simp add: write_little_def native_store_def to_little_def width_div native_to_little_bytes)

lemma write_big_bytes: "write_big E mem p v = blit mem p (split_be n v)"
  by (simp add: write_big_def native_store_def to_big_def width_div native_to_big_bytes)

lemma read_big_bytes:
  assumes "p + n \<le> length mem"
  shows "read_big E mem p = join_be (mem_slice mem p n)"
proof -
  have "native_load mem p = native_to_big E (join_be (mem_slice mem p n))"
    by (rule bytes_eqI)
      (simp add: load_bytes assms native_to_big_bytes split_join_be width)
  then show ?thesis by (simp add: read_big_def from_big_def big_to_native_inverse)
qed

lemma read_little_bytes:
  assumes "p + n \<le> length mem"
  shows "read_little E mem p = join_le (mem_slice mem p n)"
proof -
  have "native_load mem p = native_to_little E (join_le (mem_slice mem p n))"
    by (rule bytes_eqI)
      (simp add: load_bytes assms native_to_little_bytes split_join_le width)
  then show ?thesis by (simp add: read_little_def from_little_def little_to_native_inverse)
qed

end

interpretation host32: boost_endian host_endian32 4
  by unfold_locales
    (simp_all add: host_endian32_def ident32_def swap32_swap32 swap32_bytes
      join_be_def split_be_def split_join_le join_split_le)

interpretation host64: boost_endian host_endian64 8
  by unfold_locales
    (simp_all add: host_endian64_def ident64_def swap64_swap64 swap64_bytes
      join_be_def split_be_def split_join_le join_split_le)

section \<open>Properties\<close>

text \<open>C38: with conversions that behave as Boost.Endian documents, \<open>write_big\<close> puts the
  bytes of the value into memory most significant first and changes no other byte, and
  \<open>read_big\<close> at the same place returns the value.\<close>

theorem write_big_read_big:
  fixes v :: "'a::len word"
  assumes "boost_endian E n" and "p + n \<le> length mem"
  shows "read_big E (write_big E mem p v) p = v \<and>
    mem_slice (write_big E mem p v) p n = split_be n v \<and>
    (\<forall>i < length mem. i < p \<or> p + n \<le> i \<longrightarrow> write_big E mem p v ! i = mem ! i)"
  using assms boost_endian.read_write_big [of E n p mem v]
  by (auto simp: boost_endian.write_big_bytes nth_blit)

theorem write_big_read_big_witness:
  "read_big host_endian32 (write_big host_endian32 [0, 1, 2, 3, 4, 5] 1 0x11223344) 1 = 0x11223344 \<and>
    mem_slice (write_big host_endian32 [0, 1, 2, 3, 4, 5] 1 0x11223344) 1 4 = split_be 4 (0x11223344 :: u32) \<and>
    write_big host_endian32 [0, 1, 2, 3, 4, 5] 1 0x11223344 ! 5 = 5"
  using write_big_read_big [OF host32.boost_endian_axioms, of 1 "[0, 1, 2, 3, 4, 5]" "0x11223344"]
  by auto

end
