(* ===== verification/Hex.thy ===== *)
theory Hex
  imports Prelude
begin

unbundle bit_operations_syntax

text \<open>
  Hexadecimal text, \<^verbatim>\<open>include/fingera/hex.hpp\<close> and
  \<^verbatim>\<open>include/fingera/impl/hex.ipp\<close>.  Characters are bytes (their code).  An output
  iterator is a pair of operations on the state it writes to: \<open>assign\<close>, the
  \<open>*out = b\<close> of the source, and \<open>advance\<close>, its \<open>out++\<close>.  The two
  iterators the source instantiates its templates with are given below: a raw pointer (a
  memory and an offset) and \<open>std::back_inserter\<close> (the container).
\<close>

section \<open>Tables\<close>

definition HEX_STRING_LOWER :: "byte list" where
  "HEX_STRING_LOWER = map of_char ''0123456789abcdef''"

definition HEX_STRING_UPPER :: "byte list" where
  "HEX_STRING_UPPER = map of_char ''0123456789ABCDEF''"

definition HEX_MAP :: "byte list" where
  "HEX_MAP =
    replicate 48 0xff @
    [0,1,2,3,4,5,6,7,8,9,0xff,0xff,0xff,0xff,0xff,0xff,
     0xff,0xa,0xb,0xc,0xd,0xe,0xf,0xff,0xff,0xff,0xff,0xff,0xff,0xff,0xff,0xff,
     0xff,0xff,0xff,0xff,0xff,0xff,0xff,0xff,0xff,0xff,0xff,0xff,0xff,0xff,0xff,0xff,
     0xff,0xa,0xb,0xc,0xd,0xe,0xf,0xff,0xff,0xff,0xff,0xff,0xff,0xff,0xff,0xff] @
    replicate 144 0xff"

lemma HEX_STRING_LOWER_codes [code]:
  "HEX_STRING_LOWER = [48,49,50,51,52,53,54,55,56,57,97,98,99,100,101,102]"
  by code_simp

lemma HEX_STRING_UPPER_codes [code]:
  "HEX_STRING_UPPER = [48,49,50,51,52,53,54,55,56,57,65,66,67,68,69,70]"
  by code_simp

section \<open>Output iterators\<close>

record 's out_iterator =
  assign :: "byte \<Rightarrow> 's \<Rightarrow> 's"
  advance :: "'s \<Rightarrow> 's"

text \<open>A pointer into a memory, with the offset it points to.\<close>

definition pointer_out :: "(byte list \<times> nat) out_iterator" where
  "pointer_out = \<lparr>assign = (\<lambda>b (mem, p). (mem[p := b], p)), advance = (\<lambda>(mem, p). (mem, Suc p))\<rparr>"

definition back_inserter :: "byte list out_iterator" where
  "back_inserter = \<lparr>assign = (\<lambda>b c. c @ [b]), advance = (\<lambda>c. c)\<rparr>"

section \<open>Operations\<close>

definition hex_digits :: "bool \<Rightarrow> byte list" where
  "hex_digits IsLower = (if IsLower then HEX_STRING_LOWER else HEX_STRING_UPPER)"

definition put :: "'s out_iterator \<Rightarrow> byte \<Rightarrow> 's \<Rightarrow> 's" where
  "put it c s = advance it (assign it c s)"

fun to_hex_iter :: "'s out_iterator \<Rightarrow> bool \<Rightarrow> byte list \<Rightarrow> 's \<Rightarrow> 's" where
  "to_hex_iter it IsLower [] out = out"
| "to_hex_iter it IsLower (b # i) out =
    to_hex_iter it IsLower i
      (put it (hex_digits IsLower ! unat (b AND 0xF))
        (put it (hex_digits IsLower ! unat (drop_bit 4 b)) out))"

definition to_hex_buf :: "bool \<Rightarrow> byte list \<Rightarrow> byte list \<Rightarrow> nat \<Rightarrow> byte list" where
  "to_hex_buf IsLower buf str byte_size =
    fst (to_hex_iter pointer_out IsLower (take byte_size buf) (str, 0))"

definition to_hex_string :: "bool \<Rightarrow> byte list \<Rightarrow> byte list" where
  "to_hex_string IsLower c =
    (let ret = replicate (length c * 2) 0
     in fst (to_hex_iter pointer_out IsLower c (ret, 0)))"

text \<open>
  The loop of \<open>from_hex\<close>; the range it is called on has an even length, so a single
  remaining character does not occur.
\<close>

fun from_hex_loop :: "'s out_iterator \<Rightarrow> byte list \<Rightarrow> 's \<Rightarrow> bool \<times> 's" where
  "from_hex_loop it (h # l # i) out =
    (let high = HEX_MAP ! unat h in
     if high = 0xFF then (False, out) else
     let low = HEX_MAP ! unat l in
     if low = 0xFF then (False, out) else
     from_hex_loop it i (assign it (push_bit 4 high OR low) out))"
| "from_hex_loop it _ out = (True, out)"

definition from_hex_iter :: "'s out_iterator \<Rightarrow> byte list \<Rightarrow> 's \<Rightarrow> bool \<times> 's" where
  "from_hex_iter it str out =
    (if length str mod 2 \<noteq> 0 then (False, out) else from_hex_loop it str out)"

text \<open>The two overloads that write to a buffer, and the one that appends to a container.\<close>

definition from_hex_buf :: "byte list \<Rightarrow> byte list \<Rightarrow> nat \<Rightarrow> bool \<times> byte list" where
  "from_hex_buf str buf str_size =
    (let (ok, out) = from_hex_iter pointer_out (take str_size str) (buf, 0) in (ok, fst out))"

definition from_hex_string_buf :: "byte list \<Rightarrow> byte list \<Rightarrow> bool \<times> byte list" where
  "from_hex_string_buf str buf =
    (let (ok, out) = from_hex_iter pointer_out str (buf, 0) in (ok, fst out))"

definition from_hex_container :: "byte list \<Rightarrow> byte list \<Rightarrow> bool \<times> byte list" where
  "from_hex_container str c = from_hex_iter back_inserter str c"


section \<open>What the operations compute\<close>

text \<open>The two characters of a byte, and the text of a list of bytes.\<close>

definition hex_of :: "bool \<Rightarrow> byte list \<Rightarrow> byte list" where
  "hex_of L bs = concat (map (\<lambda>b. [hex_digits L ! unat (drop_bit 4 b), hex_digits L ! unat (b AND 0xF)]) bs)"

definition is_hex_digit :: "byte \<Rightarrow> bool" where
  "is_hex_digit c \<longleftrightarrow> 48 \<le> c \<and> c \<le> 57 \<or> 65 \<le> c \<and> c \<le> 70 \<or> 97 \<le> c \<and> c \<le> 102"

text \<open>The text in lower case.\<close>

definition lower :: "byte \<Rightarrow> byte" where
  "lower c = (if 65 \<le> c \<and> c \<le> 70 then c + 32 else c)"

text \<open>The byte two digits stand for.\<close>

definition hex_pair :: "byte \<Rightarrow> byte \<Rightarrow> byte" where
  "hex_pair h l = push_bit 4 (HEX_MAP ! unat h) OR HEX_MAP ! unat l"

lemma hex_of_simps [simp]:
  "hex_of L [] = []"
  "hex_of L (b # bs) =
    hex_digits L ! unat (drop_bit 4 b) # hex_digits L ! unat (b AND 0xF) # hex_of L bs"
  by (simp_all add: hex_of_def)

lemma length_hex_of [simp]: "length (hex_of L bs) = 2 * length bs"
  by (induction bs) simp_all

text \<open>The table as a function of the character.\<close>

definition hex_val :: "byte \<Rightarrow> byte" where
  "hex_val c = (if 48 \<le> c \<and> c \<le> 57 then c - 48 else if 65 \<le> c \<and> c \<le> 70 then c - 55
    else if 97 \<le> c \<and> c \<le> 102 then c - 87 else 0xFF)"

lemma HEX_MAP_eq: "HEX_MAP = map (\<lambda>n. hex_val (word_of_nat n)) [0..<256]"
  by code_simp

lemma HEX_MAP_nth: "HEX_MAP ! unat c = hex_val c"
  using unsigned_less [of c, where ?'a = nat] by (simp add: HEX_MAP_eq)

text \<open>What the tables do on one byte, as predicates to be evaluated on every byte.\<close>

definition digits_ok :: "byte \<Rightarrow> bool" where
  "digits_ok b \<longleftrightarrow>
     hex_val (HEX_STRING_LOWER ! unat (b AND 0xF)) = b AND 0xF \<and>
     hex_val (HEX_STRING_UPPER ! unat (b AND 0xF)) = b AND 0xF \<and>
     hex_val (HEX_STRING_LOWER ! unat (drop_bit 4 b)) = drop_bit 4 b \<and>
     hex_val (HEX_STRING_UPPER ! unat (drop_bit 4 b)) = drop_bit 4 b"

definition char_ok :: "byte \<Rightarrow> bool" where
  "char_ok c \<longleftrightarrow>
     (hex_val c = 0xFF) = (\<not> is_hex_digit c) \<and>
     (is_hex_digit c \<longrightarrow> hex_val c < 16 \<and> HEX_STRING_LOWER ! unat (hex_val c) = lower c)"

definition nibbles_ok :: "byte \<Rightarrow> bool" where
  "nibbles_ok b \<longleftrightarrow>
     b AND 0xF \<noteq> 0xFF \<and> drop_bit 4 b \<noteq> 0xFF \<and> push_bit 4 (drop_bit 4 b) OR b AND 0xF = b"

lemma digits_ok_all: "list_all digits_ok all_bytes"
  by code_simp

lemma char_ok_all: "list_all char_ok all_bytes"
  by code_simp

lemma nibbles_ok_all: "list_all nibbles_ok all_bytes"
  by code_simp

lemma HEX_MAP_hex_digits [simp]:
  "HEX_MAP ! unat (hex_digits L ! unat (b AND 0xF)) = b AND 0xF"
  "HEX_MAP ! unat (hex_digits L ! unat (drop_bit 4 b)) = drop_bit 4 b"
  using byte_cases [OF digits_ok_all, of b]
  by (simp_all add: hex_digits_def HEX_MAP_nth digits_ok_def)

lemma HEX_MAP_invalid [simp]: "HEX_MAP ! unat c = 0xFF \<longleftrightarrow> \<not> is_hex_digit c"
  using byte_cases [OF char_ok_all, of c] by (simp add: HEX_MAP_nth char_ok_def)

lemma lower_digit:
  "is_hex_digit c \<Longrightarrow> HEX_STRING_LOWER ! unat (HEX_MAP ! unat c) = lower c"
  "is_hex_digit c \<Longrightarrow> HEX_MAP ! unat c < 16"
  using byte_cases [OF char_ok_all, of c] by (simp_all add: HEX_MAP_nth char_ok_def)

lemma nibbles [simp]:
  "b AND 0xF \<noteq> (0xFF :: byte)" "drop_bit 4 b \<noteq> (0xFF :: byte)"
  "push_bit 4 (drop_bit 4 b) OR b AND 0xF = (b :: byte)"
  using byte_cases [OF nibbles_ok_all, of b] by (simp_all add: nibbles_ok_def)

lemma is_hex_digit_hex_digits [simp]:
  "is_hex_digit (hex_digits L ! unat (b AND 0xF :: byte))"
  "is_hex_digit (hex_digits L ! unat (drop_bit 4 b :: byte))"
  using HEX_MAP_invalid [of "hex_digits L ! unat (b AND 0xF)"]
    HEX_MAP_invalid [of "hex_digits L ! unat (drop_bit 4 b)"]
  by (simp_all del: HEX_MAP_invalid)

lemma hex_pair_digits [simp]:
  "hex_pair (hex_digits L ! unat (drop_bit 4 b)) (hex_digits L ! unat (b AND 0xF)) = b"
  by (simp add: hex_pair_def)

section \<open>The contract of an output iterator\<close>

text \<open>
  \<open>written s\<close> is what has been put so far and \<open>room s n\<close> says that \<open>n\<close>
  more elements fit.
\<close>

locale output_iterator =
  fixes it :: "'s out_iterator"
    and written :: "'s \<Rightarrow> byte list"
    and room :: "'s \<Rightarrow> nat \<Rightarrow> bool"
  assumes written_put: "room s (Suc n) \<Longrightarrow> written (put it b s) = written s @ [b]"
    and room_put: "room s (Suc n) \<Longrightarrow> room (put it b s) n"
begin

lemma written_to_hex:
  "room s (2 * length bs) \<Longrightarrow> written (to_hex_iter it L bs s) = written s @ hex_of L bs"
proof (induction bs arbitrary: s)
  case (Cons b bs)
  then have r: "room s (Suc (Suc (2 * length bs)))" by simp
  note r1 = room_put [OF r] and r2 = room_put [OF room_put [OF r]]
  show ?case
    by (simp add: Cons.IH r2 written_put [OF r] written_put [OF r1])
qed simp

end

interpretation bi: output_iterator back_inserter "\<lambda>c. c" "\<lambda>c n. True"
  by unfold_locales (simp_all add: put_def back_inserter_def)

interpretation ptr: output_iterator pointer_out "\<lambda>(mem, p). take p mem"
    "\<lambda>(mem, p) n. p + n \<le> length mem"
  by unfold_locales (auto simp: put_def pointer_out_def take_Suc_conv_app_nth)

lemma length_to_hex_ptr [simp]:
  "length (fst (to_hex_iter pointer_out L bs s)) = length (fst s)"
  by (induction bs arbitrary: s) (auto simp: put_def pointer_out_def split: prod.split)

lemma snd_to_hex_ptr [simp]:
  "snd (to_hex_iter pointer_out L bs s) = snd s + 2 * length bs"
  by (induction bs arbitrary: s) (auto simp: put_def pointer_out_def split: prod.split)

lemma to_hex_string_eq: "to_hex_string L c = hex_of L c"
proof -
  define s where "s = to_hex_iter pointer_out L c (replicate (length c * 2) 0, 0)"
  have len: "length (fst s) = 2 * length c" and pos: "snd s = 2 * length c"
    by (simp_all add: s_def)
  have "take (snd s) (fst s) = hex_of L c"
    using ptr.written_to_hex [of "(replicate (length c * 2) 0, 0)" c L]
    by (simp add: s_def case_prod_beta)
  then show ?thesis
    using len pos by (simp add: to_hex_string_def s_def)
qed

section \<open>Parsing\<close>

lemma from_hex_loop_hex_of:
  "from_hex_loop it (hex_of L bs) s = (True, fold (assign it) bs s)"
  by (induction bs arbitrary: s) (simp_all add: Let_def)

lemma fold_back_inserter [simp]: "fold (assign back_inserter) bs c = c @ bs"
  by (induction bs arbitrary: c) (simp_all add: back_inserter_def)

lemma fold_pointer_out:
  "fold (assign pointer_out) bs (mem, p) = (if bs = [] then mem else mem[p := last bs], p)"
  by (induction bs arbitrary: mem) (simp_all add: pointer_out_def)

lemma from_hex_loop_ok:
  "even (length str) \<Longrightarrow> fst (from_hex_loop it str s) \<longleftrightarrow> list_all is_hex_digit str"
  by (induction it str s rule: from_hex_loop.induct) (auto simp: Let_def)

lemma drop_and_nibbles_all:
  "list_all (\<lambda>h. list_all (\<lambda>l. drop_bit 4 (push_bit 4 (word_of_nat h) OR word_of_nat l :: byte) = word_of_nat h \<and>
     (push_bit 4 (word_of_nat h) OR word_of_nat l :: byte) AND 0xF = word_of_nat l) [0..<16]) [0..<16]"
  by code_simp

lemma drop_and_nibbles:
  assumes "h < 16" and "l < (16 :: byte)"
  shows "drop_bit 4 (push_bit 4 h OR l) = h" and "(push_bit 4 h OR l) AND 0xF = l"
proof -
  have "unat h \<in> set [0..<16]" and "unat l \<in> set [0..<16]"
    using assms by (simp_all add: word_less_nat_alt)
  with drop_and_nibbles_all show "drop_bit 4 (push_bit 4 h OR l) = h"
      and "(push_bit 4 h OR l) AND 0xF = l"
    unfolding list_all_iff by force+
qed

lemma hex_of_hex_pair:
  assumes "is_hex_digit h" and "is_hex_digit l"
  shows "hex_of True (hex_pair h l # bs) = lower h # lower l # hex_of True bs"
  using drop_and_nibbles [OF lower_digit(2) lower_digit(2), OF assms] assms
  by (simp only: hex_pair_def hex_of_simps hex_digits_def if_True lower_digit)

lemma from_hex_loop_back_inserter:
  "even (length str) \<Longrightarrow> list_all is_hex_digit str \<Longrightarrow>
    \<exists>bs. snd (from_hex_loop back_inserter str c) = c @ bs \<and> hex_of True bs = map lower str"
proof (induction back_inserter str c rule: from_hex_loop.induct)
  case (1 h l i out)
  then obtain bs where "snd (from_hex_loop back_inserter i (out @ [hex_pair h l])) = (out @ [hex_pair h l]) @ bs"
      and "hex_of True bs = map lower i"
    by (force simp: back_inserter_def hex_pair_def)
  with 1 show ?case
    by (intro exI [of _ "hex_pair h l # bs"])
      (simp add: Let_def hex_of_hex_pair del: hex_of_simps, simp add: back_inserter_def hex_pair_def)
qed auto

section \<open>Properties\<close>

text \<open>C29: parsing the text of any bytes, in either case of digits, succeeds and appends
  exactly these bytes to the container.\<close>

theorem from_hex_to_hex:
  "from_hex_container (to_hex_string IsLower bs) c = (True, c @ bs)"
  by (simp add: from_hex_container_def from_hex_iter_def to_hex_string_eq from_hex_loop_hex_of)

text \<open>C32: parsing succeeds exactly on texts of even length that consist of hexadecimal digits,
  and the bytes it appends then have the text, in lower case, as their own.\<close>

theorem from_hex_accepts:
  "fst (from_hex_container str c) = (even (length str) \<and> list_all is_hex_digit str) \<and>
    (fst (from_hex_container str c) \<longrightarrow>
      (\<exists>bs. snd (from_hex_container str c) = c @ bs \<and> to_hex_string True bs = map lower str))"
  using from_hex_loop_ok [of str back_inserter c] from_hex_loop_back_inserter [of str c]
  by (auto simp: from_hex_container_def from_hex_iter_def to_hex_string_eq even_iff_mod_2_eq_zero)

theorem from_hex_accepts_witness:
  "fst (from_hex_container (map of_char ''0aFf'') [7]) \<and>
    (\<exists>bs. snd (from_hex_container (map of_char ''0aFf'') [7]) = [7] @ bs \<and>
      to_hex_string True bs = map lower (map of_char ''0aFf''))"
proof -
  have "fst (from_hex_container (map of_char ''0aFf'') [7])"
    by code_simp
  with from_hex_accepts [of "map of_char ''0aFf''" "[7]"] show ?thesis by blast
qed

text \<open>The overloads that write to a buffer store every byte at its first position, since
  the loop never advances the output: after parsing the text of a nonempty list the buffer
  holds the last byte at its start and is otherwise untouched.\<close>

theorem from_hex_string_buf_first_byte:
  "from_hex_string_buf (to_hex_string IsLower bs) buf =
    (True, if bs = [] then buf else buf[0 := last bs])"
  by (simp add: from_hex_string_buf_def from_hex_iter_def to_hex_string_eq from_hex_loop_hex_of
      fold_pointer_out)

end
