(* ===== verification/Span.thy ===== *)
theory Span
  imports Prelude
begin

text \<open>
  \<^verbatim>\<open>include/fingera/span.hpp\<close>: a pointer and a length.  The memory the pointer
  refers to is a list, a pointer an offset into it or null, and \<open>size_t\<close> is 64 bits wide,
  so that \<open>back\<close> of an empty span indexes with \<open>0 - 1\<close> wrapped around.
  The exception \<open>std::range_error\<close> is the left side of the result; an access outside
  the memory, undefined in C++, is a second error.
\<close>

datatype span_error = range_error | bad_access

record span =
  sp_ptr :: "nat option"
  sp_len :: u64

definition span_empty :: span where
  "span_empty = \<lparr>sp_ptr = None, sp_len = 0\<rparr>"

definition span_of :: "nat \<Rightarrow> u64 \<Rightarrow> span" where
  "span_of ptr len = \<lparr>sp_ptr = Some ptr, sp_len = len\<rparr>"

text \<open>The constructors from an array and from a container: the address of the first element
  and the number of elements.\<close>

definition span_container :: "nat \<Rightarrow> 'a list \<Rightarrow> span" where
  "span_container addr v = \<lparr>sp_ptr = Some addr, sp_len = of_nat (length v)\<rparr>"

definition span_copy :: "span \<Rightarrow> span" where
  "span_copy src = \<lparr>sp_ptr = sp_ptr src, sp_len = sp_len src\<rparr>"

definition span_size :: "span \<Rightarrow> u64" where
  "span_size s = sp_len s"

definition span_max_size :: "span \<Rightarrow> u64" where
  "span_max_size s = sp_len s"

definition span_is_empty :: "span \<Rightarrow> bool" where
  "span_is_empty s \<longleftrightarrow> sp_ptr s = None \<or> sp_len s = 0"

definition span_begin :: "span \<Rightarrow> nat option" where
  "span_begin s = sp_ptr s"

definition span_end :: "span \<Rightarrow> nat option" where
  "span_end s = map_option (\<lambda>p. p + unat (sp_len s)) (sp_ptr s)"

definition span_ref :: "'a list \<Rightarrow> span \<Rightarrow> u64 \<Rightarrow> span_error + nat" where
  "span_ref mem s n =
    (if sp_len s \<le> n then Inl range_error else
     case sp_ptr s of None \<Rightarrow> Inl bad_access
     | Some p \<Rightarrow> if p + unat n < length mem then Inr (p + unat n) else Inl bad_access)"

text \<open>A reference that is read, and one that is assigned.\<close>

definition span_at :: "'a list \<Rightarrow> span \<Rightarrow> u64 \<Rightarrow> span_error + 'a" where
  "span_at mem s n = map_sum id (\<lambda>a. mem ! a) (span_ref mem s n)"

definition span_set :: "'a list \<Rightarrow> span \<Rightarrow> u64 \<Rightarrow> 'a \<Rightarrow> span_error + 'a list" where
  "span_set mem s n v = map_sum id (\<lambda>a. mem[a := v]) (span_ref mem s n)"

definition span_front :: "'a list \<Rightarrow> span \<Rightarrow> span_error + 'a" where
  "span_front mem s = span_at mem s 0"

definition span_back :: "'a list \<Rightarrow> span \<Rightarrow> span_error + 'a" where
  "span_back mem s = span_at mem s (sp_len s - 1)"

section \<open>Properties\<close>

text \<open>The span refers to a part of the memory.\<close>

definition span_valid :: "'a list \<Rightarrow> span \<Rightarrow> bool" where
  "span_valid mem s \<longleftrightarrow>
    (case sp_ptr s of None \<Rightarrow> sp_len s = 0 | Some p \<Rightarrow> p + unat (sp_len s) \<le> length mem)"

definition span_contents :: "'a list \<Rightarrow> span \<Rightarrow> 'a list" where
  "span_contents mem s = (case sp_ptr s of None \<Rightarrow> [] | Some p \<Rightarrow> mem_slice mem p (unat (sp_len s)))"

lemma span_ref_valid:
  assumes "span_valid mem s"
  shows "span_ref mem s n =
    (if n < sp_len s then Inr (the (sp_ptr s) + unat n) else Inl range_error)"
  using assms
  by (auto simp: span_ref_def span_valid_def word_less_nat_alt word_le_nat_alt split: option.splits)

lemma length_span_contents [simp]:
  "span_valid mem s \<Longrightarrow> length (span_contents mem s) = unat (sp_len s)"
  by (auto simp: span_contents_def span_valid_def split: option.splits)

lemma span_at_valid:
  assumes "span_valid mem s"
  shows "span_at mem s n =
    (if n < sp_len s then Inr (span_contents mem s ! unat n) else Inl range_error)"
  using assms
  by (auto simp: span_at_def span_ref_valid span_contents_def span_valid_def word_less_nat_alt
      split: option.splits)

text \<open>C40: on a span inside its memory every access either returns the element of the contents
  the index names or throws; in particular \<open>front\<close> and \<open>back\<close> of an empty
  span throw (the index of \<open>back\<close> wraps around), and \<open>back\<close> of a nonempty one is its
  last element.\<close>

theorem span_access:
  assumes "span_valid mem s"
  shows "span_at mem s n =
      (if unat n < length (span_contents mem s) then Inr (span_contents mem s ! unat n)
       else Inl range_error) \<and>
    span_front mem s =
      (if span_contents mem s = [] then Inl range_error else Inr (hd (span_contents mem s))) \<and>
    span_back mem s =
      (if span_contents mem s = [] then Inl range_error else Inr (last (span_contents mem s)))"
proof -
  have len: "length (span_contents mem s) = unat (sp_len s)"
    using assms by simp
  then have nil: "span_contents mem s = [] \<longleftrightarrow> sp_len s = 0"
    by (metis length_0_conv unsigned_eq_0_iff)
  have pred: "sp_len s - 1 < sp_len s \<and> unat (sp_len s - 1) = unat (sp_len s) - 1"
    if "sp_len s \<noteq> 0"
    using that by (simp add: unat_minus_one word_less_nat_alt unat_gt_0)
  show ?thesis
    using pred
    by (auto simp: span_front_def span_back_def span_at_valid [OF assms] len nil hd_conv_nth
        last_conv_nth word_less_nat_alt unat_gt_0)
qed

theorem span_access_witness:
  "span_at [10, 11, 12, 13 :: byte] (span_of 1 2) 1 = Inr 12 \<and>
    span_back [10, 11, 12, 13 :: byte] (span_of 1 2) = Inr 12 \<and>
    span_back [10 :: byte] span_empty = Inl range_error"
proof -
  have "span_valid [10, 11, 12, 13 :: byte] (span_of 1 2)" and "span_valid [10 :: byte] span_empty"
    by code_simp+
  note this [THEN span_access]
  moreover have "span_contents [10, 11, 12, 13 :: byte] (span_of 1 2) = [11, 12]"
      and "span_contents [10 :: byte] span_empty = []"
    by code_simp+
  ultimately show ?thesis by simp
qed

text \<open>An assignment through a span changes exactly the element it names.\<close>

theorem span_set_contents:
  assumes "span_valid mem s" and "span_set mem s n v = Inr mem'"
  shows "span_contents mem' s = (span_contents mem s)[unat n := v] \<and> span_valid mem' s"
proof -
  have n: "n < sp_len s" and m: "mem' = mem[the (sp_ptr s) + unat n := v]"
    using assms by (auto simp: span_set_def span_ref_valid split: if_splits)
  then have "sp_ptr s \<noteq> None"
    using assms(1) by (auto simp: span_valid_def split: option.splits)
  then obtain p where p: "sp_ptr s = Some p" by blast
  then have le: "p + unat (sp_len s) \<le> length mem"
    using assms(1) by (simp add: span_valid_def)
  have "mem_slice mem' p (unat (sp_len s)) = (mem_slice mem p (unat (sp_len s)))[unat n := v]"
    using le n by (intro nth_equalityI) (auto simp: m p nth_list_update word_less_nat_alt)
  then show ?thesis
    using le by (simp add: span_contents_def span_valid_def p m)
qed

theorem span_set_contents_witness:
  "\<exists>mem'. span_set [10, 11, 12, 13 :: byte] (span_of 1 2) 1 99 = Inr mem' \<and>
    span_contents mem' (span_of 1 2) = [11, 99]"
proof -
  have "span_valid [10, 11, 12, 13 :: byte] (span_of 1 2)"
    and "span_set [10, 11, 12, 13 :: byte] (span_of 1 2) 1 99 = Inr [10, 11, 99, 13]"
    and "(span_contents [10, 11, 12, 13 :: byte] (span_of 1 2))[unat (1 :: u64) := 99] = [11, 99]"
    by code_simp+
  with span_set_contents [of "[10, 11, 12, 13 :: byte]" "span_of 1 2" 1 99] show ?thesis
    by fastforce
qed

end
