(* ===== verification/Multiway.thy ===== *)
theory Multiway
  imports Endian
begin

unbundle bit_operations_syntax

text \<open>
  Registers of several integers, \<^verbatim>\<open>include/fingera/multiway_integer.hpp\<close> and
  \<^verbatim>\<open>include/fingera/instrinsic/mi_mmx.hpp\<close>, \<^verbatim>\<open>mi_sse2.hpp\<close>
  and \<^verbatim>\<open>mi_avx2.hpp\<close>.  The static members of such a class are what
  the template parameter \<open>Instr\<close> of the hashes stands for; they are a record \<open>instr\<close>
  here.  What a hash relies on is the locale \<open>multiway_instr\<close>: every operation acts on
  each lane alone, and lane \<open>i\<close> is loaded from and saved to the \<open>i\<close>-th block.
  The compiler's vector intrinsics are a record too, and the locale \<open>simd\<close> states what
  the manual promises of them.
\<close>

record ('t, 'w) instr =
  way :: nat
  op_broadcast :: "'w \<Rightarrow> 't"
  op_add :: "'t \<Rightarrow> 't \<Rightarrow> 't"
  op_xor :: "'t \<Rightarrow> 't \<Rightarrow> 't"
  op_or :: "'t \<Rightarrow> 't \<Rightarrow> 't"
  op_and :: "'t \<Rightarrow> 't \<Rightarrow> 't"
  op_andnot :: "'t \<Rightarrow> 't \<Rightarrow> 't"
  op_shr :: "nat \<Rightarrow> 't \<Rightarrow> 't"
  op_shl :: "nat \<Rightarrow> 't \<Rightarrow> 't"
  op_rol :: "nat \<Rightarrow> 't \<Rightarrow> 't"
  load :: "bool \<Rightarrow> byte list \<Rightarrow> nat \<Rightarrow> nat \<Rightarrow> nat \<Rightarrow> 't"
  save :: "bool \<Rightarrow> 't \<Rightarrow> byte list \<Rightarrow> nat \<Rightarrow> nat \<Rightarrow> nat \<Rightarrow> byte list"

text \<open>
  \<open>load le mem p blk_size offset\<close> and \<open>save le value mem p blk_size offset\<close> have the
  pointer argument of the source split into the memory and the offset \<open>p\<close> in it.
  The loops over the lanes of a register run on the list of its lanes.
\<close>

definition read_mem :: "'a::len word conversion \<Rightarrow> bool \<Rightarrow> byte list \<Rightarrow> nat \<Rightarrow> 'a word" where
  "read_mem E little mem p = (if little then read_little E mem p else read_big E mem p)"

definition write_mem :: "'a::len word conversion \<Rightarrow> bool \<Rightarrow> byte list \<Rightarrow> nat \<Rightarrow> 'a word \<Rightarrow> byte list" where
  "write_mem E little mem p v = (if little then write_little E mem p v else write_big E mem p v)"

section \<open>multiway_integer\<close>

text \<open>
  \<open>'v\<close> is \<open>ImplType\<close> and \<open>'a\<close> is \<open>TargetType\<close>; \<open>mi_stub\<close> is the
  view of the union as an array.
\<close>

definition mi_way :: "'v::len itself \<Rightarrow> 'a::len itself \<Rightarrow> nat" where
  "mi_way V T = LENGTH('v) div LENGTH('a)"

definition mi_stub :: "'v::len word \<Rightarrow> 'a::len word list" where
  "mi_stub x = split_le (mi_way TYPE('v) TYPE('a)) x"

definition mi_op_broadcast :: "'a::len word \<Rightarrow> 'v::len word" where
  "mi_op_broadcast value = join_le (map (\<lambda>i. value) [0..<mi_way TYPE('v) TYPE('a)])"

definition mi_op_add :: "'a::len itself \<Rightarrow> 'v::len word \<Rightarrow> 'v word \<Rightarrow> 'v word" where
  "mi_op_add T x y =
    join_le (update_loop (mi_way TYPE('v) TYPE('a)) (\<lambda>i s. s + (mi_stub y ! i :: 'a word)) (mi_stub x))"

definition mi_op_xor :: "'v::len word \<Rightarrow> 'v word \<Rightarrow> 'v word" where
  "mi_op_xor x y = x XOR y"

definition mi_op_or :: "'v::len word \<Rightarrow> 'v word \<Rightarrow> 'v word" where
  "mi_op_or x y = x OR y"

definition mi_op_and :: "'v::len word \<Rightarrow> 'v word \<Rightarrow> 'v word" where
  "mi_op_and x y = x AND y"

definition mi_op_andnot :: "'v::len word \<Rightarrow> 'v word \<Rightarrow> 'v word" where
  "mi_op_andnot x y = NOT x AND y"

definition mi_op_shr :: "'a::len itself \<Rightarrow> nat \<Rightarrow> 'v::len word \<Rightarrow> 'v word" where
  "mi_op_shr T N x =
    join_le (update_loop (mi_way TYPE('v) TYPE('a)) (\<lambda>i s. drop_bit N (s :: 'a word)) (mi_stub x))"

definition mi_op_shl :: "'a::len itself \<Rightarrow> nat \<Rightarrow> 'v::len word \<Rightarrow> 'v word" where
  "mi_op_shl T N x =
    join_le (update_loop (mi_way TYPE('v) TYPE('a)) (\<lambda>i s. push_bit N (s :: 'a word)) (mi_stub x))"

definition mi_op_rol :: "'a::len itself \<Rightarrow> nat \<Rightarrow> 'v::len word \<Rightarrow> 'v word" where
  "mi_op_rol T N x =
    join_le (update_loop (mi_way TYPE('v) TYPE('a))
      (\<lambda>i v. push_bit N v OR drop_bit (LENGTH('a) - N) (v :: 'a word)) (mi_stub x))"

definition mi_load :: "'a::len word conversion \<Rightarrow> bool \<Rightarrow> byte list \<Rightarrow> nat \<Rightarrow> nat \<Rightarrow> nat \<Rightarrow> 'v::len word" where
  "mi_load E le mem p blk_size offset =
    (let ptr = p + offset
     in join_le (map (\<lambda>i. read_mem E le mem (ptr + blk_size * i)) [0..<mi_way TYPE('v) TYPE('a)]))"

definition mi_save :: "'a::len word conversion \<Rightarrow> bool \<Rightarrow> 'v::len word \<Rightarrow> byte list \<Rightarrow> nat \<Rightarrow> nat \<Rightarrow> nat \<Rightarrow> byte list" where
  "mi_save E le value mem p blk_size offset =
    (let ptr = p + offset
     in fold (\<lambda>i mem. write_mem E le mem (ptr + blk_size * i) (mi_stub value ! i))
          [0..<mi_way TYPE('v) TYPE('a)] mem)"

definition multiway_integer :: "'a::len word conversion \<Rightarrow> ('v::len word, 'a word) instr" where
  "multiway_integer E =
    \<lparr>way = mi_way TYPE('v) TYPE('a), op_broadcast = mi_op_broadcast,
     op_add = mi_op_add TYPE('a), op_xor = mi_op_xor, op_or = mi_op_or, op_and = mi_op_and,
     op_andnot = mi_op_andnot, op_shr = mi_op_shr TYPE('a), op_shl = mi_op_shl TYPE('a),
     op_rol = mi_op_rol TYPE('a), load = mi_load E, save = mi_save E\<rparr>"

section \<open>multiway_integer_slow\<close>

text \<open>The register is \<open>data_wrap\<close>, the array \<open>stub\<close> of \<open>WayCount\<close> elements.\<close>

definition slow_broadcast :: "nat \<Rightarrow> 'w \<Rightarrow> 'w list" where
  "slow_broadcast WayCount value = map (\<lambda>i. value) [0..<WayCount]"

definition slow_add :: "nat \<Rightarrow> 'a::len word list \<Rightarrow> 'a word list \<Rightarrow> 'a word list" where
  "slow_add WayCount x y = update_loop WayCount (\<lambda>i s. s + y ! i) x"

definition slow_xor :: "nat \<Rightarrow> 'a::len word list \<Rightarrow> 'a word list \<Rightarrow> 'a word list" where
  "slow_xor WayCount x y = update_loop WayCount (\<lambda>i s. s XOR y ! i) x"

definition slow_or :: "nat \<Rightarrow> 'a::len word list \<Rightarrow> 'a word list \<Rightarrow> 'a word list" where
  "slow_or WayCount x y = update_loop WayCount (\<lambda>i s. s OR y ! i) x"

definition slow_and :: "nat \<Rightarrow> 'a::len word list \<Rightarrow> 'a word list \<Rightarrow> 'a word list" where
  "slow_and WayCount x y = update_loop WayCount (\<lambda>i s. s AND y ! i) x"

definition slow_not :: "nat \<Rightarrow> 'a::len word list \<Rightarrow> 'a word list" where
  "slow_not WayCount x = update_loop WayCount (\<lambda>i s. NOT s) x"

definition slow_andnot :: "nat \<Rightarrow> 'a::len word list \<Rightarrow> 'a word list \<Rightarrow> 'a word list" where
  "slow_andnot WayCount x y = slow_and WayCount (slow_not WayCount x) y"

definition slow_shr :: "nat \<Rightarrow> nat \<Rightarrow> 'a::len word list \<Rightarrow> 'a word list" where
  "slow_shr WayCount cnt x = update_loop WayCount (\<lambda>i s. drop_bit cnt s) x"

definition slow_shl :: "nat \<Rightarrow> nat \<Rightarrow> 'a::len word list \<Rightarrow> 'a word list" where
  "slow_shl WayCount cnt x = update_loop WayCount (\<lambda>i s. push_bit cnt s) x"

definition slow_rol :: "nat \<Rightarrow> nat \<Rightarrow> 'a::len word list \<Rightarrow> 'a word list" where
  "slow_rol WayCount N x =
    (let right = slow_shr WayCount (LENGTH('a) - N) x;
         left = slow_shl WayCount N x
     in slow_or WayCount left right)"

definition slow_load :: "nat \<Rightarrow> 'a::len word conversion \<Rightarrow> bool \<Rightarrow> byte list \<Rightarrow> nat \<Rightarrow> nat \<Rightarrow> nat \<Rightarrow> 'a word list" where
  "slow_load WayCount E le mem p blk_size offset =
    (let ptr = p + offset in map (\<lambda>i. read_mem E le mem (ptr + blk_size * i)) [0..<WayCount])"

definition slow_save :: "nat \<Rightarrow> 'a::len word conversion \<Rightarrow> bool \<Rightarrow> 'a word list \<Rightarrow> byte list \<Rightarrow> nat \<Rightarrow> nat \<Rightarrow> nat \<Rightarrow> byte list" where
  "slow_save WayCount E le value mem p blk_size offset =
    (let ptr = p + offset
     in fold (\<lambda>i mem. write_mem E le mem (ptr + blk_size * i) (value ! i)) [0..<WayCount] mem)"

definition multiway_integer_slow :: "nat \<Rightarrow> 'a::len word conversion \<Rightarrow> ('a word list, 'a word) instr" where
  "multiway_integer_slow n E =
    \<lparr>way = n, op_broadcast = slow_broadcast n, op_add = slow_add n, op_xor = slow_xor n,
     op_or = slow_or n, op_and = slow_and n, op_andnot = slow_andnot n, op_shr = slow_shr n,
     op_shl = slow_shl n, op_rol = slow_rol n, load = slow_load n E, save = slow_save n E\<rparr>"

section \<open>The vector units\<close>

text \<open>
  The intrinsics: \<open>v_set\<close> takes its arguments in the order of the call, \<open>v_store\<close> returns the
  lanes in the order of the memory it writes to (which is also the numbering of the extract
  intrinsic).
\<close>

record ('v, 'w) intrinsics =
  v_set1 :: "'w \<Rightarrow> 'v"
  v_add :: "'v \<Rightarrow> 'v \<Rightarrow> 'v"
  v_xor :: "'v \<Rightarrow> 'v \<Rightarrow> 'v"
  v_or :: "'v \<Rightarrow> 'v \<Rightarrow> 'v"
  v_and :: "'v \<Rightarrow> 'v \<Rightarrow> 'v"
  v_andnot :: "'v \<Rightarrow> 'v \<Rightarrow> 'v"
  v_srli :: "'v \<Rightarrow> nat \<Rightarrow> 'v"
  v_slli :: "'v \<Rightarrow> nat \<Rightarrow> 'v"
  v_set :: "'w list \<Rightarrow> 'v"
  v_store :: "'v \<Rightarrow> 'w list"

definition vec_rol :: "('v, u32) intrinsics \<Rightarrow> nat \<Rightarrow> 'v \<Rightarrow> 'v" where
  "vec_rol X N x = v_or X (v_slli X x N) (v_srli X x (32 - N))"

definition vec_load :: "nat list \<Rightarrow> ('v, u32) intrinsics \<Rightarrow> u32 conversion \<Rightarrow> bool \<Rightarrow> byte list \<Rightarrow> nat \<Rightarrow> nat \<Rightarrow> nat \<Rightarrow> 'v" where
  "vec_load is X E le mem p blk_size offset =
    (let ptr = p + offset in v_set X (map (\<lambda>i. read_mem E le mem (ptr + blk_size * i)) is))"

definition vec_save :: "nat list \<Rightarrow> nat \<Rightarrow> ('v, u32) intrinsics \<Rightarrow> u32 conversion \<Rightarrow> bool \<Rightarrow> 'v \<Rightarrow> byte list \<Rightarrow> nat \<Rightarrow> nat \<Rightarrow> nat \<Rightarrow> byte list" where
  "vec_save is last_lane X E le value mem p blk_size offset =
    (let ptr = p + offset
     in fold (\<lambda>i mem. write_mem E le mem (ptr + blk_size * i) (v_store X value ! (last_lane - i))) is mem)"

definition mi_mmx :: "('v, u32) intrinsics \<Rightarrow> u32 conversion \<Rightarrow> ('v, u32) instr" where
  "mi_mmx X E =
    \<lparr>way = 2, op_broadcast = v_set1 X, op_add = v_add X, op_xor = v_xor X, op_or = v_or X,
     op_and = v_and X, op_andnot = v_andnot X, op_shr = (\<lambda>N x. v_srli X x N),
     op_shl = (\<lambda>N x. v_slli X x N), op_rol = vec_rol X,
     load = vec_load [0, 1] X E, save = vec_save [0, 1] 1 X E\<rparr>"

definition mi_sse2 :: "('v, u32) intrinsics \<Rightarrow> u32 conversion \<Rightarrow> ('v, u32) instr" where
  "mi_sse2 X E =
    \<lparr>way = 4, op_broadcast = v_set1 X, op_add = v_add X, op_xor = v_xor X, op_or = v_or X,
     op_and = v_and X, op_andnot = v_andnot X, op_shr = (\<lambda>N x. v_srli X x N),
     op_shl = (\<lambda>N x. v_slli X x N), op_rol = vec_rol X,
     load = vec_load [0, 1, 2, 3] X E, save = vec_save [0, 1, 2, 3] 3 X E\<rparr>"

definition mi_avx2 :: "('v, u32) intrinsics \<Rightarrow> u32 conversion \<Rightarrow> ('v, u32) instr" where
  "mi_avx2 X E =
    \<lparr>way = 8, op_broadcast = v_set1 X, op_add = v_add X, op_xor = v_xor X, op_or = v_or X,
     op_and = v_and X, op_andnot = v_andnot X, op_shr = (\<lambda>N x. v_srli X x N),
     op_shl = (\<lambda>N x. v_slli X x N), op_rol = vec_rol X,
     load = vec_load [0, 1, 2, 3, 4, 5, 6, 7] X E, save = vec_save [0, 1, 2, 3, 4, 5, 6, 7] 7 X E\<rparr>"

section \<open>The contract of a register class\<close>

text \<open>
  \<open>lane x i\<close> is the integer of block \<open>i\<close>; \<open>ok\<close> holds of the registers the
  operations produce (the array of \<open>data_wrap\<close> has its length).  \<open>n\<close> is the number of bytes
  of a lane.
\<close>

definition bytes_to_word :: "bool \<Rightarrow> byte list \<Rightarrow> 'a::len word" where
  "bytes_to_word little bs = (if little then join_le bs else join_be bs)"

definition word_to_bytes :: "bool \<Rightarrow> nat \<Rightarrow> 'a::len word \<Rightarrow> byte list" where
  "word_to_bytes little n w = (if little then split_le n w else split_be n w)"

lemma length_word_to_bytes [simp]: "length (word_to_bytes le n w) = n"
  by (simp add: word_to_bytes_def)

locale multiway_instr =
  fixes I :: "('t, 'a::len word) instr"
    and n :: nat
    and lane :: "'t \<Rightarrow> nat \<Rightarrow> 'a word"
    and ok :: "'t \<Rightarrow> bool"
  assumes ok_broadcast [simp]: "ok (op_broadcast I v)"
    and ok_add [simp]: "ok x \<Longrightarrow> ok y \<Longrightarrow> ok (op_add I x y)"
    and ok_xor [simp]: "ok x \<Longrightarrow> ok y \<Longrightarrow> ok (op_xor I x y)"
    and ok_or [simp]: "ok x \<Longrightarrow> ok y \<Longrightarrow> ok (op_or I x y)"
    and ok_and [simp]: "ok x \<Longrightarrow> ok y \<Longrightarrow> ok (op_and I x y)"
    and ok_andnot [simp]: "ok x \<Longrightarrow> ok y \<Longrightarrow> ok (op_andnot I x y)"
    and ok_shr [simp]: "ok x \<Longrightarrow> ok (op_shr I N x)"
    and ok_shl [simp]: "ok x \<Longrightarrow> ok (op_shl I N x)"
    and ok_rol [simp]: "ok x \<Longrightarrow> ok (op_rol I N x)"
    and ok_load [simp]: "ok (load I le mem p blk off)"
    and lane_broadcast [simp]: "i < way I \<Longrightarrow> lane (op_broadcast I v) i = v"
    and lane_add [simp]:
      "ok x \<Longrightarrow> ok y \<Longrightarrow> i < way I \<Longrightarrow> lane (op_add I x y) i = lane x i + lane y i"
    and lane_xor [simp]:
      "ok x \<Longrightarrow> ok y \<Longrightarrow> i < way I \<Longrightarrow> lane (op_xor I x y) i = lane x i XOR lane y i"
    and lane_or [simp]:
      "ok x \<Longrightarrow> ok y \<Longrightarrow> i < way I \<Longrightarrow> lane (op_or I x y) i = lane x i OR lane y i"
    and lane_and [simp]:
      "ok x \<Longrightarrow> ok y \<Longrightarrow> i < way I \<Longrightarrow> lane (op_and I x y) i = lane x i AND lane y i"
    and lane_andnot [simp]:
      "ok x \<Longrightarrow> ok y \<Longrightarrow> i < way I \<Longrightarrow> lane (op_andnot I x y) i = NOT (lane x i) AND lane y i"
    and lane_shr [simp]:
      "ok x \<Longrightarrow> N < LENGTH('a) \<Longrightarrow> i < way I \<Longrightarrow> lane (op_shr I N x) i = drop_bit N (lane x i)"
    and lane_shl [simp]:
      "ok x \<Longrightarrow> N < LENGTH('a) \<Longrightarrow> i < way I \<Longrightarrow> lane (op_shl I N x) i = push_bit N (lane x i)"
    and lane_rol [simp]:
      "ok x \<Longrightarrow> 0 < N \<Longrightarrow> N < LENGTH('a) \<Longrightarrow> i < way I \<Longrightarrow>
        lane (op_rol I N x) i = word_rotl N (lane x i)"
    and lane_load:
      "i < way I \<Longrightarrow> p + off + blk * i + n \<le> length mem \<Longrightarrow>
        lane (load I le mem p blk off) i = bytes_to_word le (mem_slice mem (p + off + blk * i) n)"
    and save_lanes:
      "ok x \<Longrightarrow> save I le x mem p blk off =
        fold (\<lambda>i mem. blit mem (p + off + blk * i) (word_to_bytes le n (lane x i))) [0..<way I] mem"

section \<open>Both classes keep it\<close>

lemma read_mem_bytes:
  assumes "boost_endian E n" and "p + n \<le> length mem"
  shows "read_mem E le mem p = bytes_to_word le (mem_slice mem p n)"
  using assms
  by (simp add: read_mem_def bytes_to_word_def boost_endian.read_big_bytes boost_endian.read_little_bytes)

lemma write_mem_bytes:
  assumes "boost_endian E n"
  shows "write_mem E le mem p v = blit mem p (word_to_bytes le n v)"
  using assms
  by (simp add: write_mem_def word_to_bytes_def boost_endian.write_big_bytes boost_endian.write_little_bytes)

lemma mi_stub_join [simp]:
  assumes "length xs = mi_way TYPE('v) TYPE('a)"
  shows "mi_stub (join_le (xs :: 'a::len word list) :: 'v::len word) = xs"
  using assms by (simp add: mi_stub_def split_join_le mi_way_def)

lemma length_mi_stub [simp]:
  "length (mi_stub (x :: 'v::len word) :: 'a::len word list) = mi_way TYPE('v) TYPE('a)"
  by (simp add: mi_stub_def)

lemma mi_way_bound:
  assumes "i < mi_way TYPE('v::len) TYPE('a::len)" and "k < LENGTH('a)"
  shows "LENGTH('a) * i + k < LENGTH('v)"
proof -
  have "LENGTH('a) * i + k < LENGTH('a) * Suc i" using assms(2) by simp
  also have "\<dots> \<le> LENGTH('a) * mi_way TYPE('v) TYPE('a)" using assms(1) by (intro mult_le_mono2) simp
  also have "\<dots> \<le> LENGTH('v)" by (simp add: mi_way_def)
  finally show ?thesis .
qed

lemma mi_stub_bits:
  assumes "i < mi_way TYPE('v::len) TYPE('a::len)"
  shows "(mi_stub (x XOR y :: 'v word) ! i :: 'a word) = mi_stub x ! i XOR mi_stub y ! i"
    and "(mi_stub (x OR y :: 'v word) ! i :: 'a word) = mi_stub x ! i OR mi_stub y ! i"
    and "(mi_stub (x AND y :: 'v word) ! i :: 'a word) = mi_stub x ! i AND mi_stub y ! i"
    and "(mi_stub (NOT x :: 'v word) ! i :: 'a word) = NOT (mi_stub x ! i)"
  using assms by (auto intro!: bit_word_eqI simp: mi_stub_def bit_simps mi_way_bound)

lemma multiway_integer_instr:
  fixes E :: "'a::len word conversion"
  assumes "boost_endian E n"
  shows "multiway_instr (multiway_integer E :: ('v::len word, 'a word) instr) n
    (\<lambda>x i. mi_stub x ! i) (\<lambda>x. True)"
  by unfold_locales
    (simp_all add: multiway_integer_def mi_op_broadcast_def mi_op_add_def mi_op_xor_def
      mi_op_or_def mi_op_and_def mi_op_andnot_def mi_op_shr_def mi_op_shl_def mi_op_rol_def
      mi_load_def mi_save_def update_loop_eq mi_stub_bits word_rotl_shifts
      read_mem_bytes [OF assms] write_mem_bytes [OF assms])

lemma multiway_integer_slow_instr:
  fixes E :: "'a::len word conversion"
  assumes "boost_endian E n"
  shows "multiway_instr (multiway_integer_slow w E) n (\<lambda>x i. x ! i) (\<lambda>x. length x = w)"
  by unfold_locales
    (simp_all add: multiway_integer_slow_def slow_broadcast_def slow_add_def slow_xor_def
      slow_or_def slow_and_def slow_not_def slow_andnot_def slow_shr_def slow_shl_def slow_rol_def
      slow_load_def slow_save_def update_loop_eq Let_def word_rotl_shifts or.commute
      read_mem_bytes [OF assms] write_mem_bytes [OF assms])

interpretation mi: multiway_instr "multiway_integer host_endian32 :: ('v::len word, u32) instr" 4
    "\<lambda>x i. mi_stub x ! i" "\<lambda>x. True"
  by (rule multiway_integer_instr [OF host32.boost_endian_axioms])

interpretation slow: multiway_instr "multiway_integer_slow w host_endian32" 4
    "\<lambda>x i. x ! i" "\<lambda>x. length x = w" for w
  by (rule multiway_integer_slow_instr [OF host32.boost_endian_axioms])

section \<open>What the vector intrinsics promise\<close>

locale simd =
  fixes X :: "('v, u32) intrinsics" and w :: nat
  assumes lanes: "length (v_store X x) = w"
    and v_set1: "v_store X (v_set1 X v) = replicate w v"
    and v_add: "v_store X (v_add X x y) = map2 (+) (v_store X x) (v_store X y)"
    and v_xor: "v_store X (v_xor X x y) = map2 (XOR) (v_store X x) (v_store X y)"
    and v_or: "v_store X (v_or X x y) = map2 (OR) (v_store X x) (v_store X y)"
    and v_and: "v_store X (v_and X x y) = map2 (AND) (v_store X x) (v_store X y)"
    and v_andnot: "v_store X (v_andnot X x y) = map2 (\<lambda>a b. NOT a AND b) (v_store X x) (v_store X y)"
    and v_srli: "N < 32 \<Longrightarrow> v_store X (v_srli X x N) = map (drop_bit N) (v_store X x)"
    and v_slli: "N < 32 \<Longrightarrow> v_store X (v_slli X x N) = map (push_bit N) (v_store X x)"
    and v_set: "length ws = w \<Longrightarrow> v_store X (v_set X ws) = rev ws"
begin

text \<open>The arguments of the set intrinsic come highest lane first, so lane \<open>i\<close> of the contract is
  lane \<open>w - 1 - i\<close> of the register.\<close>

definition vec_instr :: "u32 conversion \<Rightarrow> ('v, u32) instr" where
  "vec_instr E =
    \<lparr>way = w, op_broadcast = v_set1 X, op_add = v_add X, op_xor = v_xor X, op_or = v_or X,
     op_and = v_and X, op_andnot = v_andnot X, op_shr = (\<lambda>N x. v_srli X x N),
     op_shl = (\<lambda>N x. v_slli X x N), op_rol = vec_rol X,
     load = vec_load [0..<w] X E, save = vec_save [0..<w] (w - 1) X E\<rparr>"

lemma vec_instr_contract:
  assumes "boost_endian E 4"
  shows "multiway_instr (vec_instr E) 4 (\<lambda>x i. v_store X x ! (w - 1 - i)) (\<lambda>x. True)"
  by unfold_locales
    (simp_all add: vec_instr_def v_set1 v_add v_xor v_or v_and v_andnot v_srli v_slli v_set lanes
      vec_rol_def vec_load_def vec_save_def word_rotl_shifts [of _ "_ :: u32", simplified] rev_nth
      read_mem_bytes [OF assms] write_mem_bytes [OF assms])

end

text \<open>The three units are this one at 2, 4 and 8 lanes.\<close>

lemma mi_units:
  "simd X 2 \<Longrightarrow> mi_mmx X E = simd.vec_instr X 2 E"
  "simd X 4 \<Longrightarrow> mi_sse2 X E = simd.vec_instr X 4 E"
  "simd X 8 \<Longrightarrow> mi_avx2 X E = simd.vec_instr X 8 E"
  by (simp_all add: mi_mmx_def mi_sse2_def mi_avx2_def simd.vec_instr_def upt_rec eval_nat_numeral)

text \<open>A vector register as a word, with the lanes numbered from the least significant.\<close>

definition register_intrinsics :: "('v::len word, u32) intrinsics" where
  "register_intrinsics =
    \<lparr>v_set1 = mi_op_broadcast, v_add = mi_op_add TYPE(32), v_xor = (XOR), v_or = (OR), v_and = (AND),
     v_andnot = (\<lambda>x y. NOT x AND y), v_srli = (\<lambda>x N. mi_op_shr TYPE(32) N x),
     v_slli = (\<lambda>x N. mi_op_shl TYPE(32) N x), v_set = (\<lambda>ws. join_le (rev ws)), v_store = mi_stub\<rparr>"

lemma register_simd:
  assumes "w = mi_way TYPE('v::len) TYPE(32)"
  shows "simd (register_intrinsics :: ('v word, u32) intrinsics) w"
  using assms
  by unfold_locales
    (auto intro!: nth_equalityI simp: register_intrinsics_def mi_op_broadcast_def mi_op_add_def
      mi_op_shr_def mi_op_shl_def update_loop_eq mi_stub_bits)

interpretation mmx: simd "register_intrinsics :: (64 word, u32) intrinsics" 2
  by (rule register_simd) (simp add: mi_way_def)

interpretation sse2: simd "register_intrinsics :: (128 word, u32) intrinsics" 4
  by (rule register_simd) (simp add: mi_way_def)

interpretation avx2: simd "register_intrinsics :: (256 word, u32) intrinsics" 8
  by (rule register_simd) (simp add: mi_way_def)

end
