(* ===== verification/Sha256.thy ===== *)
theory Sha256
  imports Multiway
begin

unbundle bit_operations_syntax

text \<open>
  SHA-256 of several blocks at once, \<^verbatim>\<open>include/fingera/hash/multiway_sha256.hpp\<close>,
  and the OpenCL kernel \<^verbatim>\<open>src/src/ocl/sha256.cl\<close>.  The 64 calls of \<open>round\<close> in the
  source differ only in the order of the variables they pass, their constant and the
  message word; they are the rows of a table here, in the order of the source, with the
  variables \<open>a\<close> to \<open>h\<close> numbered 0 to 7.  The specification is the compression function
  of FIPS 180-4.
\<close>

section \<open>The vectorised compression\<close>

definition xor3 :: "('t, u32) instr \<Rightarrow> 't \<Rightarrow> 't \<Rightarrow> 't \<Rightarrow> 't" where
  "xor3 I x y z = op_xor I (op_xor I x y) z"

definition Ch :: "('t, u32) instr \<Rightarrow> 't \<Rightarrow> 't \<Rightarrow> 't \<Rightarrow> 't" where
  "Ch I x y z = op_xor I z (op_and I x (op_xor I y z))"

definition Maj :: "('t, u32) instr \<Rightarrow> 't \<Rightarrow> 't \<Rightarrow> 't \<Rightarrow> 't" where
  "Maj I x y z = op_or I (op_and I x y) (op_and I z (op_or I x y))"

definition Sigma0 :: "('t, u32) instr \<Rightarrow> 't \<Rightarrow> 't" where
  "Sigma0 I x = xor3 I (op_rol I 30 x) (op_rol I 19 x) (op_rol I 10 x)"

definition Sigma1 :: "('t, u32) instr \<Rightarrow> 't \<Rightarrow> 't" where
  "Sigma1 I x = xor3 I (op_rol I 26 x) (op_rol I 21 x) (op_rol I 7 x)"

definition sigma0 :: "('t, u32) instr \<Rightarrow> 't \<Rightarrow> 't" where
  "sigma0 I x = xor3 I (op_rol I 25 x) (op_rol I 14 x) (op_shr I 3 x)"

definition sigma1 :: "('t, u32) instr \<Rightarrow> 't \<Rightarrow> 't" where
  "sigma1 I x = xor3 I (op_rol I 15 x) (op_rol I 13 x) (op_shr I 10 x)"

text \<open>
  \<open>sha_round I rs k v\<close> is the call \<open>round(a, ..., h, k)\<close> with the variables \<open>v ! (rs ! 0)\<close> to
  \<open>v ! (rs ! 7)\<close>; the fourth and the last are passed by reference.
\<close>

definition sha_round :: "('t, u32) instr \<Rightarrow> nat list \<Rightarrow> 't \<Rightarrow> 't list \<Rightarrow> 't list" where
  "sha_round I rs k v =
    (let a = v ! (rs ! 0); b = v ! (rs ! 1); c = v ! (rs ! 2); d = v ! (rs ! 3);
         e = v ! (rs ! 4); f = v ! (rs ! 5); g = v ! (rs ! 6); h = v ! (rs ! 7);
         t1 = op_add I h (op_add I (Sigma1 I e) (op_add I (Ch I e f g) k));
         t2 = op_add I (Sigma0 I a) (Maj I a b c)
     in v[rs ! 3 := op_add I d t1, rs ! 7 := op_add I t1 t2])"

text \<open>The message word of a row: \<open>Load i off\<close> is \<open>wi = load(block, 64, off)\<close> and
  \<open>Inc i j k l\<close> is \<open>_inc(wi, sigma1(wj), wk, sigma0(wl))\<close>.\<close>

datatype word_source = Load nat nat | Inc nat nat nat nat

fun sha_word :: "('t, u32) instr \<Rightarrow> byte list \<Rightarrow> nat \<Rightarrow> word_source \<Rightarrow> 't list \<Rightarrow> 't \<times> 't list" where
  "sha_word I block p (Load i off) w =
    (let x = load I False block p 64 off in (x, w[i := x]))"
| "sha_word I block p (Inc i j k l) w =
    (let x = op_add I (w ! i) (op_add I (sigma1 I (w ! j)) (op_add I (w ! k) (sigma0 I (w ! l))))
     in (x, w[i := x]))"

definition sha_rows :: "(nat list \<times> u32 \<times> word_source) list" where
  "sha_rows = [
   ([0,1,2,3,4,5,6,7], 0x428a2f98, Load 0 0),
   ([7,0,1,2,3,4,5,6], 0x71374491, Load 1 4),
   ([6,7,0,1,2,3,4,5], 0xb5c0fbcf, Load 2 8),
   ([5,6,7,0,1,2,3,4], 0xe9b5dba5, Load 3 12),
   ([4,5,6,7,0,1,2,3], 0x3956c25b, Load 4 16),
   ([3,4,5,6,7,0,1,2], 0x59f111f1, Load 5 20),
   ([2,3,4,5,6,7,0,1], 0x923f82a4, Load 6 24),
   ([1,2,3,4,5,6,7,0], 0xab1c5ed5, Load 7 28),
   ([0,1,2,3,4,5,6,7], 0xd807aa98, Load 8 32),
   ([7,0,1,2,3,4,5,6], 0x12835b01, Load 9 36),
   ([6,7,0,1,2,3,4,5], 0x243185be, Load 10 40),
   ([5,6,7,0,1,2,3,4], 0x550c7dc3, Load 11 44),
   ([4,5,6,7,0,1,2,3], 0x72be5d74, Load 12 48),
   ([3,4,5,6,7,0,1,2], 0x80deb1fe, Load 13 52),
   ([2,3,4,5,6,7,0,1], 0x9bdc06a7, Load 14 56),
   ([1,2,3,4,5,6,7,0], 0xc19bf174, Load 15 60),
   ([0,1,2,3,4,5,6,7], 0xe49b69c1, Inc 0 14 9 1),
   ([7,0,1,2,3,4,5,6], 0xefbe4786, Inc 1 15 10 2),
   ([6,7,0,1,2,3,4,5], 0x0fc19dc6, Inc 2 0 11 3),
   ([5,6,7,0,1,2,3,4], 0x240ca1cc, Inc 3 1 12 4),
   ([4,5,6,7,0,1,2,3], 0x2de92c6f, Inc 4 2 13 5),
   ([3,4,5,6,7,0,1,2], 0x4a7484aa, Inc 5 3 14 6),
   ([2,3,4,5,6,7,0,1], 0x5cb0a9dc, Inc 6 4 15 7),
   ([1,2,3,4,5,6,7,0], 0x76f988da, Inc 7 5 0 8),
   ([0,1,2,3,4,5,6,7], 0x983e5152, Inc 8 6 1 9),
   ([7,0,1,2,3,4,5,6], 0xa831c66d, Inc 9 7 2 10),
   ([6,7,0,1,2,3,4,5], 0xb00327c8, Inc 10 8 3 11),
   ([5,6,7,0,1,2,3,4], 0xbf597fc7, Inc 11 9 4 12),
   ([4,5,6,7,0,1,2,3], 0xc6e00bf3, Inc 12 10 5 13),
   ([3,4,5,6,7,0,1,2], 0xd5a79147, Inc 13 11 6 14),
   ([2,3,4,5,6,7,0,1], 0x06ca6351, Inc 14 12 7 15),
   ([1,2,3,4,5,6,7,0], 0x14292967, Inc 15 13 8 0),
   ([0,1,2,3,4,5,6,7], 0x27b70a85, Inc 0 14 9 1),
   ([7,0,1,2,3,4,5,6], 0x2e1b2138, Inc 1 15 10 2),
   ([6,7,0,1,2,3,4,5], 0x4d2c6dfc, Inc 2 0 11 3),
   ([5,6,7,0,1,2,3,4], 0x53380d13, Inc 3 1 12 4),
   ([4,5,6,7,0,1,2,3], 0x650a7354, Inc 4 2 13 5),
   ([3,4,5,6,7,0,1,2], 0x766a0abb, Inc 5 3 14 6),
   ([2,3,4,5,6,7,0,1], 0x81c2c92e, Inc 6 4 15 7),
   ([1,2,3,4,5,6,7,0], 0x92722c85, Inc 7 5 0 8),
   ([0,1,2,3,4,5,6,7], 0xa2bfe8a1, Inc 8 6 1 9),
   ([7,0,1,2,3,4,5,6], 0xa81a664b, Inc 9 7 2 10),
   ([6,7,0,1,2,3,4,5], 0xc24b8b70, Inc 10 8 3 11),
   ([5,6,7,0,1,2,3,4], 0xc76c51a3, Inc 11 9 4 12),
   ([4,5,6,7,0,1,2,3], 0xd192e819, Inc 12 10 5 13),
   ([3,4,5,6,7,0,1,2], 0xd6990624, Inc 13 11 6 14),
   ([2,3,4,5,6,7,0,1], 0xf40e3585, Inc 14 12 7 15),
   ([1,2,3,4,5,6,7,0], 0x106aa070, Inc 15 13 8 0),
   ([0,1,2,3,4,5,6,7], 0x19a4c116, Inc 0 14 9 1),
   ([7,0,1,2,3,4,5,6], 0x1e376c08, Inc 1 15 10 2),
   ([6,7,0,1,2,3,4,5], 0x2748774c, Inc 2 0 11 3),
   ([5,6,7,0,1,2,3,4], 0x34b0bcb5, Inc 3 1 12 4),
   ([4,5,6,7,0,1,2,3], 0x391c0cb3, Inc 4 2 13 5),
   ([3,4,5,6,7,0,1,2], 0x4ed8aa4a, Inc 5 3 14 6),
   ([2,3,4,5,6,7,0,1], 0x5b9cca4f, Inc 6 4 15 7),
   ([1,2,3,4,5,6,7,0], 0x682e6ff3, Inc 7 5 0 8),
   ([0,1,2,3,4,5,6,7], 0x748f82ee, Inc 8 6 1 9),
   ([7,0,1,2,3,4,5,6], 0x78a5636f, Inc 9 7 2 10),
   ([6,7,0,1,2,3,4,5], 0x84c87814, Inc 10 8 3 11),
   ([5,6,7,0,1,2,3,4], 0x8cc70208, Inc 11 9 4 12),
   ([4,5,6,7,0,1,2,3], 0x90befffa, Inc 12 10 5 13),
   ([3,4,5,6,7,0,1,2], 0xa4506ceb, Inc 13 11 6 14),
   ([2,3,4,5,6,7,0,1], 0xbef9a3f7, Inc 14 12 7 15),
   ([1,2,3,4,5,6,7,0], 0xc67178f2, Inc 15 13 8 0)]"

definition sha_row :: "('t, u32) instr \<Rightarrow> byte list \<Rightarrow> nat \<Rightarrow> nat list \<times> u32 \<times> word_source \<Rightarrow>
    't list \<times> 't list \<Rightarrow> 't list \<times> 't list" where
  "sha_row I block p = (\<lambda>(rs, k, src) (v, w).
    let (x, w) = sha_word I block p src w
    in (sha_round I rs (op_add I (op_broadcast I k) x) v, w))"

text \<open>The sixteen \<open>w\<close> are not initialised in the source; each is assigned before it is used.\<close>

definition process_block :: "('t, u32) instr \<Rightarrow> byte list \<Rightarrow> nat \<Rightarrow> 't list \<Rightarrow> 't list" where
  "process_block I block p v =
    (let (v', w) = fold (sha_row I block p) sha_rows (v, replicate 16 (op_broadcast I 0))
     in map2 (op_add I) v' v)"

definition sha_iv :: "u32 list" where
  "sha_iv = [0x6a09e667, 0xbb67ae85, 0x3c6ef372, 0xa54ff53a,
    0x510e527f, 0x9b05688c, 0x1f83d9ab, 0x5be0cd19]"

text \<open>The loop over \<open>count\<close> blocks of every lane.\<close>

primrec trunk_loop :: "('t, u32) instr \<Rightarrow> byte list \<Rightarrow> nat \<Rightarrow> nat \<Rightarrow> 't list \<Rightarrow> 't list" where
  "trunk_loop I blocks cur_block 0 v = v"
| "trunk_loop I blocks cur_block (Suc count) v =
    trunk_loop I blocks (cur_block + 64 * way I) count (process_block I blocks cur_block v)"

definition process_trunk :: "('t, u32) instr \<Rightarrow> byte list \<Rightarrow> nat \<Rightarrow> byte list \<Rightarrow> nat \<Rightarrow> byte list" where
  "process_trunk I out q blocks count =
    (let v = trunk_loop I blocks 0 count (map (op_broadcast I) sha_iv);
         out = save I False (v ! 0) out q 32 0;
         out = save I False (v ! 1) out q 32 4;
         out = save I False (v ! 2) out q 32 8;
         out = save I False (v ! 3) out q 32 12;
         out = save I False (v ! 4) out q 32 16;
         out = save I False (v ! 5) out q 32 20;
         out = save I False (v ! 6) out q 32 24
     in save I False (v ! 7) out q 32 28)"

section \<open>The kernel\<close>

definition kCh :: "u32 \<Rightarrow> u32 \<Rightarrow> u32 \<Rightarrow> u32" where
  "kCh x y z = z XOR (x AND (y XOR z))"

definition kMaj :: "u32 \<Rightarrow> u32 \<Rightarrow> u32 \<Rightarrow> u32" where
  "kMaj x y z = (x AND y) OR (z AND (x OR y))"

definition kSigma0 :: "u32 \<Rightarrow> u32" where
  "kSigma0 x = (drop_bit 2 x OR push_bit 30 x) XOR (drop_bit 13 x OR push_bit 19 x) XOR
    (drop_bit 22 x OR push_bit 10 x)"

definition kSigma1 :: "u32 \<Rightarrow> u32" where
  "kSigma1 x = (drop_bit 6 x OR push_bit 26 x) XOR (drop_bit 11 x OR push_bit 21 x) XOR
    (drop_bit 25 x OR push_bit 7 x)"

definition ksigma0 :: "u32 \<Rightarrow> u32" where
  "ksigma0 x = (drop_bit 7 x OR push_bit 25 x) XOR (drop_bit 18 x OR push_bit 14 x) XOR drop_bit 3 x"

definition ksigma1 :: "u32 \<Rightarrow> u32" where
  "ksigma1 x = (drop_bit 17 x OR push_bit 15 x) XOR (drop_bit 19 x OR push_bit 13 x) XOR drop_bit 10 x"

definition kRound :: "nat list \<Rightarrow> u32 \<Rightarrow> u32 list \<Rightarrow> u32 list" where
  "kRound rs k v =
    (let a = v ! (rs ! 0); b = v ! (rs ! 1); c = v ! (rs ! 2); d = v ! (rs ! 3);
         e = v ! (rs ! 4); f = v ! (rs ! 5); g = v ! (rs ! 6); h = v ! (rs ! 7);
         t1 = h + kSigma1 e + kCh e f g + k;
         t2 = kSigma0 a + kMaj a b c
     in v[rs ! 3 := d + t1, rs ! 7 := t1 + t2])"

definition swap_byte :: "u32 \<Rightarrow> u32" where
  "swap_byte x = push_bit 24 x OR (push_bit 8 x AND 0x00ff0000) OR (drop_bit 8 x AND 0x0000ff00) OR
    drop_bit 24 x"

text \<open>The word of a row: \<open>w0\<close>, which is set before the rounds; \<open>wi = swap_byte(chunk[c])\<close>;
  \<open>wi += sigma1(wj) + wk + sigma0(wl)\<close>; and the sum without the assignment of the last two rows.\<close>

datatype kernel_source = Use nat | Chunk nat nat | Extend nat nat nat nat | Sum nat nat nat nat

fun kernel_word :: "u32 list \<Rightarrow> kernel_source \<Rightarrow> u32 list \<Rightarrow> u32 \<times> u32 list" where
  "kernel_word chunk (Use i) w = (w ! i, w)"
| "kernel_word chunk (Chunk i c) w = (let x = swap_byte (chunk ! c) in (x, w[i := x]))"
| "kernel_word chunk (Extend i j k l) w =
    (let x = w ! i + (ksigma1 (w ! j) + w ! k + ksigma0 (w ! l)) in (x, w[i := x]))"
| "kernel_word chunk (Sum i j k l) w = (w ! i + ksigma1 (w ! j) + w ! k + ksigma0 (w ! l), w)"

definition kernel_rows :: "(nat list \<times> u32 \<times> kernel_source) list" where
  "kernel_rows = [
   ([0,1,2,3,4,5,6,7], 0x428a2f98, Use 0),
   ([7,0,1,2,3,4,5,6], 0x71374491, Chunk 1 1),
   ([6,7,0,1,2,3,4,5], 0xb5c0fbcf, Chunk 2 2),
   ([5,6,7,0,1,2,3,4], 0xe9b5dba5, Chunk 3 3),
   ([4,5,6,7,0,1,2,3], 0x3956c25b, Chunk 4 4),
   ([3,4,5,6,7,0,1,2], 0x59f111f1, Chunk 5 5),
   ([2,3,4,5,6,7,0,1], 0x923f82a4, Chunk 6 6),
   ([1,2,3,4,5,6,7,0], 0xab1c5ed5, Chunk 7 7),
   ([0,1,2,3,4,5,6,7], 0xd807aa98, Chunk 8 8),
   ([7,0,1,2,3,4,5,6], 0x12835b01, Chunk 9 9),
   ([6,7,0,1,2,3,4,5], 0x243185be, Chunk 10 10),
   ([5,6,7,0,1,2,3,4], 0x550c7dc3, Chunk 11 11),
   ([4,5,6,7,0,1,2,3], 0x72be5d74, Chunk 12 12),
   ([3,4,5,6,7,0,1,2], 0x80deb1fe, Chunk 13 13),
   ([2,3,4,5,6,7,0,1], 0x9bdc06a7, Chunk 14 14),
   ([1,2,3,4,5,6,7,0], 0xc19bf174, Chunk 15 15),
   ([0,1,2,3,4,5,6,7], 0xe49b69c1, Extend 0 14 9 1),
   ([7,0,1,2,3,4,5,6], 0xefbe4786, Extend 1 15 10 2),
   ([6,7,0,1,2,3,4,5], 0x0fc19dc6, Extend 2 0 11 3),
   ([5,6,7,0,1,2,3,4], 0x240ca1cc, Extend 3 1 12 4),
   ([4,5,6,7,0,1,2,3], 0x2de92c6f, Extend 4 2 13 5),
   ([3,4,5,6,7,0,1,2], 0x4a7484aa, Extend 5 3 14 6),
   ([2,3,4,5,6,7,0,1], 0x5cb0a9dc, Extend 6 4 15 7),
   ([1,2,3,4,5,6,7,0], 0x76f988da, Extend 7 5 0 8),
   ([0,1,2,3,4,5,6,7], 0x983e5152, Extend 8 6 1 9),
   ([7,0,1,2,3,4,5,6], 0xa831c66d, Extend 9 7 2 10),
   ([6,7,0,1,2,3,4,5], 0xb00327c8, Extend 10 8 3 11),
   ([5,6,7,0,1,2,3,4], 0xbf597fc7, Extend 11 9 4 12),
   ([4,5,6,7,0,1,2,3], 0xc6e00bf3, Extend 12 10 5 13),
   ([3,4,5,6,7,0,1,2], 0xd5a79147, Extend 13 11 6 14),
   ([2,3,4,5,6,7,0,1], 0x06ca6351, Extend 14 12 7 15),
   ([1,2,3,4,5,6,7,0], 0x14292967, Extend 15 13 8 0),
   ([0,1,2,3,4,5,6,7], 0x27b70a85, Extend 0 14 9 1),
   ([7,0,1,2,3,4,5,6], 0x2e1b2138, Extend 1 15 10 2),
   ([6,7,0,1,2,3,4,5], 0x4d2c6dfc, Extend 2 0 11 3),
   ([5,6,7,0,1,2,3,4], 0x53380d13, Extend 3 1 12 4),
   ([4,5,6,7,0,1,2,3], 0x650a7354, Extend 4 2 13 5),
   ([3,4,5,6,7,0,1,2], 0x766a0abb, Extend 5 3 14 6),
   ([2,3,4,5,6,7,0,1], 0x81c2c92e, Extend 6 4 15 7),
   ([1,2,3,4,5,6,7,0], 0x92722c85, Extend 7 5 0 8),
   ([0,1,2,3,4,5,6,7], 0xa2bfe8a1, Extend 8 6 1 9),
   ([7,0,1,2,3,4,5,6], 0xa81a664b, Extend 9 7 2 10),
   ([6,7,0,1,2,3,4,5], 0xc24b8b70, Extend 10 8 3 11),
   ([5,6,7,0,1,2,3,4], 0xc76c51a3, Extend 11 9 4 12),
   ([4,5,6,7,0,1,2,3], 0xd192e819, Extend 12 10 5 13),
   ([3,4,5,6,7,0,1,2], 0xd6990624, Extend 13 11 6 14),
   ([2,3,4,5,6,7,0,1], 0xf40e3585, Extend 14 12 7 15),
   ([1,2,3,4,5,6,7,0], 0x106aa070, Extend 15 13 8 0),
   ([0,1,2,3,4,5,6,7], 0x19a4c116, Extend 0 14 9 1),
   ([7,0,1,2,3,4,5,6], 0x1e376c08, Extend 1 15 10 2),
   ([6,7,0,1,2,3,4,5], 0x2748774c, Extend 2 0 11 3),
   ([5,6,7,0,1,2,3,4], 0x34b0bcb5, Extend 3 1 12 4),
   ([4,5,6,7,0,1,2,3], 0x391c0cb3, Extend 4 2 13 5),
   ([3,4,5,6,7,0,1,2], 0x4ed8aa4a, Extend 5 3 14 6),
   ([2,3,4,5,6,7,0,1], 0x5b9cca4f, Extend 6 4 15 7),
   ([1,2,3,4,5,6,7,0], 0x682e6ff3, Extend 7 5 0 8),
   ([0,1,2,3,4,5,6,7], 0x748f82ee, Extend 8 6 1 9),
   ([7,0,1,2,3,4,5,6], 0x78a5636f, Extend 9 7 2 10),
   ([6,7,0,1,2,3,4,5], 0x84c87814, Extend 10 8 3 11),
   ([5,6,7,0,1,2,3,4], 0x8cc70208, Extend 11 9 4 12),
   ([4,5,6,7,0,1,2,3], 0x90befffa, Extend 12 10 5 13),
   ([3,4,5,6,7,0,1,2], 0xa4506ceb, Extend 13 11 6 14),
   ([2,3,4,5,6,7,0,1], 0xbef9a3f7, Sum 14 12 7 15),
   ([1,2,3,4,5,6,7,0], 0xc67178f2, Sum 15 13 8 0)]"

definition kernel_row :: "u32 list \<Rightarrow> nat list \<times> u32 \<times> kernel_source \<Rightarrow>
    u32 list \<times> u32 list \<Rightarrow> u32 list \<times> u32 list" where
  "kernel_row chunk = (\<lambda>(rs, k, src) (v, w).
    let (x, w) = kernel_word chunk src w in (kRound rs (k + x) v, w))"

text \<open>One work item: \<open>chunk\<close> and \<open>digest\<close> are the global buffers, in elements.\<close>

definition sha256_process_trunk :: "u32 \<Rightarrow> u32 list \<Rightarrow> u32 list \<Rightarrow> u32 list" where
  "sha256_process_trunk global_id chunk digest =
    (let w0 = swap_byte (chunk ! 0) + push_bit 24 global_id;
         (v, w) = fold (kernel_row chunk) kernel_rows (sha_iv, (replicate 16 0)[0 := w0])
     in blit digest (unat (global_id * 8)) (map swap_byte (map2 (+) v sha_iv)))"

section \<open>The standard\<close>

text \<open>
  The constants of the standard are the first 32 bits of the fractions of roots of the first
  primes: cube roots for the rounds and square roots for the initial state.  \<open>iroot e n b r\<close>
  finds the largest \<open>r'\<close> above \<open>r\<close> by less than \<open>2 ^ b\<close> with \<open>r' ^ e \<le> n\<close>, bit by bit.
\<close>

text \<open>Trial division by the numbers up to 17 decides primality up to 323.\<close>

definition is_prime :: "int \<Rightarrow> bool" where
  "is_prime p \<longleftrightarrow> list_all (\<lambda>d. p < d * d \<or> p mod d \<noteq> 0) [2..17]"

definition first_primes :: "int list" where
  "first_primes = filter is_prime [2..311]"

primrec iroot :: "nat \<Rightarrow> int \<Rightarrow> nat \<Rightarrow> int \<Rightarrow> int" where
  "iroot e n 0 r = r"
| "iroot e n (Suc b) r = iroot e n b (let r' = r + 2 ^ b in if r' ^ e \<le> n then r' else r)"

definition root_fraction :: "nat \<Rightarrow> int \<Rightarrow> u32" where
  "root_fraction e p = word_of_int (iroot e (p * (2 ^ 32) ^ e) 37 0)"

definition fips_K :: "u32 list" where
  "fips_K = map (root_fraction 3) first_primes"

definition fips_iv :: "u32 list" where
  "fips_iv = map (root_fraction 2) (take 8 first_primes)"

definition fips_Ch :: "u32 \<Rightarrow> u32 \<Rightarrow> u32 \<Rightarrow> u32" where
  "fips_Ch x y z = (x AND y) XOR (NOT x AND z)"

definition fips_Maj :: "u32 \<Rightarrow> u32 \<Rightarrow> u32 \<Rightarrow> u32" where
  "fips_Maj x y z = (x AND y) XOR (x AND z) XOR (y AND z)"

definition fips_Sigma0 :: "u32 \<Rightarrow> u32" where
  "fips_Sigma0 x = word_rotr 2 x XOR word_rotr 13 x XOR word_rotr 22 x"

definition fips_Sigma1 :: "u32 \<Rightarrow> u32" where
  "fips_Sigma1 x = word_rotr 6 x XOR word_rotr 11 x XOR word_rotr 25 x"

definition fips_sigma0 :: "u32 \<Rightarrow> u32" where
  "fips_sigma0 x = word_rotr 7 x XOR word_rotr 18 x XOR drop_bit 3 x"

definition fips_sigma1 :: "u32 \<Rightarrow> u32" where
  "fips_sigma1 x = word_rotr 17 x XOR word_rotr 19 x XOR drop_bit 10 x"

text \<open>The first \<open>16 + n\<close> words of the message schedule.\<close>

primrec fips_schedule :: "u32 list \<Rightarrow> nat \<Rightarrow> u32 list" where
  "fips_schedule M 0 = M"
| "fips_schedule M (Suc n) =
    (let w = fips_schedule M n; t = 16 + n
     in w @ [fips_sigma1 (w ! (t - 2)) + w ! (t - 7) + fips_sigma0 (w ! (t - 15)) + w ! (t - 16)])"

definition fips_step :: "u32 \<Rightarrow> u32 \<Rightarrow> u32 list \<Rightarrow> u32 list" where
  "fips_step k w s =
    (let a = s ! 0; b = s ! 1; c = s ! 2; d = s ! 3; e = s ! 4; f = s ! 5; g = s ! 6; h = s ! 7;
         t1 = h + fips_Sigma1 e + fips_Ch e f g + k + w;
         t2 = fips_Sigma0 a + fips_Maj a b c
     in [t1 + t2, a, b, c, d + t1, e, f, g])"

primrec fips_rounds :: "u32 list \<Rightarrow> nat \<Rightarrow> u32 list \<Rightarrow> u32 list" where
  "fips_rounds ws 0 s = s"
| "fips_rounds ws (Suc t) s = fips_step (fips_K ! t) (ws ! t) (fips_rounds ws t s)"

definition fips_compress :: "u32 list \<Rightarrow> u32 list \<Rightarrow> u32 list" where
  "fips_compress H M = map2 (+) (fips_rounds (fips_schedule M 48) 64 H) H"

text \<open>A block of 64 bytes, and the hash of a list of blocks (the padding is the caller's).\<close>

definition block_words :: "byte list \<Rightarrow> u32 list" where
  "block_words bs = map (\<lambda>j. join_be (mem_slice bs (4 * j) 4)) [0..<16]"

definition fips_hash :: "byte list list \<Rightarrow> u32 list" where
  "fips_hash blocks = fold (\<lambda>b H. fips_compress H (block_words b)) blocks fips_iv"

section \<open>The scalar round is the standard's\<close>

lemma word_rotl_rotr32:
  assumes "0 < N" and "N < 32"
  shows "word_rotl N (v :: u32) = word_rotr (32 - N) v"
  using word_rotl_shifts [of N v] word_rotr_shifts [of "32 - N" v] assms
  by (simp add: or.commute)

lemma kernel_functions:
  "kCh x y z = fips_Ch x y z" "kMaj x y z = fips_Maj x y z"
  "kSigma0 x = fips_Sigma0 x" "kSigma1 x = fips_Sigma1 x"
  "ksigma0 x = fips_sigma0 x" "ksigma1 x = fips_sigma1 x"
proof -
  show "kCh x y z = fips_Ch x y z" "kMaj x y z = fips_Maj x y z"
    by (auto simp: kCh_def fips_Ch_def kMaj_def fips_Maj_def bit_simps intro!: bit_word_eqI)
  note r = word_rotr_shifts [where 'a = 32, simplified]
  show "kSigma0 x = fips_Sigma0 x" "kSigma1 x = fips_Sigma1 x"
      "ksigma0 x = fips_sigma0 x" "ksigma1 x = fips_sigma1 x"
    using r [of 2 x] r [of 13 x] r [of 22 x] r [of 6 x] r [of 11 x] r [of 25 x]
      r [of 7 x] r [of 18 x] r [of 17 x] r [of 19 x]
    by (simp_all add: kSigma0_def kSigma1_def ksigma0_def ksigma1_def fips_Sigma0_def
        fips_Sigma1_def fips_sigma0_def fips_sigma1_def)
qed

text \<open>The variables in the order of a row.\<close>

definition view :: "'t list \<Rightarrow> nat list \<Rightarrow> 't list" where
  "view v rs = map (\<lambda>r. v ! r) rs"

lemma length_kRound [simp]: "length (kRound rs k v) = length v"
  by (simp add: kRound_def Let_def)

text \<open>A round leaves the state of the standard in the order of the next row, in which the last
  variable comes first.\<close>

lemma view_kRound:
  assumes "length v = 8" and "distinct rs" and "length rs = 8" and "set rs \<subseteq> {..<8}"
  shows "view (kRound rs (k + x) v) (last rs # butlast rs) = fips_step k x (view v rs)"
proof -
  obtain a b c d e f g h where rs: "rs = [a, b, c, d, e, f, g, h]"
    using assms(3) by (auto simp: length_Suc_conv eval_nat_numeral)
  have "distinct [h, g, f, e, d, c, b, a]"
    using assms(2) by (auto simp: rs)
  with assms(1,2,4) show ?thesis
    by (simp add: rs view_def kRound_def fips_step_def Let_def kernel_functions nth_list_update
        add.assoc)
qed

section \<open>The order of the rows\<close>

definition row_order :: "nat \<Rightarrow> nat list" where
  "row_order t = rotate ((64 - t) mod 8) [0..<8]"

definition row_word :: "nat \<Rightarrow> word_source" where
  "row_word t = (if t < 16 then Load t (4 * t)
    else Inc (t mod 16) ((t + 14) mod 16) ((t + 9) mod 16) ((t + 1) mod 16))"

definition kernel_row_word :: "nat \<Rightarrow> kernel_source" where
  "kernel_row_word t = (if t = 0 then Use 0 else if t < 16 then Chunk t t
    else (if t < 62 then Extend else Sum) (t mod 16) ((t + 14) mod 16) ((t + 9) mod 16) ((t + 1) mod 16))"

text \<open>The tables, column by column.\<close>

lemma sha_rows_constants: "map (\<lambda>(rs, k, src). k) sha_rows = fips_K"
  by code_simp

lemma sha_rows_order:
  "map (\<lambda>(rs, k, src). (rs, src)) sha_rows = map (\<lambda>t. (row_order t, row_word t)) [0..<64]"
  by code_simp

lemma kernel_rows_constants: "map (\<lambda>(rs, k, src). k) kernel_rows = map (\<lambda>(rs, k, src). k) sha_rows"
  by code_simp

lemma kernel_rows_order:
  "map (\<lambda>(rs, k, src). (rs, src)) kernel_rows = map (\<lambda>t. (row_order t, kernel_row_word t)) [0..<64]"
  by code_simp

lemma rows_of_columns:
  assumes "map (\<lambda>(rs, k, src). k) rows = ks" and "map (\<lambda>(rs, k, src). (rs, src)) rows = map (\<lambda>t. (f t, g t)) [0..<n]"
  shows "rows = map (\<lambda>t. (f t, ks ! t, g t)) [0..<n]"
proof (rule nth_equalityI)
  have len: "length rows = n" using arg_cong [OF assms(2), of length] by simp
  then show "length rows = length (map (\<lambda>t. (f t, ks ! t, g t)) [0..<n])" by simp
  fix t assume "t < length rows"
  then show "rows ! t = map (\<lambda>t. (f t, ks ! t, g t)) [0..<n] ! t"
    using arg_cong [OF assms(1), of "\<lambda>xs. xs ! t"] arg_cong [OF assms(2), of "\<lambda>xs. xs ! t"] len
    by (cases "rows ! t") simp
qed

lemma sha_rows_eq: "sha_rows = map (\<lambda>t. (row_order t, fips_K ! t, row_word t)) [0..<64]"
  by (rule rows_of_columns [OF sha_rows_constants sha_rows_order])

lemma kernel_rows_eq: "kernel_rows = map (\<lambda>t. (row_order t, fips_K ! t, kernel_row_word t)) [0..<64]"
  by (rule rows_of_columns [OF kernel_rows_constants [unfolded sha_rows_constants] kernel_rows_order])

lemma fips_iv_eq: "fips_iv = sha_iv"
  by code_simp

lemma row_order:
  "distinct (row_order t)" "length (row_order t) = 8" "set (row_order t) \<subseteq> {..<8}"
  by (auto simp: row_order_def)

lemma row_order_Suc:
  assumes "t < 64"
  shows "last (row_order t) # butlast (row_order t) = row_order (Suc t)"
proof -
  define r where "r = row_order (Suc t)"
  have order: "row_order k = rotate (64 - k) [0..<8]" for k
    by (simp add: row_order_def rotate_conv_mod [of "64 - k"] del: upt_Suc)
  have "64 - t = Suc (64 - Suc t)" using assms by simp
  then have "row_order t = rotate1 r"
    by (simp only: r_def order rotate_Suc)
  moreover have "r \<noteq> []"
    using row_order(2) [of "Suc t"] by (auto simp: r_def)
  ultimately show ?thesis
    by (cases r) (simp_all add: r_def [symmetric])
qed

lemma row_order_ends: "row_order 0 = [0..<8]" "row_order 64 = [0..<8]"
  by (simp_all add: row_order_def)

section \<open>The window of message words\<close>

lemma length_fips_schedule [simp]: "length M = 16 \<Longrightarrow> length (fips_schedule M n) = 16 + n"
  by (induction n) (simp_all add: Let_def)

lemma fips_schedule_prefix:
  "length M = 16 \<Longrightarrow> n \<le> m \<Longrightarrow> t < 16 + n \<Longrightarrow> fips_schedule M m ! t = fips_schedule M n ! t"
proof (induction m)
  case (Suc m)
  then show ?case
    by (cases "n = Suc m") (auto simp: Let_def nth_append)
qed simp

lemma fips_schedule_first:
  "length M = 16 \<Longrightarrow> t < 16 \<Longrightarrow> fips_schedule M 48 ! t = M ! t"
  using fips_schedule_prefix [of M 0 48 t] by simp

lemma fips_schedule_next:
  assumes "length M = 16" and "16 \<le> t" and "t < 64"
  defines "w \<equiv> fips_schedule M 48"
  shows "w ! t = fips_sigma1 (w ! (t - 2)) + w ! (t - 7) + fips_sigma0 (w ! (t - 15)) + w ! (t - 16)"
proof -
  have p: "w ! s = fips_schedule M (t - 16) ! s" if "s < t" for s
    unfolding w_def using assms(1-3) that by (intro fips_schedule_prefix) auto
  have "w ! t = fips_schedule M (Suc (t - 16)) ! t"
    unfolding w_def using assms(1-3) by (intro fips_schedule_prefix) auto
  then show ?thesis
    using assms(1-3) by (simp add: Let_def nth_append p)
qed

text \<open>Before row \<open>t\<close> the variable \<open>w (s mod 16)\<close> holds word \<open>s\<close>, for the last sixteen \<open>s\<close>.\<close>

definition window :: "u32 list \<Rightarrow> nat \<Rightarrow> u32 list \<Rightarrow> bool" where
  "window W t w \<longleftrightarrow> length w = 16 \<and> (\<forall>s < t. t \<le> s + 16 \<longrightarrow> w ! (s mod 16) = W ! s)"

lemma window_put:
  assumes "window W t w"
  shows "window W (Suc t) (w[t mod 16 := W ! t])"
proof -
  have ne: "s mod 16 \<noteq> t mod 16" if "s < t" and "Suc t \<le> s + 16" for s
  proof
    assume "s mod 16 = t mod 16"
    then have "16 dvd t - s"
      using that(1) by (metis mod_eq_dvd_iff_nat less_imp_le)
    then have "16 \<le> t - s"
      using that(1) by (intro dvd_imp_le) simp_all
    with that(2) show False by simp
  qed
  show ?thesis
    unfolding window_def
  proof (intro conjI allI impI)
    show "length (w[t mod 16 := W ! t]) = 16"
      using assms by (simp add: window_def)
    fix s assume "s < Suc t" and "Suc t \<le> s + 16"
    with assms ne [of s] show "w[t mod 16 := W ! t] ! (s mod 16) = W ! s"
      by (cases "s = t") (simp_all add: window_def)
  qed
qed

lemma window_at: "window W t w \<Longrightarrow> s < t \<Longrightarrow> t \<le> s + 16 \<Longrightarrow> r = s mod 16 \<Longrightarrow> w ! r = W ! s"
  by (simp add: window_def)

lemma window_get:
  assumes "window W t w" and "0 < k" and "k \<le> 16" and "16 \<le> t"
  shows "w ! ((t + (16 - k)) mod 16) = W ! (t - k)"
proof -
  have "t + (16 - k) = (t - k) + 16"
    using assms(2-4) by simp
  then have "(t + (16 - k)) mod 16 = (t - k) mod 16"
    by (simp only: mod_add_self2)
  moreover have "w ! ((t - k) mod 16) = W ! (t - k)"
    using assms by (auto simp: window_def)
  ultimately show ?thesis by simp
qed

lemma window_extend:
  assumes "length M = 16" and "window (fips_schedule M 48) t w" and "16 \<le> t" and "t < 64"
  shows "w ! (t mod 16) + (fips_sigma1 (w ! ((t + 14) mod 16)) + (w ! ((t + 9) mod 16) +
      fips_sigma0 (w ! ((t + 1) mod 16)))) = fips_schedule M 48 ! t"
  using window_get [OF assms(2), of 16] window_get [OF assms(2), of 2]
    window_get [OF assms(2), of 7] window_get [OF assms(2), of 15] assms(1,3,4)
  by (simp add: fips_schedule_next add.assoc add.left_commute add.commute)

section \<open>The kernel computes the standard's compression\<close>

definition kernel_words :: "u32 \<Rightarrow> u32 list \<Rightarrow> u32 list" where
  "kernel_words global_id chunk = (map swap_byte (take 16 chunk))[0 := swap_byte (chunk ! 0) + push_bit 24 global_id]"

text \<open>The last row reads the window of the row before, which did not store its word; what it
  reads is not that word.\<close>

lemma window_last:
  assumes "length M = 16" and "window (fips_schedule M 48) 62 w"
  shows "w ! 15 + fips_sigma1 (w ! 13) + w ! 8 + fips_sigma0 (w ! 0) = fips_schedule M 48 ! 63"
proof -
  let ?W = "fips_schedule M 48"
  note at = window_at [OF assms(2)]
  have "w ! 15 = ?W ! 47" "w ! 13 = ?W ! 61" "w ! 8 = ?W ! 56" "w ! 0 = ?W ! 48"
    by (rule at; simp)+
  with fips_schedule_next [OF assms(1), of 63] show ?thesis
    by (simp add: add.assoc add.left_commute add.commute)
qed

lemma kernel_word_step:
  assumes "length M = 16" and "t < 64"
    and "window (fips_schedule M 48) (min t 62) w"
    and "t = 0 \<longrightarrow> w ! 0 = M ! 0" and "\<forall>j < 16. 0 < j \<longrightarrow> M ! j = swap_byte (chunk ! j)"
  shows "\<exists>w'. kernel_word chunk (kernel_row_word t) w = (fips_schedule M 48 ! t, w') \<and>
    window (fips_schedule M 48) (min (Suc t) 62) w'"
proof -
  let ?W = "fips_schedule M 48"
  have len: "length w = 16" using assms(3) by (simp add: window_def)
  consider "t = 0" | "0 < t" "t < 16" | "16 \<le> t" "t < 62" | "t = 62" | "t = 63"
    using assms(2) by linarith
  then show ?thesis
  proof cases
    case 1
    then have "?W ! 0 = w ! 0"
      using fips_schedule_first [OF assms(1), of 0] assms(4) by simp
    with 1 len show ?thesis
      by (simp add: kernel_row_word_def window_def)
  next
    case 2
    then have "swap_byte (chunk ! t) = ?W ! t"
      using fips_schedule_first [OF assms(1), of t] assms(5) by simp
    with 2 window_put [of ?W t w] assms(3) show ?thesis
      by (simp add: kernel_row_word_def Let_def)
  next
    case 3
    with window_extend [OF assms(1) _ 3(1) assms(2), of w] window_put [of ?W t w] assms(3)
    show ?thesis
      by (simp add: kernel_row_word_def Let_def kernel_functions add.assoc)
  next
    case 4
    with window_extend [OF assms(1), of 62 w] assms(3) show ?thesis
      by (simp add: kernel_row_word_def kernel_functions add.assoc)
  next
    case 5
    with window_last [OF assms(1), of w] assms(3) show ?thesis
      by (simp add: kernel_row_word_def kernel_functions)
  qed
qed

text \<open>All the rows, for the kernel.\<close>

lemma kernel_run:
  assumes "length M = 16" and "w ! 0 = M ! 0" and "length w = 16" and "length H = 8"
    and "\<forall>j < 16. 0 < j \<longrightarrow> M ! j = swap_byte (chunk ! j)" and "n \<le> 64"
  shows "\<exists>v w'. fold (kernel_row chunk) (take n kernel_rows) (H, w) = (v, w') \<and> length v = 8 \<and>
    view v (row_order n) = fips_rounds (fips_schedule M 48) n H \<and>
    window (fips_schedule M 48) (min n 62) w' \<and> (n = 0 \<longrightarrow> w' = w)"
  using assms(6)
proof (induction n)
  case 0
  have "view H (row_order 0) = H"
    using map_nth [of H] assms(4) by (simp add: view_def row_order_ends)
  with assms(3,4) show ?case by (simp add: window_def)
next
  case (Suc n)
  let ?W = "fips_schedule M 48"
  from Suc obtain v w' where run: "fold (kernel_row chunk) (take n kernel_rows) (H, w) = (v, w')"
      and v: "length v = 8" "view v (row_order n) = fips_rounds ?W n H"
      and w': "window ?W (min n 62) w'" "n = 0 \<longrightarrow> w' = w"
    by auto
  from kernel_word_step [OF assms(1) _ w'(1) _ assms(5)] Suc.prems w'(2) assms(2)
  obtain w'' where word: "kernel_word chunk (kernel_row_word n) w' = (?W ! n, w'')"
      and w'': "window ?W (min (Suc n) 62) w''"
    by auto
  have "take (Suc n) kernel_rows = take n kernel_rows @ [(row_order n, fips_K ! n, kernel_row_word n)]"
    using Suc.prems by (simp add: kernel_rows_eq take_Suc_conv_app_nth)
  with run word have "fold (kernel_row chunk) (take (Suc n) kernel_rows) (H, w) =
      (kRound (row_order n) (fips_K ! n + ?W ! n) v, w'')"
    by (simp add: kernel_row_def)
  moreover have "view (kRound (row_order n) (fips_K ! n + ?W ! n) v) (row_order (Suc n)) =
      fips_rounds ?W (Suc n) H"
    using view_kRound [OF v(1) row_order [of n], of "fips_K ! n" "?W ! n"] Suc.prems
    by (simp add: row_order_Suc v(2))
  ultimately show ?case using v(1) w'' by simp
qed

section \<open>Every lane computes it too\<close>

locale sha_instr = multiway_instr I 4 lane ok
  for I :: "('t, u32) instr" and lane :: "'t \<Rightarrow> nat \<Rightarrow> u32" and ok :: "'t \<Rightarrow> bool"
begin

lemma ok_functions [simp]:
  "ok x \<Longrightarrow> ok y \<Longrightarrow> ok z \<Longrightarrow> ok (Ch I x y z)"
  "ok x \<Longrightarrow> ok y \<Longrightarrow> ok z \<Longrightarrow> ok (Maj I x y z)"
  "ok x \<Longrightarrow> ok (Sigma0 I x)" "ok x \<Longrightarrow> ok (Sigma1 I x)"
  "ok x \<Longrightarrow> ok (sigma0 I x)" "ok x \<Longrightarrow> ok (sigma1 I x)"
  by (simp_all add: Ch_def Maj_def Sigma0_def Sigma1_def sigma0_def sigma1_def xor3_def)

lemma lane_functions [simp]:
  assumes "i < way I" and "ok x" and "ok y" and "ok z"
  shows "lane (Ch I x y z) i = kCh (lane x i) (lane y i) (lane z i)"
    "lane (Maj I x y z) i = kMaj (lane x i) (lane y i) (lane z i)"
  using assms by (simp_all add: Ch_def Maj_def kCh_def kMaj_def)

lemma lane_sigmas [simp]:
  assumes "i < way I" and "ok x"
  shows "lane (Sigma0 I x) i = fips_Sigma0 (lane x i)"
    "lane (Sigma1 I x) i = fips_Sigma1 (lane x i)"
    "lane (sigma0 I x) i = fips_sigma0 (lane x i)"
    "lane (sigma1 I x) i = fips_sigma1 (lane x i)"
  using assms
  by (simp_all add: Sigma0_def Sigma1_def sigma0_def sigma1_def xor3_def fips_Sigma0_def
      fips_Sigma1_def fips_sigma0_def fips_sigma1_def word_rotl_rotr32 xor.assoc)

text \<open>The lanes \<open>i\<close> of the registers of a list.\<close>

definition slice :: "nat \<Rightarrow> 't list \<Rightarrow> u32 list" where
  "slice i v = map (\<lambda>x. lane x i) v"

lemma nth_slice [simp]: "r < length v \<Longrightarrow> slice i v ! r = lane (v ! r) i"
  by (simp add: slice_def)

lemma length_slice [simp]: "length (slice i v) = length v"
  by (simp add: slice_def)

lemma slice_update: "slice i (v[r := x]) = (slice i v)[r := lane x i]"
  by (simp add: slice_def map_update)

lemma list_all_ok_nth: "list_all ok v \<Longrightarrow> r < length v \<Longrightarrow> ok (v ! r)"
  by (simp add: list_all_length)

lemma list_all_ok_update: "list_all ok v \<Longrightarrow> ok x \<Longrightarrow> list_all ok (v[r := x])"
  by (auto simp: list_all_iff dest!: set_update_subset_insert [THEN subsetD])

lemma sha_round_lane:
  assumes "i < way I" and "list_all ok v" and "length v = 8" and "ok k"
    and "length rs = 8" and "set rs \<subseteq> {..<8}"
  shows "slice i (sha_round I rs k v) = kRound rs (lane k i) (slice i v)"
    and "list_all ok (sha_round I rs k v)" and "length (sha_round I rs k v) = 8"
proof -
  have r: "rs ! j < 8" if "j < 8" for j
    using assms(5,6) that by (metis lessThan_iff nth_mem subsetD)
  note ok = list_all_ok_nth [OF assms(2)] and [simp] = r assms(1,3,4)
  show "slice i (sha_round I rs k v) = kRound rs (lane k i) (slice i v)"
    by (simp add: sha_round_def kRound_def Let_def slice_update ok kernel_functions add.assoc)
  show "list_all ok (sha_round I rs k v)"
    unfolding sha_round_def Let_def
    by (intro list_all_ok_update assms(2) ok_add ok_functions) (simp_all add: ok)
  show "length (sha_round I rs k v) = 8"
    by (simp add: sha_round_def Let_def)
qed

lemma sha_word_step:
  assumes "i < way I" and "t < 64" and "list_all ok w"
    and "length M = 16" and "window (fips_schedule M 48) t (slice i w)"
    and "\<forall>j < 16. lane (load I False block p 64 (4 * j)) i = M ! j"
  shows "\<exists>x w'. sha_word I block p (row_word t) w = (x, w') \<and> ok x \<and> list_all ok w' \<and>
    lane x i = fips_schedule M 48 ! t \<and> window (fips_schedule M 48) (Suc t) (slice i w')"
proof (cases "t < 16")
  case True
  then have "lane (load I False block p 64 (4 * t)) i = fips_schedule M 48 ! t"
    using fips_schedule_first [OF assms(4), of t] assms(6) by simp
  with True window_put [OF assms(5)] show ?thesis
    by (simp add: row_word_def Let_def slice_update list_all_ok_update assms(3))
next
  case False
  have len: "length w = 16" using assms(5) by (simp add: window_def)
  note ok = list_all_ok_nth [OF assms(3)]
  define x where "x = op_add I (w ! (t mod 16)) (op_add I (sigma1 I (w ! ((t + 14) mod 16)))
    (op_add I (w ! ((t + 9) mod 16)) (sigma0 I (w ! ((t + 1) mod 16)))))"
  have okx: "ok x"
    using assms(1) by (simp add: x_def ok len)
  have "lane x i = fips_schedule M 48 ! t"
    using window_extend [OF assms(4,5) _ assms(2)] False assms(1)
    by (simp add: x_def ok len)
  moreover have "sha_word I block p (row_word t) w = (x, w[t mod 16 := x])"
    using False by (simp add: row_word_def Let_def x_def)
  ultimately show ?thesis
    using okx window_put [OF assms(5)] by (simp add: slice_update list_all_ok_update assms(3))
qed

lemma sha_run:
  assumes "i < way I" and "list_all ok H" and "length H = 8" and "list_all ok w" and "length w = 16"
    and "length M = 16" and "\<forall>j < 16. lane (load I False block p 64 (4 * j)) i = M ! j"
    and "n \<le> 64"
  shows "\<exists>v w'. fold (sha_row I block p) (take n sha_rows) (H, w) = (v, w') \<and> length v = 8 \<and>
    list_all ok v \<and> list_all ok w' \<and>
    view (slice i v) (row_order n) = fips_rounds (fips_schedule M 48) n (slice i H) \<and>
    window (fips_schedule M 48) n (slice i w')"
  using assms(8)
proof (induction n)
  case 0
  have "view (slice i H) (row_order 0) = slice i H"
    using map_nth [of "slice i H"] assms(3) by (simp add: view_def row_order_ends)
  with assms(2-5) show ?case by (simp add: window_def)
next
  case (Suc n)
  let ?W = "fips_schedule M 48"
  from Suc obtain v w' where run: "fold (sha_row I block p) (take n sha_rows) (H, w) = (v, w')"
      and v: "length v = 8" "list_all ok v" "view (slice i v) (row_order n) = fips_rounds ?W n (slice i H)"
      and w': "list_all ok w'" "window ?W n (slice i w')"
    by auto
  from sha_word_step [OF assms(1) _ w'(1) assms(6) w'(2) assms(7)] Suc.prems
  obtain x w'' where word: "sha_word I block p (row_word n) w' = (x, w'')" "ok x" "lane x i = ?W ! n"
      and w'': "list_all ok w''" "window ?W (Suc n) (slice i w'')"
    by auto
  define k where "k = op_add I (op_broadcast I (fips_K ! n)) x"
  have k: "ok k" "lane k i = fips_K ! n + ?W ! n"
    using word assms(1) by (simp_all add: k_def)
  have "take (Suc n) sha_rows = take n sha_rows @ [(row_order n, fips_K ! n, row_word n)]"
    using Suc.prems by (simp add: sha_rows_eq take_Suc_conv_app_nth)
  with run word have "fold (sha_row I block p) (take (Suc n) sha_rows) (H, w) =
      (sha_round I (row_order n) k v, w'')"
    by (simp add: sha_row_def k_def)
  moreover note sha_round_lane [OF assms(1) v(2,1) k(1) row_order(2,3) [of n]]
  moreover have "view (kRound (row_order n) (fips_K ! n + ?W ! n) (slice i v)) (row_order (Suc n)) =
      fips_rounds ?W (Suc n) (slice i H)"
    using view_kRound [OF _ row_order [of n], of "slice i v" "fips_K ! n" "?W ! n"] Suc.prems v
    by (simp add: row_order_Suc)
  ultimately show ?case using w'' k by auto
qed

lemma process_block_lane:
  assumes "i < way I" and "list_all ok v" and "length v = 8" and "p + 64 * way I \<le> length block"
  shows "slice i (process_block I block p v) =
      fips_compress (slice i v) (block_words (mem_slice block (p + 64 * i) 64))"
    and "list_all ok (process_block I block p v)" and "length (process_block I block p v) = 8"
proof -
  define M where "M = block_words (mem_slice block (p + 64 * i) 64)"
  have "64 * i + 64 \<le> 64 * way I" using assms(1) by simp
  then have bound: "p + 64 * i + 64 \<le> length block" using assms(4) by simp
  have M: "length M = 16" by (simp add: M_def block_words_def)
  have "lane (load I False block p 64 (4 * j)) i = M ! j" if "j < 16" for j
    using lane_load [OF assms(1), of p "4 * j" 64 block False] bound that
    by (simp add: M_def block_words_def bytes_to_word_def add.commute add.left_commute add.assoc)
  then obtain v' w' where run: "fold (sha_row I block p) (take 64 sha_rows)
        (v, replicate 16 (op_broadcast I 0)) = (v', w')"
      and v': "length v' = 8" "list_all ok v'"
        "view (slice i v') (row_order 64) = fips_rounds (fips_schedule M 48) 64 (slice i v)"
    using sha_run [OF assms(1-3), of "replicate 16 (op_broadcast I 0)" M block p 64] M
    by (auto simp: list_all_length)
  have "view (slice i v') [0..<8] = slice i v'"
    using map_nth [of "slice i v'"] v'(1) by (simp add: view_def)
  with v'(3) have fin: "slice i v' = fips_rounds (fips_schedule M 48) 64 (slice i v)"
    by (simp add: row_order_ends)
  have "take 64 sha_rows = sha_rows" by (simp add: sha_rows_eq)
  with run have pb: "process_block I block p v = map2 (op_add I) v' v"
    by (simp add: process_block_def)
  show "slice i (process_block I block p v) = fips_compress (slice i v) M"
    using assms(1,3) v'(1)
    by (intro nth_equalityI)
      (simp_all add: pb fips_compress_def fin [symmetric] list_all_ok_nth [OF assms(2)]
        list_all_ok_nth [OF v'(2)])
  show "list_all ok (process_block I block p v)"
    using assms(3) v'(1)
    by (simp add: pb list_all_length list_all_ok_nth [OF assms(2)] list_all_ok_nth [OF v'(2)])
  show "length (process_block I block p v) = 8"
    using assms(3) v'(1) by (simp add: pb)
qed

lemma trunk_loop_lane:
  assumes "i < way I" and "list_all ok v" and "length v = 8"
    and "cur + 64 * way I * count \<le> length blocks"
  shows "slice i (trunk_loop I blocks cur count v) =
      fold (\<lambda>b H. fips_compress H (block_words b))
        (map (\<lambda>k. mem_slice blocks (cur + 64 * way I * k + 64 * i) 64) [0..<count]) (slice i v) \<and>
    list_all ok (trunk_loop I blocks cur count v) \<and> length (trunk_loop I blocks cur count v) = 8"
  using assms(2-4)
proof (induction count arbitrary: cur v)
  case (Suc count)
  have "cur + 64 * way I \<le> length blocks" using Suc.prems(3) by simp
  note pb = process_block_lane [OF assms(1) Suc.prems(1,2) this]
  have "[0..<Suc count] = 0 # map Suc [0..<count]"
    by (simp add: map_Suc_upt upt_conv_Cons del: upt_Suc)
  then show ?case
    using Suc.IH [OF pb(2,3), of "cur + 64 * way I"] Suc.prems(3) pb(1)
    by (simp add: comp_def algebra_simps del: upt_Suc)
qed simp

text \<open>What lane \<open>i\<close> hashes, and the places of the eight digest words of every lane.\<close>

lemma process_trunk_lane:
  assumes "i < way I" and "64 * way I * count \<le> length blocks" and "q + 32 * way I \<le> length out"
  shows "mem_slice (process_trunk I out q blocks count) (q + 32 * i) 32 =
      concat (map (split_be 4) (fips_hash
        (map (\<lambda>k. mem_slice blocks (64 * way I * k + 64 * i) 64) [0..<count])))"
proof -
  define v where "v = trunk_loop I blocks 0 count (map (op_broadcast I) sha_iv)"
  have iv: "list_all ok (map (op_broadcast I) sha_iv)" "length (map (op_broadcast I) sha_iv) = 8"
    by (simp_all add: sha_iv_def)
  have "slice i (map (op_broadcast I) sha_iv) = sha_iv"
    using assms(1) by (simp add: slice_def comp_def)
  with trunk_loop_lane [OF assms(1) iv, of 0 count blocks] assms(2)
  have v: "slice i v = fips_hash (map (\<lambda>k. mem_slice blocks (64 * way I * k + 64 * i) 64) [0..<count])"
      and ok: "list_all ok v" and len: "length v = 8"
    by (simp_all add: v_def fips_hash_def fips_iv_eq)
  define ws where "ws = concat (map (\<lambda>j. map (\<lambda>i. (q + 4 * j + 32 * i, split_be 4 (lane (v ! j) i) :: byte list))
      [0..<way I]) [0..<8])"
  have save: "save I False (v ! j) out q 32 (4 * j) =
      blits (map (\<lambda>i. (q + 4 * j + 32 * i, split_be 4 (lane (v ! j) i))) [0..<way I]) out"
    if "j < 8" for j out
    using save_lanes [of "v ! j" False out q 32 "4 * j"] list_all_ok_nth [OF ok, of j] that len
    by (simp add: blits_def fold_map comp_def word_to_bytes_def)
  have eight: "[0..<8] = [0, 1, 2, 3, 4, 5, 6, 7 :: nat]"
    by (simp add: upt_rec)
  have trunk: "process_trunk I out q blocks count = blits ws out"
    using save [of 0] save [of 1] save [of 2] save [of 3] save [of 4] save [of 5] save [of 6] save [of 7]
    by (simp add: process_trunk_def Let_def v_def [symmetric] ws_def eight)
  have place: "q + 4 * j + 32 * k + 4 \<le> length out" if "j < 8" "k < way I" for j k
    using that assms(3) by simp
  have apart: "q + 4 * j + 32 * k + 4 \<le> q + 4 * j' + 32 * k' \<or> q + 4 * j' + 32 * k' + 4 \<le> q + 4 * j + 32 * k"
    if "j < 8" "j' < 8" "(j, k) \<noteq> (j', k')" for j j' k k' :: nat
    using that by (cases k k' rule: linorder_cases) auto
  have "mem_slice (blits ws out) (q + 4 * j + 32 * i) (length (split_be 4 (lane (v ! j) i) :: byte list)) =
      split_be 4 (lane (v ! j) i)" if "j < 8" for j
  proof (rule mem_slice_blits)
    show "\<forall>(a, bs) \<in> set ws. a + length bs \<le> length out"
      by (auto simp: ws_def intro!: place)
    show "(q + 4 * j + 32 * i, split_be 4 (lane (v ! j) i)) \<in> set ws"
      using that assms(1) by (auto simp: ws_def intro!: bexI [of _ j])
    show "\<forall>(a', bs') \<in> set ws. (a', bs') = (q + 4 * j + 32 * i, split_be 4 (lane (v ! j) i)) \<or>
        q + 4 * j + 32 * i + length (split_be 4 (lane (v ! j) i) :: byte list) \<le> a' \<or>
        a' + length bs' \<le> q + 4 * j + 32 * i"
    proof
      fix w
      assume "w \<in> set ws"
      then obtain j' k' where *: "j' < 8" "w = (q + 4 * j' + 32 * k', split_be 4 (lane (v ! j') k'))"
        by (auto simp: ws_def)
      then show "case w of (a', bs') \<Rightarrow> (a', bs') = (q + 4 * j + 32 * i, split_be 4 (lane (v ! j) i)) \<or>
          q + 4 * j + 32 * i + length (split_be 4 (lane (v ! j) i) :: byte list) \<le> a' \<or>
          a' + length bs' \<le> q + 4 * j + 32 * i"
        using apart [OF that, of j' i k'] by (cases "(j, i) = (j', k')") simp_all
    qed
  qed
  then have "concat (map (\<lambda>j. mem_slice (blits ws out) (q + 32 * i + 4 * j) 4) [0..<8]) =
      concat (map (split_be 4) (slice i v))"
    using len by (intro arg_cong [where f = concat] nth_equalityI) (simp_all add: algebra_simps)
  then show ?thesis
    using mem_slice_concat [of "blits ws out" "q + 32 * i" 4 8] by (simp add: trunk v)
qed

end

interpretation mi_sha: sha_instr "multiway_integer host_endian32 :: ('v::len word, u32) instr"
    "\<lambda>x i. mi_stub x ! i" "\<lambda>x. True"
  by unfold_locales

interpretation slow_sha: sha_instr "multiway_integer_slow w host_endian32"
    "\<lambda>x i. x ! i" "\<lambda>x. length x = w" for w
  by unfold_locales

lemma sha_instr_of_simd:
  assumes "simd X w" and "boost_endian E 4"
  shows "sha_instr (simd.vec_instr X w E) (\<lambda>x i. v_store X x ! (w - 1 - i)) (\<lambda>x. True)"
  using simd.vec_instr_contract [OF assms] by (simp add: sha_instr_def)

lemma simd_way [simp]: "simd X w \<Longrightarrow> way (simd.vec_instr X w E) = w"
  by (simp add: simd.vec_instr_def)

section \<open>Properties\<close>

text \<open>C25: with registers of class \<open>multiway_integer\<close>, for any register width and any conversions
  that behave as Boost.Endian documents, the digest of lane \<open>i\<close> is the SHA-256 state of FIPS
  180-4, most significant byte first, after the blocks at \<open>64 * way * k + 64 * i\<close>.\<close>

theorem process_trunk_multiway_integer:
  fixes I :: "('v::len word, u32) instr"
  assumes "boost_endian E 4" and "I = multiway_integer E" and "i < way I"
    and "64 * way I * count \<le> length blocks" and "q + 32 * way I \<le> length out"
  shows "mem_slice (process_trunk I out q blocks count) (q + 32 * i) 32 =
    concat (map (split_be 4) (fips_hash
      (map (\<lambda>k. mem_slice blocks (64 * way I * k + 64 * i) 64) [0..<count])))"
proof -
  have "sha_instr I (\<lambda>x i. mi_stub x ! i) (\<lambda>x. True)"
    using multiway_integer_instr [OF assms(1), where 'v = 'v] by (simp add: sha_instr_def assms(2))
  then show ?thesis by (rule sha_instr.process_trunk_lane) (rule assms(3-5))+
qed

theorem process_trunk_multiway_integer_witness:
  "mem_slice (process_trunk (multiway_integer host_endian32 :: (64 word, u32) instr)
      (replicate 64 0) 0 (replicate 128 7) 1) 32 32 =
    concat (map (split_be 4) (fips_hash [replicate 64 7]))"
proof -
  have "way (multiway_integer host_endian32 :: (64 word, u32) instr) = 2"
    by (simp add: multiway_integer_def mi_way_def)
  then show ?thesis
    using process_trunk_multiway_integer [OF host32.boost_endian_axioms refl,
        where 'v = 64 and i = 1 and q = 0 and count = 1 and blocks = "replicate 128 7" and out = "replicate 64 0"]
    by (simp add: mem_slice_def)
qed

text \<open>The portable class \<open>multiway_integer_slow\<close> gives the same digests, for any number of
  ways.\<close>

theorem process_trunk_multiway_integer_slow:
  assumes "boost_endian E 4" and "i < w"
    and "64 * w * count \<le> length blocks" and "q + 32 * w \<le> length out"
  shows "mem_slice (process_trunk (multiway_integer_slow w E) out q blocks count) (q + 32 * i) 32 =
    concat (map (split_be 4) (fips_hash
      (map (\<lambda>k. mem_slice blocks (64 * w * k + 64 * i) 64) [0..<count])))"
proof -
  have "sha_instr (multiway_integer_slow w E) (\<lambda>x i. x ! i) (\<lambda>x. length x = w)"
    using multiway_integer_slow_instr [OF assms(1)] by (simp add: sha_instr_def)
  moreover have "way (multiway_integer_slow w E) = w" by (simp add: multiway_integer_slow_def)
  ultimately show ?thesis
    using sha_instr.process_trunk_lane [of "multiway_integer_slow w E"] assms by force
qed

theorem process_trunk_multiway_integer_slow_witness:
  "mem_slice (process_trunk (multiway_integer_slow 3 host_endian32) (replicate 96 0) 0
      (replicate 192 7 @ replicate 192 9) 2) 64 32 =
    concat (map (split_be 4) (fips_hash [replicate 64 7, replicate 64 9]))"
  using process_trunk_multiway_integer_slow [OF host32.boost_endian_axioms, of 2 3 2
      "replicate 192 7 @ replicate 192 9" 0 "replicate 96 0"]
  by (simp add: mem_slice_def upt_rec)

text \<open>C15: the MMX, SSE2 and AVX2 classes give the same digests, for intrinsics that act on the
  lanes as the manual says; the set and store intrinsics number the lanes the other way
  round, which cancels.\<close>

theorem process_trunk_simd:
  assumes "boost_endian E 4"
    and "simd X w \<and> I = mi_mmx X E \<and> w = 2 \<or> simd X w \<and> I = mi_sse2 X E \<and> w = 4 \<or>
      simd X w \<and> I = mi_avx2 X E \<and> w = 8"
    and "i < w" and "64 * w * count \<le> length blocks" and "q + 32 * w \<le> length out"
  shows "mem_slice (process_trunk I out q blocks count) (q + 32 * i) 32 =
    concat (map (split_be 4) (fips_hash
      (map (\<lambda>k. mem_slice blocks (64 * w * k + 64 * i) 64) [0..<count])))"
proof -
  have simd: "simd X w" and I: "I = simd.vec_instr X w E"
    using assms(2) by (auto simp: mi_units)
  show ?thesis
    unfolding I
    using sha_instr.process_trunk_lane [OF sha_instr_of_simd [OF simd assms(1)], of i count blocks q out]
      assms(3-5) simd by simp
qed

theorem process_trunk_simd_witness:
  "mem_slice (process_trunk (mi_sse2 (register_intrinsics :: (128 word, u32) intrinsics) host_endian32)
      (replicate 128 0) 0 (replicate 256 7) 1) 96 32 =
    concat (map (split_be 4) (fips_hash [replicate 64 7]))"
  using process_trunk_simd [OF host32.boost_endian_axioms, of
      "register_intrinsics :: (128 word, u32) intrinsics" 4 "mi_sse2 register_intrinsics host_endian32"
      3 1 "replicate 256 7" 0 "replicate 128 0"] sse2.simd_axioms
  by (simp add: mem_slice_def)

lemma kernel_stores:
  assumes "16 \<le> length chunk"
  shows "sha256_process_trunk global_id chunk digest =
    blit digest (unat (global_id * 8)) (map swap_byte (fips_compress fips_iv (kernel_words global_id chunk)))"
    and "length (fips_compress fips_iv (kernel_words global_id chunk)) = 8"
proof -
  define M where "M = kernel_words global_id chunk"
  have M: "length M = 16" "M ! 0 = swap_byte (chunk ! 0) + push_bit 24 global_id"
      "\<forall>j < 16. 0 < j \<longrightarrow> M ! j = swap_byte (chunk ! j)"
    using assms by (simp_all add: M_def kernel_words_def)
  have rows: "take 64 kernel_rows = kernel_rows" by (simp add: kernel_rows_eq)
  have iv: "length sha_iv = 8" by (simp add: sha_iv_def)
  from kernel_run [OF M(1), of "(replicate 16 0)[0 := M ! 0]" sha_iv chunk 64] M(3) iv
  obtain v w' where run: "fold (kernel_row chunk) kernel_rows (sha_iv, (replicate 16 0)[0 := M ! 0]) = (v, w')"
      and v: "length v = 8" "view v (row_order 64) = fips_rounds (fips_schedule M 48) 64 sha_iv"
    by (auto simp: rows)
  have "view v (row_order 64) = v"
    using map_nth [of v] v(1) by (simp add: view_def row_order_ends)
  with v have "v = fips_rounds (fips_schedule M 48) 64 sha_iv" by simp
  then show "sha256_process_trunk global_id chunk digest =
      blit digest (unat (global_id * 8)) (map swap_byte (fips_compress fips_iv (kernel_words global_id chunk)))"
    "length (fips_compress fips_iv (kernel_words global_id chunk)) = 8"
    using run v(1) iv unfolding M_def [symmetric] fips_iv_eq
    by (simp_all add: sha256_process_trunk_def M(2) fips_compress_def)
qed

text \<open>C5: a work item of the kernel stores the words of the same compression of its chunk, the
  bytes swapped, where the first word has the work item's number added to its top byte.\<close>

theorem sha256_process_trunk_fips:
  assumes "16 \<le> length chunk" and "unat (global_id * 8) + 8 \<le> length digest"
  shows "mem_slice (sha256_process_trunk global_id chunk digest) (unat (global_id * 8)) 8 =
    map swap_byte (fips_compress fips_iv
      ((map swap_byte (take 16 chunk))[0 := swap_byte (chunk ! 0) + push_bit 24 global_id]))"
  using kernel_stores [OF assms(1), of global_id] assms(2) by (simp add: kernel_words_def)

theorem sha256_process_trunk_fips_witness:
  "mem_slice (sha256_process_trunk 1 (replicate 16 5) (replicate 16 0)) 8 8 =
    map swap_byte (fips_compress fips_iv
      ((map swap_byte (replicate 16 5))[0 := swap_byte 5 + push_bit 24 1]))"
  using sha256_process_trunk_fips [of "replicate 16 5" 1 "replicate 16 0"] by simp

end
