(* ===== verification/Keccak.thy ===== *)
theory Keccak
  imports Prelude
begin

unbundle bit_operations_syntax

text \<open>
  Keccak, \<^verbatim>\<open>src/src/hash/monero/keccak.c\<close>, \<^verbatim>\<open>keccak.h\<close> and the functions over
  it in \<^verbatim>\<open>hash.c\<close>.  The state is a list of 25 words; its bytes are theirs in the
  order of the host.  \<open>keccak\<close> can fail in two ways: it calls \<open>local_abort\<close>, which is the
  left side of the result, and its absorbing loop does not end when the block size is 0,
  which is \<open>None\<close>.  The specification is FIPS 202: the step mappings on the coordinates
  \<open>(x, y)\<close>, with the offsets and round constants computed as the standard defines them, and the
  sponge over padded blocks.
\<close>

section \<open>The permutation\<close>

definition keccakf_rndc :: "u64 list" where
  "keccakf_rndc =
    [0x0000000000000001, 0x0000000000008082, 0x800000000000808a,
     0x8000000080008000, 0x000000000000808b, 0x0000000080000001,
     0x8000000080008081, 0x8000000000008009, 0x000000000000008a,
     0x0000000000000088, 0x0000000080008009, 0x000000008000000a,
     0x000000008000808b, 0x800000000000008b, 0x8000000000008089,
     0x8000000000008003, 0x8000000000008002, 0x8000000000000080,
     0x000000000000800a, 0x800000008000000a, 0x8000000080008081,
     0x8000000000008080, 0x0000000080000001, 0x8000000080008008]"

definition keccakf_rotc :: "nat list" where
  "keccakf_rotc =
    [1,  3,  6,  10, 15, 21, 28, 36, 45, 55, 2,  14,
     27, 41, 56, 8,  25, 43, 62, 18, 39, 61, 20, 44]"

definition keccakf_piln :: "nat list" where
  "keccakf_piln =
    [10, 7,  11, 17, 18, 3, 5,  16, 8,  21, 24, 4,
     15, 23, 19, 13, 12, 2, 20, 14, 22, 9,  6,  1]"

definition ROTL64 :: "u64 \<Rightarrow> nat \<Rightarrow> u64" where
  "ROTL64 x y = push_bit y x OR drop_bit (64 - y) x"

definition keccak_theta :: "u64 list \<Rightarrow> u64 list" where
  "keccak_theta st =
    (let bc = map (\<lambda>i. st ! i XOR st ! (i + 5) XOR st ! (i + 10) XOR st ! (i + 15) XOR st ! (i + 20)) [0..<5]
     in fold (\<lambda>i st.
          let t = bc ! ((i + 4) mod 5) XOR ROTL64 (bc ! ((i + 1) mod 5)) 1
          in fold (\<lambda>j st. st[j + i := st ! (j + i) XOR t]) [0, 5, 10, 15, 20] st)
        [0..<5] st)"

definition keccak_rho_pi :: "u64 list \<Rightarrow> u64 list" where
  "keccak_rho_pi st =
    snd (fold (\<lambda>i (t, st).
      let j = keccakf_piln ! i; bc0 = st ! j
      in (bc0, st[j := ROTL64 t (keccakf_rotc ! i)])) [0..<24] (st ! 1, st))"

definition keccak_chi :: "u64 list \<Rightarrow> u64 list" where
  "keccak_chi st =
    fold (\<lambda>j st.
      let bc = map (\<lambda>i. st ! (j + i)) [0..<5]
      in fold (\<lambda>i st. st[j + i := st ! (j + i) XOR (NOT (bc ! ((i + 1) mod 5)) AND bc ! ((i + 2) mod 5))])
          [0..<5] st)
      [0, 5, 10, 15, 20] st"

definition keccak_iota :: "nat \<Rightarrow> u64 list \<Rightarrow> u64 list" where
  "keccak_iota round st = st[0 := st ! 0 XOR keccakf_rndc ! round]"

definition keccakf :: "u64 list \<Rightarrow> nat \<Rightarrow> u64 list" where
  "keccakf st rounds =
    fold (\<lambda>round st. keccak_iota round (keccak_chi (keccak_rho_pi (keccak_theta st)))) [0..<rounds] st"

section \<open>The hash\<close>

definition KECCAK_ROUNDS :: nat where "KECCAK_ROUNDS = 24"
definition HASH_DATA_AREA :: nat where "HASH_DATA_AREA = 136"
definition HASH_SIZE :: nat where "HASH_SIZE = 32"

datatype keccak_error = Bad_keccak_use

text \<open>\<open>for (i = 0; i < rsizw; i++) st[i] ^= ((uint64_t *) in)[i];\<close>\<close>

definition xor_block :: "u64 list \<Rightarrow> byte list \<Rightarrow> nat \<Rightarrow> u64 list" where
  "xor_block st inp rsizw =
    fold (\<lambda>i st. st[i := st ! i XOR join_le (mem_slice inp (8 * i) 8)]) [0..<rsizw] st"

text \<open>The bytes of the state.\<close>

definition state_bytes :: "u64 list \<Rightarrow> byte list" where
  "state_bytes st = concat (map (split_le 8) st)"

partial_function (option) absorb :: "nat \<Rightarrow> u64 list \<Rightarrow> byte list \<Rightarrow> (u64 list \<times> byte list) option" where
  "absorb rsiz st inp =
    (if rsiz \<le> length inp then absorb rsiz (keccakf (xor_block st inp (rsiz div 8)) KECCAK_ROUNDS) (drop rsiz inp)
     else Some (st, inp))"

declare absorb.simps [code]

definition keccak_pad :: "nat \<Rightarrow> byte list \<Rightarrow> byte list" where
  "keccak_pad rsiz inp =
    (let temp = blit (replicate 144 0) 0 inp;
         inlen = length inp;
         temp = temp[inlen := 1];
         inlen = inlen + 1;
         temp = blit temp inlen (replicate (rsiz - inlen) 0)
     in temp[rsiz - 1 := temp ! (rsiz - 1) OR 0x80])"

definition keccak :: "byte list \<Rightarrow> int \<Rightarrow> (keccak_error + byte list) option" where
  "keccak inp mdlen =
    (if mdlen \<le> 0 \<or> mdlen > 100 \<and> mdlen \<noteq> 200 then Some (Inl Bad_keccak_use) else
     let rsiz = (if mdlen = 200 then HASH_DATA_AREA else nat (200 - 2 * mdlen));
         rsizw = rsiz div 8
     in case absorb rsiz (replicate 25 0) inp of None \<Rightarrow> None
        | Some (st, inp) \<Rightarrow>
          (let inlen = length inp
           in if inlen + 1 \<ge> 144 \<or> inlen > rsiz \<or> rsiz - inlen + inlen + 1 \<ge> 144 \<or> rsiz = 0 \<or>
                 rsiz - 1 \<ge> 144 \<or> rsizw * 8 > 144
              then Some (Inl Bad_keccak_use) else
              let temp = keccak_pad rsiz inp;
                  st = keccakf (xor_block st temp rsizw) KECCAK_ROUNDS
              in Some (Inr (take (nat mdlen) (state_bytes st)))))"

definition keccak1600 :: "byte list \<Rightarrow> (keccak_error + byte list) option" where
  "keccak1600 inp = keccak inp 200"

section \<open>hash.c\<close>

text \<open>The union \<open>hash_state\<close> is its 200 bytes.\<close>

definition hash_permutation :: "byte list \<Rightarrow> byte list" where
  "hash_permutation state = state_bytes (keccakf (map (\<lambda>i. join_le (mem_slice state (8 * i) 8)) [0..<25]) 24)"

definition hash_process :: "byte list \<Rightarrow> (keccak_error + byte list) option" where
  "hash_process buf = keccak1600 buf"

definition cn_fast_hash :: "byte list \<Rightarrow> (keccak_error + byte list) option" where
  "cn_fast_hash data = map_option (map_sum id (take HASH_SIZE)) (hash_process data)"

section \<open>The standard\<close>

text \<open>Lane \<open>(x, y)\<close> of a state is element \<open>x + 5 y\<close>; coordinates are modulo 5.\<close>

definition lane :: "u64 list \<Rightarrow> nat \<Rightarrow> nat \<Rightarrow> u64" where
  "lane A x y = A ! (x mod 5 + 5 * (y mod 5))"

definition of_lanes :: "(nat \<Rightarrow> nat \<Rightarrow> u64) \<Rightarrow> u64 list" where
  "of_lanes f = map (\<lambda>i. f (i mod 5) (i div 5)) [0..<25]"

definition spec_theta :: "u64 list \<Rightarrow> u64 list" where
  "spec_theta A =
    (let C = map (\<lambda>x. lane A x 0 XOR lane A x 1 XOR lane A x 2 XOR lane A x 3 XOR lane A x 4) [0..<5]
     in of_lanes (\<lambda>x y. lane A x y XOR (C ! ((x + 4) mod 5) XOR word_rotl 1 (C ! ((x + 1) mod 5)))))"

text \<open>The offset of a lane: the walk \<open>(x, y) \<mapsto> (y, 2 x + 3 y)\<close> from \<open>(1, 0)\<close> gives lane \<open>t\<close> of
  it the offset \<open>(t + 1) (t + 2) / 2\<close>.\<close>

primrec rho_walk :: "nat \<Rightarrow> nat \<times> nat" where
  "rho_walk 0 = (1, 0)"
| "rho_walk (Suc t) = (let (x, y) = rho_walk t in (y, (2 * x + 3 * y) mod 5))"

definition rho_offset :: "nat \<Rightarrow> nat \<Rightarrow> nat" where
  "rho_offset x y =
    (case find (\<lambda>t. rho_walk t = (x, y)) [0..<24] of None \<Rightarrow> 0
     | Some t \<Rightarrow> (t + 1) * (t + 2) div 2 mod 64)"

definition spec_rho :: "u64 list \<Rightarrow> u64 list" where
  "spec_rho A = of_lanes (\<lambda>x y. word_rotl (rho_offset x y) (lane A x y))"

definition spec_pi :: "u64 list \<Rightarrow> u64 list" where
  "spec_pi A = of_lanes (\<lambda>x y. lane A (x + 3 * y) x)"

definition spec_chi :: "u64 list \<Rightarrow> u64 list" where
  "spec_chi A = of_lanes (\<lambda>x y. lane A x y XOR (NOT (lane A (x + 1) y) AND lane A (x + 2) y))"

text \<open>The round constants: bit \<open>2 ^ j - 1\<close> is bit \<open>j + 7 round\<close> of the sequence of the linear
  feedback shift register with polynomial \<open>x ^ 8 + x ^ 6 + x ^ 5 + x ^ 4 + 1\<close>; a round takes
  seven bits of it.\<close>

definition lfsr_step :: "byte \<Rightarrow> byte" where
  "lfsr_step R = (push_bit 1 R) XOR (if bit R 7 then 0x71 else 0)"

primrec rc_state :: "nat \<Rightarrow> byte" where
  "rc_state 0 = 1"
| "rc_state (Suc round) = (lfsr_step ^^ 7) (rc_state round)"

definition constant_of :: "byte \<Rightarrow> u64" where
  "constant_of R =
    fold (\<lambda>j r. if bit ((lfsr_step ^^ j) R) 0 then r OR push_bit (2 ^ j - 1) 1 else r) [0..<7] 0"

definition round_constant :: "nat \<Rightarrow> u64" where
  "round_constant round = constant_of (rc_state round)"

definition spec_iota :: "nat \<Rightarrow> u64 list \<Rightarrow> u64 list" where
  "spec_iota round A = of_lanes (\<lambda>x y. if x = 0 \<and> y = 0 then lane A 0 0 XOR round_constant round else lane A x y)"

definition spec_round :: "nat \<Rightarrow> u64 list \<Rightarrow> u64 list" where
  "spec_round round A = spec_iota round (spec_chi (spec_pi (spec_rho (spec_theta A))))"

definition keccak_p :: "u64 list \<Rightarrow> u64 list" where
  "keccak_p A = fold spec_round [0..<24] A"

text \<open>The sponge with \<open>r\<close> bytes of rate: a message and the bits \<open>1 0* 1\<close> in whole bytes.\<close>

definition pad101 :: "nat \<Rightarrow> nat \<Rightarrow> byte list" where
  "pad101 r n =
    (let k = r - n mod r in if k = 1 then [0x81] else 1 # replicate (k - 2) 0 @ [0x80])"

definition absorb_block :: "byte list \<Rightarrow> byte list \<Rightarrow> byte list" where
  "absorb_block S b =
    state_bytes (keccak_p (map (\<lambda>i. join_le (mem_slice (xor_list S (b @ replicate (200 - length b) 0)) (8 * i) 8)) [0..<25]))"

definition sponge :: "nat \<Rightarrow> byte list \<Rightarrow> byte list" where
  "sponge r msg =
    (let P = msg @ pad101 r (length msg)
     in fold (\<lambda>i S. absorb_block S (mem_slice P (r * i) r)) [0..<length P div r] (replicate 200 0))"

section \<open>The permutation is the standard's\<close>

lemma ROTL64_rotl: "0 < n \<Longrightarrow> n < 64 \<Longrightarrow> ROTL64 x n = word_rotl n x"
  using word_rotl_shifts [of n x] by (simp add: ROTL64_def)

lemma rotl_0: "word_rotl 0 x = (x :: u64)"
  by (rule bit_word_eqI) (simp add: bit_word_rotl_iff)

lemma list25:
  assumes "length (st :: u64 list) = 25"
  obtains a0 a1 a2 a3 a4 a5 a6 a7 a8 a9 a10 a11 a12 a13 a14 a15 a16 a17 a18 a19 a20 a21 a22 a23 a24
  where "st = [a0, a1, a2, a3, a4, a5, a6, a7, a8, a9, a10, a11, a12, a13, a14, a15, a16, a17, a18, a19,
    a20, a21, a22, a23, a24]"
  using assms by (auto simp: length_Suc_conv eval_nat_numeral)

lemma upt_25: "[0..<25] = [0, 1, 2, 3, 4, 5, 6, 7, 8, 9, 10, 11, 12, 13, 14, 15, 16, 17, 18, 19, 20, 21, 22, 23, 24 :: nat]"
  by (simp add: upt_rec)

lemma upt_24: "[0..<24] = [0, 1, 2, 3, 4, 5, 6, 7, 8, 9, 10, 11, 12, 13, 14, 15, 16, 17, 18, 19, 20, 21, 22, 23 :: nat]"
  by (simp add: upt_rec)

lemma upt_5: "[0..<5] = [0, 1, 2, 3, 4 :: nat]"
  by (simp add: upt_rec)

lemma keccak_theta_spec:
  assumes "length st = 25"
  shows "keccak_theta st = spec_theta st"
proof -
  from assms show ?thesis
    by (rule list25)
      (simp add: keccak_theta_def spec_theta_def of_lanes_def lane_def Let_def upt_5 upt_25 ROTL64_rotl
        del: upt_Suc)
qed

lemma keccak_chi_spec:
  assumes "length st = 25"
  shows "keccak_chi st = spec_chi st"
proof -
  from assms show ?thesis
    by (rule list25)
      (simp add: keccak_chi_def spec_chi_def of_lanes_def lane_def Let_def upt_5 upt_25 del: upt_Suc)
qed

lemma rho_offsets:
  "map (\<lambda>i. rho_offset (i mod 5) (i div 5)) [0..<25] =
    [0, 1, 62, 28, 27, 36, 44, 6, 55, 20, 3, 10, 43, 25, 39, 41, 45, 15, 21, 8, 18, 2, 61, 56, 14]"
  by code_simp

lemma keccak_rho_pi_spec:
  assumes "length st = 25"
  shows "keccak_rho_pi st = spec_pi (spec_rho st)"
proof -
  from assms show ?thesis
    using rho_offsets
    by (elim list25)
      (simp add: keccak_rho_pi_def spec_pi_def spec_rho_def of_lanes_def lane_def Let_def upt_24 upt_25
        keccakf_piln_def keccakf_rotc_def ROTL64_rotl rotl_0 del: upt_Suc)
qed

text \<open>The constants one after the other, to compute them all in one run of the register.\<close>

primrec constants_from :: "nat \<Rightarrow> byte \<Rightarrow> u64 list" where
  "constants_from 0 R = []"
| "constants_from (Suc n) R = constant_of R # constants_from n ((lfsr_step ^^ 7) R)"

lemma constants_from_state: "constants_from n (rc_state m) = map round_constant [m..<m + n]"
proof (induction n arbitrary: m)
  case (Suc n)
  have "constants_from n ((lfsr_step ^^ 7) (rc_state m)) = map round_constant [Suc m..<Suc m + n]"
    using Suc.IH [of "Suc m"] by (simp only: rc_state.simps)
  then show ?case
    by (simp add: round_constant_def upt_conv_Cons [of m] del: upt_Suc)
qed simp

lemma constants_computed: "constants_from 24 1 = keccakf_rndc"
  by code_simp

lemma round_constants: "map round_constant [0..<24] = keccakf_rndc"
  using constants_from_state [of 24 0] constants_computed by simp

lemma keccak_iota_spec:
  assumes "length st = 25" and "round < 24"
  shows "keccak_iota round st = spec_iota round st"
proof -
  have "keccakf_rndc ! round = round_constant round"
    unfolding round_constants [symmetric] using assms(2) by simp
  with assms(1) show ?thesis
    by (elim list25) (simp add: keccak_iota_def spec_iota_def of_lanes_def lane_def upt_25 del: upt_Suc)
qed

lemma length_of_lanes [simp]: "length (of_lanes f) = 25"
  by (simp add: of_lanes_def)

lemma length_spec_steps [simp]:
  "length (spec_theta A) = 25" "length (spec_rho A) = 25" "length (spec_pi A) = 25"
  "length (spec_chi A) = 25" "length (spec_iota r A) = 25" "length (spec_round r A) = 25"
  by (simp_all add: spec_theta_def spec_rho_def spec_pi_def spec_chi_def spec_iota_def spec_round_def Let_def)

lemma keccakf_rounds:
  assumes "length st = 25" and "n \<le> 24"
  shows "keccakf st n = fold spec_round [0..<n] st \<and> length (keccakf st n) = 25"
  using assms(2)
proof (induction n)
  case (Suc n)
  then have IH: "keccakf st n = fold spec_round [0..<n] st" "length (keccakf st n) = 25"
    by (auto simp del: fold_simps)
  have "keccakf st (Suc n) = keccak_iota n (keccak_chi (keccak_rho_pi (keccak_theta (keccakf st n))))"
    by (simp add: keccakf_def)
  also have "\<dots> = spec_round n (keccakf st n)"
    using Suc.prems IH(2)
    by (simp add: keccak_theta_spec keccak_rho_pi_spec keccak_chi_spec keccak_iota_spec spec_round_def)
  finally show ?case
    using IH(1) by simp
qed (simp add: keccakf_def assms(1))

lemma keccakf_spec: "length st = 25 \<Longrightarrow> keccakf st KECCAK_ROUNDS = keccak_p st"
  using keccakf_rounds [of st 24] by (simp add: KECCAK_ROUNDS_def keccak_p_def)

lemma length_keccakf [simp]: "length st = 25 \<Longrightarrow> length (keccakf st KECCAK_ROUNDS) = 25"
  using keccakf_rounds [of st 24] unfolding KECCAK_ROUNDS_def by blast

section \<open>Words and bytes of the state\<close>

lemma length_state_bytes [simp]: "length (state_bytes st) = 8 * length st"
  unfolding state_bytes_def by (rule length_pieces) simp

lemma words_of_state_bytes:
  assumes "n = length st"
  shows "map (\<lambda>i. join_le (mem_slice (state_bytes st) (8 * i) 8)) [0..<n] = st"
  using assms
  by (intro nth_equalityI) (simp_all add: state_bytes_def mem_slice_pieces join_split_le)

lemma length_xor_block [simp]: "n \<le> length st \<Longrightarrow> length (xor_block st inp n) = length st"
  using length_update_loop [of n st "\<lambda>i w. w XOR join_le (mem_slice inp (8 * i) 8)"]
  by (simp add: xor_block_def update_loop_def)

lemma nth_xor_block:
  assumes "n \<le> length st" and "i < length st"
  shows "xor_block st inp n ! i = (if i < n then st ! i XOR join_le (mem_slice inp (8 * i) 8) else st ! i)"
  using update_loop_nth [OF assms(1), of "\<lambda>i w. w XOR join_le (mem_slice inp (8 * i) 8)"] assms(2)
  by (simp add: xor_block_def update_loop_def)

text \<open>Adding a block to the words of the state is adding it to the bytes.\<close>

lemma xor_block_words:
  assumes "length st = 25" and "n \<le> 25" and "8 * n \<le> length inp"
  shows "map (\<lambda>i. join_le (mem_slice (xor_list (state_bytes st)
      (take (8 * n) inp @ replicate (200 - 8 * n) 0)) (8 * i) 8)) [0..<25] = xor_block st inp n"
proof (rule nth_equalityI)
  let ?B = "take (8 * n) inp @ replicate (200 - 8 * n) 0"
  fix i assume "i < length (map (\<lambda>i. join_le (mem_slice (xor_list (state_bytes st) ?B) (8 * i) 8) :: u64) [0..<25])"
  then have i: "i < 25" by simp
  have len: "length ?B = 200" using assms by simp
  have "8 * i + 8 \<le> length inp" if "i < n" using that assms(3) by simp
  then have slice: "mem_slice ?B (8 * i) 8 = (if i < n then mem_slice inp (8 * i) 8 else replicate 8 0)"
    using assms i by (cases "i < n") (auto intro!: nth_equalityI simp: nth_append)
  have "join_le (mem_slice (xor_list (state_bytes st) ?B) (8 * i) 8) =
      (join_le (mem_slice (state_bytes st) (8 * i) 8) XOR join_le (mem_slice ?B (8 * i) 8) :: u64)"
    using len assms(1) i by (simp add: mem_slice_xor_list join_le_xor_list)
  also have "join_le (mem_slice (state_bytes st) (8 * i) 8) = st ! i"
    using i assms(1) by (simp add: state_bytes_def mem_slice_pieces join_split_le)
  finally have "join_le (mem_slice (xor_list (state_bytes st) ?B) (8 * i) 8) =
      st ! i XOR (join_le (mem_slice ?B (8 * i) 8) :: u64)" .
  then show "map (\<lambda>i. join_le (mem_slice (xor_list (state_bytes st) ?B) (8 * i) 8)) [0..<25] ! i =
      xor_block st inp n ! i"
    using i assms by (simp add: nth_xor_block slice)
qed (use assms in simp)

lemma absorb_block_words:
  assumes "length st = 25" and "n \<le> 25" and "length b = 8 * n"
  shows "absorb_block (state_bytes st) b = state_bytes (keccakf (xor_block st b n) KECCAK_ROUNDS)"
  using xor_block_words [OF assms(1,2), of b] assms
  by (simp add: absorb_block_def keccakf_spec)

lemma xor_block_slice:
  assumes "n \<le> length st" and "8 * n \<le> r" and "p + r \<le> length inp"
  shows "xor_block st (mem_slice inp p r) n = xor_block st (drop p inp) n"
proof (rule nth_equalityI)
  fix i assume "i < length (xor_block st (mem_slice inp p r) n)"
  moreover have "mem_slice (mem_slice inp p r) (8 * i) 8 = mem_slice (drop p inp) (8 * i) 8" if "i < n"
    using that assms by (simp add: mem_slice_def drop_take add.commute min_def)
  ultimately show "xor_block st (mem_slice inp p r) n ! i = xor_block st (drop p inp) n ! i"
    using assms by (simp add: nth_xor_block)
qed (use assms in simp)

section \<open>The absorbing loop\<close>

text \<open>With a block size of 0 the loop does not end.\<close>

lemma absorb_zero: "absorb 0 st inp = None"
proof -
  have "r \<noteq> 0" if "absorb r st inp = Some y" for r st inp y
  proof (rule absorb.raw_induct [OF _ that])
    fix absorb' rsiz st inp y
    assume IH: "\<And>rsiz st inp y. absorb' rsiz st inp = Some y \<Longrightarrow> rsiz \<noteq> 0"
      and body: "(if rsiz \<le> length inp
        then absorb' rsiz (keccakf (xor_block st inp (rsiz div 8)) KECCAK_ROUNDS) (drop rsiz inp)
        else Some (st, inp)) = Some y"
    show "rsiz \<noteq> 0"
    proof
      assume "rsiz = 0"
      then have "absorb' rsiz (keccakf (xor_block st inp (rsiz div 8)) KECCAK_ROUNDS) (drop rsiz inp) = Some y"
        using body by simp
      with \<open>rsiz = 0\<close> IH show False by blast
    qed
  qed
  from this [of 0 st inp] show ?thesis by (cases "absorb 0 st inp") auto
qed

text \<open>With any other it takes every whole block.\<close>

definition absorbed :: "nat \<Rightarrow> nat \<Rightarrow> byte list \<Rightarrow> u64 list \<Rightarrow> u64 list" where
  "absorbed r n inp st =
    fold (\<lambda>i st. keccakf (xor_block st (drop (r * i) inp) (r div 8)) KECCAK_ROUNDS) [0..<n] st"

lemma absorbed_Suc:
  "absorbed r (Suc n) inp st =
    absorbed r n (drop r inp) (keccakf (xor_block st inp (r div 8)) KECCAK_ROUNDS)"
proof -
  have "[0..<Suc n] = 0 # map Suc [0..<n]"
    by (simp add: map_Suc_upt upt_conv_Cons del: upt_Suc)
  then show ?thesis
    by (simp add: absorbed_def fold_map comp_def add.commute del: upt_Suc)
qed

lemma absorb_blocks:
  assumes "0 < r"
  shows "absorb r st inp =
    Some (absorbed r (length inp div r) inp st, drop (r * (length inp div r)) inp)"
proof (induction "length inp div r" arbitrary: st inp)
  case 0
  then have "length inp < r" using assms by (simp add: div_eq_0_iff)
  then show ?case by (simp add: absorb.simps absorbed_def)
next
  case (Suc n)
  then have "r \<le> length inp" using assms by (metis div_less not_less old.nat.distinct(1))
  then have n: "length (drop r inp) div r = n" and "length inp div r = Suc n"
    using Suc.hyps(2) assms by (simp_all add: le_div_geq)
  then show ?case
    using Suc.hyps(1) [of "drop r inp"] \<open>r \<le> length inp\<close>
    by (subst absorb.simps) (simp add: absorbed_Suc add.commute)
qed

lemma length_absorbed [simp]:
  "length st = 25 \<Longrightarrow> r \<le> 200 \<Longrightarrow> length (absorbed r n inp st) = 25"
  by (induction n) (simp_all add: absorbed_def)

lemma absorbed_sponge:
  assumes "length st = 25" and "8 dvd r" and "r \<le> 200" and "r * n \<le> length inp" and "n \<le> m"
  shows "state_bytes (absorbed r n inp st) =
    fold (\<lambda>i S. absorb_block S (mem_slice (inp @ pad) (r * i) r)) [0..<n] (state_bytes st)"
  using assms(4)
proof (induction n)
  case (Suc n)
  let ?S = "absorbed r n inp st"
  have bound: "r * n + r \<le> length inp" using Suc.prems by simp
  have slice: "mem_slice (inp @ pad) (r * n) r = mem_slice inp (r * n) r"
    using bound by (simp add: mem_slice_def)
  have S: "length ?S = 25" using assms(1,3) by simp
  have n25: "r div 8 \<le> 25" and r8: "8 * (r div 8) = r" using assms(2,3) by auto
  have "state_bytes (absorbed r (Suc n) inp st) =
      state_bytes (keccakf (xor_block ?S (drop (r * n) inp) (r div 8)) KECCAK_ROUNDS)"
    by (simp add: absorbed_def)
  also have "xor_block ?S (drop (r * n) inp) (r div 8) = xor_block ?S (mem_slice inp (r * n) r) (r div 8)"
    using xor_block_slice [of "r div 8" ?S r "r * n" inp] S n25 r8 bound by simp
  also have "state_bytes (keccakf (xor_block ?S (mem_slice inp (r * n) r) (r div 8)) KECCAK_ROUNDS) =
      absorb_block (state_bytes ?S) (mem_slice (inp @ pad) (r * n) r)"
    unfolding slice using absorb_block_words [OF S n25, of "mem_slice inp (r * n) r"] r8 bound by simp
  finally show ?case
    using Suc by simp
qed (simp add: absorbed_def)

section \<open>Padding\<close>

lemma keccak_pad_bytes:
  assumes "length inp < r" and "r \<le> 144"
  shows "take r (keccak_pad r inp) = inp @ pad101 r (length inp)"
    and "length (keccak_pad r inp) = 144"
proof -
  let ?n = "length inp"
  define t1 where "t1 = (blit (replicate 144 0) 0 inp)[?n := 1]"
  define t2 where "t2 = blit t1 (Suc ?n) (replicate (r - Suc ?n) 0)"
  have t1: "length t1 = 144" "\<And>i. i < 144 \<Longrightarrow> t1 ! i = (if i < ?n then inp ! i else if i = ?n then 1 else 0)"
    using assms by (auto simp: t1_def nth_blit nth_list_update)
  have t2: "length t2 = 144" "\<And>i. i < 144 \<Longrightarrow> t2 ! i = (if i < ?n then inp ! i else if i = ?n then 1 else 0)"
    using assms t1 by (auto simp: t2_def nth_blit)
  have pad: "keccak_pad r inp = t2[r - 1 := t2 ! (r - 1) OR 0x80]"
    by (simp add: keccak_pad_def Let_def t2_def t1_def)
  show "length (keccak_pad r inp) = 144" by (simp add: pad t2)
  show "take r (keccak_pad r inp) = inp @ pad101 r ?n"
    using assms t2
    by (intro nth_equalityI) (auto simp: pad pad101_def Let_def nth_append nth_list_update nth_Cons')
qed

lemma pad101_mod: "0 < r \<Longrightarrow> pad101 r n = pad101 r (n mod r)"
  by (simp add: pad101_def)

lemma length_pad101:
  assumes "0 < r"
  shows "length (pad101 r n) = r - n mod r"
proof -
  define k where "k = r - n mod r"
  have "0 < k" using assms by (simp add: k_def)
  then show ?thesis by (auto simp: pad101_def Let_def k_def [symmetric])
qed

section \<open>The hash is the sponge\<close>

lemma keccak_last_block:
  assumes "length st = 25" and "8 dvd r" and "r \<le> 144" and "length inp < r"
  shows "state_bytes (keccakf (xor_block st (keccak_pad r inp) (r div 8)) KECCAK_ROUNDS) =
    absorb_block (state_bytes st) (inp @ pad101 r (length inp))"
proof -
  have n25: "r div 8 \<le> 25" and r8: "8 * (r div 8) = r" using assms(2,3) by auto
  have "xor_block st (keccak_pad r inp) (r div 8) = xor_block st (mem_slice (keccak_pad r inp) 0 r) (r div 8)"
    using xor_block_slice [of "r div 8" st r 0 "keccak_pad r inp"] assms keccak_pad_bytes(2) [OF assms(4,3)] n25 r8
    by simp
  also have "mem_slice (keccak_pad r inp) 0 r = inp @ pad101 r (length inp)"
    using keccak_pad_bytes(1) [OF assms(4,3)] by (simp add: mem_slice_def)
  finally show ?thesis
    using absorb_block_words [OF assms(1) n25, of "inp @ pad101 r (length inp)"] assms(4) r8
    by (simp add: length_pad101)
qed

lemma state_bytes_zero: "state_bytes (replicate 25 0) = replicate 200 0"
  by code_simp

text \<open>What the function does on every digest length.\<close>

lemma keccak_bad_length:
  assumes "mdlen \<le> 0 \<or> mdlen > 100 \<and> mdlen \<noteq> 200"
  shows "keccak inp mdlen = Some (Inl Bad_keccak_use)"
  unfolding keccak_def if_P [OF assms] ..

lemma keccak_100: "keccak inp 100 = None"
  unfolding keccak_def by (simp add: absorb_zero)

definition block_size :: "int \<Rightarrow> nat" where
  "block_size mdlen = (if mdlen = 200 then HASH_DATA_AREA else nat (200 - 2 * mdlen))"

lemma block_size_bounds:
  assumes "0 < mdlen" and "mdlen < 100 \<or> mdlen = 200"
  shows "0 < block_size mdlen" and "mdlen \<le> 28 \<longleftrightarrow> 143 \<le> block_size mdlen" and "block_size mdlen \<le> 200"
proof -
  consider "mdlen = 200" | "mdlen < 100" "int (block_size mdlen) = 200 - 2 * mdlen"
    using assms by (auto simp: block_size_def)
  then show "0 < block_size mdlen" and "mdlen \<le> 28 \<longleftrightarrow> 143 \<le> block_size mdlen" and "block_size mdlen \<le> 200"
    by (cases; use assms in \<open>simp add: block_size_def HASH_DATA_AREA_def\<close>; linarith?)+
qed

definition keccak_digest :: "nat \<Rightarrow> byte list \<Rightarrow> byte list" where
  "keccak_digest r inp =
    (let q = length inp div r
     in state_bytes (keccakf (xor_block (absorbed r q inp (replicate 25 0))
          (keccak_pad r (drop (r * q) inp)) (r div 8)) KECCAK_ROUNDS))"

lemma keccak_block_checks:
  fixes k r :: nat
  assumes "k < r" and "mdlen \<le> 28 \<longleftrightarrow> 143 \<le> r"
  shows "(k + 1 \<ge> 144 \<or> k > r \<or> r - k + k + 1 \<ge> 144 \<or> r = 0 \<or> r - 1 \<ge> 144 \<or> r div 8 * 8 > 144)
      \<longleftrightarrow> mdlen \<le> (28 :: int)"
  using assms by arith

lemma keccak_good_length:
  assumes "\<not> (mdlen \<le> 0 \<or> mdlen > 100 \<and> mdlen \<noteq> 200)" and "mdlen \<noteq> 100"
  shows "keccak inp mdlen = (if mdlen \<le> 28 then Some (Inl Bad_keccak_use)
    else Some (Inr (take (nat mdlen) (keccak_digest (block_size mdlen) inp))))"
proof -
  define r where "r = block_size mdlen"
  define q where "q = length inp div r"
  define k where "k = length inp - r * q"
  have r: "0 < r" and small: "mdlen \<le> 28 \<longleftrightarrow> 143 \<le> r"
    using block_size_bounds(1,2) [of mdlen] assms by (auto simp: r_def)
  have k: "k < r"
    using r by (simp add: k_def q_def minus_mult_div_eq_mod)
  show ?thesis
    unfolding keccak_def if_not_P [OF assms(1)] Let_def block_size_def [symmetric] r_def [symmetric]
      absorb_blocks [OF r] q_def [symmetric] option.case prod.case length_drop k_def [symmetric]
      keccak_block_checks [OF k small] keccak_digest_def ..
qed

lemma keccak_digest_sponge:
  assumes "8 dvd r" and "0 < r" and "r \<le> 144"
  shows "keccak_digest r inp = sponge r inp"
proof -
  define q where "q = length inp div r"
  define rest where "rest = drop (r * q) inp"
  have rest: "length rest = length inp mod r" "length rest < r"
    using assms(2) by (simp_all add: rest_def q_def minus_mult_div_eq_mod)
  have bound: "r * q \<le> length inp" by (simp add: q_def)
  let ?pad = "pad101 r (length inp)"
  have pad: "pad101 r (length rest) = ?pad"
    using pad101_mod [OF assms(2), of "length inp"] by (simp add: rest)
  have len: "length (inp @ ?pad) = r * Suc q"
    using assms(2) rest by (simp add: length_pad101 q_def minus_mod_eq_mult_div [symmetric])
  have last: "mem_slice (inp @ ?pad) (r * q) r = rest @ ?pad"
    using len bound by (simp add: mem_slice_def rest_def)
  have st: "length (absorbed r q inp (replicate 25 0)) = 25"
    using assms(3) by simp
  have "keccak_digest r inp = absorb_block (state_bytes (absorbed r q inp (replicate 25 0))) (rest @ ?pad)"
    using keccak_last_block [OF st assms(1,3) rest(2)]
    by (simp add: keccak_digest_def q_def [symmetric] rest_def [symmetric] pad)
  also have "\<dots> = fold (\<lambda>i S. absorb_block S (mem_slice (inp @ ?pad) (r * i) r)) [0..<Suc q] (replicate 200 0)"
    using absorbed_sponge [of "replicate 25 0" r q inp q ?pad] assms bound
    by (simp add: last state_bytes_zero)
  finally have "keccak_digest r inp =
      fold (\<lambda>i S. absorb_block S (mem_slice (inp @ ?pad) (r * i) r)) [0..<Suc q] (replicate 200 0)" .
  moreover have "length (inp @ ?pad) div r = Suc q"
    unfolding len using assms(2) by simp
  ultimately show ?thesis
    by (simp only: sponge_def Let_def)
qed

section \<open>Properties\<close>

text \<open>C26: with 24 rounds \<open>keccakf\<close> is the permutation of FIPS 202: the in-place loops compute
  its step mappings, and the three tables are its lane walk, offsets and shift-register
  constants.\<close>

theorem keccakf_fips202:
  assumes "length st = 25"
  shows "keccakf st 24 = keccak_p st"
  using keccakf_spec [OF assms] by (simp add: KECCAK_ROUNDS_def)

theorem keccakf_fips202_witness: "keccakf (replicate 25 5) 24 = keccak_p (replicate 25 5)"
  by (rule keccakf_fips202) simp

lemma keccak_is_sponge:
  assumes "mdlen = 200 \<or> 28 < mdlen \<and> mdlen < 100 \<and> mdlen mod 4 = 0"
  shows "keccak inp mdlen = Some (Inr (take (nat mdlen)
    (sponge (if mdlen = 200 then 136 else nat (200 - 2 * mdlen)) inp)))"
proof -
  define r where "r = block_size mdlen"
  have "8 dvd r"
  proof (cases "mdlen = 200")
    case False
    with assms obtain m where "mdlen = 4 * m" by (metis mod_0_imp_dvd dvdE)
    moreover from this have "m < 25" using assms False by simp
    ultimately have "r = 8 * nat (25 - m)" using False by (simp add: r_def block_size_def nat_diff_distrib' nat_mult_distrib)
    then show ?thesis by simp
  qed (simp add: r_def block_size_def HASH_DATA_AREA_def)
  moreover have "0 < r" and "r \<le> 144"
    using assms by (auto simp: r_def block_size_def HASH_DATA_AREA_def)
  ultimately have "keccak_digest r inp = sponge r inp"
    by (rule keccak_digest_sponge)
  with assms show ?thesis
    by (auto simp: keccak_good_length r_def block_size_def HASH_DATA_AREA_def)
qed

text \<open>C11: for every digest length with a block of whole words, \<open>keccak\<close> returns the first bytes
  of the sponge with Keccak's padding, for messages of any length.\<close>

theorem keccak_sponge:
  assumes "mdlen = 200 \<or> 28 < mdlen \<and> mdlen < 100 \<and> mdlen mod 4 = 0"
  shows "keccak inp mdlen = Some (Inr (take (nat mdlen)
    (sponge (if mdlen = 200 then 136 else nat (200 - 2 * mdlen)) inp)))"
  using assms by (rule keccak_is_sponge)

theorem keccak_sponge_witness:
  "keccak [0x61, 0x62, 0x63] 32 = Some (Inr (take 32 (sponge 136 [0x61, 0x62, 0x63])))"
  using keccak_sponge [of 32 "[0x61, 0x62, 0x63]"] by simp

lemma keccak_results:
  "(keccak inp mdlen = None) = (mdlen = 100) \<and>
   (keccak inp mdlen = Some (Inl Bad_keccak_use)) = (mdlen \<le> 28 \<or> mdlen > 100 \<and> mdlen \<noteq> 200) \<and>
   (\<exists>md. keccak inp mdlen = Some (Inr md) \<and> int (length md) = mdlen) =
     (28 < mdlen \<and> mdlen < 100 \<or> mdlen = 200)"
proof -
  consider "mdlen \<le> 0 \<or> mdlen > 100 \<and> mdlen \<noteq> 200" | "mdlen = 100"
    | "0 < mdlen" "mdlen \<le> 28" | "28 < mdlen" "mdlen < 100 \<or> mdlen = 200"
    by linarith
  then show ?thesis
  proof cases
    case 1
    with keccak_bad_length [OF 1, of inp] show ?thesis by auto
  next
    case 2
    with keccak_100 [of inp] show ?thesis by simp
  next
    case 3
    with keccak_good_length [of mdlen inp] show ?thesis by simp
  next
    case 4
    have "block_size mdlen \<le> 200"
      using 4 block_size_bounds(3) [of mdlen] by simp
    then have "length (keccak_digest (block_size mdlen) inp) = 200"
      by (simp add: keccak_digest_def Let_def div_le_mono [of _ 200 8, simplified])
    with 4 keccak_good_length [of mdlen inp] show ?thesis by auto
  qed
qed

text \<open>C33: the outcomes of \<open>keccak\<close>: it aborts for digest lengths up to 28 and for those above 100
  other than 200; for 100 the block is empty and it never returns; for every other length it
  returns a digest of that length.\<close>

theorem keccak_outcomes:
  "(keccak inp mdlen = None) = (mdlen = 100) \<and>
   (keccak inp mdlen = Some (Inl Bad_keccak_use)) = (mdlen \<le> 28 \<or> mdlen > 100 \<and> mdlen \<noteq> 200) \<and>
   (\<exists>md. keccak inp mdlen = Some (Inr md) \<and> int (length md) = mdlen) =
     (28 < mdlen \<and> mdlen < 100 \<or> mdlen = 200)"
  by (rule keccak_results)

text \<open>For digest length 30 the block is 140 bytes but only its first 17 words are mixed in,
  so that up to three bytes after the 136th do not influence the digest, nor does the final
  bit of the padding: different messages collide.\<close>

theorem keccak_30_ignores_tail:
  assumes "length x = 136" and "length y \<le> 3"
  shows "keccak (x @ y) 30 = keccak x 30"
proof -
  have digest: "keccak_digest 140 (x @ z) = state_bytes (keccakf (xor_block (replicate 25 0) x 17) KECCAK_ROUNDS)"
    if "length z \<le> 3" for z
  proof -
    have len: "length (x @ z) < 140" using assms that by simp
    have "take 136 (keccak_pad 140 (x @ z)) = x"
      using arg_cong [OF keccak_pad_bytes(1) [OF len], of "take 136"] assms(1) by simp
    then have "mem_slice (keccak_pad 140 (x @ z)) 0 136 = x"
      by (simp add: mem_slice_def)
    then have "xor_block (replicate 25 0) (keccak_pad 140 (x @ z)) 17 = xor_block (replicate 25 0) x 17"
      using xor_block_slice [of 17 "replicate 25 0" 136 0 "keccak_pad 140 (x @ z)"] keccak_pad_bytes(2) [OF len]
      by simp
    then show ?thesis
      using len by (simp add: keccak_digest_def absorbed_def)
  qed
  have size: "block_size 30 = 140" by (simp add: block_size_def)
  show ?thesis
    using digest [of y] digest [of "[]"] assms(2) by (simp add: keccak_good_length size)
qed

theorem keccak_30_ignores_tail_witness:
  "keccak (replicate 136 7 @ [1, 2]) 30 = keccak (replicate 136 7) 30"
  by (rule keccak_30_ignores_tail) simp_all

text \<open>\<open>cn_fast_hash\<close> is the first 32 bytes of the sponge with a rate of 136, which is the
  original Keccak with a 256-bit digest.\<close>

theorem cn_fast_hash_keccak256:
  "cn_fast_hash data = Some (Inr (take 32 (sponge 136 data)))"
proof -
  have "keccak_digest 136 data = sponge 136 data"
    by (rule keccak_digest_sponge) simp_all
  then show ?thesis
    by (simp add: cn_fast_hash_def hash_process_def keccak1600_def keccak_good_length block_size_def
        HASH_DATA_AREA_def HASH_SIZE_def)
qed

text \<open>\<open>hash_permutation\<close> on the bytes of a state is the permutation on its words.\<close>

theorem hash_permutation_words:
  assumes "length st = 25"
  shows "hash_permutation (state_bytes st) = state_bytes (keccak_p st)"
  using keccakf_spec [OF assms] words_of_state_bytes [of 25 st] assms
  by (simp add: hash_permutation_def KECCAK_ROUNDS_def)

theorem hash_permutation_words_witness:
  "hash_permutation (state_bytes (replicate 25 1)) = state_bytes (keccak_p (replicate 25 1))"
  by (rule hash_permutation_words) simp

end
