(* ===== verification/Aes.thy ===== *)
theory Aes
  imports Prelude
begin

unbundle bit_operations_syntax

text \<open>
  The AES rounds, twice: the byte-oriented primitives of
  \<^verbatim>\<open>src/src/hash/monero/oaes_lib.c\<close> with their tables, and the rounds of
  \<^verbatim>\<open>aesb.c\<close> on 32-bit columns with one table per row.  A block is a list of 16
  bytes.  The static helpers of \<^verbatim>\<open>oaes_lib.c\<close> check their pointer and return a code
  that none of their callers reads; every call passes the address of an array element, so
  they are functions on the bytes here.  The specification is the field of FIPS 197.
\<close>

section \<open>Tables of oaes\<close>

definition oaes_sub_byte_value :: "byte list list" where
  "oaes_sub_byte_value = [
    [0x63, 0x7c, 0x77, 0x7b, 0xf2, 0x6b, 0x6f, 0xc5, 0x30, 0x01, 0x67, 0x2b, 0xfe, 0xd7, 0xab, 0x76],
    [0xca, 0x82, 0xc9, 0x7d, 0xfa, 0x59, 0x47, 0xf0, 0xad, 0xd4, 0xa2, 0xaf, 0x9c, 0xa4, 0x72, 0xc0],
    [0xb7, 0xfd, 0x93, 0x26, 0x36, 0x3f, 0xf7, 0xcc, 0x34, 0xa5, 0xe5, 0xf1, 0x71, 0xd8, 0x31, 0x15],
    [0x04, 0xc7, 0x23, 0xc3, 0x18, 0x96, 0x05, 0x9a, 0x07, 0x12, 0x80, 0xe2, 0xeb, 0x27, 0xb2, 0x75],
    [0x09, 0x83, 0x2c, 0x1a, 0x1b, 0x6e, 0x5a, 0xa0, 0x52, 0x3b, 0xd6, 0xb3, 0x29, 0xe3, 0x2f, 0x84],
    [0x53, 0xd1, 0x00, 0xed, 0x20, 0xfc, 0xb1, 0x5b, 0x6a, 0xcb, 0xbe, 0x39, 0x4a, 0x4c, 0x58, 0xcf],
    [0xd0, 0xef, 0xaa, 0xfb, 0x43, 0x4d, 0x33, 0x85, 0x45, 0xf9, 0x02, 0x7f, 0x50, 0x3c, 0x9f, 0xa8],
    [0x51, 0xa3, 0x40, 0x8f, 0x92, 0x9d, 0x38, 0xf5, 0xbc, 0xb6, 0xda, 0x21, 0x10, 0xff, 0xf3, 0xd2],
    [0xcd, 0x0c, 0x13, 0xec, 0x5f, 0x97, 0x44, 0x17, 0xc4, 0xa7, 0x7e, 0x3d, 0x64, 0x5d, 0x19, 0x73],
    [0x60, 0x81, 0x4f, 0xdc, 0x22, 0x2a, 0x90, 0x88, 0x46, 0xee, 0xb8, 0x14, 0xde, 0x5e, 0x0b, 0xdb],
    [0xe0, 0x32, 0x3a, 0x0a, 0x49, 0x06, 0x24, 0x5c, 0xc2, 0xd3, 0xac, 0x62, 0x91, 0x95, 0xe4, 0x79],
    [0xe7, 0xc8, 0x37, 0x6d, 0x8d, 0xd5, 0x4e, 0xa9, 0x6c, 0x56, 0xf4, 0xea, 0x65, 0x7a, 0xae, 0x08],
    [0xba, 0x78, 0x25, 0x2e, 0x1c, 0xa6, 0xb4, 0xc6, 0xe8, 0xdd, 0x74, 0x1f, 0x4b, 0xbd, 0x8b, 0x8a],
    [0x70, 0x3e, 0xb5, 0x66, 0x48, 0x03, 0xf6, 0x0e, 0x61, 0x35, 0x57, 0xb9, 0x86, 0xc1, 0x1d, 0x9e],
    [0xe1, 0xf8, 0x98, 0x11, 0x69, 0xd9, 0x8e, 0x94, 0x9b, 0x1e, 0x87, 0xe9, 0xce, 0x55, 0x28, 0xdf],
    [0x8c, 0xa1, 0x89, 0x0d, 0xbf, 0xe6, 0x42, 0x68, 0x41, 0x99, 0x2d, 0x0f, 0xb0, 0x54, 0xbb, 0x16]]"

definition oaes_inv_sub_byte_value :: "byte list list" where
  "oaes_inv_sub_byte_value = [
    [0x52, 0x09, 0x6a, 0xd5, 0x30, 0x36, 0xa5, 0x38, 0xbf, 0x40, 0xa3, 0x9e, 0x81, 0xf3, 0xd7, 0xfb],
    [0x7c, 0xe3, 0x39, 0x82, 0x9b, 0x2f, 0xff, 0x87, 0x34, 0x8e, 0x43, 0x44, 0xc4, 0xde, 0xe9, 0xcb],
    [0x54, 0x7b, 0x94, 0x32, 0xa6, 0xc2, 0x23, 0x3d, 0xee, 0x4c, 0x95, 0x0b, 0x42, 0xfa, 0xc3, 0x4e],
    [0x08, 0x2e, 0xa1, 0x66, 0x28, 0xd9, 0x24, 0xb2, 0x76, 0x5b, 0xa2, 0x49, 0x6d, 0x8b, 0xd1, 0x25],
    [0x72, 0xf8, 0xf6, 0x64, 0x86, 0x68, 0x98, 0x16, 0xd4, 0xa4, 0x5c, 0xcc, 0x5d, 0x65, 0xb6, 0x92],
    [0x6c, 0x70, 0x48, 0x50, 0xfd, 0xed, 0xb9, 0xda, 0x5e, 0x15, 0x46, 0x57, 0xa7, 0x8d, 0x9d, 0x84],
    [0x90, 0xd8, 0xab, 0x00, 0x8c, 0xbc, 0xd3, 0x0a, 0xf7, 0xe4, 0x58, 0x05, 0xb8, 0xb3, 0x45, 0x06],
    [0xd0, 0x2c, 0x1e, 0x8f, 0xca, 0x3f, 0x0f, 0x02, 0xc1, 0xaf, 0xbd, 0x03, 0x01, 0x13, 0x8a, 0x6b],
    [0x3a, 0x91, 0x11, 0x41, 0x4f, 0x67, 0xdc, 0xea, 0x97, 0xf2, 0xcf, 0xce, 0xf0, 0xb4, 0xe6, 0x73],
    [0x96, 0xac, 0x74, 0x22, 0xe7, 0xad, 0x35, 0x85, 0xe2, 0xf9, 0x37, 0xe8, 0x1c, 0x75, 0xdf, 0x6e],
    [0x47, 0xf1, 0x1a, 0x71, 0x1d, 0x29, 0xc5, 0x89, 0x6f, 0xb7, 0x62, 0x0e, 0xaa, 0x18, 0xbe, 0x1b],
    [0xfc, 0x56, 0x3e, 0x4b, 0xc6, 0xd2, 0x79, 0x20, 0x9a, 0xdb, 0xc0, 0xfe, 0x78, 0xcd, 0x5a, 0xf4],
    [0x1f, 0xdd, 0xa8, 0x33, 0x88, 0x07, 0xc7, 0x31, 0xb1, 0x12, 0x10, 0x59, 0x27, 0x80, 0xec, 0x5f],
    [0x60, 0x51, 0x7f, 0xa9, 0x19, 0xb5, 0x4a, 0x0d, 0x2d, 0xe5, 0x7a, 0x9f, 0x93, 0xc9, 0x9c, 0xef],
    [0xa0, 0xe0, 0x3b, 0x4d, 0xae, 0x2a, 0xf5, 0xb0, 0xc8, 0xeb, 0xbb, 0x3c, 0x83, 0x53, 0x99, 0x61],
    [0x17, 0x2b, 0x04, 0x7e, 0xba, 0x77, 0xd6, 0x26, 0xe1, 0x69, 0x14, 0x63, 0x55, 0x21, 0x0c, 0x7d]]"

definition oaes_gf_mul_2 :: "byte list list" where
  "oaes_gf_mul_2 = [
    [0x00, 0x02, 0x04, 0x06, 0x08, 0x0a, 0x0c, 0x0e, 0x10, 0x12, 0x14, 0x16, 0x18, 0x1a, 0x1c, 0x1e],
    [0x20, 0x22, 0x24, 0x26, 0x28, 0x2a, 0x2c, 0x2e, 0x30, 0x32, 0x34, 0x36, 0x38, 0x3a, 0x3c, 0x3e],
    [0x40, 0x42, 0x44, 0x46, 0x48, 0x4a, 0x4c, 0x4e, 0x50, 0x52, 0x54, 0x56, 0x58, 0x5a, 0x5c, 0x5e],
    [0x60, 0x62, 0x64, 0x66, 0x68, 0x6a, 0x6c, 0x6e, 0x70, 0x72, 0x74, 0x76, 0x78, 0x7a, 0x7c, 0x7e],
    [0x80, 0x82, 0x84, 0x86, 0x88, 0x8a, 0x8c, 0x8e, 0x90, 0x92, 0x94, 0x96, 0x98, 0x9a, 0x9c, 0x9e],
    [0xa0, 0xa2, 0xa4, 0xa6, 0xa8, 0xaa, 0xac, 0xae, 0xb0, 0xb2, 0xb4, 0xb6, 0xb8, 0xba, 0xbc, 0xbe],
    [0xc0, 0xc2, 0xc4, 0xc6, 0xc8, 0xca, 0xcc, 0xce, 0xd0, 0xd2, 0xd4, 0xd6, 0xd8, 0xda, 0xdc, 0xde],
    [0xe0, 0xe2, 0xe4, 0xe6, 0xe8, 0xea, 0xec, 0xee, 0xf0, 0xf2, 0xf4, 0xf6, 0xf8, 0xfa, 0xfc, 0xfe],
    [0x1b, 0x19, 0x1f, 0x1d, 0x13, 0x11, 0x17, 0x15, 0x0b, 0x09, 0x0f, 0x0d, 0x03, 0x01, 0x07, 0x05],
    [0x3b, 0x39, 0x3f, 0x3d, 0x33, 0x31, 0x37, 0x35, 0x2b, 0x29, 0x2f, 0x2d, 0x23, 0x21, 0x27, 0x25],
    [0x5b, 0x59, 0x5f, 0x5d, 0x53, 0x51, 0x57, 0x55, 0x4b, 0x49, 0x4f, 0x4d, 0x43, 0x41, 0x47, 0x45],
    [0x7b, 0x79, 0x7f, 0x7d, 0x73, 0x71, 0x77, 0x75, 0x6b, 0x69, 0x6f, 0x6d, 0x63, 0x61, 0x67, 0x65],
    [0x9b, 0x99, 0x9f, 0x9d, 0x93, 0x91, 0x97, 0x95, 0x8b, 0x89, 0x8f, 0x8d, 0x83, 0x81, 0x87, 0x85],
    [0xbb, 0xb9, 0xbf, 0xbd, 0xb3, 0xb1, 0xb7, 0xb5, 0xab, 0xa9, 0xaf, 0xad, 0xa3, 0xa1, 0xa7, 0xa5],
    [0xdb, 0xd9, 0xdf, 0xdd, 0xd3, 0xd1, 0xd7, 0xd5, 0xcb, 0xc9, 0xcf, 0xcd, 0xc3, 0xc1, 0xc7, 0xc5],
    [0xfb, 0xf9, 0xff, 0xfd, 0xf3, 0xf1, 0xf7, 0xf5, 0xeb, 0xe9, 0xef, 0xed, 0xe3, 0xe1, 0xe7, 0xe5]]"

definition oaes_gf_mul_3 :: "byte list list" where
  "oaes_gf_mul_3 = [
    [0x00, 0x03, 0x06, 0x05, 0x0c, 0x0f, 0x0a, 0x09, 0x18, 0x1b, 0x1e, 0x1d, 0x14, 0x17, 0x12, 0x11],
    [0x30, 0x33, 0x36, 0x35, 0x3c, 0x3f, 0x3a, 0x39, 0x28, 0x2b, 0x2e, 0x2d, 0x24, 0x27, 0x22, 0x21],
    [0x60, 0x63, 0x66, 0x65, 0x6c, 0x6f, 0x6a, 0x69, 0x78, 0x7b, 0x7e, 0x7d, 0x74, 0x77, 0x72, 0x71],
    [0x50, 0x53, 0x56, 0x55, 0x5c, 0x5f, 0x5a, 0x59, 0x48, 0x4b, 0x4e, 0x4d, 0x44, 0x47, 0x42, 0x41],
    [0xc0, 0xc3, 0xc6, 0xc5, 0xcc, 0xcf, 0xca, 0xc9, 0xd8, 0xdb, 0xde, 0xdd, 0xd4, 0xd7, 0xd2, 0xd1],
    [0xf0, 0xf3, 0xf6, 0xf5, 0xfc, 0xff, 0xfa, 0xf9, 0xe8, 0xeb, 0xee, 0xed, 0xe4, 0xe7, 0xe2, 0xe1],
    [0xa0, 0xa3, 0xa6, 0xa5, 0xac, 0xaf, 0xaa, 0xa9, 0xb8, 0xbb, 0xbe, 0xbd, 0xb4, 0xb7, 0xb2, 0xb1],
    [0x90, 0x93, 0x96, 0x95, 0x9c, 0x9f, 0x9a, 0x99, 0x88, 0x8b, 0x8e, 0x8d, 0x84, 0x87, 0x82, 0x81],
    [0x9b, 0x98, 0x9d, 0x9e, 0x97, 0x94, 0x91, 0x92, 0x83, 0x80, 0x85, 0x86, 0x8f, 0x8c, 0x89, 0x8a],
    [0xab, 0xa8, 0xad, 0xae, 0xa7, 0xa4, 0xa1, 0xa2, 0xb3, 0xb0, 0xb5, 0xb6, 0xbf, 0xbc, 0xb9, 0xba],
    [0xfb, 0xf8, 0xfd, 0xfe, 0xf7, 0xf4, 0xf1, 0xf2, 0xe3, 0xe0, 0xe5, 0xe6, 0xef, 0xec, 0xe9, 0xea],
    [0xcb, 0xc8, 0xcd, 0xce, 0xc7, 0xc4, 0xc1, 0xc2, 0xd3, 0xd0, 0xd5, 0xd6, 0xdf, 0xdc, 0xd9, 0xda],
    [0x5b, 0x58, 0x5d, 0x5e, 0x57, 0x54, 0x51, 0x52, 0x43, 0x40, 0x45, 0x46, 0x4f, 0x4c, 0x49, 0x4a],
    [0x6b, 0x68, 0x6d, 0x6e, 0x67, 0x64, 0x61, 0x62, 0x73, 0x70, 0x75, 0x76, 0x7f, 0x7c, 0x79, 0x7a],
    [0x3b, 0x38, 0x3d, 0x3e, 0x37, 0x34, 0x31, 0x32, 0x23, 0x20, 0x25, 0x26, 0x2f, 0x2c, 0x29, 0x2a],
    [0x0b, 0x08, 0x0d, 0x0e, 0x07, 0x04, 0x01, 0x02, 0x13, 0x10, 0x15, 0x16, 0x1f, 0x1c, 0x19, 0x1a]]"

definition oaes_gf_mul_9 :: "byte list list" where
  "oaes_gf_mul_9 = [
    [0x00, 0x09, 0x12, 0x1b, 0x24, 0x2d, 0x36, 0x3f, 0x48, 0x41, 0x5a, 0x53, 0x6c, 0x65, 0x7e, 0x77],
    [0x90, 0x99, 0x82, 0x8b, 0xb4, 0xbd, 0xa6, 0xaf, 0xd8, 0xd1, 0xca, 0xc3, 0xfc, 0xf5, 0xee, 0xe7],
    [0x3b, 0x32, 0x29, 0x20, 0x1f, 0x16, 0x0d, 0x04, 0x73, 0x7a, 0x61, 0x68, 0x57, 0x5e, 0x45, 0x4c],
    [0xab, 0xa2, 0xb9, 0xb0, 0x8f, 0x86, 0x9d, 0x94, 0xe3, 0xea, 0xf1, 0xf8, 0xc7, 0xce, 0xd5, 0xdc],
    [0x76, 0x7f, 0x64, 0x6d, 0x52, 0x5b, 0x40, 0x49, 0x3e, 0x37, 0x2c, 0x25, 0x1a, 0x13, 0x08, 0x01],
    [0xe6, 0xef, 0xf4, 0xfd, 0xc2, 0xcb, 0xd0, 0xd9, 0xae, 0xa7, 0xbc, 0xb5, 0x8a, 0x83, 0x98, 0x91],
    [0x4d, 0x44, 0x5f, 0x56, 0x69, 0x60, 0x7b, 0x72, 0x05, 0x0c, 0x17, 0x1e, 0x21, 0x28, 0x33, 0x3a],
    [0xdd, 0xd4, 0xcf, 0xc6, 0xf9, 0xf0, 0xeb, 0xe2, 0x95, 0x9c, 0x87, 0x8e, 0xb1, 0xb8, 0xa3, 0xaa],
    [0xec, 0xe5, 0xfe, 0xf7, 0xc8, 0xc1, 0xda, 0xd3, 0xa4, 0xad, 0xb6, 0xbf, 0x80, 0x89, 0x92, 0x9b],
    [0x7c, 0x75, 0x6e, 0x67, 0x58, 0x51, 0x4a, 0x43, 0x34, 0x3d, 0x26, 0x2f, 0x10, 0x19, 0x02, 0x0b],
    [0xd7, 0xde, 0xc5, 0xcc, 0xf3, 0xfa, 0xe1, 0xe8, 0x9f, 0x96, 0x8d, 0x84, 0xbb, 0xb2, 0xa9, 0xa0],
    [0x47, 0x4e, 0x55, 0x5c, 0x63, 0x6a, 0x71, 0x78, 0x0f, 0x06, 0x1d, 0x14, 0x2b, 0x22, 0x39, 0x30],
    [0x9a, 0x93, 0x88, 0x81, 0xbe, 0xb7, 0xac, 0xa5, 0xd2, 0xdb, 0xc0, 0xc9, 0xf6, 0xff, 0xe4, 0xed],
    [0x0a, 0x03, 0x18, 0x11, 0x2e, 0x27, 0x3c, 0x35, 0x42, 0x4b, 0x50, 0x59, 0x66, 0x6f, 0x74, 0x7d],
    [0xa1, 0xa8, 0xb3, 0xba, 0x85, 0x8c, 0x97, 0x9e, 0xe9, 0xe0, 0xfb, 0xf2, 0xcd, 0xc4, 0xdf, 0xd6],
    [0x31, 0x38, 0x23, 0x2a, 0x15, 0x1c, 0x07, 0x0e, 0x79, 0x70, 0x6b, 0x62, 0x5d, 0x54, 0x4f, 0x46]]"

definition oaes_gf_mul_b :: "byte list list" where
  "oaes_gf_mul_b = [
    [0x00, 0x0b, 0x16, 0x1d, 0x2c, 0x27, 0x3a, 0x31, 0x58, 0x53, 0x4e, 0x45, 0x74, 0x7f, 0x62, 0x69],
    [0xb0, 0xbb, 0xa6, 0xad, 0x9c, 0x97, 0x8a, 0x81, 0xe8, 0xe3, 0xfe, 0xf5, 0xc4, 0xcf, 0xd2, 0xd9],
    [0x7b, 0x70, 0x6d, 0x66, 0x57, 0x5c, 0x41, 0x4a, 0x23, 0x28, 0x35, 0x3e, 0x0f, 0x04, 0x19, 0x12],
    [0xcb, 0xc0, 0xdd, 0xd6, 0xe7, 0xec, 0xf1, 0xfa, 0x93, 0x98, 0x85, 0x8e, 0xbf, 0xb4, 0xa9, 0xa2],
    [0xf6, 0xfd, 0xe0, 0xeb, 0xda, 0xd1, 0xcc, 0xc7, 0xae, 0xa5, 0xb8, 0xb3, 0x82, 0x89, 0x94, 0x9f],
    [0x46, 0x4d, 0x50, 0x5b, 0x6a, 0x61, 0x7c, 0x77, 0x1e, 0x15, 0x08, 0x03, 0x32, 0x39, 0x24, 0x2f],
    [0x8d, 0x86, 0x9b, 0x90, 0xa1, 0xaa, 0xb7, 0xbc, 0xd5, 0xde, 0xc3, 0xc8, 0xf9, 0xf2, 0xef, 0xe4],
    [0x3d, 0x36, 0x2b, 0x20, 0x11, 0x1a, 0x07, 0x0c, 0x65, 0x6e, 0x73, 0x78, 0x49, 0x42, 0x5f, 0x54],
    [0xf7, 0xfc, 0xe1, 0xea, 0xdb, 0xd0, 0xcd, 0xc6, 0xaf, 0xa4, 0xb9, 0xb2, 0x83, 0x88, 0x95, 0x9e],
    [0x47, 0x4c, 0x51, 0x5a, 0x6b, 0x60, 0x7d, 0x76, 0x1f, 0x14, 0x09, 0x02, 0x33, 0x38, 0x25, 0x2e],
    [0x8c, 0x87, 0x9a, 0x91, 0xa0, 0xab, 0xb6, 0xbd, 0xd4, 0xdf, 0xc2, 0xc9, 0xf8, 0xf3, 0xee, 0xe5],
    [0x3c, 0x37, 0x2a, 0x21, 0x10, 0x1b, 0x06, 0x0d, 0x64, 0x6f, 0x72, 0x79, 0x48, 0x43, 0x5e, 0x55],
    [0x01, 0x0a, 0x17, 0x1c, 0x2d, 0x26, 0x3b, 0x30, 0x59, 0x52, 0x4f, 0x44, 0x75, 0x7e, 0x63, 0x68],
    [0xb1, 0xba, 0xa7, 0xac, 0x9d, 0x96, 0x8b, 0x80, 0xe9, 0xe2, 0xff, 0xf4, 0xc5, 0xce, 0xd3, 0xd8],
    [0x7a, 0x71, 0x6c, 0x67, 0x56, 0x5d, 0x40, 0x4b, 0x22, 0x29, 0x34, 0x3f, 0x0e, 0x05, 0x18, 0x13],
    [0xca, 0xc1, 0xdc, 0xd7, 0xe6, 0xed, 0xf0, 0xfb, 0x92, 0x99, 0x84, 0x8f, 0xbe, 0xb5, 0xa8, 0xa3]]"

definition oaes_gf_mul_d :: "byte list list" where
  "oaes_gf_mul_d = [
    [0x00, 0x0d, 0x1a, 0x17, 0x34, 0x39, 0x2e, 0x23, 0x68, 0x65, 0x72, 0x7f, 0x5c, 0x51, 0x46, 0x4b],
    [0xd0, 0xdd, 0xca, 0xc7, 0xe4, 0xe9, 0xfe, 0xf3, 0xb8, 0xb5, 0xa2, 0xaf, 0x8c, 0x81, 0x96, 0x9b],
    [0xbb, 0xb6, 0xa1, 0xac, 0x8f, 0x82, 0x95, 0x98, 0xd3, 0xde, 0xc9, 0xc4, 0xe7, 0xea, 0xfd, 0xf0],
    [0x6b, 0x66, 0x71, 0x7c, 0x5f, 0x52, 0x45, 0x48, 0x03, 0x0e, 0x19, 0x14, 0x37, 0x3a, 0x2d, 0x20],
    [0x6d, 0x60, 0x77, 0x7a, 0x59, 0x54, 0x43, 0x4e, 0x05, 0x08, 0x1f, 0x12, 0x31, 0x3c, 0x2b, 0x26],
    [0xbd, 0xb0, 0xa7, 0xaa, 0x89, 0x84, 0x93, 0x9e, 0xd5, 0xd8, 0xcf, 0xc2, 0xe1, 0xec, 0xfb, 0xf6],
    [0xd6, 0xdb, 0xcc, 0xc1, 0xe2, 0xef, 0xf8, 0xf5, 0xbe, 0xb3, 0xa4, 0xa9, 0x8a, 0x87, 0x90, 0x9d],
    [0x06, 0x0b, 0x1c, 0x11, 0x32, 0x3f, 0x28, 0x25, 0x6e, 0x63, 0x74, 0x79, 0x5a, 0x57, 0x40, 0x4d],
    [0xda, 0xd7, 0xc0, 0xcd, 0xee, 0xe3, 0xf4, 0xf9, 0xb2, 0xbf, 0xa8, 0xa5, 0x86, 0x8b, 0x9c, 0x91],
    [0x0a, 0x07, 0x10, 0x1d, 0x3e, 0x33, 0x24, 0x29, 0x62, 0x6f, 0x78, 0x75, 0x56, 0x5b, 0x4c, 0x41],
    [0x61, 0x6c, 0x7b, 0x76, 0x55, 0x58, 0x4f, 0x42, 0x09, 0x04, 0x13, 0x1e, 0x3d, 0x30, 0x27, 0x2a],
    [0xb1, 0xbc, 0xab, 0xa6, 0x85, 0x88, 0x9f, 0x92, 0xd9, 0xd4, 0xc3, 0xce, 0xed, 0xe0, 0xf7, 0xfa],
    [0xb7, 0xba, 0xad, 0xa0, 0x83, 0x8e, 0x99, 0x94, 0xdf, 0xd2, 0xc5, 0xc8, 0xeb, 0xe6, 0xf1, 0xfc],
    [0x67, 0x6a, 0x7d, 0x70, 0x53, 0x5e, 0x49, 0x44, 0x0f, 0x02, 0x15, 0x18, 0x3b, 0x36, 0x21, 0x2c],
    [0x0c, 0x01, 0x16, 0x1b, 0x38, 0x35, 0x22, 0x2f, 0x64, 0x69, 0x7e, 0x73, 0x50, 0x5d, 0x4a, 0x47],
    [0xdc, 0xd1, 0xc6, 0xcb, 0xe8, 0xe5, 0xf2, 0xff, 0xb4, 0xb9, 0xae, 0xa3, 0x80, 0x8d, 0x9a, 0x97]]"

definition oaes_gf_mul_e :: "byte list list" where
  "oaes_gf_mul_e = [
    [0x00, 0x0e, 0x1c, 0x12, 0x38, 0x36, 0x24, 0x2a, 0x70, 0x7e, 0x6c, 0x62, 0x48, 0x46, 0x54, 0x5a],
    [0xe0, 0xee, 0xfc, 0xf2, 0xd8, 0xd6, 0xc4, 0xca, 0x90, 0x9e, 0x8c, 0x82, 0xa8, 0xa6, 0xb4, 0xba],
    [0xdb, 0xd5, 0xc7, 0xc9, 0xe3, 0xed, 0xff, 0xf1, 0xab, 0xa5, 0xb7, 0xb9, 0x93, 0x9d, 0x8f, 0x81],
    [0x3b, 0x35, 0x27, 0x29, 0x03, 0x0d, 0x1f, 0x11, 0x4b, 0x45, 0x57, 0x59, 0x73, 0x7d, 0x6f, 0x61],
    [0xad, 0xa3, 0xb1, 0xbf, 0x95, 0x9b, 0x89, 0x87, 0xdd, 0xd3, 0xc1, 0xcf, 0xe5, 0xeb, 0xf9, 0xf7],
    [0x4d, 0x43, 0x51, 0x5f, 0x75, 0x7b, 0x69, 0x67, 0x3d, 0x33, 0x21, 0x2f, 0x05, 0x0b, 0x19, 0x17],
    [0x76, 0x78, 0x6a, 0x64, 0x4e, 0x40, 0x52, 0x5c, 0x06, 0x08, 0x1a, 0x14, 0x3e, 0x30, 0x22, 0x2c],
    [0x96, 0x98, 0x8a, 0x84, 0xae, 0xa0, 0xb2, 0xbc, 0xe6, 0xe8, 0xfa, 0xf4, 0xde, 0xd0, 0xc2, 0xcc],
    [0x41, 0x4f, 0x5d, 0x53, 0x79, 0x77, 0x65, 0x6b, 0x31, 0x3f, 0x2d, 0x23, 0x09, 0x07, 0x15, 0x1b],
    [0xa1, 0xaf, 0xbd, 0xb3, 0x99, 0x97, 0x85, 0x8b, 0xd1, 0xdf, 0xcd, 0xc3, 0xe9, 0xe7, 0xf5, 0xfb],
    [0x9a, 0x94, 0x86, 0x88, 0xa2, 0xac, 0xbe, 0xb0, 0xea, 0xe4, 0xf6, 0xf8, 0xd2, 0xdc, 0xce, 0xc0],
    [0x7a, 0x74, 0x66, 0x68, 0x42, 0x4c, 0x5e, 0x50, 0x0a, 0x04, 0x16, 0x18, 0x32, 0x3c, 0x2e, 0x20],
    [0xec, 0xe2, 0xf0, 0xfe, 0xd4, 0xda, 0xc8, 0xc6, 0x9c, 0x92, 0x80, 0x8e, 0xa4, 0xaa, 0xb8, 0xb6],
    [0x0c, 0x02, 0x10, 0x1e, 0x34, 0x3a, 0x28, 0x26, 0x7c, 0x72, 0x60, 0x6e, 0x44, 0x4a, 0x58, 0x56],
    [0x37, 0x39, 0x2b, 0x25, 0x0f, 0x01, 0x13, 0x1d, 0x47, 0x49, 0x5b, 0x55, 0x7f, 0x71, 0x63, 0x6d],
    [0xd7, 0xd9, 0xcb, 0xc5, 0xef, 0xe1, 0xf3, 0xfd, 0xa7, 0xa9, 0xbb, 0xb5, 0x9f, 0x91, 0x83, 0x8d]]"

definition oaes_gf_8 :: "byte list" where
  "oaes_gf_8 = [0x01, 0x02, 0x04, 0x08, 0x10, 0x20, 0x40, 0x80, 0x1b, 0x36]"

section \<open>Primitives of oaes\<close>

text \<open>The lookup \<open>table[_y][_x]\<close> with the two halves of a byte.\<close>

definition lookup16 :: "byte list list \<Rightarrow> byte \<Rightarrow> byte" where
  "lookup16 table b =
    (let x = unat (b AND 0x0f); y = unat (drop_bit 4 (b AND 0xf0)) in table ! y ! x)"

definition oaes_sub_byte :: "byte \<Rightarrow> byte" where
  "oaes_sub_byte b = lookup16 oaes_sub_byte_value b"

definition oaes_inv_sub_byte :: "byte \<Rightarrow> byte" where
  "oaes_inv_sub_byte b = lookup16 oaes_inv_sub_byte_value b"

definition oaes_word_rot_left :: "byte list \<Rightarrow> byte list" where
  "oaes_word_rot_left word = (let temp = blit (replicate 4 0) 0 (mem_slice word 1 3) in temp[3 := word ! 0])"

definition oaes_shift_rows :: "byte list \<Rightarrow> byte list" where
  "oaes_shift_rows block =
    [block ! 0x00, block ! 0x05, block ! 0x0a, block ! 0x0f,
     block ! 0x04, block ! 0x09, block ! 0x0e, block ! 0x03,
     block ! 0x08, block ! 0x0d, block ! 0x02, block ! 0x07,
     block ! 0x0c, block ! 0x01, block ! 0x06, block ! 0x0b]"

definition oaes_inv_shift_rows :: "byte list \<Rightarrow> byte list" where
  "oaes_inv_shift_rows block =
    [block ! 0x00, block ! 0x0d, block ! 0x0a, block ! 0x07,
     block ! 0x04, block ! 0x01, block ! 0x0e, block ! 0x0b,
     block ! 0x08, block ! 0x05, block ! 0x02, block ! 0x0f,
     block ! 0x0c, block ! 0x09, block ! 0x06, block ! 0x03]"

definition oaes_gf_mul :: "byte \<Rightarrow> byte \<Rightarrow> byte" where
  "oaes_gf_mul left right =
    (if right = 0x02 then lookup16 oaes_gf_mul_2 left
     else if right = 0x03 then lookup16 oaes_gf_mul_3 left
     else if right = 0x09 then lookup16 oaes_gf_mul_9 left
     else if right = 0x0b then lookup16 oaes_gf_mul_b left
     else if right = 0x0d then lookup16 oaes_gf_mul_d left
     else if right = 0x0e then lookup16 oaes_gf_mul_e left
     else left)"

definition oaes_mix_cols :: "byte list \<Rightarrow> byte list" where
  "oaes_mix_cols word =
    [oaes_gf_mul (word ! 0) 0x02 XOR oaes_gf_mul (word ! 1) 0x03 XOR word ! 2 XOR word ! 3,
     word ! 0 XOR oaes_gf_mul (word ! 1) 0x02 XOR oaes_gf_mul (word ! 2) 0x03 XOR word ! 3,
     word ! 0 XOR word ! 1 XOR oaes_gf_mul (word ! 2) 0x02 XOR oaes_gf_mul (word ! 3) 0x03,
     oaes_gf_mul (word ! 0) 0x03 XOR word ! 1 XOR word ! 2 XOR oaes_gf_mul (word ! 3) 0x02]"

definition oaes_inv_mix_cols :: "byte list \<Rightarrow> byte list" where
  "oaes_inv_mix_cols word =
    [oaes_gf_mul (word ! 0) 0x0e XOR oaes_gf_mul (word ! 1) 0x0b XOR
       oaes_gf_mul (word ! 2) 0x0d XOR oaes_gf_mul (word ! 3) 0x09,
     oaes_gf_mul (word ! 0) 0x09 XOR oaes_gf_mul (word ! 1) 0x0e XOR
       oaes_gf_mul (word ! 2) 0x0b XOR oaes_gf_mul (word ! 3) 0x0d,
     oaes_gf_mul (word ! 0) 0x0d XOR oaes_gf_mul (word ! 1) 0x09 XOR
       oaes_gf_mul (word ! 2) 0x0e XOR oaes_gf_mul (word ! 3) 0x0b,
     oaes_gf_mul (word ! 0) 0x0b XOR oaes_gf_mul (word ! 1) 0x0d XOR
       oaes_gf_mul (word ! 2) 0x09 XOR oaes_gf_mul (word ! 3) 0x0e]"

text \<open>The loops and calls over a block that the rounds share: \<open>f(c + _j)\<close> for every byte, a
  column operation at \<open>c\<close>, \<open>c + 4\<close>, \<open>c + 8\<close> and \<open>c + 12\<close>, and
  \<open>c[_j] ^= k[off + _j]\<close>.\<close>

definition each_byte :: "(byte \<Rightarrow> byte) \<Rightarrow> nat \<Rightarrow> byte list \<Rightarrow> byte list" where
  "each_byte f c_len c = update_loop c_len (\<lambda>j b. f b) c"

definition each_column :: "(byte list \<Rightarrow> byte list) \<Rightarrow> byte list \<Rightarrow> byte list" where
  "each_column f c =
    fold (\<lambda>p c. blit c p (f (mem_slice c p 4))) [0, 4, 8, 12] c"

definition add_key :: "byte list \<Rightarrow> nat \<Rightarrow> nat \<Rightarrow> byte list \<Rightarrow> byte list" where
  "add_key k off c_len c = update_loop c_len (\<lambda>j b. b XOR k ! (off + j)) c"

section \<open>The rounds of aesb\<close>

definition WPOLY :: u32 where "WPOLY = 0x011b"
definition N_COLS :: nat where "N_COLS = 4"

definition sb_data :: "u32 list" where
  "sb_data = [
    0x63, 0x7c, 0x77, 0x7b, 0xf2, 0x6b, 0x6f, 0xc5, 0x30, 0x01, 0x67, 0x2b, 0xfe, 0xd7, 0xab, 0x76,
    0xca, 0x82, 0xc9, 0x7d, 0xfa, 0x59, 0x47, 0xf0, 0xad, 0xd4, 0xa2, 0xaf, 0x9c, 0xa4, 0x72, 0xc0,
    0xb7, 0xfd, 0x93, 0x26, 0x36, 0x3f, 0xf7, 0xcc, 0x34, 0xa5, 0xe5, 0xf1, 0x71, 0xd8, 0x31, 0x15,
    0x04, 0xc7, 0x23, 0xc3, 0x18, 0x96, 0x05, 0x9a, 0x07, 0x12, 0x80, 0xe2, 0xeb, 0x27, 0xb2, 0x75,
    0x09, 0x83, 0x2c, 0x1a, 0x1b, 0x6e, 0x5a, 0xa0, 0x52, 0x3b, 0xd6, 0xb3, 0x29, 0xe3, 0x2f, 0x84,
    0x53, 0xd1, 0x00, 0xed, 0x20, 0xfc, 0xb1, 0x5b, 0x6a, 0xcb, 0xbe, 0x39, 0x4a, 0x4c, 0x58, 0xcf,
    0xd0, 0xef, 0xaa, 0xfb, 0x43, 0x4d, 0x33, 0x85, 0x45, 0xf9, 0x02, 0x7f, 0x50, 0x3c, 0x9f, 0xa8,
    0x51, 0xa3, 0x40, 0x8f, 0x92, 0x9d, 0x38, 0xf5, 0xbc, 0xb6, 0xda, 0x21, 0x10, 0xff, 0xf3, 0xd2,
    0xcd, 0x0c, 0x13, 0xec, 0x5f, 0x97, 0x44, 0x17, 0xc4, 0xa7, 0x7e, 0x3d, 0x64, 0x5d, 0x19, 0x73,
    0x60, 0x81, 0x4f, 0xdc, 0x22, 0x2a, 0x90, 0x88, 0x46, 0xee, 0xb8, 0x14, 0xde, 0x5e, 0x0b, 0xdb,
    0xe0, 0x32, 0x3a, 0x0a, 0x49, 0x06, 0x24, 0x5c, 0xc2, 0xd3, 0xac, 0x62, 0x91, 0x95, 0xe4, 0x79,
    0xe7, 0xc8, 0x37, 0x6d, 0x8d, 0xd5, 0x4e, 0xa9, 0x6c, 0x56, 0xf4, 0xea, 0x65, 0x7a, 0xae, 0x08,
    0xba, 0x78, 0x25, 0x2e, 0x1c, 0xa6, 0xb4, 0xc6, 0xe8, 0xdd, 0x74, 0x1f, 0x4b, 0xbd, 0x8b, 0x8a,
    0x70, 0x3e, 0xb5, 0x66, 0x48, 0x03, 0xf6, 0x0e, 0x61, 0x35, 0x57, 0xb9, 0x86, 0xc1, 0x1d, 0x9e,
    0xe1, 0xf8, 0x98, 0x11, 0x69, 0xd9, 0x8e, 0x94, 0x9b, 0x1e, 0x87, 0xe9, 0xce, 0x55, 0x28, 0xdf,
    0x8c, 0xa1, 0x89, 0x0d, 0xbf, 0xe6, 0x42, 0x68, 0x41, 0x99, 0x2d, 0x0f, 0xb0, 0x54, 0xbb, 0x16]"

definition bytes2word :: "u32 \<Rightarrow> u32 \<Rightarrow> u32 \<Rightarrow> u32 \<Rightarrow> u32" where
  "bytes2word b0 b1 b2 b3 = push_bit 24 b3 OR push_bit 16 b2 OR push_bit 8 b1 OR b0"

definition f2 :: "u32 \<Rightarrow> u32" where
  "f2 x = push_bit 1 x XOR (drop_bit 7 x AND 1) * WPOLY"

definition f3 :: "u32 \<Rightarrow> u32" where
  "f3 x = f2 x XOR x"

definition u0 :: "u32 \<Rightarrow> u32" where "u0 p = bytes2word (f2 p) p p (f3 p)"
definition u1 :: "u32 \<Rightarrow> u32" where "u1 p = bytes2word (f3 p) (f2 p) p p"
definition u2 :: "u32 \<Rightarrow> u32" where "u2 p = bytes2word p (f3 p) (f2 p) p"
definition u3 :: "u32 \<Rightarrow> u32" where "u3 p = bytes2word p p (f3 p) (f2 p)"

definition t_fn :: "u32 list list" where
  "t_fn = [map u0 sb_data, map u1 sb_data, map u2 sb_data, map u3 sb_data]"

definition bval :: "u32 \<Rightarrow> nat \<Rightarrow> nat" where
  "bval x n = unat (drop_bit (8 * n) x AND 0xff)"

text \<open>\<open>fwd_var\<close> picks the column that row \<open>r\<close> of column \<open>c\<close> comes from.\<close>

definition fwd_var :: "u32 list \<Rightarrow> nat \<Rightarrow> nat \<Rightarrow> u32" where
  "fwd_var x r c =
    (if r = 0 then (if c = 0 then x ! 0 else if c = 1 then x ! 1 else if c = 2 then x ! 2 else x ! 3)
     else if r = 1 then (if c = 0 then x ! 1 else if c = 1 then x ! 2 else if c = 2 then x ! 3 else x ! 0)
     else if r = 2 then (if c = 0 then x ! 2 else if c = 1 then x ! 3 else if c = 2 then x ! 0 else x ! 1)
     else (if c = 0 then x ! 3 else if c = 1 then x ! 0 else if c = 2 then x ! 1 else x ! 2))"

definition four_tables :: "u32 list \<Rightarrow> u32 list list \<Rightarrow> nat \<Rightarrow> u32" where
  "four_tables x tab c =
    tab ! 0 ! bval (fwd_var x 0 c) 0 XOR
    tab ! 1 ! bval (fwd_var x 1 c) 1 XOR
    tab ! 2 ! bval (fwd_var x 2 c) 2 XOR
    tab ! 3 ! bval (fwd_var x 3 c) 3"

definition fwd_rnd :: "u32 list \<Rightarrow> u32 list \<Rightarrow> nat \<Rightarrow> u32" where
  "fwd_rnd x k c = k ! c XOR four_tables x t_fn c"

definition aes_round :: "u32 list \<Rightarrow> u32 list \<Rightarrow> u32 list" where
  "aes_round x k = [fwd_rnd x k 0, fwd_rnd x k 1, fwd_rnd x k 2, fwd_rnd x k 3]"

definition state_in :: "byte list \<Rightarrow> u32 list" where
  "state_in x = map (\<lambda>c. join_le (mem_slice x (4 * c) 4)) [0, 1, 2, 3]"

definition state_out :: "u32 list \<Rightarrow> byte list" where
  "state_out x = concat (map (\<lambda>c. split_le 4 (x ! c)) [0, 1, 2, 3])"

text \<open>The key pointer \<open>kp\<close> as words.\<close>

definition key_words :: "byte list \<Rightarrow> nat \<Rightarrow> u32 list" where
  "key_words expandedKey n = map (\<lambda>i. join_le (mem_slice expandedKey (4 * i) 4)) [0..<n]"

definition aesb_single_round :: "byte list \<Rightarrow> byte list \<Rightarrow> byte list" where
  "aesb_single_round inp expandedKey =
    (let kp = key_words expandedKey 4; b0 = state_in inp; b1 = aes_round b0 kp in state_out b1)"

definition aesb_pseudo_round :: "byte list \<Rightarrow> byte list \<Rightarrow> byte list" where
  "aesb_pseudo_round inp expandedKey =
    (let kp = key_words expandedKey 40; b0 = state_in inp;
         b1 = aes_round b0 kp;
         b0 = aes_round b1 (drop (1 * N_COLS) kp);
         b1 = aes_round b0 (drop (2 * N_COLS) kp);
         b0 = aes_round b1 (drop (3 * N_COLS) kp);
         b1 = aes_round b0 (drop (4 * N_COLS) kp);
         b0 = aes_round b1 (drop (5 * N_COLS) kp);
         b1 = aes_round b0 (drop (6 * N_COLS) kp);
         b0 = aes_round b1 (drop (7 * N_COLS) kp);
         b1 = aes_round b0 (drop (8 * N_COLS) kp);
         b0 = aes_round b1 (drop (9 * N_COLS) kp)
     in state_out b0)"

section \<open>The field of FIPS 197\<close>

definition xtime :: "byte \<Rightarrow> byte" where
  "xtime b = push_bit 1 b XOR (if bit b 7 then 0x1b else 0)"

primrec gmul_bits :: "nat \<Rightarrow> byte \<Rightarrow> byte \<Rightarrow> byte" where
  "gmul_bits 0 a b = 0"
| "gmul_bits (Suc n) a b = (if bit b 0 then a else 0) XOR gmul_bits n (xtime a) (drop_bit 1 b)"

text \<open>The product of two polynomials modulo \<open>x ^ 8 + x ^ 4 + x ^ 3 + x + 1\<close>.\<close>

definition gmul :: "byte \<Rightarrow> byte \<Rightarrow> byte" where
  "gmul a b = gmul_bits 8 a b"

definition rotl8 :: "nat \<Rightarrow> byte \<Rightarrow> byte" where
  "rotl8 n v = push_bit n v OR drop_bit (8 - n) v"

definition sbox_affine :: "byte \<Rightarrow> byte" where
  "sbox_affine v = v XOR rotl8 1 v XOR rotl8 2 v XOR rotl8 3 v XOR rotl8 4 v XOR 0x63"

definition sbox_unaffine :: "byte \<Rightarrow> byte" where
  "sbox_unaffine s = rotl8 1 s XOR rotl8 3 s XOR rotl8 6 s XOR 0x05"

text \<open>\<open>s\<close> is the S-box value of \<open>b\<close>: the affine image of the inverse, or of 0.\<close>

definition sbox_of :: "byte \<Rightarrow> byte \<Rightarrow> bool" where
  "sbox_of b s \<longleftrightarrow>
    (let v = sbox_unaffine s in sbox_affine v = s \<and> (if b = 0 then v = 0 else gmul b v = 1))"

section \<open>The tables\<close>

lemma concat_nth:
  "list_all (\<lambda>r. length r = n) t \<Longrightarrow> x < n \<Longrightarrow> y < length t \<Longrightarrow> concat t ! (n * y + x) = t ! y ! x"
proof (induction t arbitrary: y)
  case (Cons r t)
  then show ?case by (cases y) (simp_all add: nth_append)
qed simp

definition halves_ok :: "byte \<Rightarrow> bool" where
  "halves_ok b \<longleftrightarrow> unat (b AND 0x0f) = unat b mod 16 \<and> unat (drop_bit 4 (b AND 0xf0)) = unat b div 16"

lemma halves_ok_all: "list_all halves_ok all_bytes"
  by code_simp

lemma halves: "unat (b AND 0x0f) = unat b mod 16" "unat (drop_bit 4 (b AND 0xf0)) = unat (b :: byte) div 16"
  using byte_cases [OF halves_ok_all, of b] by (simp_all add: halves_ok_def)

lemma unat_byte_less: "unat (b :: byte) < 256"
  using unsigned_less [of b, where ?'a = nat] by simp

lemma lookup16_concat:
  assumes "list_all (\<lambda>r. length r = 16) t" and "length t = 16"
  shows "lookup16 t b = concat t ! unat b"
proof -
  have "unat b div 16 < length t"
    using unat_byte_less [of b] assms(2) by (simp add: less_mult_imp_div_less)
  then show ?thesis
    using concat_nth [OF assms(1), of "unat b mod 16" "unat b div 16"]
    by (simp only: lookup16_def Let_def halves mult_div_mod_eq)
qed

lemma all_bytes_nth [simp]: "map f all_bytes ! unat b = f b"
proof -
  have "[0..255 :: int] ! unat b = int (unat b)"
    using unsigned_less [of b, where ?'a = int] by (subst nth_upto) simp_all
  then show ?thesis
    using unat_byte_less [of b] by (simp add: all_bytes_def)
qed

definition mul2 :: "byte \<Rightarrow> byte" where "mul2 b = xtime b"
definition mul3 :: "byte \<Rightarrow> byte" where "mul3 b = xtime b XOR b"
definition mul9 :: "byte \<Rightarrow> byte" where "mul9 b = xtime (xtime (xtime b)) XOR b"
definition mulb :: "byte \<Rightarrow> byte" where "mulb b = xtime (xtime (xtime b)) XOR xtime b XOR b"
definition muld :: "byte \<Rightarrow> byte" where "muld b = xtime (xtime (xtime b)) XOR xtime (xtime b) XOR b"
definition mule :: "byte \<Rightarrow> byte" where "mule b = xtime (xtime (xtime b)) XOR xtime (xtime b) XOR xtime b"

lemmas mul_defs = mul2_def mul3_def mul9_def mulb_def muld_def mule_def

lemma mul_tables:
  "concat oaes_gf_mul_2 = map mul2 all_bytes" "concat oaes_gf_mul_3 = map mul3 all_bytes"
  "concat oaes_gf_mul_9 = map mul9 all_bytes" "concat oaes_gf_mul_b = map mulb all_bytes"
  "concat oaes_gf_mul_d = map muld all_bytes" "concat oaes_gf_mul_e = map mule all_bytes"
  by code_simp+

lemma table_shapes:
  "list_all (\<lambda>r. length r = 16) oaes_gf_mul_2" "length oaes_gf_mul_2 = 16"
  "list_all (\<lambda>r. length r = 16) oaes_gf_mul_3" "length oaes_gf_mul_3 = 16"
  "list_all (\<lambda>r. length r = 16) oaes_gf_mul_9" "length oaes_gf_mul_9 = 16"
  "list_all (\<lambda>r. length r = 16) oaes_gf_mul_b" "length oaes_gf_mul_b = 16"
  "list_all (\<lambda>r. length r = 16) oaes_gf_mul_d" "length oaes_gf_mul_d = 16"
  "list_all (\<lambda>r. length r = 16) oaes_gf_mul_e" "length oaes_gf_mul_e = 16"
  "list_all (\<lambda>r. length r = 16) oaes_sub_byte_value" "length oaes_sub_byte_value = 16"
  "list_all (\<lambda>r. length r = 16) oaes_inv_sub_byte_value" "length oaes_inv_sub_byte_value = 16"
  by (simp_all add: oaes_gf_mul_2_def oaes_gf_mul_3_def oaes_gf_mul_9_def oaes_gf_mul_b_def
      oaes_gf_mul_d_def oaes_gf_mul_e_def oaes_sub_byte_value_def oaes_inv_sub_byte_value_def)

lemma oaes_gf_mul_eqs:
  "oaes_gf_mul b 0x02 = mul2 b" "oaes_gf_mul b 0x03 = mul3 b" "oaes_gf_mul b 0x09 = mul9 b"
  "oaes_gf_mul b 0x0b = mulb b" "oaes_gf_mul b 0x0d = muld b" "oaes_gf_mul b 0x0e = mule b"
  by (simp_all add: oaes_gf_mul_def lookup16_concat table_shapes mul_tables)

lemma sbox_table: "list_all2 sbox_of all_bytes (concat oaes_sub_byte_value)"
  by code_simp

definition inverse_ok :: "byte list list \<Rightarrow> byte list list \<Rightarrow> byte \<Rightarrow> bool" where
  "inverse_ok t u b \<longleftrightarrow> lookup16 u (lookup16 t b) = b"

lemma inverse_ok_all: "list_all (inverse_ok oaes_sub_byte_value oaes_inv_sub_byte_value) all_bytes"
  by code_simp

lemma inv_sub_byte_sub_byte [simp]: "oaes_inv_sub_byte (oaes_sub_byte b) = b"
  using byte_cases [OF inverse_ok_all, of b] by (simp add: inverse_ok_def oaes_inv_sub_byte_def oaes_sub_byte_def)

section \<open>The columns\<close>

lemma xtime_xor: "xtime (a XOR b) = xtime a XOR xtime b"
  by (rule bit_word_eqI) (auto simp: xtime_def bit_simps)

lemma length_mix_cols [simp]: "length (oaes_mix_cols w) = 4" "length (oaes_inv_mix_cols w) = 4"
  by (simp_all add: oaes_mix_cols_def oaes_inv_mix_cols_def)

lemma xor_cancel: "a XOR (a XOR b) = (b :: byte)"
  by (simp add: xor.assoc [symmetric])

lemmas xor_normal = xor.assoc xor.commute xor.left_commute xor_cancel

lemma inv_mix_cols_mix_cols:
  assumes "length w = 4"
  shows "oaes_inv_mix_cols (oaes_mix_cols w) = w"
proof -
  obtain a b c d where w: "w = [a, b, c, d]"
    using assms by (auto simp: length_Suc_conv eval_nat_numeral)
  show ?thesis
    by (simp add: w oaes_mix_cols_def oaes_inv_mix_cols_def oaes_gf_mul_eqs mul_defs xtime_xor xor_normal)
qed

section \<open>Blocks\<close>

lemma list16:
  assumes "length c = 16"
  obtains a0 a1 a2 a3 a4 a5 a6 a7 a8 a9 a10 a11 a12 a13 a14 a15
  where "c = [a0, a1, a2, a3, a4, a5, a6, a7, a8, a9, a10, a11, a12, a13, a14, a15]"
  using assms by (auto simp: length_Suc_conv eval_nat_numeral)

lemma inv_shift_rows_shift_rows [simp]:
  assumes "length c = 16"
  shows "oaes_inv_shift_rows (oaes_shift_rows c) = c"
proof -
  obtain a0 a1 a2 a3 a4 a5 a6 a7 a8 a9 a10 a11 a12 a13 a14 a15
    where c: "c = [a0, a1, a2, a3, a4, a5, a6, a7, a8, a9, a10, a11, a12, a13, a14, a15]"
    using assms by (rule list16)
  have "oaes_shift_rows c = [a0, a5, a10, a15, a4, a9, a14, a3, a8, a13, a2, a7, a12, a1, a6, a11]"
    by (simp add: c oaes_shift_rows_def)
  then show ?thesis
    by (simp add: oaes_inv_shift_rows_def c)
qed

lemma length_shift_rows [simp]: "length (oaes_shift_rows c) = 16" "length (oaes_inv_shift_rows c) = 16"
  by (simp_all add: oaes_inv_shift_rows_def oaes_shift_rows_def)

lemma each_byte_map [simp]: "n = length c \<Longrightarrow> each_byte f n c = map f c"
  by (rule nth_equalityI) (simp_all add: each_byte_def update_loop_eq)

lemma add_key_xor:
  assumes "length c = n" and "off + n \<le> length k"
  shows "add_key k off n c = xor_list c (mem_slice k off n)"
  using assms by (intro nth_equalityI) (simp_all add: add_key_def update_loop_eq)

lemma length_add_key [simp]: "n \<le> length c \<Longrightarrow> length (add_key k off n c) = length c"
  by (simp add: add_key_def)

lemma each_column_eq:
  assumes "length c = 16" and "\<And>w. length (f w) = 4"
  shows "each_column f c = f (mem_slice c 0 4) @ f (mem_slice c 4 4) @ f (mem_slice c 8 4) @ f (mem_slice c 12 4)"
proof -
  define c1 where "c1 = blit c 0 (f (mem_slice c 0 4))"
  define c2 where "c2 = blit c1 4 (f (mem_slice c 4 4))"
  define c3 where "c3 = blit c2 8 (f (mem_slice c 8 4))"
  have len: "length c1 = 16" "length c2 = 16" "length c3 = 16"
    using assms by (simp_all add: c1_def c2_def c3_def)
  have s: "mem_slice c1 4 4 = mem_slice c 4 4" "mem_slice c2 8 4 = mem_slice c 8 4"
      "mem_slice c3 12 4 = mem_slice c 12 4"
    using assms len by (simp_all add: c1_def c2_def c3_def mem_slice_blit_disjoint)
  then have "each_column f c = blit c3 12 (f (mem_slice c 12 4))"
    by (simp add: each_column_def c1_def [symmetric] c2_def [symmetric] c3_def [symmetric])
  also have "\<dots> = f (mem_slice c 0 4) @ f (mem_slice c 4 4) @ f (mem_slice c 8 4) @ f (mem_slice c 12 4)"
    using assms(2) by (simp add: blit_def c1_def c2_def c3_def assms(1))
  finally show ?thesis .
qed

lemma each_column_inverse:
  assumes "length c = 16" and "\<And>w. length (f w) = 4" and "\<And>w. length (g w) = 4"
    and "\<And>w. length w = 4 \<Longrightarrow> g (f w) = w"
  shows "each_column g (each_column f c) = c"
proof -
  let ?C = "f (mem_slice c 0 4) @ f (mem_slice c 4 4) @ f (mem_slice c 8 4) @ f (mem_slice c 12 4)"
  have s: "mem_slice ?C 0 4 = f (mem_slice c 0 4)" "mem_slice ?C 4 4 = f (mem_slice c 4 4)"
      "mem_slice ?C 8 4 = f (mem_slice c 8 4)" "mem_slice ?C 12 4 = f (mem_slice c 12 4)"
    by (simp_all add: mem_slice_def assms(2))
  have "each_column g (each_column f c) =
      mem_slice c 0 4 @ mem_slice c 4 4 @ mem_slice c 8 4 @ mem_slice c 12 4"
    using assms by (simp add: each_column_eq s)
  also have "\<dots> = mem_slice c 0 16"
    using mem_slice_add [of c 0 4 12] mem_slice_add [of c 4 4 8] mem_slice_add [of c 8 4 4] by simp
  finally show ?thesis using assms(1) by simp
qed

lemma mix_columns_inverse [simp]:
  "length c = 16 \<Longrightarrow> each_column oaes_inv_mix_cols (each_column oaes_mix_cols c) = c"
  by (rule each_column_inverse) (simp_all add: inv_mix_cols_mix_cols)

lemma length_each_column [simp]:
  "length c = 16 \<Longrightarrow> (\<And>w. length (f w) = 4) \<Longrightarrow> length (each_column f c) = 16"
  by (simp add: each_column_eq)

lemma inv_sub_sub_bytes [simp]: "map oaes_inv_sub_byte (map oaes_sub_byte c) = c"
  by (simp add: comp_def)

lemma add_key_add_key [simp]:
  assumes "length c = n" and "off + n \<le> length k"
  shows "add_key k off n (add_key k off n c) = c"
  using assms by (simp add: add_key_xor)

section \<open>The tables of aesb hold the columns of oaes\<close>

lemma sb_data_eq: "sb_data = map ucast (concat oaes_sub_byte_value)"
  by code_simp

lemma sb_data_nth: "sb_data ! unat b = ucast (oaes_sub_byte b)"
proof -
  have "length (concat oaes_sub_byte_value) = 256"
    by (simp add: oaes_sub_byte_value_def)
  then show ?thesis
    using unat_byte_less [of b] by (simp add: sb_data_eq oaes_sub_byte_def lookup16_concat table_shapes)
qed

lemma length_sb_data: "length sb_data = 256"
  by (simp add: sb_data_def)

definition doubles_ok :: "byte \<Rightarrow> bool" where
  "doubles_ok s \<longleftrightarrow> f2 (ucast s) = ucast (xtime s)"

lemma doubles_ok_all: "list_all doubles_ok all_bytes"
  by code_simp

lemma f2_ucast: "f2 (ucast s) = ucast (mul2 s)"
  using byte_cases [OF doubles_ok_all, of s] by (simp add: doubles_ok_def mul2_def)

lemma f3_ucast: "f3 (ucast s) = ucast (mul3 s)"
  by (rule bit_word_eqI) (auto simp: f3_def f2_ucast mul2_def mul3_def bit_simps)

lemma bytes2word_ucast: "bytes2word (ucast a) (ucast b) (ucast c) (ucast d) = join_le [a, b, c, d :: byte]"
  by (simp add: bytes2word_def push_bit_or or.assoc or.commute or.left_commute)

lemma t_fn_nth:
  "t_fn ! 0 ! unat b = join_le [mul2 (oaes_sub_byte b), oaes_sub_byte b, oaes_sub_byte b, mul3 (oaes_sub_byte b)]"
  "t_fn ! 1 ! unat b = join_le [mul3 (oaes_sub_byte b), mul2 (oaes_sub_byte b), oaes_sub_byte b, oaes_sub_byte b]"
  "t_fn ! 2 ! unat b = join_le [oaes_sub_byte b, mul3 (oaes_sub_byte b), mul2 (oaes_sub_byte b), oaes_sub_byte b]"
  "t_fn ! 3 ! unat b = join_le [oaes_sub_byte b, oaes_sub_byte b, mul3 (oaes_sub_byte b), mul2 (oaes_sub_byte b)]"
  using unat_byte_less [of b]
  by (simp_all add: t_fn_def length_sb_data sb_data_nth u0_def u1_def u2_def u3_def f2_ucast f3_ucast
      bytes2word_ucast del: join_le.simps)

lemma bval_join:
  assumes "length bs = 4" and "n < 4"
  shows "bval (join_le bs) n = unat (bs ! n :: byte)"
proof -
  have "split_le 4 (join_le bs :: u32) ! n = bs ! n"
    using assms(1) by (simp add: split_join_le)
  then have "bs ! n = ucast (drop_bit (8 * n) (join_le bs :: u32))"
    using assms(2) by simp
  moreover have "unat (w AND 0xff) = unat (ucast w :: byte)" for w :: u32
  proof -
    have "w AND 0xff = take_bit 8 w"
      by (simp only: take_bit_eq_mask mask_eq_exp_minus_1) simp
    then show ?thesis by (simp add: unsigned_ucast_eq unsigned_take_bit_eq)
  qed
  ultimately show ?thesis by (simp add: bval_def)
qed

text \<open>A round on the bytes of a block.\<close>

definition byte_round :: "byte list \<Rightarrow> byte list \<Rightarrow> byte list" where
  "byte_round k c = add_key k 0 16 (each_column oaes_mix_cols (oaes_shift_rows (each_byte oaes_sub_byte 16 c)))"

lemma length_byte_round [simp]: "length c = 16 \<Longrightarrow> length (byte_round k c) = 16"
  by (simp add: byte_round_def)

lemma join_le_xor4:
  "join_le [a, b, c, d] XOR join_le [a', b', c', d'] =
    (join_le [a XOR a', b XOR b', c XOR c', d XOR d'] :: u32)"
  for a :: byte
  using join_le_xor_list [of "[a, b, c, d]" "[a', b', c', d']", where 'a = 32]
  by (simp add: xor_list_def del: join_le.simps)

lemma column_words:
  "join_le [k0, k1, k2, k3] XOR (t_fn ! 0 ! unat a XOR t_fn ! 1 ! unat b XOR t_fn ! 2 ! unat c XOR t_fn ! 3 ! unat d) =
    (join_le (xor_list (oaes_mix_cols (map oaes_sub_byte [a, b, c, d])) [k0, k1, k2, k3]) :: u32)"
  by (simp only: t_fn_nth join_le_xor4)
     (simp add: oaes_mix_cols_def oaes_gf_mul_eqs xor_list_def xor_normal del: join_le.simps)

lemma state_in_columns:
  assumes "length a = 4" and "length b = 4" and "length c = 4" and "length d = 4"
  shows "state_in (a @ b @ c @ d) = map join_le [a, b, c, d]"
  using assms by (simp add: state_in_def mem_slice_def)

lemma xor_list_append:
  "length a = 4 \<Longrightarrow> length b = 4 \<Longrightarrow> xor_list (a @ c) (b @ d) = xor_list a b @ xor_list c d"
  by (simp add: xor_list_def)

lemma length4: "length [a, b, c, d] = 4"
  by simp

lemma aes_round_bytes:
  assumes "length c = 16" and "length k = 16"
  shows "aes_round (state_in c) (state_in k) = state_in (byte_round k c)"
proof -
  obtain a0 a1 a2 a3 a4 a5 a6 a7 a8 a9 a10 a11 a12 a13 a14 a15
    where c: "c = [a0, a1, a2, a3, a4, a5, a6, a7, a8, a9, a10, a11, a12, a13, a14, a15]"
    using assms(1) by (rule list16)
  obtain k0 k1 k2 k3 k4 k5 k6 k7 k8 k9 k10 k11 k12 k13 k14 k15
    where k: "k = [k0, k1, k2, k3] @ [k4, k5, k6, k7] @ [k8, k9, k10, k11] @ [k12, k13, k14, k15]"
    using assms(2) by (rule list16) simp
  let ?m = "\<lambda>w. oaes_mix_cols (map oaes_sub_byte w)"
  have mixed: "each_column oaes_mix_cols (oaes_shift_rows (map oaes_sub_byte c)) =
      ?m [a0, a5, a10, a15] @ ?m [a4, a9, a14, a3] @ ?m [a8, a13, a2, a7] @ ?m [a12, a1, a6, a11]"
    by (simp add: each_column_eq c oaes_shift_rows_def mem_slice_def)
  have "byte_round k c =
      xor_list (?m [a0, a5, a10, a15]) [k0, k1, k2, k3] @ xor_list (?m [a4, a9, a14, a3]) [k4, k5, k6, k7] @
      xor_list (?m [a8, a13, a2, a7]) [k8, k9, k10, k11] @ xor_list (?m [a12, a1, a6, a11]) [k12, k13, k14, k15]"
    using assms by (simp add: byte_round_def mixed add_key_xor del: list.map) (simp only: k xor_list_append length_mix_cols length4)
  then have out: "state_in (byte_round k c) =
      map join_le [xor_list (?m [a0, a5, a10, a15]) [k0, k1, k2, k3], xor_list (?m [a4, a9, a14, a3]) [k4, k5, k6, k7],
        xor_list (?m [a8, a13, a2, a7]) [k8, k9, k10, k11], xor_list (?m [a12, a1, a6, a11]) [k12, k13, k14, k15]]"
    by (simp only: state_in_columns length_xor_list length_mix_cols list.size)
  have inp: "state_in c = map join_le [[a0, a1, a2, a3], [a4, a5, a6, a7], [a8, a9, a10, a11], [a12, a13, a14, a15]]"
    by (simp add: state_in_def c mem_slice_def del: join_le.simps)
  have key: "state_in k = map join_le [[k0, k1, k2, k3], [k4, k5, k6, k7], [k8, k9, k10, k11], [k12, k13, k14, k15]]"
    by (simp add: state_in_def k mem_slice_def del: join_le.simps)
  show ?thesis
    unfolding inp key out
    by (simp add: aes_round_def fwd_rnd_def four_tables_def fwd_var_def bval_join column_words [unfolded One_nat_def list.map]
        del: join_le.simps)
qed

lemma state_out_in: "length c = 16 \<Longrightarrow> state_out (state_in c) = c"
  using mem_slice_add [of c 0 4 12] mem_slice_add [of c 4 4 8] mem_slice_add [of c 8 4 4]
  by (simp add: state_out_def state_in_def split_join_le del: join_le.simps)

lemma aes_round_key:
  assumes "\<And>c. c < 4 \<Longrightarrow> k ! c = k' ! c"
  shows "aes_round x k = aes_round x k'"
  by (simp add: aes_round_def fwd_rnd_def assms)

lemma state_in_nth: "c < 4 \<Longrightarrow> 16 * i + 16 \<le> length e \<Longrightarrow>
    state_in (mem_slice e (16 * i) 16) ! c = join_le (mem_slice e (16 * i + 4 * c) 4)"
  by (auto simp: state_in_def less_Suc_eq eval_nat_numeral simp del: join_le.simps)

lemma key_words_round:
  assumes "length c = 16" and "4 * i + 4 \<le> n" and "16 * i + 16 \<le> length e"
  shows "aes_round (state_in c) (drop (4 * i) (key_words e n)) = state_in (byte_round (mem_slice e (16 * i) 16) c)"
proof -
  have "aes_round (state_in c) (drop (4 * i) (key_words e n)) = aes_round (state_in c) (state_in (mem_slice e (16 * i) 16))"
    using assms by (intro aes_round_key) (simp add: key_words_def state_in_nth distrib_left del: join_le.simps)
  also have "\<dots> = state_in (byte_round (mem_slice e (16 * i) 16) c)"
    using assms by (intro aes_round_bytes) simp_all
  finally show ?thesis .
qed

lemma aesb_single_round_bytes:
  assumes "length c = 16" and "16 \<le> length e"
  shows "aesb_single_round c e = byte_round (mem_slice e 0 16) c"
  using key_words_round [of c 0 4 e] assms by (simp add: aesb_single_round_def state_out_in)

lemma aesb_pseudo_round_bytes:
  assumes "length c = 16" and "160 \<le> length e"
  shows "aesb_pseudo_round c e = fold (\<lambda>i. byte_round (mem_slice e (16 * i) 16)) [0..<10] c"
proof -
  have r: "aes_round (state_in d) (drop n (key_words e 40)) = state_in (byte_round (mem_slice e (4 * n) 16) d)"
    if "length d = 16" and "n = 4 * i" and "i < 10" for d n i
    using key_words_round [of d i 40 e] that assms(2) by simp
  have r0: "aes_round (state_in c) (key_words e 40) = state_in (byte_round (mem_slice e 0 16) c)"
    using r [of c 0 0] assms(1) by simp
  show ?thesis
    using assms(1)
    by (simp add: aesb_pseudo_round_def N_COLS_def r0 r [of _ _ 1] r [of _ _ 2] r [of _ _ 3] r [of _ _ 4]
        r [of _ _ 5] r [of _ _ 6] r [of _ _ 7] r [of _ _ 8] r [of _ _ 9] state_out_in upt_rec)
qed

end
