(* ===== verification/Oaes.thy ===== *)
theory Oaes
  imports Aes Hex
begin

unbundle bit_operations_syntax

text \<open>
  The AES library of \<^verbatim>\<open>src/src/hash/monero/oaes_lib.c\<close>: keys, contexts, block
  encryption, and messages with header, initialization vector and padding.  A pointer
  argument that may be null is an option; a context is passed in and returned.  Whether an
  allocation succeeds is an argument, and so is the random source, a function that returns
  the next byte and its new state.  \<open>None\<close> as the result of \<open>oaes_decrypt\<close> is a read
  outside the message buffer.  \<open>size_t\<close> is 64 bits wide where it can wrap.
\<close>

datatype OAES_RET =
  OAES_RET_SUCCESS | OAES_RET_UNKNOWN | OAES_RET_ARG1 | OAES_RET_ARG2 | OAES_RET_ARG3
| OAES_RET_ARG4 | OAES_RET_ARG5 | OAES_RET_NOKEY | OAES_RET_MEM | OAES_RET_BUF | OAES_RET_HEADER

text \<open>\<open>_rc = _rc || call\<close>: the result is 0 or 1, the code of the call is lost.\<close>

definition rc_or :: "OAES_RET \<Rightarrow> OAES_RET \<Rightarrow> OAES_RET" where
  "rc_or rc call =
    (if rc \<noteq> OAES_RET_SUCCESS \<or> call \<noteq> OAES_RET_SUCCESS then OAES_RET_UNKNOWN else OAES_RET_SUCCESS)"

definition OAES_BLOCK_SIZE :: nat where "OAES_BLOCK_SIZE = 16"
definition OAES_RKEY_LEN :: nat where "OAES_RKEY_LEN = 4"
definition OAES_COL_LEN :: nat where "OAES_COL_LEN = 4"
definition OAES_ROUND_BASE :: nat where "OAES_ROUND_BASE = 7"
definition OAES_OPTION_ECB :: u16 where "OAES_OPTION_ECB = 1"
definition OAES_OPTION_CBC :: u16 where "OAES_OPTION_CBC = 2"
definition OAES_FLAG_PAD :: byte where "OAES_FLAG_PAD = 0x01"

lemmas oaes_consts = OAES_BLOCK_SIZE_def OAES_RKEY_LEN_def OAES_COL_LEN_def OAES_ROUND_BASE_def

definition oaes_header :: "byte list" where
  "oaes_header = [0x4f, 0x41, 0x45, 0x53, 0x01, 0x02, 0x00, 0x00, 0x00, 0x00, 0x00, 0x00, 0x00, 0x00, 0x00, 0x00]"

record oaes_key =
  data_len :: nat
  key_data :: "byte list"
  exp_data_len :: nat
  exp_data :: "byte list"
  num_keys :: nat
  key_base :: nat

record oaes_ctx =
  ctx_key :: "oaes_key option"
  options :: u16
  iv :: "byte list"

section \<open>Printing\<close>

definition oaes_sprintf_text :: "byte list \<Rightarrow> byte list" where
  "oaes_sprintf_text data =
    concat (map (\<lambda>i.
      [HEX_STRING_LOWER ! unat (drop_bit 4 (data ! i)), HEX_STRING_LOWER ! unat (data ! i AND 0xF), 0x20] @
      (if i \<noteq> 0 \<and> (i + 1) mod OAES_BLOCK_SIZE = 0 then [0x0a] else [])) [0..<length data])"

text \<open>The string is built in the buffer and ends with a zero byte.\<close>

definition oaes_sprintf :: "byte list option \<Rightarrow> nat option \<Rightarrow> byte list option \<Rightarrow> nat \<Rightarrow>
    OAES_RET \<times> byte list option \<times> nat option" where
  "oaes_sprintf buf buf_len data dlen =
    (case buf_len of None \<Rightarrow> (OAES_RET_ARG2, buf, buf_len)
     | Some buf_len_in \<Rightarrow>
      let len = dlen * 3 + dlen div OAES_BLOCK_SIZE + 1
      in case buf of None \<Rightarrow> (OAES_RET_SUCCESS, buf, Some len)
         | Some b \<Rightarrow>
          if len > buf_len_in then (OAES_RET_BUF, buf, Some len) else
          case data of None \<Rightarrow> (OAES_RET_ARG3, buf, Some len)
          | Some d \<Rightarrow>
            (OAES_RET_SUCCESS, Some (blit b 0 (oaes_sprintf_text (take dlen d) @ [0])), Some len))"

section \<open>Keys\<close>

definition oaes_key_destroy :: "oaes_key option \<Rightarrow> OAES_RET \<times> oaes_key option" where
  "oaes_key_destroy key = (case key of None \<Rightarrow> (OAES_RET_SUCCESS, None) | Some k \<Rightarrow> (OAES_RET_SUCCESS, None))"

text \<open>One pass of the loop of \<open>oaes_key_expand\<close>: column \<open>i\<close> of the expanded key.\<close>

definition expand_temp :: "nat \<Rightarrow> nat \<Rightarrow> byte list \<Rightarrow> byte list" where
  "expand_temp kb i temp =
    (if i mod kb = 0 then
       let temp = each_byte oaes_sub_byte OAES_COL_LEN (oaes_word_rot_left temp)
       in temp[0 := temp ! 0 XOR oaes_gf_8 ! (i div kb - 1)]
     else if kb > 6 \<and> i mod kb = 4 then each_byte oaes_sub_byte OAES_COL_LEN temp
     else temp)"

definition expand_column :: "nat \<Rightarrow> nat \<Rightarrow> byte list \<Rightarrow> byte list" where
  "expand_column kb i exp =
    (let temp = mem_slice exp ((i - 1) * OAES_RKEY_LEN) OAES_COL_LEN;
         temp = expand_temp kb i temp
     in fold (\<lambda>j exp. exp[i * OAES_RKEY_LEN + j := exp ! ((i - kb) * OAES_RKEY_LEN + j) XOR temp ! j])
          [0..<OAES_COL_LEN] exp)"

definition oaes_key_expand :: "bool \<Rightarrow> oaes_ctx option \<Rightarrow> OAES_RET \<times> oaes_ctx option" where
  "oaes_key_expand mem ctx =
    (case ctx of None \<Rightarrow> (OAES_RET_ARG1, ctx)
     | Some c \<Rightarrow>
      (case ctx_key c of None \<Rightarrow> (OAES_RET_NOKEY, ctx)
       | Some k \<Rightarrow>
        let kb = data_len k div OAES_RKEY_LEN;
            nk = kb + OAES_ROUND_BASE;
            elen = nk * OAES_RKEY_LEN * OAES_COL_LEN;
            k = k\<lparr>key_base := kb, num_keys := nk, exp_data_len := elen\<rparr>
        in if \<not> mem then (OAES_RET_MEM, Some (c\<lparr>ctx_key := Some k\<rparr>)) else
           let exp = blit (replicate elen 0) 0 (take (data_len k) (key_data k));
               exp = fold (expand_column kb) [kb..<nk * OAES_RKEY_LEN] exp
           in (OAES_RET_SUCCESS, Some (c\<lparr>ctx_key := Some (k\<lparr>exp_data := exp\<rparr>)\<rparr>))))"

text \<open>The part that the three ways to set a key share: a new key with its data, expanded, or
  none when an allocation fails.  The allocations are those of the key, its data and the
  expanded data.\<close>

definition empty_key :: oaes_key where
  "empty_key = \<lparr>data_len = 0, key_data = [], exp_data_len = 0, exp_data = [], num_keys = 0, key_base = 0\<rparr>"

definition install_key :: "bool \<Rightarrow> oaes_ctx \<Rightarrow> oaes_key \<Rightarrow> OAES_RET \<times> oaes_ctx option" where
  "install_key mem3 c k =
    (let (r, ctx) = oaes_key_expand mem3 (Some (c\<lparr>ctx_key := Some k\<rparr>));
         rc = rc_or OAES_RET_SUCCESS r
     in if rc \<noteq> OAES_RET_SUCCESS
        then (rc, map_option (\<lambda>c. c\<lparr>ctx_key := snd (oaes_key_destroy (ctx_key c))\<rparr>) ctx)
        else (OAES_RET_SUCCESS, ctx))"

primrec draw :: "('r \<Rightarrow> byte \<times> 'r) \<Rightarrow> nat \<Rightarrow> 'r \<Rightarrow> byte list \<times> 'r" where
  "draw rand 0 r = ([], r)"
| "draw rand (Suc n) r = (let (b, r) = rand r; (bs, r) = draw rand n r in (b # bs, r))"

definition oaes_key_gen :: "('r \<Rightarrow> byte \<times> 'r) \<Rightarrow> 'r \<Rightarrow> bool \<Rightarrow> bool \<Rightarrow> bool \<Rightarrow> oaes_ctx option \<Rightarrow> nat \<Rightarrow>
    OAES_RET \<times> oaes_ctx option \<times> 'r" where
  "oaes_key_gen rand r mem1 mem2 mem3 ctx key_size =
    (case ctx of None \<Rightarrow> (OAES_RET_ARG1, ctx, r)
     | Some c \<Rightarrow>
      if \<not> mem1 then (OAES_RET_MEM, ctx, r) else
      let c = (case ctx_key c of None \<Rightarrow> c | Some k \<Rightarrow> c\<lparr>ctx_key := snd (oaes_key_destroy (ctx_key c))\<rparr>)
      in if \<not> mem2 then (OAES_RET_MEM, Some c, r) else
         let (bytes, r) = draw rand key_size r;
             (rc, ctx) = install_key mem3 c (empty_key\<lparr>data_len := key_size, key_data := bytes\<rparr>)
         in (rc, ctx, r))"

definition oaes_key_gen_128 where
  "oaes_key_gen_128 rand r mem1 mem2 mem3 ctx = oaes_key_gen rand r mem1 mem2 mem3 ctx 16"

definition oaes_key_gen_192 where
  "oaes_key_gen_192 rand r mem1 mem2 mem3 ctx = oaes_key_gen rand r mem1 mem2 mem3 ctx 24"

definition oaes_key_gen_256 where
  "oaes_key_gen_256 rand r mem1 mem2 mem3 ctx = oaes_key_gen rand r mem1 mem2 mem3 ctx 32"

definition oaes_key_export :: "oaes_ctx option \<Rightarrow> byte list option \<Rightarrow> nat option \<Rightarrow>
    OAES_RET \<times> byte list option \<times> nat option" where
  "oaes_key_export ctx data dlen =
    (case ctx of None \<Rightarrow> (OAES_RET_ARG1, data, dlen)
     | Some c \<Rightarrow>
      (case ctx_key c of None \<Rightarrow> (OAES_RET_NOKEY, data, dlen)
       | Some k \<Rightarrow>
        (case dlen of None \<Rightarrow> (OAES_RET_ARG3, data, dlen)
         | Some len_in \<Rightarrow>
          let len = data_len k + OAES_BLOCK_SIZE
          in (case data of None \<Rightarrow> (OAES_RET_SUCCESS, data, Some len)
              | Some d \<Rightarrow>
                if len_in < len then (OAES_RET_BUF, data, Some len) else
                let d = blit d 0 oaes_header;
                    d = d[5 := 0x01];
                    d = d[7 := of_nat (data_len k)];
                    d = blit d OAES_BLOCK_SIZE (take (data_len k) (key_data k))
                in (OAES_RET_SUCCESS, Some d, Some len)))))"

definition oaes_key_export_data :: "oaes_ctx option \<Rightarrow> byte list option \<Rightarrow> nat option \<Rightarrow>
    OAES_RET \<times> byte list option \<times> nat option" where
  "oaes_key_export_data ctx data dlen =
    (case ctx of None \<Rightarrow> (OAES_RET_ARG1, data, dlen)
     | Some c \<Rightarrow>
      (case ctx_key c of None \<Rightarrow> (OAES_RET_NOKEY, data, dlen)
       | Some k \<Rightarrow>
        (case dlen of None \<Rightarrow> (OAES_RET_ARG3, data, dlen)
         | Some len_in \<Rightarrow>
          let len = data_len k
          in (case data of None \<Rightarrow> (OAES_RET_SUCCESS, data, Some len)
              | Some d \<Rightarrow>
                if len_in < len then (OAES_RET_BUF, data, Some len) else
                (OAES_RET_SUCCESS, Some (blit d 0 (take len (key_data k))), Some len)))))"

text \<open>The end of both imports: the old key goes, the new one is allocated and expanded.\<close>

definition replace_key :: "bool \<Rightarrow> bool \<Rightarrow> bool \<Rightarrow> oaes_ctx \<Rightarrow> byte list \<Rightarrow> nat \<Rightarrow> OAES_RET \<times> oaes_ctx option" where
  "replace_key mem1 mem2 mem3 c bytes key_length =
    (let c = (case ctx_key c of None \<Rightarrow> c | Some k \<Rightarrow> c\<lparr>ctx_key := snd (oaes_key_destroy (ctx_key c))\<rparr>)
     in if \<not> mem1 then (OAES_RET_MEM, Some (c\<lparr>ctx_key := None\<rparr>)) else
        let k = empty_key\<lparr>data_len := key_length\<rparr>
        in if \<not> mem2 then (OAES_RET_MEM, Some (c\<lparr>ctx_key := snd (oaes_key_destroy (Some k))\<rparr>)) else
           install_key mem3 c (k\<lparr>key_data := bytes\<rparr>))"

definition oaes_key_import :: "bool \<Rightarrow> bool \<Rightarrow> bool \<Rightarrow> oaes_ctx option \<Rightarrow> byte list option \<Rightarrow> nat \<Rightarrow>
    OAES_RET \<times> oaes_ctx option" where
  "oaes_key_import mem1 mem2 mem3 ctx data dlen =
    (case ctx of None \<Rightarrow> (OAES_RET_ARG1, ctx)
     | Some c \<Rightarrow>
      (case data of None \<Rightarrow> (OAES_RET_ARG2, ctx)
       | Some d \<Rightarrow>
        if dlen \<noteq> 16 + OAES_BLOCK_SIZE \<and> dlen \<noteq> 24 + OAES_BLOCK_SIZE \<and> dlen \<noteq> 32 + OAES_BLOCK_SIZE
        then (OAES_RET_ARG3, ctx)
        else if take 4 d \<noteq> take 4 oaes_header then (OAES_RET_HEADER, ctx)
        else if d ! 4 \<noteq> 0x01 then (OAES_RET_HEADER, ctx)
        else if d ! 5 \<noteq> 0x01 then (OAES_RET_HEADER, ctx)
        else let key_length = unat (d ! 7)
        in if key_length \<noteq> 16 \<and> key_length \<noteq> 24 \<and> key_length \<noteq> 32 then (OAES_RET_HEADER, ctx)
        else if dlen \<noteq> key_length + OAES_BLOCK_SIZE then (OAES_RET_ARG3, ctx)
        else replace_key mem1 mem2 mem3 c (mem_slice d OAES_BLOCK_SIZE key_length) key_length))"

definition oaes_key_import_data :: "bool \<Rightarrow> bool \<Rightarrow> bool \<Rightarrow> oaes_ctx option \<Rightarrow> byte list option \<Rightarrow> nat \<Rightarrow>
    OAES_RET \<times> oaes_ctx option" where
  "oaes_key_import_data mem1 mem2 mem3 ctx data dlen =
    (case ctx of None \<Rightarrow> (OAES_RET_ARG1, ctx)
     | Some c \<Rightarrow>
      (case data of None \<Rightarrow> (OAES_RET_ARG2, ctx)
       | Some d \<Rightarrow>
        if dlen \<noteq> 16 \<and> dlen \<noteq> 24 \<and> dlen \<noteq> 32 then (OAES_RET_ARG3, ctx)
        else replace_key mem1 mem2 mem3 c (mem_slice d 0 dlen) dlen))"

section \<open>Contexts\<close>

definition oaes_set_option :: "('r \<Rightarrow> byte \<times> 'r) \<Rightarrow> 'r \<Rightarrow> oaes_ctx option \<Rightarrow> u16 \<Rightarrow> byte list option \<Rightarrow>
    OAES_RET \<times> oaes_ctx option \<times> 'r" where
  "oaes_set_option rand r ctx option value =
    (case ctx of None \<Rightarrow> (OAES_RET_ARG1, ctx, r)
     | Some c \<Rightarrow>
      if option = OAES_OPTION_ECB then
        let c = c\<lparr>options := options c AND NOT OAES_OPTION_CBC, iv := replicate OAES_BLOCK_SIZE 0\<rparr>
        in (OAES_RET_SUCCESS, Some (c\<lparr>options := options c OR option\<rparr>), r)
      else if option = OAES_OPTION_CBC then
        let c = c\<lparr>options := options c AND NOT OAES_OPTION_ECB\<rparr>;
            (v, r) = (case value of Some v \<Rightarrow> (take OAES_BLOCK_SIZE v, r) | None \<Rightarrow> draw rand OAES_BLOCK_SIZE r);
            c = c\<lparr>iv := v\<rparr>
        in (OAES_RET_SUCCESS, Some (c\<lparr>options := options c OR option\<rparr>), r)
      else (OAES_RET_ARG2, ctx, r))"

definition oaes_alloc :: "('r \<Rightarrow> byte \<times> 'r) \<Rightarrow> 'r \<Rightarrow> bool \<Rightarrow> oaes_ctx option \<times> 'r" where
  "oaes_alloc rand r mem =
    (if \<not> mem then (None, r) else
     let (rc, ctx, r) = oaes_set_option rand r
           (Some \<lparr>ctx_key = None, options = 0, iv = replicate OAES_BLOCK_SIZE 0\<rparr>) OAES_OPTION_CBC None
     in (ctx, r))"

text \<open>The argument is a pointer to the context pointer.\<close>

definition oaes_free :: "oaes_ctx option option \<Rightarrow> OAES_RET \<times> oaes_ctx option option" where
  "oaes_free ctx =
    (case ctx of None \<Rightarrow> (OAES_RET_ARG1, None)
     | Some None \<Rightarrow> (OAES_RET_SUCCESS, Some None)
     | Some (Some c) \<Rightarrow> (OAES_RET_SUCCESS, Some None))"

section \<open>Blocks\<close>

definition encrypt_round :: "byte list \<Rightarrow> nat \<Rightarrow> byte list \<Rightarrow> byte list" where
  "encrypt_round exp i c =
    (let c = each_byte oaes_sub_byte OAES_BLOCK_SIZE c;
         c = oaes_shift_rows c;
         c = each_column oaes_mix_cols c
     in add_key exp (i * OAES_RKEY_LEN * OAES_COL_LEN) OAES_BLOCK_SIZE c)"

definition oaes_encrypt_block :: "oaes_ctx option \<Rightarrow> byte list option \<Rightarrow> nat \<Rightarrow> OAES_RET \<times> byte list option" where
  "oaes_encrypt_block ctx c c_len =
    (case ctx of None \<Rightarrow> (OAES_RET_ARG1, c)
     | Some x \<Rightarrow>
      (case c of None \<Rightarrow> (OAES_RET_ARG2, c)
       | Some b \<Rightarrow>
        if c_len \<noteq> OAES_BLOCK_SIZE then (OAES_RET_ARG3, c) else
        (case ctx_key x of None \<Rightarrow> (OAES_RET_NOKEY, c)
         | Some k \<Rightarrow>
          let b = add_key (exp_data k) 0 c_len b;
              b = fold (encrypt_round (exp_data k)) [1..<num_keys k - 1] b;
              b = each_byte oaes_sub_byte c_len b;
              b = oaes_shift_rows b;
              b = add_key (exp_data k) ((num_keys k - 1) * OAES_RKEY_LEN * OAES_COL_LEN) c_len b
          in (OAES_RET_SUCCESS, Some b))))"

definition decrypt_round :: "byte list \<Rightarrow> nat \<Rightarrow> byte list \<Rightarrow> byte list" where
  "decrypt_round exp i c =
    (let c = oaes_inv_shift_rows c;
         c = each_byte oaes_inv_sub_byte OAES_BLOCK_SIZE c;
         c = add_key exp (i * OAES_RKEY_LEN * OAES_COL_LEN) OAES_BLOCK_SIZE c
     in each_column oaes_inv_mix_cols c)"

text \<open>The loop counts \<open>_i\<close> down from \<open>num_keys - 2\<close> to 1.\<close>

definition oaes_decrypt_block :: "oaes_ctx option \<Rightarrow> byte list option \<Rightarrow> nat \<Rightarrow> OAES_RET \<times> byte list option" where
  "oaes_decrypt_block ctx c c_len =
    (case ctx of None \<Rightarrow> (OAES_RET_ARG1, c)
     | Some x \<Rightarrow>
      (case c of None \<Rightarrow> (OAES_RET_ARG2, c)
       | Some b \<Rightarrow>
        if c_len \<noteq> OAES_BLOCK_SIZE then (OAES_RET_ARG3, c) else
        (case ctx_key x of None \<Rightarrow> (OAES_RET_NOKEY, c)
         | Some k \<Rightarrow>
          let b = add_key (exp_data k) ((num_keys k - 1) * OAES_RKEY_LEN * OAES_COL_LEN) c_len b;
              b = fold (decrypt_round (exp_data k)) (rev [1..<num_keys k - 1]) b;
              b = oaes_inv_shift_rows b;
              b = each_byte oaes_inv_sub_byte c_len b;
              b = add_key (exp_data k) 0 c_len b
          in (OAES_RET_SUCCESS, Some b))))"

definition oaes_encryption_round :: "byte list option \<Rightarrow> byte list option \<Rightarrow> OAES_RET \<times> byte list option" where
  "oaes_encryption_round key c =
    (case key of None \<Rightarrow> (OAES_RET_ARG1, c)
     | Some k \<Rightarrow>
      (case c of None \<Rightarrow> (OAES_RET_ARG2, c)
       | Some b \<Rightarrow>
        let b = each_byte oaes_sub_byte OAES_BLOCK_SIZE b;
            b = oaes_shift_rows b;
            b = each_column oaes_mix_cols b;
            b = add_key k 0 OAES_BLOCK_SIZE b
        in (OAES_RET_SUCCESS, Some b)))"

definition oaes_pseudo_encrypt_ecb :: "oaes_ctx option \<Rightarrow> byte list option \<Rightarrow> OAES_RET \<times> byte list option" where
  "oaes_pseudo_encrypt_ecb ctx c =
    (case ctx of None \<Rightarrow> (OAES_RET_ARG1, c)
     | Some x \<Rightarrow>
      (case c of None \<Rightarrow> (OAES_RET_ARG2, c)
       | Some b \<Rightarrow>
        (case ctx_key x of None \<Rightarrow> (OAES_RET_NOKEY, c)
         | Some k \<Rightarrow>
          (OAES_RET_SUCCESS,
           fold (\<lambda>i c. snd (oaes_encryption_round (Some (drop (i * OAES_RKEY_LEN * OAES_COL_LEN) (exp_data k))) c))
             [0..<10] c))))"

section \<open>Messages\<close>

text \<open>The values of \<open>_i\<close> in \<open>for( _i = 0; _i < n; _i += OAES_BLOCK_SIZE )\<close>.\<close>

definition block_offsets :: "nat \<Rightarrow> nat list" where
  "block_offsets n = map (\<lambda>k. OAES_BLOCK_SIZE * k) [0..<(n + OAES_BLOCK_SIZE - 1) div OAES_BLOCK_SIZE]"

definition cbc :: "u16 \<Rightarrow> bool" where
  "cbc opts \<longleftrightarrow> opts AND OAES_OPTION_CBC \<noteq> 0"

text \<open>A pass of the encrypting loop: the state is \<open>_rc\<close>, the context and the output.  The call
  is skipped once \<open>_rc\<close> is not 0.\<close>

definition encrypt_step :: "nat \<Rightarrow> nat \<Rightarrow> OAES_RET \<times> oaes_ctx \<times> byte list \<Rightarrow> OAES_RET \<times> oaes_ctx \<times> byte list" where
  "encrypt_step m_len i = (\<lambda>(rc, x, c).
    let block_size = min (m_len - i) OAES_BLOCK_SIZE;
        block = blit (replicate OAES_BLOCK_SIZE 0) 0 (mem_slice c (2 * OAES_BLOCK_SIZE + i) block_size);
        block = fold (\<lambda>j block. block[block_size + j := of_nat (j + 1)]) [0..<OAES_BLOCK_SIZE - block_size] block;
        block = (if cbc (options x) then update_loop OAES_BLOCK_SIZE (\<lambda>j b. b XOR iv x ! j) block else block);
        (rc, block) = (if rc \<noteq> OAES_RET_SUCCESS then (OAES_RET_UNKNOWN, block) else
          let (r, b) = oaes_encrypt_block (Some x) (Some block) OAES_BLOCK_SIZE in (rc_or rc r, the b));
        c = blit c (2 * OAES_BLOCK_SIZE + i) block;
        x = (if cbc (options x) then x\<lparr>iv := block\<rparr> else x)
    in (rc, x, c))"

definition oaes_encrypt :: "oaes_ctx option \<Rightarrow> byte list option \<Rightarrow> nat \<Rightarrow> byte list option \<Rightarrow> nat option \<Rightarrow>
    OAES_RET \<times> oaes_ctx option \<times> byte list option \<times> nat option" where
  "oaes_encrypt ctx m m_len c c_len =
    (let pad_len = (if m_len mod OAES_BLOCK_SIZE = 0 then 0 else OAES_BLOCK_SIZE - m_len mod OAES_BLOCK_SIZE);
         flags = (if pad_len \<noteq> 0 then OAES_FLAG_PAD else 0)
     in case ctx of None \<Rightarrow> (OAES_RET_ARG1, ctx, c, c_len)
     | Some x \<Rightarrow>
      (case m of None \<Rightarrow> (OAES_RET_ARG2, ctx, c, c_len)
       | Some ms \<Rightarrow>
        (case c_len of None \<Rightarrow> (OAES_RET_ARG5, ctx, c, c_len)
         | Some c_len_in \<Rightarrow>
          let c_data_len = m_len + pad_len;
              len = 2 * OAES_BLOCK_SIZE + m_len + pad_len
          in case c of None \<Rightarrow> (OAES_RET_SUCCESS, ctx, c, Some len)
          | Some out \<Rightarrow>
            if c_len_in < len then (OAES_RET_BUF, ctx, c, Some len) else
            (case ctx_key x of None \<Rightarrow> (OAES_RET_NOKEY, ctx, c, Some len)
             | Some k \<Rightarrow>
              let out = blit out 0 oaes_header;
                  out = blit out 6 (split_le 2 (options x));
                  out = blit out 8 [flags];
                  out = blit out OAES_BLOCK_SIZE (iv x);
                  out = blit out (2 * OAES_BLOCK_SIZE) (take m_len ms);
                  (rc, x, out) = fold (encrypt_step m_len) (block_offsets c_data_len) (OAES_RET_SUCCESS, x, out)
              in (rc, Some x, Some out, Some len)))))"

definition decrypt_step :: "oaes_ctx \<Rightarrow> u16 \<Rightarrow> byte list \<Rightarrow> nat \<Rightarrow> nat \<Rightarrow>
    OAES_RET \<times> byte list \<times> byte list \<Rightarrow> OAES_RET \<times> byte list \<times> byte list" where
  "decrypt_step x opts c m_len i = (\<lambda>(rc, ivec, m).
    let ivec = (if cbc opts \<and> i > 0 then mem_slice c (OAES_BLOCK_SIZE + i) OAES_BLOCK_SIZE else ivec);
        (rc, m) = (if rc \<noteq> OAES_RET_SUCCESS then (OAES_RET_UNKNOWN, m) else
          let (r, b) = oaes_decrypt_block (Some x) (Some (mem_slice m i OAES_BLOCK_SIZE)) (min (m_len - i) OAES_BLOCK_SIZE)
          in (rc_or rc r, blit m i (the b)));
        m = (if cbc opts then fold (\<lambda>j m. m[i + j := m ! (i + j) XOR ivec ! j]) [0..<OAES_BLOCK_SIZE] m else m)
    in (rc, ivec, m))"

text \<open>The end of \<open>oaes_decrypt\<close>: the padding is checked and cleared.\<close>

definition remove_pad :: "byte list \<Rightarrow> nat \<Rightarrow> (OAES_RET \<times> byte list \<times> nat) option" where
  "remove_pad m m_len =
    (if m_len = 0 then None else
     let temp = unat (m ! (m_len - 1))
     in if temp \<le> 0x00 \<or> temp > 0x0f then Some (OAES_RET_HEADER, m, m_len) else
        if list_all (\<lambda>i. unat (m ! (m_len - 1 - i)) = temp - i) [0..<temp]
        then Some (OAES_RET_SUCCESS, blit m (m_len - temp) (replicate temp 0), m_len - temp)
        else Some (OAES_RET_HEADER, m, m_len))"

text \<open>The difference of two \<open>size_t\<close>.\<close>

definition size_sub :: "nat \<Rightarrow> nat \<Rightarrow> nat" where
  "size_sub a b = (if b \<le> a then a - b else 2 ^ 64 + a - b)"

definition valid_options :: "u16 \<Rightarrow> bool" where
  "valid_options opts \<longleftrightarrow>
    opts AND NOT (OAES_OPTION_ECB OR OAES_OPTION_CBC) = 0 \<and>
    \<not> (opts AND OAES_OPTION_ECB \<noteq> 0 \<and> opts AND OAES_OPTION_CBC \<noteq> 0) \<and> opts \<noteq> 0"

definition oaes_decrypt :: "oaes_ctx option \<Rightarrow> byte list option \<Rightarrow> nat \<Rightarrow> byte list option \<Rightarrow> nat option \<Rightarrow>
    (OAES_RET \<times> byte list option \<times> nat option) option" where
  "oaes_decrypt ctx c c_len m m_len =
    (case ctx of None \<Rightarrow> Some (OAES_RET_ARG1, m, m_len)
     | Some x \<Rightarrow>
      (case c of None \<Rightarrow> Some (OAES_RET_ARG2, m, m_len)
       | Some inp \<Rightarrow>
        if c_len mod OAES_BLOCK_SIZE \<noteq> 0 then Some (OAES_RET_ARG3, m, m_len) else
        (case m_len of None \<Rightarrow> Some (OAES_RET_ARG5, m, m_len)
         | Some m_len_in \<Rightarrow>
          let len = size_sub c_len (2 * OAES_BLOCK_SIZE)
          in case m of None \<Rightarrow> Some (OAES_RET_SUCCESS, m, Some len)
          | Some out \<Rightarrow>
            if m_len_in < len then Some (OAES_RET_BUF, m, Some len) else
            (case ctx_key x of None \<Rightarrow> Some (OAES_RET_NOKEY, m, Some len)
             | Some k \<Rightarrow>
              if take 4 inp \<noteq> take 4 oaes_header then Some (OAES_RET_HEADER, m, Some len)
              else if inp ! 4 \<noteq> 0x01 then Some (OAES_RET_HEADER, m, Some len)
              else if inp ! 5 \<noteq> 0x02 then Some (OAES_RET_HEADER, m, Some len)
              else let opts = join_le (mem_slice inp 6 2) in
              if \<not> valid_options opts then Some (OAES_RET_HEADER, m, Some len)
              else let flags = inp ! 8 in
              if flags AND NOT OAES_FLAG_PAD \<noteq> 0 then Some (OAES_RET_HEADER, m, Some len)
              else let ivec = mem_slice inp OAES_BLOCK_SIZE OAES_BLOCK_SIZE;
                       out = blit out 0 (mem_slice inp (2 * OAES_BLOCK_SIZE) len);
                       (rc, ivec, out) = fold (decrypt_step x opts inp len) (block_offsets len)
                         (OAES_RET_SUCCESS, ivec, out)
              in if flags AND OAES_FLAG_PAD \<noteq> 0
                 then map_option (\<lambda>(rc, m, m_len). (rc, Some m, Some m_len)) (remove_pad out len)
                 else Some (OAES_RET_SUCCESS, Some out, Some len)))))"

end
