(* ===== verification/OaesLaws.thy ===== *)
theory OaesLaws
  imports Oaes
begin

unbundle bit_operations_syntax

text \<open>
  What \<^verbatim>\<open>oaes_lib.c\<close> promises: blocks and messages are recovered, the expanded key is that of
  FIPS 197, contexts keep their invariant, and the rounds are those of \<^verbatim>\<open>aesb.c\<close>.
\<close>

section \<open>Block encryption\<close>

lemma length_encrypt_round [simp]: "length c = 16 \<Longrightarrow> length (encrypt_round e i c) = 16"
  by (simp add: encrypt_round_def oaes_consts Let_def)

lemma length_encrypt_rounds [simp]: "length c = 16 \<Longrightarrow> length (fold (encrypt_round e) is c) = 16"
  by (induction "is" arbitrary: c) simp_all

lemma length_decrypt_round [simp]: "length c = 16 \<Longrightarrow> length (decrypt_round e i c) = 16"
  by (simp add: decrypt_round_def oaes_consts Let_def)

lemma length_decrypt_rounds [simp]: "length c = 16 \<Longrightarrow> length (fold (decrypt_round e) is c) = 16"
  by (induction "is" arbitrary: c) simp_all

definition sub_shift :: "byte list \<Rightarrow> byte list" where
  "sub_shift c = oaes_shift_rows (map oaes_sub_byte c)"

lemma length_sub_shift [simp]: "length (sub_shift c) = 16"
  by (simp add: sub_shift_def)

lemma unshift_sub_shift [simp]:
  "length c = 16 \<Longrightarrow> map oaes_inv_sub_byte (oaes_inv_shift_rows (sub_shift c)) = c"
  by (simp add: sub_shift_def del: map_map)

lemma decrypt_encrypt_round:
  assumes "length c = 16" and "16 * i + 16 \<le> length e"
  shows "decrypt_round e i (sub_shift (encrypt_round e i c)) = sub_shift c"
proof -
  let ?m = "each_column oaes_mix_cols (sub_shift c)"
  have "encrypt_round e i c = add_key e (16 * i) 16 ?m"
    using assms(1) by (simp add: encrypt_round_def sub_shift_def oaes_consts Let_def ac_simps)
  then show ?thesis
    using assms by (simp add: decrypt_round_def oaes_consts Let_def mult.commute del: map_map)
qed

lemma decrypt_encrypt_rounds:
  assumes "length c = 16" and "\<forall>i \<in> set is. 16 * i + 16 \<le> length e"
  shows "fold (decrypt_round e) (rev is) (sub_shift (fold (encrypt_round e) is c)) = sub_shift c"
  using assms by (induction "is" arbitrary: c) (simp_all add: decrypt_encrypt_round)

definition encrypt16 :: "oaes_key \<Rightarrow> byte list \<Rightarrow> byte list" where
  "encrypt16 k b = add_key (exp_data k) (16 * (num_keys k - 1)) 16
    (sub_shift (fold (encrypt_round (exp_data k)) [1..<num_keys k - 1] (add_key (exp_data k) 0 16 b)))"

definition decrypt16 :: "oaes_key \<Rightarrow> byte list \<Rightarrow> byte list" where
  "decrypt16 k b = add_key (exp_data k) 0 16 (map oaes_inv_sub_byte (oaes_inv_shift_rows
    (fold (decrypt_round (exp_data k)) (rev [1..<num_keys k - 1]) (add_key (exp_data k) (16 * (num_keys k - 1)) 16 b))))"

lemma oaes_encrypt_block16:
  "ctx_key x = Some k \<Longrightarrow> length b = 16 \<Longrightarrow>
    oaes_encrypt_block (Some x) (Some b) 16 = (OAES_RET_SUCCESS, Some (encrypt16 k b))"
  by (simp add: oaes_encrypt_block_def encrypt16_def oaes_consts sub_shift_def ac_simps)

lemma oaes_decrypt_block16:
  "ctx_key x = Some k \<Longrightarrow> length b = 16 \<Longrightarrow>
    oaes_decrypt_block (Some x) (Some b) 16 = (OAES_RET_SUCCESS, Some (decrypt16 k b))"
  by (simp add: oaes_decrypt_block_def decrypt16_def oaes_consts ac_simps)

lemma length_encrypt16 [simp]: "length b = 16 \<Longrightarrow> length (encrypt16 k b) = 16"
  by (simp add: encrypt16_def)

lemma length_decrypt16 [simp]: "length b = 16 \<Longrightarrow> length (decrypt16 k b) = 16"
  by (simp add: decrypt16_def)

lemma decrypt16_encrypt16 [simp]:
  assumes "length b = 16" and "16 * num_keys k \<le> length (exp_data k)" and "0 < num_keys k"
  shows "decrypt16 k (encrypt16 k b) = b"
proof -
  have "\<forall>i \<in> set [1..<num_keys k - 1]. 16 * i + 16 \<le> length (exp_data k)"
    using assms(2) by auto
  moreover have "16 * (num_keys k - 1) + 16 \<le> length (exp_data k)"
    using assms(2,3) by simp
  ultimately show ?thesis
    using assms by (simp add: decrypt16_def encrypt16_def decrypt_encrypt_rounds)
qed

section \<open>Keys\<close>

lemma length_expand_column [simp]: "length (expand_column kb i e) = length e"
proof -
  have "length (fold (\<lambda>j e. e[p + j := e ! (q + j) XOR t ! j]) js e) = length e" for p q t js and e :: "byte list"
    by (induction js arbitrary: e) simp_all
  then show ?thesis by (simp add: expand_column_def Let_def)
qed

lemma length_expand_columns [simp]: "length (fold (expand_column kb) is e) = length e"
  by (induction "is" arbitrary: e) simp_all

definition expanded :: "nat \<Rightarrow> byte list \<Rightarrow> byte list" where
  "expanded n bytes =
    fold (expand_column (n div 4)) [n div 4..<(n div 4 + 7) * 4] (blit (replicate (16 * (n div 4 + 7)) 0) 0 bytes)"

lemma length_expanded [simp]:
  "length bytes = n \<Longrightarrow> length (expanded n bytes) = 16 * (n div 4 + 7)"
  by (simp add: expanded_def)

definition made_key :: "nat \<Rightarrow> byte list \<Rightarrow> oaes_key" where
  "made_key n bytes = \<lparr>data_len = n, key_data = bytes, exp_data_len = 16 * (n div 4 + 7),
    exp_data = expanded n bytes, num_keys = n div 4 + 7, key_base = n div 4\<rparr>"

lemma install_key_eq:
  assumes "length bytes = n"
  shows "install_key mem c (empty_key\<lparr>data_len := n, key_data := bytes\<rparr>) =
    (if mem then (OAES_RET_SUCCESS, Some (c\<lparr>ctx_key := Some (made_key n bytes)\<rparr>))
     else (OAES_RET_UNKNOWN, Some (c\<lparr>ctx_key := None\<rparr>)))"
  using assms by (simp add: install_key_def oaes_key_expand_def empty_key_def made_key_def expanded_def
      rc_or_def oaes_consts oaes_key_destroy_def Let_def mult.commute)

text \<open>What every operation keeps: the key is the expansion of its 16, 24 or 32 bytes, one mode is
  chosen, and the initialization vector has a block.\<close>

definition key_ok :: "oaes_key \<Rightarrow> bool" where
  "key_ok k \<longleftrightarrow>
    data_len k \<in> {16, 24, 32} \<and> length (key_data k) = data_len k \<and> k = made_key (data_len k) (key_data k)"

definition ctx_ok :: "oaes_ctx \<Rightarrow> bool" where
  "ctx_ok x \<longleftrightarrow>
    (options x = OAES_OPTION_ECB \<or> options x = OAES_OPTION_CBC) \<and> length (iv x) = 16 \<and>
    (case ctx_key x of None \<Rightarrow> True | Some k \<Rightarrow> key_ok k)"

lemma key_ok_made [simp]: "length bytes = n \<Longrightarrow> n \<in> {16, 24, 32} \<Longrightarrow> key_ok (made_key n bytes)"
  by (simp add: key_ok_def made_key_def)

lemma key_ok_sizes:
  assumes "key_ok k"
  shows "0 < num_keys k" "16 * num_keys k \<le> length (exp_data k)"
proof -
  obtain n bytes where "k = made_key n bytes" and "length bytes = n"
    using assms by (auto simp: key_ok_def)
  then show "0 < num_keys k" "16 * num_keys k \<le> length (exp_data k)"
    by (simp_all add: made_key_def)
qed

lemma replace_key_eq:
  assumes "length bytes = n"
  shows "replace_key mem1 mem2 mem3 c bytes n =
    (if mem1 \<and> mem2 \<and> mem3 then (OAES_RET_SUCCESS, Some (c\<lparr>ctx_key := Some (made_key n bytes)\<rparr>))
     else (if mem1 \<and> mem2 then OAES_RET_UNKNOWN else OAES_RET_MEM, Some (c\<lparr>ctx_key := None\<rparr>)))"
  using assms by (auto simp: replace_key_def install_key_eq oaes_key_destroy_def Let_def split: option.splits)

lemma length_draw [simp]: "length (fst (draw rand n r)) = n"
  by (induction n arbitrary: r) (simp_all add: Let_def split_def)


lemma ctx_ok_update:
  "ctx_ok x \<Longrightarrow> ctx_ok (x\<lparr>ctx_key := None\<rparr>)"
  "ctx_ok x \<Longrightarrow> key_ok k \<Longrightarrow> ctx_ok (x\<lparr>ctx_key := Some k\<rparr>)"
  by (simp_all add: ctx_ok_def)

lemma ctx_ok_gen:
  assumes "ctx_ok x" and "n \<in> {16, 24, 32}" and "oaes_key_gen rand r m1 m2 m3 (Some x) n = (rc, Some y, r')"
  shows "ctx_ok y"
proof -
  have "length (fst (draw rand n r)) = n" by simp
  then show ?thesis
    using assms by (auto simp: oaes_key_gen_def Let_def split_def install_key_eq oaes_key_destroy_def ctx_ok_update
        split: if_splits option.splits)
qed

lemma ctx_ok_import:
  assumes "ctx_ok x" and "oaes_key_import m1 m2 m3 (Some x) (Some d) n = (rc, Some y)" and "n \<le> length d"
  shows "ctx_ok y"
proof -
  have r: "ctx_ok y'" if "replace_key m1 m2 m3 x b l = (rc', Some y')" "length b = l" "l \<in> {16, 24, 32}" for b l rc' y'
    using that assms(1) by (auto simp: replace_key_eq ctx_ok_update split: if_splits)
  show ?thesis
    using assms by (auto simp: oaes_key_import_def Let_def oaes_consts intro!: r split: if_splits)
qed

lemma ctx_ok_import_data:
  assumes "ctx_ok x" and "oaes_key_import_data m1 m2 m3 (Some x) (Some d) n = (rc, Some y)" and "n \<le> length d"
  shows "ctx_ok y"
  using assms by (auto simp: oaes_key_import_data_def replace_key_eq ctx_ok_update split: if_splits)

lemma option_bits:
  "(o1 AND NOT OAES_OPTION_CBC) OR OAES_OPTION_ECB = OAES_OPTION_ECB"
  "(o1 AND NOT OAES_OPTION_ECB) OR OAES_OPTION_CBC = OAES_OPTION_CBC"
  if "o1 = 0 \<or> o1 = OAES_OPTION_ECB \<or> o1 = OAES_OPTION_CBC"
  using that by (auto simp: OAES_OPTION_ECB_def OAES_OPTION_CBC_def)

lemma ctx_ok_set_option:
  assumes "ctx_ok x \<or> options x = 0 \<and> ctx_key x = None"
    and "oaes_set_option rand r (Some x) opt v = (OAES_RET_SUCCESS, Some y, r')"
    and "case v of None \<Rightarrow> True | Some b \<Rightarrow> 16 \<le> length b"
  shows "ctx_ok y"
proof -
  have o: "options x = 0 \<or> options x = OAES_OPTION_ECB \<or> options x = OAES_OPTION_CBC"
      and k: "case ctx_key x of None \<Rightarrow> True | Some k \<Rightarrow> key_ok k"
    using assms(1) by (auto simp: ctx_ok_def)
  have l: "length (fst (draw rand 16 r)) = 16" by simp
  show ?thesis
    using assms(2,3) k l
    by (auto simp: oaes_set_option_def ctx_ok_def option_bits [OF o] oaes_consts split_def Let_def split: if_splits option.splits)
qed

lemma ctx_ok_alloc: "oaes_alloc rand r mem = (Some x, r') \<Longrightarrow> ctx_ok x"
  by (auto simp: oaes_alloc_def oaes_set_option_def ctx_ok_def oaes_consts split_def Let_def
      OAES_OPTION_ECB_def OAES_OPTION_CBC_def split: if_splits)

section \<open>Encrypted messages\<close>

lemma blit_blit_after: "length a \<le> length out \<Longrightarrow> blit (blit out 0 a) (length a) b = blit out 0 (a @ b)"
  by (simp add: blit_def add.commute)

lemma blit_blit_inside: "off + length b \<le> length a \<Longrightarrow> blit (blit out 0 a) off b = blit out 0 (blit a off b)"
  by (simp add: blit_def)

lemma fold_store:
  "p + n \<le> length b \<Longrightarrow> fold (\<lambda>j b. b[p + j := f j]) [0..<n] b = blit b p (map f [0..<n])"
proof (induction n)
  case (Suc n)
  then have "fold (\<lambda>j b. b[p + j := f j]) [0..<Suc n] b = (blit b p (map f [0..<n]))[p + n := f n]"
    by simp
  also have "\<dots> = blit b p (map f [0..<Suc n])"
    using Suc.prems by (intro nth_equalityI) (auto simp: nth_list_update nth_blit nth_append)
  finally show ?case .
qed (simp add: blit_def)

lemma fold_xor_store:
  assumes "p + length v \<le> length m"
  shows "fold (\<lambda>j m. m[p + j := m ! (p + j) XOR v ! j]) [0..<length v] m = blit m p (xor_list (mem_slice m p (length v)) v)"
proof -
  have "fold (\<lambda>j m. m[p + j := m ! (p + j) XOR v ! j]) [0..<n] m = blit m p (xor_list (mem_slice m p n) (take n v))"
    if "n \<le> length v" for n
    using that
  proof (induction n)
    case (Suc n)
    then have "fold (\<lambda>j m. m[p + j := m ! (p + j) XOR v ! j]) [0..<Suc n] m =
      (let m = blit m p (xor_list (mem_slice m p n) (take n v)) in m[p + n := m ! (p + n) XOR v ! n])"
      by (simp add: Let_def)
    also have "\<dots> = blit m p (xor_list (mem_slice m p (Suc n)) (take (Suc n) v))"
      using Suc.prems assms by (intro nth_equalityI) (auto simp: Let_def nth_list_update nth_blit)
    finally show ?case .
  qed (simp add: blit_def xor_list_def)
  from this [of "length v"] show ?thesis by simp
qed

text \<open>The message with its padding, which counts up from 1, and its blocks.\<close>

definition pad_length :: "nat \<Rightarrow> nat" where
  "pad_length n = (if n mod 16 = 0 then 0 else 16 - n mod 16)"

definition padded :: "byte list \<Rightarrow> byte list" where
  "padded m = m @ map (\<lambda>j. of_nat (j + 1)) [0..<pad_length (length m)]"

definition blk :: "byte list \<Rightarrow> nat \<Rightarrow> byte list" where
  "blk p j = mem_slice p (16 * j) 16"

text \<open>Cipher block chaining: a block is mixed with the cipher block before it, the first one with
  the initialization vector.\<close>

primrec cipher_block :: "bool \<Rightarrow> oaes_key \<Rightarrow> byte list \<Rightarrow> byte list \<Rightarrow> nat \<Rightarrow> byte list" where
  "cipher_block chain k v p 0 = encrypt16 k (if chain then xor_list (blk p 0) v else blk p 0)"
| "cipher_block chain k v p (Suc j) =
    encrypt16 k (if chain then xor_list (blk p (Suc j)) (cipher_block chain k v p j) else blk p (Suc j))"

definition cipher_text :: "bool \<Rightarrow> oaes_key \<Rightarrow> byte list \<Rightarrow> byte list \<Rightarrow> nat \<Rightarrow> byte list" where
  "cipher_text chain k v p n = concat (map (cipher_block chain k v p) [0..<n])"

definition chained_iv :: "bool \<Rightarrow> oaes_key \<Rightarrow> byte list \<Rightarrow> byte list \<Rightarrow> nat \<Rightarrow> byte list" where
  "chained_iv chain k v p n = (if chain \<and> n > 0 then cipher_block chain k v p (n - 1) else v)"

lemma pad_length_less: "pad_length n < 16"
  by (simp add: pad_length_def)

lemma length_padded: "16 dvd length (padded m)" "length (padded m) = length m + pad_length (length m)"
proof -
  obtain q r where n: "length m = 16 * q + r" and r: "r < 16" and "length m mod 16 = r"
    by (metis mod_less_divisor mult_div_mod_eq zero_less_numeral)
  show "16 dvd length (padded m)"
  proof (cases "r = 0")
    case False
    then have "length m + pad_length (length m) = 16 * (q + 1)"
      using n r \<open>length m mod 16 = r\<close> by (simp add: pad_length_def)
    then have "length (padded m) = 16 * (q + 1)" by (simp add: padded_def)
    then show ?thesis by (metis dvd_triv_left)
  qed (use n \<open>length m mod 16 = r\<close> in \<open>simp add: padded_def pad_length_def\<close>)
qed (simp add: padded_def)

lemma length_cipher_block [simp]:
  assumes "16 * j + 16 \<le> length p" and "length v = 16"
  shows "length (cipher_block chain k v p j) = 16"
  using assms by (induction j; cases chain) (simp_all add: blk_def)

lemma length_cipher_text [simp]:
  assumes "16 * n \<le> length p" and "length v = 16"
  shows "length (cipher_text chain k v p n) = 16 * n"
  using assms by (induction n) (simp_all add: cipher_text_def)

lemma cipher_text_Suc: "cipher_text chain k v p (Suc n) = cipher_text chain k v p n @ cipher_block chain k v p n"
  by (simp add: cipher_text_def)

lemma length_chained_iv [simp]:
  "16 * n \<le> length p \<Longrightarrow> length v = 16 \<Longrightarrow> length (chained_iv chain k v p n) = 16"
  by (cases n) (simp_all add: chained_iv_def)

lemma cipher_block_chained:
  "cipher_block chain k v p n = encrypt16 k (if chain then xor_list (blk p n) (chained_iv chain k v p n) else blk p n)"
  by (cases n) (simp_all add: chained_iv_def)

text \<open>The block that a pass assembles.\<close>

lemma padded_block:
  assumes "16 * t < length m" and "mem_slice c p (min (length m - 16 * t) 16) = mem_slice m (16 * t) (min (length m - 16 * t) 16)"
    and "bs = min (length m - 16 * t) 16"
  shows "fold (\<lambda>j b. b[bs + j := of_nat (j + 1)]) [0..<16 - bs] (blit (replicate 16 0) 0 (mem_slice c p bs)) = blk (padded m) t"
proof -
  let ?s = "mem_slice m (16 * t) bs"
  have len: "length ?s = bs" and bs: "bs \<le> 16" using assms by simp_all
  have "fold (\<lambda>j b. b[bs + j := of_nat (j + 1)]) [0..<16 - bs] (blit (replicate 16 0) 0 (mem_slice c p bs)) =
      ?s @ map (\<lambda>j. of_nat (j + 1)) [0..<16 - bs]"
    using assms len bs by (subst fold_store) (simp_all add: blit_def)
  also have "\<dots> = blk (padded m) t"
  proof (cases "16 * t + 16 \<le> length m")
    case True
    then show ?thesis using assms(3) by (simp add: blk_def padded_def mem_slice_def)
  next
    case False
    then have b: "bs = length m - 16 * t" "length m - 16 * t < 16" using assms(3) by simp_all
    then have "length m mod 16 = bs"
      using assms(1) False by (metis add.commute le_add_diff_inverse2 less_imp_le mod_less mod_mult_self2)
    then have "pad_length (length m) = 16 - bs"
      using b assms(1) by (simp add: pad_length_def)
    then show ?thesis
      using b assms(1) by (simp add: blk_def padded_def mem_slice_def)
  qed
  finally show ?thesis .
qed

lemma blit_again_after:
  "p + length a \<le> length c \<Longrightarrow> blit (blit c p a) (p + length a) b = blit c p (a @ b)"
  by (simp add: blit_def add.commute add.left_commute)

lemma length_padded_block:
  assumes "16 * n < length (padded m)"
  shows "16 * n + 16 \<le> length (padded m)" "16 * n < length m"
proof -
  obtain q where q: "length (padded m) = 16 * q"
    using length_padded(1) [of m] by (auto elim: dvdE)
  with assms show le: "16 * n + 16 \<le> length (padded m)" by simp
  show "16 * n < length m"
    using le pad_length_less [of "length m"] length_padded(2) [of m] by simp
qed

lemma encrypt_step_block:
  assumes "ctx_key x = Some k" and "length (iv x) = 16"
    and "16 * n < length (padded m)" and "32 + 16 * n + 16 \<le> length c"
    and "mem_slice c (32 + 16 * n) (min (length m - 16 * n) 16) = mem_slice m (16 * n) (min (length m - 16 * n) 16)"
  shows "encrypt_step (length m) (16 * n) (OAES_RET_SUCCESS, x, c) =
    (let e = encrypt16 k (if cbc (options x) then xor_list (blk (padded m) n) (iv x) else blk (padded m) n)
     in (OAES_RET_SUCCESS, if cbc (options x) then x\<lparr>iv := e\<rparr> else x, blit c (32 + 16 * n) e))"
proof -
  note l = length_padded_block [OF assms(3)]
  have b: "length (blk (padded m) n) = 16" using l by (simp add: blk_def)
  have u: "update_loop 16 (\<lambda>j b. b XOR iv x ! j) (blk (padded m) n) = xor_list (blk (padded m) n) (iv x)"
    using b assms(2) by (intro nth_equalityI) (simp_all add: update_loop_eq)
  have "mem_slice c (2 * 16 + 16 * n) (min (length m - 16 * n) 16) = mem_slice m (16 * n) (min (length m - 16 * n) 16)"
    using assms(5) by simp
  note p = padded_block [OF l(2) this refl]
  show ?thesis
    by (simp only: encrypt_step_def prod.case Let_def oaes_consts p u)
       (simp add: oaes_encrypt_block16 [OF assms(1)] b assms(2) rc_or_def)
qed

lemma encrypt_steps:
  assumes "ctx_key x = Some k" and "length (iv x) = 16"
    and "32 + length (padded m) \<le> length c" and "mem_slice c 32 (length m) = m"
    and "16 * n \<le> length (padded m)"
  shows "fold (encrypt_step (length m)) (map ((*) 16) [0..<n]) (OAES_RET_SUCCESS, x, c) =
    (OAES_RET_SUCCESS, x\<lparr>iv := chained_iv (cbc (options x)) k (iv x) (padded m) n\<rparr>,
     blit c 32 (cipher_text (cbc (options x)) k (iv x) (padded m) n))"
  using assms(5)
proof (induction n)
  case 0
  show ?case by (simp add: chained_iv_def cipher_text_def blit_def)
next
  case (Suc n)
  let ?ch = "cbc (options x)"
  let ?p = "padded m"
  let ?t = "cipher_text ?ch k (iv x) ?p n"
  let ?v = "chained_iv ?ch k (iv x) ?p n"
  have n: "16 * n < length ?p" "16 * n \<le> length ?p" using Suc.prems by simp_all
  note l = length_padded_block [OF n(1)]
  have lt: "length ?t = 16 * n" using n assms(2) by simp
  have "mem_slice (blit c 32 ?t) (32 + 16 * n) bs = mem_slice m (16 * n) bs" if "bs = min (length m - 16 * n) 16" for bs
  proof -
    have "mem_slice (blit c 32 ?t) (32 + 16 * n) bs = mem_slice c (32 + 16 * n) bs"
      using lt l assms(3) that by (intro mem_slice_blit_disjoint) simp_all
    also have "\<dots> = mem_slice (mem_slice c 32 (length m)) (16 * n) bs"
      using that l(2) by (intro mem_slice_mem_slice [symmetric]) simp
    finally show ?thesis by (simp add: assms(4))
  qed
  then have s: "mem_slice (blit c 32 ?t) (32 + 16 * n) (min (length m - 16 * n) 16) =
      mem_slice m (16 * n) (min (length m - 16 * n) 16)"
    by simp
  have "encrypt_step (length m) (16 * n) (OAES_RET_SUCCESS, x\<lparr>iv := ?v\<rparr>, blit c 32 ?t) =
    (let e = cipher_block ?ch k (iv x) ?p n in
     (OAES_RET_SUCCESS, if ?ch then x\<lparr>iv := e\<rparr> else x\<lparr>iv := ?v\<rparr>, blit (blit c 32 ?t) (32 + 16 * n) e))"
    using assms(1-3) l n lt by (subst encrypt_step_block [where k = k]) (simp_all add: s Let_def cipher_block_chained)
  moreover have "blit (blit c 32 ?t) (32 + 16 * n) e = blit c 32 (?t @ e)" for e
    using blit_again_after [of 32 ?t c e] lt n assms(3) by simp
  ultimately show ?case
    using Suc.IH n by (simp add: Let_def cipher_text_Suc) (simp add: chained_iv_def)
qed

text \<open>The header of an encrypted message.\<close>

definition message_header :: "u16 \<Rightarrow> byte \<Rightarrow> byte list \<Rightarrow> byte list" where
  "message_header opts flags v =
    [0x4f, 0x41, 0x45, 0x53, 0x01, 0x02] @ split_le 2 opts @ [flags] @ replicate 7 0 @ v"

definition message_flags :: "nat \<Rightarrow> byte" where
  "message_flags n = (if pad_length n \<noteq> 0 then OAES_FLAG_PAD else 0)"

lemma split_le_2: "split_le 2 w = [ucast w, ucast (drop_bit 8 w) :: byte]" for w :: u16
  by (simp add: split_le_def upt_rec)

lemma header_stores:
  assumes "32 \<le> length out" and "length v = 16"
  shows "blit (blit (blit (blit (blit out 0 oaes_header) 6 (split_le 2 opts)) 8 [flags]) 16 v) 32 m =
    blit out 0 (message_header opts flags v @ m)"
proof -
  have "blit (blit (blit out 0 oaes_header) 6 (split_le 2 opts)) 8 [flags] =
      blit out 0 ([0x4f, 0x41, 0x45, 0x53, 0x01, 0x02] @ split_le 2 opts @ [flags] @ replicate 7 0)"
    by (simp add: blit_blit_inside oaes_header_def split_le_2 eval_nat_numeral) (simp add: blit_def)
  then show ?thesis
    using assms blit_blit_after [of "[0x4f, 0x41, 0x45, 0x53, 0x01, 0x02] @ split_le 2 opts @ [flags] @ replicate 7 0" out v]
      blit_blit_after [of "message_header opts flags v" out m]
    by (simp add: message_header_def)
qed

lemma length_message_header [simp]: "length v = 16 \<Longrightarrow> length (message_header opts flags v) = 32"
  by (simp add: message_header_def)

lemma oaes_encrypt_message:
  assumes "ctx_key x = Some k" and "length (iv x) = 16" and "n = 32 + length (padded m)"
    and "n \<le> c_len" and "c_len \<le> length c"
  shows "oaes_encrypt (Some x) (Some m) (length m) (Some c) (Some c_len) =
    (OAES_RET_SUCCESS,
     Some (x\<lparr>iv := chained_iv (cbc (options x)) k (iv x) (padded m) (length (padded m) div 16)\<rparr>),
     Some (blit c 0 (message_header (options x) (message_flags (length m)) (iv x) @
       cipher_text (cbc (options x)) k (iv x) (padded m) (length (padded m) div 16))),
     Some n)"
proof -
  let ?h = "message_header (options x) (message_flags (length m)) (iv x)"
  let ?c = "blit c 0 (?h @ m)"
  obtain q where q: "length (padded m) = 16 * q"
    using length_padded(1) [of m] by (auto elim: dvdE)
  have offs: "block_offsets (16 * q) = map ((*) 16) [0..<q]"
    by (simp add: block_offsets_def oaes_consts)
  have "length m \<le> 16 * q" using q by (simp add: length_padded(2))
  then have s: "mem_slice ?c 32 (length m) = m"
    using assms q by (simp add: blit_def mem_slice_def)
  have st: "fold (encrypt_step (length m)) (map ((*) 16) [0..<q]) (OAES_RET_SUCCESS, x, ?c) =
    (OAES_RET_SUCCESS, x\<lparr>iv := chained_iv (cbc (options x)) k (iv x) (padded m) q\<rparr>,
     blit ?c 32 (cipher_text (cbc (options x)) k (iv x) (padded m) q))"
    using assms q \<open>length m \<le> 16 * q\<close> s by (intro encrypt_steps) simp_all
  have b: "blit ?c 32 (cipher_text (cbc (options x)) k (iv x) (padded m) q) =
      blit c 0 (?h @ cipher_text (cbc (options x)) k (iv x) (padded m) q)"
    using assms(2-5) q \<open>length m \<le> 16 * q\<close> by (simp add: blit_def add.commute)
  have hs: "blit (blit (blit (blit (blit c 0 oaes_header) 6 (split_le 2 (options x))) 8 [message_flags (length m)]) 16 (iv x)) 32 m = ?c"
    using assms(2-5) by (simp add: header_stores)
  have n: "2 * 16 + length m + pad_length (length m) = n" "length m + pad_length (length m) = 16 * q"
    using q assms(3) by (simp_all add: length_padded(2))
  have "oaes_encrypt (Some x) (Some m) (length m) (Some c) (Some c_len) =
    (let (rc, y, out) = fold (encrypt_step (length m)) (block_offsets (length m + pad_length (length m))) (OAES_RET_SUCCESS, x,
       blit (blit (blit (blit (blit c 0 oaes_header) 6 (split_le 2 (options x))) 8 [message_flags (length m)]) 16 (iv x)) (2 * 16) m)
     in (rc, Some y, Some out, Some (2 * 16 + length m + pad_length (length m))))"
    using assms(1,4) n(1)
    unfolding oaes_encrypt_def pad_length_def [symmetric] message_flags_def oaes_consts Let_def
    by simp
  then show ?thesis
    unfolding n offs using hs st b q by simp
qed

section \<open>Decrypted messages\<close>

definition plain_block :: "bool \<Rightarrow> oaes_key \<Rightarrow> byte list \<Rightarrow> byte list \<Rightarrow> nat \<Rightarrow> byte list" where
  "plain_block chain k v c j =
    (let d = decrypt16 k (blk c j) in if chain then xor_list d (if j = 0 then v else blk c (j - 1)) else d)"

definition plain_text :: "bool \<Rightarrow> oaes_key \<Rightarrow> byte list \<Rightarrow> byte list \<Rightarrow> nat \<Rightarrow> byte list" where
  "plain_text chain k v c n = concat (map (plain_block chain k v c) [0..<n])"

lemma length_plain_block [simp]:
  "16 * j + 16 \<le> length c \<Longrightarrow> length v = 16 \<Longrightarrow> length (plain_block chain k v c j) = 16"
  by (simp add: plain_block_def blk_def Let_def)

lemma length_plain_text [simp]:
  "16 * n \<le> length c \<Longrightarrow> length v = 16 \<Longrightarrow> length (plain_text chain k v c n) = 16 * n"
  by (induction n) (simp_all add: plain_text_def)

lemma plain_text_Suc: "plain_text chain k v c (Suc n) = plain_text chain k v c n @ plain_block chain k v c n"
  by (simp add: plain_text_def)

lemma blit_again:
  "p + length a \<le> length m \<Longrightarrow> length b = length a \<Longrightarrow> blit (blit m p a) p b = blit m p b"
  by (simp add: blit_def)

lemma decrypt_step_block:
  assumes "ctx_key x = Some k" and "length v = 16" and "16 * n + 16 \<le> length m"
    and "16 * n + 16 \<le> len" and "n = 0 \<or> 16 * n + 32 \<le> length c"
  shows "decrypt_step x opts c len (16 * n) (OAES_RET_SUCCESS, v, m) =
    (let v = (if cbc opts \<and> n > 0 then mem_slice c (16 + 16 * n) 16 else v);
         d = decrypt16 k (mem_slice m (16 * n) 16)
     in (OAES_RET_SUCCESS, v, blit m (16 * n) (if cbc opts then xor_list d v else d)))"
proof -
  define v' where "v' = (if cbc opts \<and> n > 0 then mem_slice c (16 + 16 * n) 16 else v)"
  have ivec: "(if cbc opts \<and> 0 < 16 * n then mem_slice c (16 + 16 * n) 16 else v) = v'"
    by (simp add: v'_def)
  define d where "d = decrypt16 k (mem_slice m (16 * n) 16)"
  have v': "length v' = 16" using assms by (auto simp: v'_def)
  have d: "length d = 16" using assms(3) by (simp add: d_def)
  have "fold (\<lambda>j m. m[16 * n + j := m ! (16 * n + j) XOR v' ! j]) [0..<16] (blit m (16 * n) d) =
      blit m (16 * n) (xor_list d v')"
    using fold_xor_store [of "16 * n" v' "blit m (16 * n) d"] assms(3) d v' by (simp add: blit_again)
  moreover have "oaes_decrypt_block (Some x) (Some (mem_slice m (16 * n) 16)) (min (len - 16 * n) 16) = (OAES_RET_SUCCESS, Some d)"
    using oaes_decrypt_block16 [OF assms(1), of "mem_slice m (16 * n) 16"] assms(3,4) by (simp add: d_def min_absorb2)
  ultimately show ?thesis
    unfolding decrypt_step_def oaes_consts prod.case Let_def ivec d_def [symmetric]
    by (simp add: rc_or_def) (simp add: v'_def)
qed

lemma decrypt_steps:
  assumes "ctx_key x = Some k" and "length v = 16" and "length c = 16 * q"
    and "16 * q \<le> length out" and "mem_slice inp 32 (16 * q) = c" and "32 + 16 * q \<le> length inp" and "n \<le> q"
  shows "fold (decrypt_step x opts inp (16 * q)) (map ((*) 16) [0..<n]) (OAES_RET_SUCCESS, v, blit out 0 c) =
    (OAES_RET_SUCCESS, if cbc opts \<and> n > 1 then blk c (n - 2) else v, blit (blit out 0 c) 0 (plain_text (cbc opts) k v c n))"
  using assms(7)
proof (induction n)
  case 0
  show ?case by (simp add: plain_text_def blit_def)
next
  case (Suc n)
  let ?o = "blit out 0 c"
  let ?t = "plain_text (cbc opts) k v c n"
  let ?v = "if cbc opts \<and> n > 1 then blk c (n - 2) else v"
  have lt: "length ?t = 16 * n" using Suc.prems assms(2,3) by simp
  have "mem_slice (blit ?o 0 ?t) (16 * n) 16 = mem_slice ?o (16 * n) 16"
    using lt Suc.prems assms(3,4) by (intro mem_slice_blit_disjoint) simp_all
  also have "\<dots> = mem_slice (mem_slice ?o 0 (16 * q)) (16 * n) 16"
    using Suc.prems by simp
  also have "\<dots> = blk c n"
    using assms(3,4) by (simp add: blk_def)
  finally have s: "mem_slice (blit ?o 0 ?t) (16 * n) 16 = blk c n" .
  have v: "mem_slice inp (16 + 16 * n) 16 = blk c (n - 1)" if "n > 0"
    using that Suc.prems by (cases n) (simp_all add: assms(5) [symmetric] blk_def)
  have "length ?v = 16" using assms(2,3) Suc.prems by (auto simp: blk_def)
  then have "decrypt_step x opts inp (16 * q) (16 * n) (OAES_RET_SUCCESS, ?v, blit ?o 0 ?t) =
    (OAES_RET_SUCCESS, if cbc opts \<and> n > 0 then blk c (n - 1) else v,
     blit (blit ?o 0 ?t) (16 * n) (plain_block (cbc opts) k v c n))"
    using assms(1,3,4,6) Suc.prems lt
    by (subst decrypt_step_block) (auto simp: s v Let_def plain_block_def)
  moreover have "blit (blit ?o 0 ?t) (16 * n) e = blit ?o 0 (?t @ e)" for e
    using blit_again_after [of 0 ?t ?o e] lt Suc.prems assms(3,4) by simp
  ultimately show ?case
    using Suc.IH Suc.prems by (simp add: plain_text_Suc)
qed

lemma blk_cipher_text:
  assumes "16 * n \<le> length p" and "length v = 16" and "j < n"
  shows "blk (cipher_text ch k v p n) j = cipher_block ch k v p j"
  unfolding blk_def cipher_text_def
  using assms by (subst mem_slice_pieces) auto

lemma plain_cipher_block:
  assumes "key_ok k" and "16 * n \<le> length p" and "length v = 16" and "j < n"
  shows "plain_block ch k v (cipher_text ch k v p n) j = blk p j"
proof -
  note key = key_ok_sizes [OF assms(1)]
  have v: "length (chained_iv ch k v p j) = 16" and b: "length (blk p j) = 16"
    using assms by (simp_all add: blk_def)
  have "(if j = 0 then v else blk (cipher_text ch k v p n) (j - 1)) = chained_iv ch k v p j" if ch
    using that assms by (auto simp: chained_iv_def blk_cipher_text)
  then show ?thesis
    using assms key v b by (simp add: plain_block_def blk_cipher_text cipher_block_chained Let_def)
qed

lemma plain_cipher_text:
  assumes "key_ok k" and "16 * n = length p" and "length v = 16"
  shows "plain_text ch k v (cipher_text ch k v p n) n = p"
proof -
  have "plain_text ch k v (cipher_text ch k v p n) n = concat (map (blk p) [0..<n])"
    using assms unfolding plain_text_def by (intro arg_cong [where f = concat] map_cong) (simp_all add: plain_cipher_block)
  then show ?thesis
    using mem_slice_concat [of p 0 16 n] assms(2) by (simp add: blk_def [abs_def])
qed

lemma unat_of_nat_byte: "n < 256 \<Longrightarrow> unat (of_nat n :: byte) = n"
  by (simp add: unsigned_of_nat take_bit_nat_eq_self)

lemma remove_padding:
  assumes "length p \<le> length out" and "p = padded m" and "pad_length (length m) = n" and "n \<noteq> 0"
  shows "remove_pad (blit out 0 p) (length p) =
    Some (OAES_RET_SUCCESS, blit out 0 (m @ replicate n 0), length m)"
proof -
  have n: "n < 16" using assms(3) pad_length_less by blast
  have lp: "length p = length m + n" using assms(2,3) by (simp add: length_padded(2))
  have nth: "unat (blit out 0 p ! (length p - 1 - i)) = n - i" if "i < n" for i
  proof -
    have "p ! (length m + r) = of_nat (r + 1)" if "r < n" for r
      using that assms(2,3) by (simp add: padded_def nth_append)
    from this [of "n - 1 - i"] have "p ! (length p - 1 - i) = of_nat (n - 1 - i + 1)"
      using that lp by simp
    then show ?thesis
      using that n lp assms(1) by (simp add: nth_blit unat_of_nat_byte del: of_nat_Suc of_nat_add)
  qed
  have "blit (blit out 0 p) (length m) (replicate n 0) = blit out 0 (m @ replicate n 0)"
    using assms lp by (simp add: blit_def padded_def)
  moreover have "unat (blit out 0 p ! (length p - 1)) = n"
    using nth [of 0] assms(4) by simp
  moreover have "list_all (\<lambda>i. unat (blit out 0 p ! (length p - 1 - i)) = n - i) [0..<n]"
    unfolding list_all_iff using nth by simp
  ultimately show ?thesis
    using n lp assms(4) by (simp add: remove_pad_def Let_def del: diff_diff_left)
qed

lemma remove_flags: "message_flags n AND NOT OAES_FLAG_PAD = 0" "message_flags n AND OAES_FLAG_PAD \<noteq> 0 \<longleftrightarrow> pad_length n \<noteq> 0"
  by (auto simp: message_flags_def OAES_FLAG_PAD_def)

lemma header_fields:
  assumes "length v = 16"
  shows "take 4 (message_header o1 f v @ c) = take 4 oaes_header"
    "(message_header o1 f v @ c) ! 4 = 0x01" "(message_header o1 f v @ c) ! 5 = 0x02"
    "join_le (mem_slice (message_header o1 f v @ c) 6 2) = o1"
    "(message_header o1 f v @ c) ! 8 = f"
    "mem_slice (message_header o1 f v @ c) 16 16 = v"
    "mem_slice (message_header o1 f v @ c) 32 (length c) = c"
proof -
  show "take 4 (message_header o1 f v @ c) = take 4 oaes_header"
    by (simp add: message_header_def oaes_header_def)
  show "(message_header o1 f v @ c) ! 4 = 0x01" "(message_header o1 f v @ c) ! 5 = 0x02"
      "(message_header o1 f v @ c) ! 8 = f"
    by (simp_all add: message_header_def split_le_2)
  have "mem_slice (message_header o1 f v @ c) 6 2 = split_le 2 o1"
    by (simp add: message_header_def mem_slice_def split_le_2)
  then show "join_le (mem_slice (message_header o1 f v @ c) 6 2) = o1"
    using join_split_le [of 2, where 'b = 8 and 'a = 16] by simp
  show "mem_slice (message_header o1 f v @ c) 16 16 = v"
    using assms by (simp add: message_header_def mem_slice_def split_le_2)
  show "mem_slice (message_header o1 f v @ c) 32 (length c) = c"
    using assms by (simp add: mem_slice_def)
qed

lemma valid_options_ok: "o1 = OAES_OPTION_ECB \<or> o1 = OAES_OPTION_CBC \<Longrightarrow> valid_options o1"
  by (auto simp: valid_options_def OAES_OPTION_ECB_def OAES_OPTION_CBC_def)

lemma oaes_decrypt_message:
  assumes "ctx_key x = Some k" and "key_ok k" and "length v = 16" and "o1 = OAES_OPTION_ECB \<or> o1 = OAES_OPTION_CBC"
    and "p = padded m" and "length p = 16 * q"
    and "inp = message_header o1 (message_flags (length m)) v @ cipher_text (cbc o1) k v p q @ rest"
    and "n = 32 + 16 * q" and "16 * q \<le> m_len" and "m_len \<le> length out"
  shows "oaes_decrypt (Some x) (Some inp) n (Some out) (Some m_len) =
    Some (OAES_RET_SUCCESS, Some (blit out 0 (m @ replicate (pad_length (length m)) 0)), Some (length m))"
proof -
  let ?c = "cipher_text (cbc o1) k v p q"
  have lc: "length ?c = 16 * q" using assms(3,6) by simp
  note h = header_fields [OF assms(3), of o1 "message_flags (length m)" "?c @ rest", folded assms(7)]
  have inp: "mem_slice inp 32 (16 * q) = ?c"
    using lc assms(3) by (simp add: assms(7) mem_slice_def)
  have offs: "block_offsets (16 * q) = map ((*) 16) [0..<q]"
    by (simp add: block_offsets_def oaes_consts)
  have st: "fold (decrypt_step x o1 inp (16 * q)) (map ((*) 16) [0..<q]) (OAES_RET_SUCCESS, v, blit out 0 ?c) =
    (OAES_RET_SUCCESS, if cbc o1 \<and> q > 1 then blk ?c (q - 2) else v, blit (blit out 0 ?c) 0 (plain_text (cbc o1) k v ?c q))"
    using assms(1,3,7,9,10) lc inp by (intro decrypt_steps) simp_all
  have pt: "blit (blit out 0 ?c) 0 (plain_text (cbc o1) k v ?c q) = blit out 0 p"
    using assms(2,3,6,9,10) lc by (simp add: plain_cipher_text blit_def)
  have sz: "size_sub n (2 * 16) = 16 * q" using assms(8) by (simp add: size_sub_def)
  have md: "n mod 16 = 0" using assms(8) by simp
  have "oaes_decrypt (Some x) (Some inp) n (Some out) (Some m_len) =
    (if pad_length (length m) \<noteq> 0
     then map_option (\<lambda>(rc, m, m_len). (rc, Some m, Some m_len)) (remove_pad (blit out 0 p) (16 * q))
     else Some (OAES_RET_SUCCESS, Some (blit out 0 p), Some (16 * q)))"
    using assms(1,9) sz md h(1-6) inp st pt remove_flags [of "length m"] valid_options_ok [OF assms(4)]
    unfolding oaes_decrypt_def oaes_consts
    by (simp add: offs Let_def)
  also have "\<dots> = Some (OAES_RET_SUCCESS, Some (blit out 0 (m @ replicate (pad_length (length m)) 0)), Some (length m))"
  proof (cases "pad_length (length m) = 0")
    case True
    then show ?thesis using assms(5,6) length_padded(2) [of m] by (simp add: padded_def)
  next
    case False
    then show ?thesis
      using remove_padding [of p out m "pad_length (length m)"] assms(5,6,9,10) by simp
  qed
  finally show ?thesis .
qed

section \<open>The key schedule\<close>

definition column :: "byte list \<Rightarrow> nat \<Rightarrow> byte list" where
  "column e i = mem_slice e (4 * i) 4"

definition rcon :: "nat \<Rightarrow> byte" where
  "rcon j = (xtime ^^ (j - 1)) 1"

text \<open>The word that FIPS 197 adds to the word \<open>Nk\<close> places before.\<close>

definition fips_temp :: "nat \<Rightarrow> nat \<Rightarrow> byte list \<Rightarrow> byte list" where
  "fips_temp nk i temp =
    (if i mod nk = 0 then xor_list (map oaes_sub_byte (rotate1 temp)) [rcon (i div nk), 0, 0, 0]
     else if nk > 6 \<and> i mod nk = 4 then map oaes_sub_byte temp
     else temp)"

lemma fold_xor_from:
  assumes "p + n \<le> length e" and "q + n \<le> p"
  shows "fold (\<lambda>j e. e[p + j := e ! (q + j) XOR t ! j]) [0..<n] e = blit e p (map (\<lambda>j. e ! (q + j) XOR t ! j) [0..<n])"
  using assms
proof (induction n)
  case (Suc n)
  let ?b = "blit e p (map (\<lambda>j. e ! (q + j) XOR t ! j) [0..<n])"
  have "?b ! (q + n) = e ! (q + n)" using Suc.prems by (simp add: nth_blit)
  moreover have "?b[p + n := e ! (q + n) XOR t ! n] = blit e p (map (\<lambda>j. e ! (q + j) XOR t ! j) [0..<Suc n])"
    using Suc.prems by (intro nth_equalityI) (auto simp: nth_list_update nth_blit nth_append)
  ultimately show ?case using Suc by simp
qed (simp add: blit_def)

lemma length4_cases:
  assumes "length t = 4"
  obtains a b c d where "t = [a, b, c, d]"
  using assms by (auto simp: length_Suc_conv eval_nat_numeral)

lemma gf_8_rcon:
  assumes "j < 10"
  shows "oaes_gf_8 ! j = rcon (Suc j)"
proof -
  have "list_all (\<lambda>j. oaes_gf_8 ! j = rcon (Suc j)) [0..<10]"
    by code_simp
  with assms show ?thesis by (simp only: list_all_iff set_upt) simp
qed

lemma expand_temp_fips:
  assumes "length t = 4" and "0 < kb" and "kb \<le> i" and "i div kb \<le> 10"
  shows "expand_temp kb i t = fips_temp kb i t" and "length (expand_temp kb i t) = 4"
proof -
  obtain a b c d where t: "t = [a, b, c, d]" using assms(1) by (rule length4_cases)
  have "0 < i div kb" using assms(2,3) by (simp add: div_greater_zero_iff)
  then have "oaes_gf_8 ! (i div kb - 1) = rcon (i div kb)"
    using gf_8_rcon [of "i div kb - 1"] assms(4) by simp
  then show "expand_temp kb i t = fips_temp kb i t"
    by (simp add: expand_temp_def fips_temp_def t oaes_word_rot_left_def blit_def mem_slice_def oaes_consts
        xor_list_def Let_def eval_nat_numeral)
  then show "length (expand_temp kb i t) = 4" by (simp add: fips_temp_def t xor_list_def)
qed

lemma expand_column_blit:
  assumes "0 < kb" and "kb \<le> i" and "4 * i + 4 \<le> length e" and "i div kb \<le> 10"
  shows "expand_column kb i e = blit e (4 * i) (xor_list (column e (i - kb)) (fips_temp kb i (column e (i - 1))))"
proof -
  let ?t = "fips_temp kb i (column e (i - 1))"
  have t: "expand_temp kb i (column e (i - 1)) = ?t" "length ?t = 4"
    using expand_temp_fips [of "column e (i - 1)" kb i] assms by (simp_all add: column_def)
  have "expand_column kb i e = blit e (4 * i) (map (\<lambda>j. e ! (4 * (i - kb) + j) XOR ?t ! j) [0..<4])"
    using t assms fold_xor_from [of "4 * i" 4 e "4 * (i - kb)" ?t]
    by (simp add: expand_column_def column_def oaes_consts Let_def mult.commute)
  also have "map (\<lambda>j. e ! (4 * (i - kb) + j) XOR ?t ! j) [0..<4] = xor_list (column e (i - kb)) ?t"
    using t(2) assms by (intro nth_equalityI) (simp_all add: column_def)
  finally show ?thesis .
qed

lemma column_blit_other:
  "j \<noteq> i \<Longrightarrow> length w = 4 \<Longrightarrow> 4 * i + 4 \<le> length e \<Longrightarrow> 4 * j + 4 \<le> length e \<Longrightarrow>
    column (blit e (4 * i) w) j = column e j"
  unfolding column_def by (rule mem_slice_blit_disjoint) auto

lemma expand_columns_schedule:
  assumes "0 < kb" and "4 * n \<le> length e" and "\<And>i. i < n \<Longrightarrow> i div kb \<le> 10" and "kb \<le> n"
  defines "x \<equiv> fold (expand_column kb) [kb..<n] e"
  shows "(\<forall>i < kb. column x i = column e i) \<and>
    (\<forall>i. kb \<le> i \<longrightarrow> i < n \<longrightarrow> column x i = xor_list (column x (i - kb)) (fips_temp kb i (column x (i - 1))))"
  using assms(4,2,3) unfolding x_def
proof (induction n rule: dec_induct)
  case base
  then show ?case by simp
next
  case (step n)
  let ?x = "fold (expand_column kb) [kb..<n] e"
  let ?w = "xor_list (column ?x (n - kb)) (fips_temp kb n (column ?x (n - 1)))"
  have IH: "\<forall>i < kb. column ?x i = column e i"
      "\<And>i. kb \<le> i \<Longrightarrow> i < n \<Longrightarrow> column ?x i = xor_list (column ?x (i - kb)) (fips_temp kb i (column ?x (i - 1)))"
    using step.IH step.prems by auto
  have n: "n div kb \<le> 10" "4 * n + 4 \<le> length e" using step.prems by auto
  have len: "length (fips_temp kb n (column ?x (n - 1))) = 4"
    using expand_temp_fips [of "column ?x (n - 1)" kb n] n step.hyps assms(1) by (simp add: column_def)
  have w: "length ?w = 4" using len n by (simp add: column_def)
  have x: "fold (expand_column kb) [kb..<Suc n] e = blit ?x (4 * n) ?w"
    using step.hyps assms(1) n by (simp add: expand_column_blit)
  have same: "column (blit ?x (4 * n) ?w) j = column ?x j" if "j < n" for j
    using that w n by (intro column_blit_other) simp_all
  have new: "column (blit ?x (4 * n) ?w) n = ?w"
    using w n by (simp add: column_def)
  show ?case
    unfolding x
  proof (intro conjI allI impI)
    fix i assume "i < kb"
    then show "column (blit ?x (4 * n) ?w) i = column e i"
      using IH(1) step.hyps same by simp
  next
    fix i assume i: "kb \<le> i" "i < Suc n"
    have "i - kb < n" "i - 1 < n" using i assms(1) step.hyps by auto
    then show "column (blit ?x (4 * n) ?w) i =
        xor_list (column (blit ?x (4 * n) ?w) (i - kb)) (fips_temp kb i (column (blit ?x (4 * n) ?w) (i - 1)))"
      using IH(2) [of i] i same new by (cases "i = n") simp_all
  qed
qed

lemma expanded_schedule:
  assumes "n \<in> {16, 24, 32}" and "length bytes = n" and "nk = n div 4"
  shows "mem_slice (expanded n bytes) 0 n = bytes"
    and "nk \<le> i \<Longrightarrow> i < 4 * (nk + 7) \<Longrightarrow>
      column (expanded n bytes) i =
        xor_list (column (expanded n bytes) (i - nk)) (fips_temp nk i (column (expanded n bytes) (i - 1)))"
proof -
  define e where "e = blit (replicate (16 * (n div 4 + 7)) (0 :: byte)) 0 bytes"
  let ?x = "expanded n bytes"
  have nk: "0 < nk" "n = 4 * nk" "nk \<le> (nk + 7) * 4" "nk = 4 \<or> nk = 6 \<or> nk = 8" using assms(1,3) by auto
  have d: "i div nk \<le> 10" if "i < (nk + 7) * 4" for i
    using that nk(4) by auto
  have e: "length e = 16 * (nk + 7)" "mem_slice e 0 n = bytes"
    unfolding e_def assms(3) [symmetric] using assms(2) nk(2) by (simp_all add: mem_slice_def blit_def)
  have x: "?x = fold (expand_column nk) [nk..<(nk + 7) * 4] e"
    by (simp add: expanded_def e_def assms(3))
  have s: "(\<forall>i < nk. column ?x i = column e i) \<and>
    (\<forall>i. nk \<le> i \<longrightarrow> i < (nk + 7) * 4 \<longrightarrow> column ?x i =
      xor_list (column ?x (i - nk)) (fips_temp nk i (column ?x (i - 1))))"
    unfolding x by (rule expand_columns_schedule [OF nk(1) _ d nk(3)]) (simp_all add: e(1))
  show "nk \<le> i \<Longrightarrow> i < 4 * (nk + 7) \<Longrightarrow>
      column ?x i = xor_list (column ?x (i - nk)) (fips_temp nk i (column ?x (i - 1)))"
    using s [THEN conjunct2, rule_format, of i] by (simp only: mult.commute)
  have "mem_slice ?x 0 (4 * nk) = concat (map (column ?x) [0..<nk])"
    using mem_slice_concat [of ?x 0 4 nk] by (simp only: column_def [abs_def] add_0)
  also have "\<dots> = concat (map (column e) [0..<nk])"
    using s [THEN conjunct1] by (intro arg_cong [where f = concat] map_cong) simp_all
  also have "\<dots> = mem_slice e 0 (4 * nk)"
    using mem_slice_concat [of e 0 4 nk] by (simp only: column_def [abs_def] add_0)
  finally show "mem_slice ?x 0 n = bytes" using nk(2) e(2) by simp
qed

section \<open>Properties\<close>

text \<open>The contexts a client can hold: one from \<open>oaes_alloc\<close>, and what the calls make of it.\<close>

inductive oaes_context :: "('r \<Rightarrow> byte \<times> 'r) \<Rightarrow> oaes_ctx \<Rightarrow> bool" for rand where
  alloc: "oaes_alloc rand r mem = (Some x, r') \<Longrightarrow> oaes_context rand x"
| set_option: "oaes_context rand x \<Longrightarrow> oaes_set_option rand r (Some x) opt v = (rc, Some y, r') \<Longrightarrow>
    (\<And>b. v = Some b \<Longrightarrow> 16 \<le> length b) \<Longrightarrow> oaes_context rand y"
| gen_128: "oaes_context rand x \<Longrightarrow> oaes_key_gen_128 rand r m1 m2 m3 (Some x) = (rc, Some y, r') \<Longrightarrow> oaes_context rand y"
| gen_192: "oaes_context rand x \<Longrightarrow> oaes_key_gen_192 rand r m1 m2 m3 (Some x) = (rc, Some y, r') \<Longrightarrow> oaes_context rand y"
| gen_256: "oaes_context rand x \<Longrightarrow> oaes_key_gen_256 rand r m1 m2 m3 (Some x) = (rc, Some y, r') \<Longrightarrow> oaes_context rand y"
| key_import: "oaes_context rand x \<Longrightarrow> oaes_key_import m1 m2 m3 (Some x) (Some d) n = (rc, Some y) \<Longrightarrow>
    n \<le> length d \<Longrightarrow> oaes_context rand y"
| key_import_data: "oaes_context rand x \<Longrightarrow> oaes_key_import_data m1 m2 m3 (Some x) (Some d) n = (rc, Some y) \<Longrightarrow>
    n \<le> length d \<Longrightarrow> oaes_context rand y"
| encrypt: "oaes_context rand x \<Longrightarrow>
    oaes_encrypt (Some x) (Some m) (length m) (Some c) (Some (length c)) = (rc, Some y, c', n) \<Longrightarrow> oaes_context rand y"

lemma ctx_ok_set_option_any:
  assumes "ctx_ok x" and "oaes_set_option rand r (Some x) opt v = (rc, Some y, r')"
    and "\<And>b. v = Some b \<Longrightarrow> 16 \<le> length b"
  shows "ctx_ok y"
proof (cases "rc = OAES_RET_SUCCESS")
  case True
  then show ?thesis
    using ctx_ok_set_option [of x rand r opt v y r'] assms by (auto split: option.splits)
next
  case False
  then show ?thesis
    using assms(1,2) by (auto simp: oaes_set_option_def Let_def split_def split: if_splits)
qed

lemma ctx_ok_iv: "ctx_ok x \<Longrightarrow> length v = 16 \<Longrightarrow> ctx_ok (x\<lparr>iv := v\<rparr>)"
  by (simp add: ctx_ok_def)

lemma ctx_ok_encrypt:
  assumes "ctx_ok x" and "oaes_encrypt (Some x) (Some m) (length m) (Some c) (Some (length c)) = (rc, Some y, c', n)"
  shows "ctx_ok y"
proof (cases "ctx_key x")
  case None
  then show ?thesis
    using assms by (auto simp: oaes_encrypt_def Let_def split: if_splits)
next
  case (Some k)
  have iv: "length (iv x) = 16" using assms(1) by (simp add: ctx_ok_def)
  show ?thesis
  proof (cases "32 + length (padded m) \<le> length c")
    case True
    have "length (chained_iv b k (iv x) (padded m) (length (padded m) div 16)) = 16" for b
      using iv by simp
    then show ?thesis
      using oaes_encrypt_message [OF Some iv refl True order_refl] assms by (simp add: ctx_ok_iv)
  next
    case False
    then show ?thesis
      using assms unfolding length_padded(2) pad_length_def
      by (auto simp: oaes_encrypt_def oaes_consts Let_def split: if_splits)
  qed
qed

text \<open>C18: A context made by \<open>oaes_alloc\<close> and any calls of the library has exactly one mode, a
  vector of one block, and either no key or a key of 16, 24 or 32 bytes with its complete
  expansion: failed allocations and rejected arguments included.\<close>

theorem oaes_context_ok: "oaes_context rand x \<Longrightarrow> ctx_ok x"
  by (induction rule: oaes_context.induct)
    (auto intro: ctx_ok_alloc ctx_ok_set_option_any ctx_ok_gen ctx_ok_import ctx_ok_import_data ctx_ok_encrypt
      simp: oaes_key_gen_128_def oaes_key_gen_192_def oaes_key_gen_256_def)

lemma oaes_context_ok_witness:
  "oaes_context (\<lambda>r. (r, r + 1)) (the (fst (oaes_alloc (\<lambda>r. (r, r + 1)) 0 True))) \<and>
   ctx_ok (the (fst (oaes_alloc (\<lambda>r. (r, r + 1)) 0 True)))"
proof -
  have "oaes_context (\<lambda>r. (r, r + 1)) (the (fst (oaes_alloc (\<lambda>r. (r, r + 1)) 0 True)))"
    by (rule oaes_context.alloc [where mem = True and rand = "\<lambda>r. (r, r + 1)" and r = 0 and
        r' = "snd (oaes_alloc (\<lambda>r. (r, r + 1)) 0 True)"])
      (simp add: oaes_alloc_def oaes_set_option_def split_def Let_def OAES_OPTION_CBC_def OAES_OPTION_ECB_def)
  then show ?thesis by (blast intro: oaes_context_ok)
qed

text \<open>C6: A message that \<open>oaes_encrypt\<close> writes is read back by \<open>oaes_decrypt\<close>, in any context
  with the same key and whatever the mode: the buffer starts with the plain text and its length
  is restored; the padding is cleared.\<close>

theorem oaes_message_roundtrip:
  assumes "ctx_ok x" and "ctx_key x = Some k" and "ctx_key y = Some k"
    and "n = 32 + length m + pad_length (length m)" and "n \<le> c_len" and "c_len \<le> length c"
    and "length m + pad_length (length m) \<le> m_len" and "m_len \<le> length out"
  shows "\<exists>x' c'. oaes_encrypt (Some x) (Some m) (length m) (Some c) (Some c_len) =
      (OAES_RET_SUCCESS, Some x', Some c', Some n) \<and> length c' = length c \<and>
    oaes_decrypt (Some y) (Some c') n (Some out) (Some m_len) =
      Some (OAES_RET_SUCCESS, Some (blit out 0 (m @ replicate (pad_length (length m)) 0)), Some (length m))"
proof -
  obtain q where q: "length (padded m) = 16 * q"
    using length_padded(1) [of m] by (auto elim: dvdE)
  have x: "key_ok k" "length (iv x) = 16" "options x = OAES_OPTION_ECB \<or> options x = OAES_OPTION_CBC"
    using assms(1,2) by (simp_all add: ctx_ok_def)
  have n: "n = 32 + 16 * q" "16 * q \<le> m_len" using assms(4,7) q by (simp_all add: length_padded(2))
  let ?m = "message_header (options x) (message_flags (length m)) (iv x) @
      cipher_text (cbc (options x)) k (iv x) (padded m) q"
  have l: "length ?m \<le> length c" using x(2) q n(1) assms(5,6) by simp
  have "blit c 0 ?m = message_header (options x) (message_flags (length m)) (iv x) @
      cipher_text (cbc (options x)) k (iv x) (padded m) q @ drop (length ?m) c"
    by (simp add: blit_def)
  then have "oaes_decrypt (Some y) (Some (blit c 0 ?m)) n (Some out) (Some m_len) =
      Some (OAES_RET_SUCCESS, Some (blit out 0 (m @ replicate (pad_length (length m)) 0)), Some (length m))"
    by (rule oaes_decrypt_message [OF assms(3) x(1,2,3) refl q _ n assms(8)])
  moreover have "oaes_encrypt (Some x) (Some m) (length m) (Some c) (Some c_len) =
      (OAES_RET_SUCCESS, Some (x\<lparr>iv := chained_iv (cbc (options x)) k (iv x) (padded m) q\<rparr>), Some (blit c 0 ?m), Some n)"
    using oaes_encrypt_message [OF assms(2) x(2), of n m c_len c] assms(5,6) q n by simp
  ultimately show ?thesis
    using l by auto
qed

definition demo_ctx :: oaes_ctx where
  "demo_ctx = \<lparr>ctx_key = Some (made_key 16 (replicate 16 7)), options = OAES_OPTION_CBC, iv = replicate 16 5\<rparr>"

lemma demo_ctx_ok: "ctx_ok demo_ctx" "ctx_key demo_ctx = Some (made_key 16 (replicate 16 7))"
  by (simp_all add: demo_ctx_def ctx_ok_def)

lemma oaes_message_roundtrip_witness:
  "\<exists>x' c'. oaes_encrypt (Some demo_ctx) (Some [1, 2, 3]) (length [1, 2, 3 :: byte]) (Some (replicate 48 0)) (Some 48) =
      (OAES_RET_SUCCESS, Some x', Some c', Some 48) \<and> length c' = 48 \<and>
    oaes_decrypt (Some (demo_ctx\<lparr>iv := []\<rparr>)) (Some c') 48 (Some (replicate 16 9)) (Some 16) =
      Some (OAES_RET_SUCCESS, Some ([1, 2, 3] @ replicate 13 0), Some (length [1, 2, 3 :: byte]))"
  using oaes_message_roundtrip [OF demo_ctx_ok, of "demo_ctx\<lparr>iv := []\<rparr>" 48 "[1, 2, 3]" 48 "replicate 48 0" 16 "replicate 16 9"]
  by (simp add: pad_length_def blit_def demo_ctx_def)

text \<open>C30: \<open>oaes_decrypt_block\<close> undoes \<open>oaes_encrypt_block\<close>, for each of the three key sizes.\<close>

theorem oaes_block_roundtrip:
  assumes "ctx_ok x" and "ctx_key x = Some k" and "length b = 16"
  shows "oaes_decrypt_block (Some x) (snd (oaes_encrypt_block (Some x) (Some b) 16)) 16 = (OAES_RET_SUCCESS, Some b)"
  using assms key_ok_sizes [of k]
  by (simp add: ctx_ok_def oaes_encrypt_block16 oaes_decrypt_block16)

lemma oaes_block_roundtrip_witness:
  "oaes_decrypt_block (Some demo_ctx) (snd (oaes_encrypt_block (Some demo_ctx) (Some (replicate 16 3)) 16)) 16 =
    (OAES_RET_SUCCESS, Some (replicate 16 3))"
  by (rule oaes_block_roundtrip [OF demo_ctx_ok]) simp

lemma oaes_encryption_round_bytes:
  "length b = 16 \<Longrightarrow> oaes_encryption_round (Some k) (Some b) = (OAES_RET_SUCCESS, Some (byte_round k b))"
  by (simp add: oaes_encryption_round_def byte_round_def oaes_consts Let_def)

lemma byte_round_slice:
  "length b = 16 \<Longrightarrow> n + 16 \<le> length k \<Longrightarrow> byte_round (drop n k) b = byte_round (mem_slice k n 16) b"
  by (simp add: byte_round_def add_key_xor mem_slice_def)

lemma pseudo_rounds:
  assumes "length b = 16" and "16 * n \<le> length k"
  shows "fold (\<lambda>i c. snd (oaes_encryption_round (Some (drop (i * OAES_RKEY_LEN * OAES_COL_LEN) k)) c)) [0..<n] (Some b) =
      Some (fold (\<lambda>i. byte_round (mem_slice k (16 * i) 16)) [0..<n] b) \<and>
    length (fold (\<lambda>i. byte_round (mem_slice k (16 * i) 16)) [0..<n] b) = 16"
  using assms(2)
  by (induction n) (simp_all add: assms(1) oaes_encryption_round_bytes oaes_consts byte_round_slice mult.commute)

text \<open>C16: The table-driven rounds of \<open>aesb.c\<close> compute what the byte-oriented rounds of
  \<open>oaes_lib.c\<close> compute: \<open>aesb_single_round\<close> is \<open>oaes_encryption_round\<close>, and \<open>aesb_pseudo_round\<close>
  on the expanded key is \<open>oaes_pseudo_encrypt_ecb\<close>.\<close>

theorem aesb_rounds_oaes:
  assumes "length b = 16" and "16 \<le> length e" and "ctx_key x = Some k" and "160 \<le> length (exp_data k)"
  shows "oaes_encryption_round (Some e) (Some b) = (OAES_RET_SUCCESS, Some (aesb_single_round b e)) \<and>
    oaes_pseudo_encrypt_ecb (Some x) (Some b) = (OAES_RET_SUCCESS, Some (aesb_pseudo_round b (exp_data k)))"
  using assms pseudo_rounds [of b 10 "exp_data k"] byte_round_slice [of b 0 e]
  by (simp add: oaes_encryption_round_bytes aesb_single_round_bytes aesb_pseudo_round_bytes oaes_pseudo_encrypt_ecb_def)

lemma aesb_rounds_oaes_witness:
  "oaes_encryption_round (Some (replicate 16 2)) (Some (replicate 16 3)) =
     (OAES_RET_SUCCESS, Some (aesb_single_round (replicate 16 3) (replicate 16 2))) \<and>
   oaes_pseudo_encrypt_ecb (Some demo_ctx) (Some (replicate 16 3)) =
     (OAES_RET_SUCCESS, Some (aesb_pseudo_round (replicate 16 3) (expanded 16 (replicate 16 7))))"
  using aesb_rounds_oaes [OF _ _ demo_ctx_ok(2), of "replicate 16 3" "replicate 16 2"]
  by (simp add: made_key_def)

text \<open>C17: The expanded key of \<open>oaes_key_import_data\<close> starts with the key, and every later word is
  the word \<open>Nk\<close> places before it mixed with the word before it, which is rotated, substituted
  and given a round constant at every multiple of \<open>Nk\<close>, and substituted half-way between for
  keys of 256 bits: the key expansion of FIPS 197.\<close>

theorem oaes_key_schedule:
  assumes "length key \<in> {16, 24, 32}" and "nk = length key div 4"
  shows "\<exists>k. oaes_key_import_data True True True (Some x) (Some key) (length key) =
      (OAES_RET_SUCCESS, Some (x\<lparr>ctx_key := Some k\<rparr>)) \<and>
    num_keys k = nk + 7 \<and> length (exp_data k) = 16 * (nk + 7) \<and> mem_slice (exp_data k) 0 (length key) = key \<and>
    (\<forall>i. nk \<le> i \<and> i < 4 * (nk + 7) \<longrightarrow>
      column (exp_data k) i = xor_list (column (exp_data k) (i - nk)) (fips_temp nk i (column (exp_data k) (i - 1))))"
proof -
  have "oaes_key_import_data True True True (Some x) (Some key) (length key) =
      (OAES_RET_SUCCESS, Some (x\<lparr>ctx_key := Some (made_key (length key) key)\<rparr>))"
    using assms(1) by (auto simp: oaes_key_import_data_def replace_key_eq)
  moreover have "exp_data (made_key (length key) key) = expanded (length key) key"
      "num_keys (made_key (length key) key) = nk + 7"
    by (simp_all add: made_key_def assms(2))
  moreover have "length (expanded (length key) key) = 16 * (nk + 7)"
    by (simp add: assms(2))
  ultimately show ?thesis
    using expanded_schedule [OF assms(1) refl assms(2)] by metis
qed

lemma oaes_key_schedule_witness:
  "\<exists>k. oaes_key_import_data True True True (Some demo_ctx) (Some (replicate 16 1)) 16 =
      (OAES_RET_SUCCESS, Some (demo_ctx\<lparr>ctx_key := Some k\<rparr>)) \<and>
    length (exp_data k) = 176 \<and> column (exp_data k) 43 = xor_list (column (exp_data k) 39) (column (exp_data k) 42)"
proof (rule exE [OF oaes_key_schedule [of "replicate 16 1" 4 demo_ctx]])
  fix k
  assume k: "oaes_key_import_data True True True (Some demo_ctx) (Some (replicate 16 1)) (length (replicate 16 (1 :: byte))) =
      (OAES_RET_SUCCESS, Some (demo_ctx\<lparr>ctx_key := Some k\<rparr>)) \<and>
    num_keys k = 4 + 7 \<and> length (exp_data k) = 16 * (4 + 7) \<and>
    mem_slice (exp_data k) 0 (length (replicate 16 (1 :: byte))) = replicate 16 1 \<and>
    (\<forall>i. 4 \<le> i \<and> i < 4 * (4 + 7) \<longrightarrow>
      column (exp_data k) i = xor_list (column (exp_data k) (i - 4)) (fips_temp 4 i (column (exp_data k) (i - 1))))"
  have "column (exp_data k) 43 = xor_list (column (exp_data k) 39) (fips_temp 4 43 (column (exp_data k) 42))"
    using k [THEN conjunct2, THEN conjunct2, THEN conjunct2, THEN conjunct2, THEN spec, of 43] by simp
  moreover have "fips_temp 4 43 (column (exp_data k) 42) = column (exp_data k) 42"
    by (simp add: fips_temp_def)
  ultimately show ?thesis
    using k [THEN conjunct1] k [THEN conjunct2, THEN conjunct2, THEN conjunct1] by auto
qed simp_all


text \<open>C34: A key that \<open>oaes_key_export\<close> writes is imported by any other context, which then has
  the same key with the same expansion; a failed allocation leaves the context without a key.\<close>

theorem oaes_key_export_import:
  assumes "ctx_ok x" and "ctx_key x = Some k" and "n = data_len k + 16" and "n \<le> d_len" and "d_len \<le> length d"
  shows "\<exists>d'. oaes_key_export (Some x) (Some d) (Some d_len) = (OAES_RET_SUCCESS, Some d', Some n) \<and>
    oaes_key_import m1 m2 m3 (Some y) (Some d') n =
      (if m1 \<and> m2 \<and> m3 then (OAES_RET_SUCCESS, Some (y\<lparr>ctx_key := Some k\<rparr>))
       else (if m1 \<and> m2 then OAES_RET_UNKNOWN else OAES_RET_MEM, Some (y\<lparr>ctx_key := None\<rparr>)))"
proof -
  let ?l = "data_len k"
  have k: "key_ok k" using assms(1,2) by (simp add: ctx_ok_def)
  then have l: "?l = 16 \<or> ?l = 24 \<or> ?l = 32" "length (key_data k) = ?l" "k = made_key ?l (key_data k)"
    by (auto simp: key_ok_def)
  let ?h = "[0x4f, 0x41, 0x45, 0x53, 0x01, 0x01, 0x00, of_nat ?l] @ replicate 8 0 :: byte list"
  let ?d = "blit d 0 (?h @ key_data k)"
  have h: "(blit d 0 oaes_header)[5 := 0x01, 7 := of_nat ?l] = blit d 0 ?h"
    by (simp add: blit_def oaes_header_def eval_nat_numeral list_update_append)
  have ex: "oaes_key_export (Some x) (Some d) (Some d_len) = (OAES_RET_SUCCESS, Some ?d, Some n)"
    using assms(2-5) l h blit_blit_after [of ?h d "key_data k"]
    by (simp add: oaes_key_export_def oaes_consts Let_def)
  have d: "?d = ?h @ key_data k @ drop (16 + ?l) d"
    using l(2) by (simp add: blit_def)
  have u: "unat (of_nat ?l :: byte) = ?l" using l(1) by (intro unat_of_nat_byte) auto
  have "oaes_key_import m1 m2 m3 (Some y) (Some ?d) n = replace_key m1 m2 m3 y (key_data k) ?l"
    using l(1) unfolding oaes_key_import_def d
    by (auto simp: u assms(3) l(2) oaes_consts oaes_header_def mem_slice_def Let_def eval_nat_numeral)
  also have "\<dots> = (if m1 \<and> m2 \<and> m3 then (OAES_RET_SUCCESS, Some (y\<lparr>ctx_key := Some k\<rparr>))
       else (if m1 \<and> m2 then OAES_RET_UNKNOWN else OAES_RET_MEM, Some (y\<lparr>ctx_key := None\<rparr>)))"
    using replace_key_eq [OF l(2)] l(3) by simp
  finally show ?thesis using ex by blast
qed

lemma oaes_key_export_import_witness:
  "\<exists>d'. oaes_key_export (Some demo_ctx) (Some (replicate 32 0)) (Some 32) = (OAES_RET_SUCCESS, Some d', Some 32) \<and>
    oaes_key_import True True True (Some (demo_ctx\<lparr>ctx_key := None\<rparr>)) (Some d') 32 = (OAES_RET_SUCCESS, Some demo_ctx)"
  using oaes_key_export_import [OF demo_ctx_ok, of 32 32 "replicate 32 0" True True True "demo_ctx\<lparr>ctx_key := None\<rparr>"]
  by (simp add: made_key_def) (simp add: demo_ctx_def made_key_def)

lemma gmul_unfold:
  "gmul a b = (if bit b 0 then a else 0) XOR (if bit b 1 then xtime a else 0) XOR
    (if bit b 2 then (xtime ^^ 2) a else 0) XOR (if bit b 3 then (xtime ^^ 3) a else 0) XOR
    (if bit b 4 then (xtime ^^ 4) a else 0) XOR (if bit b 5 then (xtime ^^ 5) a else 0) XOR
    (if bit b 6 then (xtime ^^ 6) a else 0) XOR (if bit b 7 then (xtime ^^ 7) a else 0)"
  by (simp add: gmul_def numeral_eq_Suc bit_drop_bit_eq xor.assoc)

lemma products_field:
  "mul2 b = gmul b 0x02" "mul3 b = gmul b 0x03" "mul9 b = gmul b 0x09"
  "mulb b = gmul b 0x0b" "muld b = gmul b 0x0d" "mule b = gmul b 0x0e"
  by (simp_all add: gmul_unfold mul_defs bit_simps) (simp_all add: numeral_eq_Suc xor.assoc xor.commute xor.left_commute)

text \<open>The tables of \<open>oaes_lib.c\<close> are those of FIPS 197: the S-box is the affine image of the
  inverse in the field, the inverse S-box undoes it, and the six product tables multiply.\<close>

theorem oaes_tables_field:
  "sbox_of b (oaes_sub_byte b) \<and> oaes_inv_sub_byte (oaes_sub_byte b) = b \<and>
   oaes_gf_mul b 0x02 = gmul b 0x02 \<and> oaes_gf_mul b 0x03 = gmul b 0x03 \<and> oaes_gf_mul b 0x09 = gmul b 0x09 \<and>
   oaes_gf_mul b 0x0b = gmul b 0x0b \<and> oaes_gf_mul b 0x0d = gmul b 0x0d \<and> oaes_gf_mul b 0x0e = gmul b 0x0e"
proof -
  have "length (concat oaes_sub_byte_value) = 256" by (simp add: oaes_sub_byte_value_def)
  then have "sbox_of (all_bytes ! unat b) (concat oaes_sub_byte_value ! unat b)"
    using sbox_table by (simp add: list_all2_conv_all_nth unat_byte_less)
  moreover have "all_bytes ! unat b = b" using all_bytes_nth [of id b] by simp
  ultimately have "sbox_of b (oaes_sub_byte b)"
    by (simp add: oaes_sub_byte_def lookup16_concat table_shapes)
  then show ?thesis
    by (simp add: oaes_gf_mul_eqs products_field)
qed

text \<open>The checks of \<open>oaes_encrypt\<close> come in this order: context, message and length pointers;
  with no output buffer the call only reports the length it needs; a buffer that is too small or
  a missing key is refused with that length reported; the buffer and the context are untouched.\<close>

theorem oaes_encrypt_refusals:
  "oaes_encrypt None m m_len c c_len = (OAES_RET_ARG1, None, c, c_len) \<and>
   oaes_encrypt (Some x) None m_len c c_len = (OAES_RET_ARG2, Some x, c, c_len) \<and>
   oaes_encrypt (Some x) (Some ms) m_len c None = (OAES_RET_ARG5, Some x, c, None) \<and>
   oaes_encrypt (Some x) (Some ms) m_len None (Some l) =
     (OAES_RET_SUCCESS, Some x, None, Some (32 + m_len + pad_length m_len)) \<and>
   (l < 32 + m_len + pad_length m_len \<longrightarrow>
     oaes_encrypt (Some x) (Some ms) m_len (Some out) (Some l) =
       (OAES_RET_BUF, Some x, Some out, Some (32 + m_len + pad_length m_len))) \<and>
   (32 + m_len + pad_length m_len \<le> l \<and> ctx_key x = None \<longrightarrow>
     oaes_encrypt (Some x) (Some ms) m_len (Some out) (Some l) =
       (OAES_RET_NOKEY, Some x, Some out, Some (32 + m_len + pad_length m_len)))"
  by (simp add: oaes_encrypt_def oaes_consts pad_length_def Let_def)

lemma oaes_encrypt_refusals_witness:
  "oaes_encrypt (Some demo_ctx) (Some [1]) 1 (Some (replicate 47 0)) (Some 47) =
    (OAES_RET_BUF, Some demo_ctx, Some (replicate 47 0), Some 48)"
  using oaes_encrypt_refusals [of None 1 None None demo_ctx "[1]" 47 "replicate 47 0"]
  by (simp add: pad_length_def)

text \<open>\<open>oaes_decrypt\<close> accepts any multiple of 16 as a length.  Below the 32 bytes of a header the
  subtraction of unsigned sizes wraps: asked for the length of the plain text of 16 or 0 bytes it
  reports success and nearly \<open>2 ^ 64\<close>.\<close>

theorem oaes_decrypt_short_message:
  "oaes_decrypt (Some x) (Some inp) 16 None (Some l) = Some (OAES_RET_SUCCESS, None, Some (2 ^ 64 - 16)) \<and>
   oaes_decrypt (Some x) (Some inp) 0 None (Some l) = Some (OAES_RET_SUCCESS, None, Some (2 ^ 64 - 32))"
  by (simp add: oaes_decrypt_def oaes_consts size_sub_def)

text \<open>A key import that fails to allocate has already destroyed the old key, and when the third
  allocation fails the code \<open>OAES_RET_MEM\<close> of \<open>oaes_key_expand\<close> is turned into
  \<open>OAES_RET_UNKNOWN\<close> by \<open>_rc || ...\<close>.\<close>

theorem oaes_import_failure:
  assumes "length key \<in> {16, 24, 32}"
  shows "oaes_key_import_data m1 m2 m3 (Some x) (Some key) (length key) =
    (if m1 \<and> m2 \<and> m3 then (OAES_RET_SUCCESS, Some (x\<lparr>ctx_key := Some (made_key (length key) key)\<rparr>))
     else (if m1 \<and> m2 then OAES_RET_UNKNOWN else OAES_RET_MEM, Some (x\<lparr>ctx_key := None\<rparr>)))"
  using assms by (auto simp: oaes_key_import_data_def replace_key_eq)

lemma oaes_import_failure_witness:
  "oaes_key_import_data True True False (Some demo_ctx) (Some (replicate 16 1)) 16 =
    (OAES_RET_UNKNOWN, Some (demo_ctx\<lparr>ctx_key := None\<rparr>))"
  using oaes_import_failure [of "replicate 16 1" True True False demo_ctx] by simp

lemma length_sprintf_text: "length (oaes_sprintf_text d) = 3 * length d + length d div 16"
proof -
  have "length (concat (map (\<lambda>i. [f i, g i, h i] @ (if i \<noteq> 0 \<and> (i + 1) mod 16 = 0 then [w] else [])) [0..<n])) =
      3 * n + n div 16" for f g h :: "nat \<Rightarrow> byte" and w n
    by (induction n) (auto simp: div_Suc)
  then show ?thesis by (simp add: oaes_sprintf_text_def oaes_consts)
qed

text \<open>The string that \<open>oaes_sprintf\<close> builds and its terminator fill exactly the length it
  asks for, so that a buffer it accepts is never overrun, and the rest of it is unchanged.\<close>

theorem oaes_sprintf_fits:
  assumes "n = 3 * length d + length d div 16 + 1" and "n \<le> l" and "l \<le> length buf"
  shows "\<exists>buf'. oaes_sprintf (Some buf) (Some l) (Some d) (length d) = (OAES_RET_SUCCESS, Some buf', Some n) \<and>
    length buf' = length buf \<and> drop n buf' = drop n buf \<and> buf' ! (n - 1) = 0"
proof -
  let ?t = "oaes_sprintf_text d @ [0]"
  have n: "length ?t = n" "n \<le> length buf" using assms by (simp_all add: length_sprintf_text)
  have "oaes_sprintf (Some buf) (Some l) (Some d) (length d) = (OAES_RET_SUCCESS, Some (blit buf 0 ?t), Some n)"
    using assms by (simp add: oaes_sprintf_def oaes_consts Let_def mult.commute)
  moreover have "drop n (blit buf 0 ?t) = drop n buf"
    using n by (simp add: blit_def del: append_assoc)
  moreover have "n - 1 = length (oaes_sprintf_text d)" using assms(1) by (simp add: length_sprintf_text)
  then have "blit buf 0 ?t ! (n - 1) = 0"
    using n by (simp add: nth_blit)
  ultimately show ?thesis using n by simp
qed

lemma oaes_sprintf_fits_witness:
  "\<exists>buf'. oaes_sprintf (Some (replicate 9 1)) (Some 8) (Some [1, 2]) 2 = (OAES_RET_SUCCESS, Some buf', Some 7) \<and>
    length buf' = 9 \<and> drop 7 buf' = [1, 1] \<and> buf' ! 6 = 0"
  using oaes_sprintf_fits [of 7 "[1, 2]" 8 "replicate 9 1"] by (simp add: numeral_2_eq_2)

end
