(* ===== verification/Blake.thy ===== *)
theory Blake
  imports Prelude
begin

unbundle bit_operations_syntax

text \<open>
  BLAKE-256, BLAKE-224 and their HMACs: \<^verbatim>\<open>src/src/hash/monero/blake256.c\<close>.  A state is
  passed in and returned; a data pointer is the list of the bytes from there on; lengths are in
  bits where the code counts bits.
\<close>

section \<open>The code\<close>

record blake_state =
  st_h :: "u32 list"
  st_s :: "u32 list"
  st_t :: "u32 list"
  buflen :: nat
  nullt :: nat
  st_buf :: "byte list"

record hmac_state =
  inner :: blake_state
  outer :: blake_state

definition U8TO32 :: "byte list \<Rightarrow> u32" where
  "U8TO32 p = push_bit 24 (ucast (p ! 0)) OR push_bit 16 (ucast (p ! 1)) OR push_bit 8 (ucast (p ! 2)) OR ucast (p ! 3)"

definition U32TO8 :: "u32 \<Rightarrow> byte list" where
  "U32TO8 v = [ucast (drop_bit 24 v), ucast (drop_bit 16 v), ucast (drop_bit 8 v), ucast v]"

definition blake_sigma :: "nat list list" where
  "blake_sigma = [
    [ 0, 1, 2, 3, 4, 5, 6, 7, 8, 9,10,11,12,13,14,15],
    [14,10, 4, 8, 9,15,13, 6, 1,12, 0, 2,11, 7, 5, 3],
    [11, 8,12, 0, 5, 2,15,13,10,14, 3, 6, 7, 1, 9, 4],
    [ 7, 9, 3, 1,13,12,11,14, 2, 6, 5,10, 4, 0,15, 8],
    [ 9, 0, 5, 7, 2, 4,10,15,14, 1,11,12, 6, 8, 3,13],
    [ 2,12, 6,10, 0,11, 8, 3, 4,13, 7, 5,15,14, 1, 9],
    [12, 5, 1,15,14,13, 4,10, 0, 7, 6, 3, 9, 2, 8,11],
    [13,11, 7,14,12, 1, 3, 9, 5, 0,15, 4, 8, 6, 2,10],
    [ 6,15,14, 9,11, 3, 0, 8,12, 2,13, 7, 1, 4,10, 5],
    [10, 2, 8, 4, 7, 6, 1, 5,15,11, 9,14, 3,12,13, 0],
    [ 0, 1, 2, 3, 4, 5, 6, 7, 8, 9,10,11,12,13,14,15],
    [14,10, 4, 8, 9,15,13, 6, 1,12, 0, 2,11, 7, 5, 3],
    [11, 8,12, 0, 5, 2,15,13,10,14, 3, 6, 7, 1, 9, 4],
    [ 7, 9, 3, 1,13,12,11,14, 2, 6, 5,10, 4, 0,15, 8]]"

definition cst :: "u32 list" where
  "cst = [
    0x243F6A88, 0x85A308D3, 0x13198A2E, 0x03707344,
    0xA4093822, 0x299F31D0, 0x082EFA98, 0xEC4E6C89,
    0x452821E6, 0x38D01377, 0xBE5466CF, 0x34E90C6C,
    0xC0AC29B7, 0xC97C50DD, 0x3F84D5B5, 0xB5470917]"

definition blake_padding :: "byte list" where
  "blake_padding = 0x80 # replicate 63 0"

definition blake_ROT :: "u32 \<Rightarrow> nat \<Rightarrow> u32" where
  "blake_ROT x n = push_bit (32 - n) x OR drop_bit n x"

definition blake_G :: "u32 list \<Rightarrow> nat \<Rightarrow> nat \<Rightarrow> nat \<Rightarrow> nat \<Rightarrow> nat \<Rightarrow> nat \<Rightarrow> u32 list \<Rightarrow> u32 list" where
  "blake_G m i a b c d e v =
    (let sg = blake_sigma ! i;
         v = v[a := v ! a + ((m ! (sg ! e) XOR cst ! (sg ! (e + 1))) + v ! b)];
         v = v[d := blake_ROT (v ! d XOR v ! a) 16];
         v = v[c := v ! c + v ! d];
         v = v[b := blake_ROT (v ! b XOR v ! c) 12];
         v = v[a := v ! a + ((m ! (sg ! (e + 1)) XOR cst ! (sg ! e)) + v ! b)];
         v = v[d := blake_ROT (v ! d XOR v ! a) 8];
         v = v[c := v ! c + v ! d]
     in v[b := blake_ROT (v ! b XOR v ! c) 7])"

definition blake_round :: "u32 list \<Rightarrow> nat \<Rightarrow> u32 list \<Rightarrow> u32 list" where
  "blake_round m i v =
    (let v = blake_G m i 0 4 8 12 0 v;
         v = blake_G m i 1 5 9 13 2 v;
         v = blake_G m i 2 6 10 14 4 v;
         v = blake_G m i 3 7 11 15 6 v;
         v = blake_G m i 3 4 9 14 14 v;
         v = blake_G m i 2 7 8 13 12 v;
         v = blake_G m i 0 5 10 15 8 v
     in blake_G m i 1 6 11 12 10 v)"

definition blake256_compress :: "blake_state \<Rightarrow> byte list \<Rightarrow> blake_state" where
  "blake256_compress S block =
    (let m = map (\<lambda>i. U8TO32 (drop (i * 4) block)) [0..<16];
         v = take 8 (st_h S) @
           [st_s S ! 0 XOR 0x243F6A88, st_s S ! 1 XOR 0x85A308D3, st_s S ! 2 XOR 0x13198A2E, st_s S ! 3 XOR 0x03707344,
            0xA4093822, 0x299F31D0, 0x082EFA98, 0xEC4E6C89];
         v = (if nullt S = 0 then
           let v = v[12 := v ! 12 XOR st_t S ! 0];
               v = v[13 := v ! 13 XOR st_t S ! 0];
               v = v[14 := v ! 14 XOR st_t S ! 1]
           in v[15 := v ! 15 XOR st_t S ! 1] else v);
         v = fold (blake_round m) [0..<14] v;
         h = fold (\<lambda>i h. h[i mod 8 := h ! (i mod 8) XOR v ! i]) [0..<16] (st_h S);
         h = fold (\<lambda>i h. h[i := h ! i XOR st_s S ! (i mod 4)]) [0..<8] h
     in S\<lparr>st_h := h\<rparr>)"

definition blake_init :: "u32 list \<Rightarrow> blake_state \<Rightarrow> blake_state" where
  "blake_init h S = S\<lparr>st_h := h, st_t := [0, 0], buflen := 0, nullt := 0, st_s := [0, 0, 0, 0]\<rparr>"

definition blake256_init :: "blake_state \<Rightarrow> blake_state" where
  "blake256_init = blake_init
    [0x6A09E667, 0xBB67AE85, 0x3C6EF372, 0xA54FF53A, 0x510E527F, 0x9B05688C, 0x1F83D9AB, 0x5BE0CD19]"

definition blake224_init :: "blake_state \<Rightarrow> blake_state" where
  "blake224_init = blake_init
    [0xC1059ED8, 0x367CD507, 0x3070DD17, 0xF70E5939, 0xFFC00B31, 0x68581511, 0x64F98FA7, 0xBEFA4FA4]"

text \<open>\<open>S->t[0] += 512; if (S->t[0] == 0) S->t[1]++\<close>.\<close>

definition blake_count :: "blake_state \<Rightarrow> blake_state" where
  "blake_count S =
    (let t = (st_t S)[0 := st_t S ! 0 + 512];
         t = (if t ! 0 = 0 then t[1 := t ! 1 + 1] else t)
     in S\<lparr>st_t := t\<rparr>)"

function blake_blocks :: "blake_state \<Rightarrow> byte list \<Rightarrow> nat \<Rightarrow> blake_state \<times> byte list \<times> nat" where
  "blake_blocks S data datalen =
    (if datalen \<ge> 512 then blake_blocks (blake256_compress (blake_count S) data) (drop 64 data) (datalen - 512)
     else (S, data, datalen))"
  by pat_completeness auto
termination
  by (relation "measure (\<lambda>(S, data, datalen). datalen)") auto

declare blake_blocks.simps [simp del]

definition blake256_update :: "blake_state \<Rightarrow> byte list \<Rightarrow> nat \<Rightarrow> blake_state" where
  "blake256_update S data datalen =
    (let left = buflen S div 8;
         fill = 64 - left;
         (S, data, datalen, left) =
           (if left \<noteq> 0 \<and> datalen div 8 \<ge> fill then
              let S = S\<lparr>st_buf := blit (st_buf S) left (take fill data)\<rparr>;
                  S = blake_count S;
                  S = blake256_compress S (st_buf S)
              in (S, drop fill data, datalen - fill * 8, 0)
            else (S, data, datalen, left));
         (S, data, datalen) = blake_blocks S data datalen
     in if datalen > 0
        then S\<lparr>st_buf := blit (st_buf S) left (take (datalen div 8) data), buflen := left * 8 + datalen\<rparr>
        else S\<lparr>buflen := 0\<rparr>)"

definition blake224_update :: "blake_state \<Rightarrow> byte list \<Rightarrow> nat \<Rightarrow> blake_state" where
  "blake224_update S data datalen = blake256_update S data datalen"

text \<open>\<open>S->t[0] -= n\<close>.\<close>

definition blake_uncount :: "nat \<Rightarrow> blake_state \<Rightarrow> blake_state" where
  "blake_uncount n S = S\<lparr>st_t := (st_t S)[0 := st_t S ! 0 - of_nat n]\<rparr>"

definition blake256_final_h :: "blake_state \<Rightarrow> byte \<Rightarrow> byte \<Rightarrow> blake_state \<times> byte list" where
  "blake256_final_h S pa pb =
    (let lo = st_t S ! 0 + of_nat (buflen S);
         hi = st_t S ! 1;
         hi = (if lo < of_nat (buflen S) then hi + 1 else hi);
         msglen = U32TO8 hi @ U32TO8 lo;
         S = (if buflen S = 440 then
                let S = blake_uncount 8 S in blake256_update S [pa] 8
              else
                let S =
                  (if buflen S < 440 then
                     let S = (if buflen S = 0 then S\<lparr>nullt := 1\<rparr> else S);
                         S = blake_uncount (440 - buflen S) S
                     in blake256_update S blake_padding (440 - buflen S)
                   else
                     let S = blake_uncount (512 - buflen S) S;
                         S = blake256_update S blake_padding (512 - buflen S);
                         S = blake_uncount 440 S;
                         S = blake256_update S (drop 1 blake_padding) 440
                     in S\<lparr>nullt := 1\<rparr>);
                    S = blake256_update S [pb] 8
                in blake_uncount 8 S);
         S = blake_uncount 64 S;
         S = blake256_update S msglen 64
     in (S, concat (map (\<lambda>i. U32TO8 (st_h S ! i)) [0..<8])))"

definition blake256_final :: "blake_state \<Rightarrow> blake_state \<times> byte list" where
  "blake256_final S = blake256_final_h S 0x81 0x01"

definition blake224_final :: "blake_state \<Rightarrow> blake_state \<times> byte list" where
  "blake224_final S = blake256_final_h S 0x80 0x00"

text \<open>A local variable \<open>state S\<close> holds anything before it is initialised: an argument.  The product \<open>inlen * 8\<close> is one of
  64 bits, and wraps.\<close>

definition blake256_hash :: "blake_state \<Rightarrow> byte list \<Rightarrow> u64 \<Rightarrow> byte list" where
  "blake256_hash S inp inlen =
    (let S = blake256_init S;
         S = blake256_update S inp (unat (inlen * 8))
     in snd (blake256_final S))"

definition hash_extra_blake :: "blake_state \<Rightarrow> byte list \<Rightarrow> nat \<Rightarrow> byte list" where
  "hash_extra_blake S data len = blake256_hash S data (of_nat len)"

definition blake224_hash :: "blake_state \<Rightarrow> byte list \<Rightarrow> u64 \<Rightarrow> byte list" where
  "blake224_hash S inp inlen =
    (let S = blake224_init S;
         S = blake224_update S inp (unat (inlen * 8))
     in snd (blake224_final S))"

text \<open>\<open>memset(pad, c, 64); for (i = 0; i < keylen; ++i) pad[i] ^= key[i]\<close>.\<close>

definition hmac_pad :: "byte \<Rightarrow> byte list \<Rightarrow> nat \<Rightarrow> byte list" where
  "hmac_pad c key keylen = update_loop keylen (\<lambda>i b. b XOR key ! i) (replicate 64 c)"

definition hmac_blake256_init :: "blake_state \<Rightarrow> hmac_state \<Rightarrow> byte list \<Rightarrow> u64 \<Rightarrow> hmac_state" where
  "hmac_blake256_init L S key keylen =
    (let (key, keylen) = (if keylen > 64 then (blake256_hash L key keylen, 32) else (key, keylen));
         S = S\<lparr>inner := blake256_init (inner S)\<rparr>;
         S = S\<lparr>inner := blake256_update (inner S) (hmac_pad 0x36 key (unat keylen)) 512\<rparr>;
         S = S\<lparr>outer := blake256_init (outer S)\<rparr>
     in S\<lparr>outer := blake256_update (outer S) (hmac_pad 0x5c key (unat keylen)) 512\<rparr>)"

definition hmac_blake224_init :: "blake_state \<Rightarrow> hmac_state \<Rightarrow> byte list \<Rightarrow> u64 \<Rightarrow> hmac_state" where
  "hmac_blake224_init L S key keylen =
    (let (key, keylen) = (if keylen > 64 then (blake256_hash L key keylen, 28) else (key, keylen));
         S = S\<lparr>inner := blake224_init (inner S)\<rparr>;
         S = S\<lparr>inner := blake224_update (inner S) (hmac_pad 0x36 key (unat keylen)) 512\<rparr>;
         S = S\<lparr>outer := blake224_init (outer S)\<rparr>
     in S\<lparr>outer := blake224_update (outer S) (hmac_pad 0x5c key (unat keylen)) 512\<rparr>)"

definition hmac_blake256_update :: "hmac_state \<Rightarrow> byte list \<Rightarrow> nat \<Rightarrow> hmac_state" where
  "hmac_blake256_update S data datalen = S\<lparr>inner := blake256_update (inner S) data datalen\<rparr>"

definition hmac_blake224_update :: "hmac_state \<Rightarrow> byte list \<Rightarrow> nat \<Rightarrow> hmac_state" where
  "hmac_blake224_update S data datalen = S\<lparr>inner := blake224_update (inner S) data datalen\<rparr>"

definition hmac_blake256_final :: "hmac_state \<Rightarrow> hmac_state \<times> byte list" where
  "hmac_blake256_final S =
    (let (i, ihash) = blake256_final (inner S);
         out = blake256_update (outer S) ihash 256;
         (out, digest) = blake256_final out
     in (S\<lparr>inner := i, outer := out\<rparr>, digest))"

definition hmac_blake224_final :: "hmac_state \<Rightarrow> hmac_state \<times> byte list" where
  "hmac_blake224_final S =
    (let (i, ihash) = blake224_final (inner S);
         out = blake224_update (outer S) ihash 224;
         (out, digest) = blake224_final out
     in (S\<lparr>inner := i, outer := out\<rparr>, digest))"

definition hmac_blake256_hash :: "blake_state \<Rightarrow> hmac_state \<Rightarrow> byte list \<Rightarrow> u64 \<Rightarrow> byte list \<Rightarrow> u64 \<Rightarrow> byte list" where
  "hmac_blake256_hash L S key keylen inp inlen =
    (let S = hmac_blake256_init L S key keylen;
         S = hmac_blake256_update S inp (unat (inlen * 8))
     in snd (hmac_blake256_final S))"

definition hmac_blake224_hash :: "blake_state \<Rightarrow> hmac_state \<Rightarrow> byte list \<Rightarrow> u64 \<Rightarrow> byte list \<Rightarrow> u64 \<Rightarrow> byte list" where
  "hmac_blake224_hash L S key keylen inp inlen =
    (let S = hmac_blake224_init L S key keylen;
         S = hmac_blake224_update S inp (unat (inlen * 8))
     in snd (hmac_blake224_final S))"

section \<open>The specification\<close>

text \<open>One \<open>G\<close> of BLAKE on four words, with the two message words mixed in.\<close>

definition quarter :: "u32 list \<Rightarrow> nat \<Rightarrow> nat \<Rightarrow> u32 \<Rightarrow> u32 \<Rightarrow> u32 \<Rightarrow> u32 \<Rightarrow> u32 \<times> u32 \<times> u32 \<times> u32" where
  "quarter m r k a b c d =
    (let s0 = blake_sigma ! r ! (2 * k); s1 = blake_sigma ! r ! (2 * k + 1);
         a = a + b + (m ! s0 XOR cst ! s1); d = word_rotr 16 (d XOR a); c = c + d; b = word_rotr 12 (b XOR c);
         a = a + b + (m ! s1 XOR cst ! s0); d = word_rotr 8 (d XOR a); c = c + d; b = word_rotr 7 (b XOR c)
     in (a, b, c, d))"

text \<open>Four of them at once on the 4 x 4 matrix: the columns (\<open>off = 0\<close>) or the diagonals
  (\<open>off = 1\<close>).\<close>

definition quarters :: "u32 list \<Rightarrow> nat \<Rightarrow> nat \<Rightarrow> u32 list \<Rightarrow> u32 list" where
  "quarters m r off v =
    (let q = map (\<lambda>i. quarter m r (4 * off + i) (v ! i) (v ! (4 + (i + off) mod 4))
           (v ! (8 + (i + 2 * off) mod 4)) (v ! (12 + (i + 3 * off) mod 4))) [0..<4]
     in map (\<lambda>j. fst (q ! j)) [0..<4] @
        map (\<lambda>j. fst (snd (q ! ((j + 4 - off) mod 4)))) [0..<4] @
        map (\<lambda>j. fst (snd (snd (q ! ((j + 4 - 2 * off) mod 4))))) [0..<4] @
        map (\<lambda>j. snd (snd (snd (q ! ((j + 4 - 3 * off) mod 4))))) [0..<4])"

text \<open>The compression function without salt, with a 64-bit counter.\<close>

definition blake_F :: "u32 list \<Rightarrow> byte list \<Rightarrow> u32 \<times> u32 \<Rightarrow> u32 list" where
  "blake_F h block t =
    (let m = map (\<lambda>i. join_be (mem_slice block (4 * i) 4)) [0..<16];
         v = fold (\<lambda>r v. quarters m r 1 (quarters m r 0 v)) [0..<14]
           (h @ take 4 cst @ [fst t XOR cst ! 4, fst t XOR cst ! 5, snd t XOR cst ! 6, snd t XOR cst ! 7])
     in map (\<lambda>i. h ! i XOR v ! i XOR v ! (i + 8)) [0..<8])"

definition counter :: "nat \<Rightarrow> u32 \<times> u32" where
  "counter n = (of_nat n, of_nat (n div 2 ^ 32))"

text \<open>The padded message: a one bit, zeros, the bit that tells the two functions apart, and the
  length in bits.\<close>

definition blake_pad :: "byte \<Rightarrow> byte \<Rightarrow> byte list \<Rightarrow> byte list" where
  "blake_pad pa pb m =
    (let l = length m mod 64
     in m @ (if l = 55 then [pa] else 0x80 # replicate ((118 - l) mod 64) 0 @ [pb]) @
        split_be 8 (of_nat (8 * length m) :: u64))"

definition bits_before :: "nat \<Rightarrow> nat \<Rightarrow> nat" where
  "bits_before len i = (if 64 * i < len then min (8 * len) (512 * (i + 1)) else 0)"

definition blake_chain :: "u32 list \<Rightarrow> byte list \<Rightarrow> nat \<Rightarrow> nat \<Rightarrow> u32 list" where
  "blake_chain iv p len n = fold (\<lambda>i h. blake_F h (mem_slice p (64 * i) 64) (counter (bits_before len i))) [0..<n] iv"

definition blake_digest :: "u32 list \<Rightarrow> byte \<Rightarrow> byte \<Rightarrow> byte list \<Rightarrow> byte list" where
  "blake_digest iv pa pb m =
    (let p = blake_pad pa pb m in concat (map (split_be 4) (blake_chain iv p (length m) (length p div 64))))"

section \<open>The compression function\<close>

lemma blake_ROT_rotr: "0 < n \<Longrightarrow> n < 32 \<Longrightarrow> blake_ROT x n = word_rotr n x"
  using word_rotr_shifts [of n x] by (simp add: blake_ROT_def or.commute)

lemma blake_G_quarter:
  assumes "length v = 16" and "distinct [a, b, c, d]" and "a < 16" "b < 16" "c < 16" "d < 16" and "e = 2 * k"
  shows "blake_G m r a b c d e v =
    (case quarter m r k (v ! a) (v ! b) (v ! c) (v ! d) of (x, y, z, w) \<Rightarrow> v[a := x, b := y, c := z, d := w])"
proof -
  obtain x y z w where q: "quarter m r k (v ! a) (v ! b) (v ! c) (v ! d) = (x, y, z, w)"
    by (cases "quarter m r k (v ! a) (v ! b) (v ! c) (v ! d)")
  have "blake_G m r a b c d e v ! i = v[a := x, b := y, c := z, d := w] ! i" if "i < 16" for i
    using q assms that
    by (auto simp: blake_G_def quarter_def Let_def nth_list_update blake_ROT_rotr ac_simps)
  moreover have "length (blake_G m r a b c d e v) = 16" using assms(1) by (simp add: blake_G_def Let_def)
  ultimately show ?thesis
    using assms(1) q by (simp add: list_eq_iff_nth_eq)
qed

lemma list16_words:
  assumes "length (v :: u32 list) = 16"
  obtains v0 v1 v2 v3 v4 v5 v6 v7 v8 v9 v10 v11 v12 v13 v14 v15
  where "v = [v0, v1, v2, v3, v4, v5, v6, v7, v8, v9, v10, v11, v12, v13, v14, v15]"
  using assms by (auto simp: length_Suc_conv eval_nat_numeral)

lemma upt_4: "[0..<4] = [0, 1, 2, 3 :: nat]"
  by (simp add: upt_rec)

lemma length_quarters [simp]: "length (quarters m r off v) = 16"
  by (simp add: quarters_def Let_def)

lemma columns_quarters:
  assumes "length v = 16"
  shows "blake_G m r 3 7 11 15 6 (blake_G m r 2 6 10 14 4 (blake_G m r 1 5 9 13 2 (blake_G m r 0 4 8 12 0 v))) =
    quarters m r 0 v"
proof -
  obtain v0 v1 v2 v3 v4 v5 v6 v7 v8 v9 v10 v11 v12 v13 v14 v15
    where v: "v = [v0, v1, v2, v3, v4, v5, v6, v7, v8, v9, v10, v11, v12, v13, v14, v15]"
    using assms by (rule list16_words)
  obtain a0 b0 c0 d0 where q0: "quarter m r 0 v0 v4 v8 v12 = (a0, b0, c0, d0)" by (metis prod_cases4)
  obtain a1 b1 c1 d1 where q1: "quarter m r 1 v1 v5 v9 v13 = (a1, b1, c1, d1)" by (metis prod_cases4)
  obtain a2 b2 c2 d2 where q2: "quarter m r 2 v2 v6 v10 v14 = (a2, b2, c2, d2)" by (metis prod_cases4)
  obtain a3 b3 c3 d3 where q3: "quarter m r 3 v3 v7 v11 v15 = (a3, b3, c3, d3)" by (metis prod_cases4)
  show ?thesis
    by (simp add: v blake_G_quarter [of _ _ _ _ _ _ 0] blake_G_quarter [of _ _ _ _ _ _ 1] blake_G_quarter [of _ _ _ _ _ _ 2]
        blake_G_quarter [of _ _ _ _ _ _ 3] blake_G_quarter [where e = 0 and k = 0] blake_G_quarter [where e = 2 and k = 1]
        blake_G_quarter [where e = 4 and k = 2] blake_G_quarter [where e = 6 and k = 3]
        quarters_def upt_4 q0 q1 q2 q3 q1 [unfolded One_nat_def])
qed

lemma diagonals_quarters:
  assumes "length v = 16"
  shows "blake_G m r 1 6 11 12 10 (blake_G m r 0 5 10 15 8 (blake_G m r 2 7 8 13 12 (blake_G m r 3 4 9 14 14 v))) =
    quarters m r 1 v"
proof -
  obtain v0 v1 v2 v3 v4 v5 v6 v7 v8 v9 v10 v11 v12 v13 v14 v15
    where v: "v = [v0, v1, v2, v3, v4, v5, v6, v7, v8, v9, v10, v11, v12, v13, v14, v15]"
    using assms by (rule list16_words)
  obtain a0 b0 c0 d0 where q0: "quarter m r 4 v0 v5 v10 v15 = (a0, b0, c0, d0)" by (metis prod_cases4)
  obtain a1 b1 c1 d1 where q1: "quarter m r 5 v1 v6 v11 v12 = (a1, b1, c1, d1)" by (metis prod_cases4)
  obtain a2 b2 c2 d2 where q2: "quarter m r 6 v2 v7 v8 v13 = (a2, b2, c2, d2)" by (metis prod_cases4)
  obtain a3 b3 c3 d3 where q3: "quarter m r 7 v3 v4 v9 v14 = (a3, b3, c3, d3)" by (metis prod_cases4)
  show ?thesis
    by (simp add: v blake_G_quarter [where e = 8 and k = 4] blake_G_quarter [where e = 10 and k = 5]
        blake_G_quarter [where e = 12 and k = 6] blake_G_quarter [where e = 14 and k = 7]
        quarters_def upt_4 q0 q1 q2 q3)
qed

lemma blake_round_quarters:
  "length v = 16 \<Longrightarrow> blake_round m r v = quarters m r 1 (quarters m r 0 v)"
  by (simp only: blake_round_def Let_def columns_quarters diagonals_quarters length_quarters)

lemma length_rounds [simp]:
  "length v = 16 \<Longrightarrow> length (fold (\<lambda>r v. quarters m r 1 (quarters m r 0 v)) rs v) = 16"
  by (induction rs arbitrary: v) simp_all

lemma blake_rounds_quarters:
  "length v = 16 \<Longrightarrow> fold (blake_round m) rs v = fold (\<lambda>r v. quarters m r 1 (quarters m r 0 v)) rs v"
  by (induction rs arbitrary: v) (simp_all add: blake_round_quarters)

lemma U8TO32_join: "4 \<le> length p \<Longrightarrow> U8TO32 p = join_be (take 4 p)"
proof -
  assume "4 \<le> length p"
  then obtain a b c d q where "p = a # b # c # d # q"
    by (auto simp: Suc_le_length_iff eval_nat_numeral)
  then show ?thesis
    by (simp add: U8TO32_def join_be_def eval_nat_numeral push_bit_or or.assoc or.commute or.left_commute)
qed

lemma U32TO8_split: "U32TO8 v = split_be 4 v"
  by (simp add: U32TO8_def split_be_def split_le_def upt_4)

lemma blake256_compress_F:
  assumes "length (st_h S) = 8" and "st_s S = [0, 0, 0, 0]" and "st_t S = [t0, t1]" and "64 \<le> length block"
  shows "blake256_compress S block =
    S\<lparr>st_h := blake_F (st_h S) (take 64 block) (if nullt S = 0 then (t0, t1) else (0, 0))\<rparr>"
proof -
  let ?t = "if nullt S = 0 then (t0, t1) else (0, 0)"
  let ?v = "st_h S @ take 4 cst @ [fst ?t XOR cst ! 4, fst ?t XOR cst ! 5, snd ?t XOR cst ! 6, snd ?t XOR cst ! 7]"
  have m: "map (\<lambda>i. U8TO32 (drop (i * 4) block)) [0..<16] = map (\<lambda>i. join_be (mem_slice (take 64 block) (4 * i) 4)) [0..<16]"
    using assms(4) by (intro nth_equalityI) (simp_all add: U8TO32_join mem_slice_def drop_take min_def mult.commute)
  obtain h0 h1 h2 h3 h4 h5 h6 h7 where h: "st_h S = [h0, h1, h2, h3, h4, h5, h6, h7]"
    using assms(1) by (auto simp: length_Suc_conv eval_nat_numeral)
  have v: "(if nullt S = 0 then
           let v = v[12 := v ! 12 XOR st_t S ! 0];
               v = v[13 := v ! 13 XOR st_t S ! 0];
               v = v[14 := v ! 14 XOR st_t S ! 1]
           in v[15 := v ! 15 XOR st_t S ! 1] else v) = ?v"
    if "v = take 8 (st_h S) @
           [st_s S ! 0 XOR 0x243F6A88, st_s S ! 1 XOR 0x85A308D3, st_s S ! 2 XOR 0x13198A2E, st_s S ! 3 XOR 0x03707344,
            0xA4093822, 0x299F31D0, 0x082EFA98, 0xEC4E6C89]" for v
    unfolding that assms(2,3) h by (simp add: cst_def Let_def eval_nat_numeral xor.commute)
  define w where "w = fold (\<lambda>r v. quarters (map (\<lambda>i. join_be (mem_slice (take 64 block) (4 * i) 4)) [0..<16]) r 1
    (quarters (map (\<lambda>i. join_be (mem_slice (take 64 block) (4 * i) 4)) [0..<16]) r 0 v)) [0..<14] ?v"
  have lv: "length ?v = 16" using assms(1) by (simp add: cst_def)
  have w: "fold (blake_round (map (\<lambda>i. U8TO32 (drop (i * 4) block)) [0..<16])) [0..<14] ?v = w" "length w = 16"
    unfolding m w_def by (rule blake_rounds_quarters [OF lv], rule length_rounds [OF lv])
  have "fold (\<lambda>i h. h[i := h ! i XOR st_s S ! (i mod 4)]) [0..<8]
      (fold (\<lambda>i h. h[i mod 8 := h ! (i mod 8) XOR w ! i]) [0..<16] (st_h S)) =
    map (\<lambda>i. st_h S ! i XOR w ! i XOR w ! (i + 8)) [0..<8]"
    unfolding h assms(2) by (simp add: upt_rec xor.assoc) (simp add: eval_nat_numeral)
  then show ?thesis
    unfolding blake256_compress_def Let_def v [OF refl, unfolded Let_def] w(1)
    unfolding blake_F_def Let_def w_def by simp
qed

lemma length_blake_F [simp]: "length (blake_F h block t) = 8"
  by (simp add: blake_F_def Let_def)

section \<open>The state and the message it stands for\<close>

definition chain :: "u32 list \<Rightarrow> byte list \<Rightarrow> nat \<Rightarrow> u32 list" where
  "chain iv m n = fold (\<lambda>i h. blake_F h (mem_slice m (64 * i) 64) (counter (512 * (i + 1)))) [0..<n] iv"

definition counts :: "nat \<Rightarrow> u32 list" where
  "counts n = [fst (counter n), snd (counter n)]"

text \<open>The whole blocks of the message are in the chaining value and the counter, the rest of it is
  in the buffer.\<close>

definition rep_blocks :: "u32 list \<Rightarrow> byte list \<Rightarrow> blake_state \<Rightarrow> bool" where
  "rep_blocks iv a S \<longleftrightarrow>
    64 dvd length a \<and> st_h S = chain iv a (length a div 64) \<and> length iv = 8 \<and> st_s S = [0, 0, 0, 0] \<and>
    st_t S = counts (8 * length a) \<and> nullt S = 0 \<and> length (st_buf S) = 64"

definition blake_rep :: "u32 list \<Rightarrow> byte list \<Rightarrow> blake_state \<Rightarrow> bool" where
  "blake_rep iv m S \<longleftrightarrow>
    (let n = 64 * (length m div 64); b = drop n m in
      rep_blocks iv (take n m) S \<and> buflen S = 8 * length b \<and> take (length b) (st_buf S) = b)"

lemma length_chain [simp]: "length iv = 8 \<Longrightarrow> length (chain iv m n) = 8"
  by (induction n) (simp_all add: chain_def)

lemma chain_Suc: "chain iv m (Suc n) = blake_F (chain iv m n) (mem_slice m (64 * n) 64) (counter (512 * (n + 1)))"
  by (simp add: chain_def)

lemma chain_append: "64 * n \<le> length m \<Longrightarrow> chain iv (m @ d) n = chain iv m n"
  by (induction n) (simp_all add: chain_Suc mem_slice_def, simp add: chain_def)

lemma count_carry:
  assumes "512 dvd (n :: nat)"
  shows "(n + 512) div 2 ^ 32 = n div 2 ^ 32 + (if (n + 512) mod 2 ^ 32 = 0 then 1 else 0)"
proof -
  obtain k where n: "n = 512 * k" using assms by (rule dvdE)
  have "(n + 512) div 2 ^ 32 = Suc k div 2 ^ 23" "n div 2 ^ 32 = k div 2 ^ 23"
    using div_mult_mult1 [of 512 "Suc k" "2 ^ 23"] div_mult_mult1 [of 512 k "2 ^ 23"] by (simp_all add: n)
  moreover have "(n + 512) mod 2 ^ 32 = 512 * (Suc k mod 2 ^ 23)"
    using mult_mod_right [of 512 "Suc k" "2 ^ 23"] by (simp add: n add.commute)
  ultimately show ?thesis by (simp add: div_Suc)
qed

lemma blake_count_counts:
  assumes "st_t S = counts n" and "512 dvd n"
  shows "blake_count S = S\<lparr>st_t := counts (n + 512)\<rparr>"
proof -
  define z :: nat where "z = n + 512"
  have hi: "z div 2 ^ 32 = n div 2 ^ 32 + (if z mod 2 ^ 32 = 0 then 1 else 0)"
    using count_carry [OF assms(2)] by (simp only: z_def)
  have lo: "of_nat n + 512 = (of_nat z :: u32)" by (simp add: z_def)
  show ?thesis
    unfolding z_def [symmetric]
    using assms(1) of_nat_word_eq_0 [of z] hi lo
    by (cases "z mod 2 ^ 32 = 0") (simp_all add: blake_count_def counts_def counter_def)
qed

lemma blake_repI:
  assumes "rep_blocks iv a S" and "length b < 64" and "buflen S = 8 * length b" and "take (length b) (st_buf S) = b"
  shows "blake_rep iv (a @ b) S"
proof -
  obtain k where "length a = 64 * k" using assms(1) by (auto simp: rep_blocks_def elim: dvdE)
  then have "64 * (length (a @ b) div 64) = length a" using assms(2) by simp
  then show ?thesis
    using assms by (simp only: blake_rep_def Let_def) simp
qed

lemma blake_repE:
  assumes "blake_rep iv m S"
  obtains a b where "m = a @ b" and "rep_blocks iv a S" and "length b < 64" and "buflen S = 8 * length b"
    and "take (length b) (st_buf S) = b"
proof
  let ?n = "64 * (length m div 64)"
  show "m = take ?n m @ drop ?n m" by simp
  show "length (drop ?n m) < 64"
    using mod_less_divisor [of 64 "length m"] by (simp add: minus_mult_div_eq_mod)
qed (use assms in \<open>simp_all add: blake_rep_def Let_def\<close>)

lemma rep_blocks_buf [simp]:
  "rep_blocks iv a (S\<lparr>buflen := n\<rparr>) = rep_blocks iv a S"
  "length buf = 64 \<Longrightarrow> rep_blocks iv a S \<Longrightarrow> rep_blocks iv a (S\<lparr>st_buf := buf\<rparr>)"
  by (simp_all add: rep_blocks_def)

lemma blake_count_other [simp]:
  "st_h (blake_count S) = st_h S" "st_s (blake_count S) = st_s S" "nullt (blake_count S) = nullt S"
  "st_buf (blake_count S) = st_buf S" "buflen (blake_count S) = buflen S"
  by (simp_all add: blake_count_def Let_def)

lemma rep_blocks_absorb:
  assumes "rep_blocks iv a S" and "64 \<le> length block"
  shows "rep_blocks iv (a @ take 64 block) (blake256_compress (blake_count S) block)"
    and "st_buf (blake256_compress (blake_count S) block) = st_buf S"
proof -
  obtain k where k: "length a = 64 * k" using assms(1) by (auto simp: rep_blocks_def elim: dvdE)
  have t: "blake_count S = S\<lparr>st_t := counts (512 * (k + 1))\<rparr>"
    using blake_count_counts [of S "512 * k"] assms(1) k by (simp add: rep_blocks_def add.commute)
  have "blake256_compress (blake_count S) block =
    S\<lparr>st_t := counts (512 * (k + 1)), st_h := blake_F (st_h S) (take 64 block) (counter (512 * (k + 1)))\<rparr>"
    unfolding t using assms k
    by (subst blake256_compress_F [of _ "fst (counter (512 * (k + 1)))" "snd (counter (512 * (k + 1)))"])
      (simp_all add: rep_blocks_def counts_def)
  moreover have "chain iv (a @ take 64 block) (Suc k) = blake_F (chain iv a k) (take 64 block) (counter (512 * (k + 1)))"
    using k assms(2) by (simp add: chain_Suc chain_append mem_slice_def)
  ultimately show "rep_blocks iv (a @ take 64 block) (blake256_compress (blake_count S) block)"
      and "st_buf (blake256_compress (blake_count S) block) = st_buf S"
    using assms k by (simp_all add: rep_blocks_def min_absorb2 add.commute)
qed

lemma blake_blocks_rep:
  assumes "rep_blocks iv a S" and "k \<le> length d"
  shows "\<exists>S'. blake_blocks S d (8 * k) = (S', drop (64 * (k div 64)) d, 8 * (k mod 64)) \<and>
    rep_blocks iv (a @ take (64 * (k div 64)) d) S' \<and> st_buf S' = st_buf S"
  using assms
proof (induction k arbitrary: a S d rule: less_induct)
  case (less k)
  show ?case
  proof (cases "64 \<le> k")
    case True
    let ?S = "blake256_compress (blake_count S) d"
    have "rep_blocks iv (a @ take 64 d) ?S" and b: "st_buf ?S = st_buf S"
      using rep_blocks_absorb [OF less.prems(1), of d] True less.prems(2) by simp_all
    note IH = less.IH [OF _ this(1), of "k - 64" "drop 64 d"]
    have "k - 64 < k" "k - 64 \<le> length (drop 64 d)" using True less.prems(2) by simp_all
    from IH [OF this] obtain S' where S':
        "blake_blocks ?S (drop 64 d) (8 * (k - 64)) = (S', drop (64 * ((k - 64) div 64)) (drop 64 d), 8 * ((k - 64) mod 64))"
        "rep_blocks iv ((a @ take 64 d) @ take (64 * ((k - 64) div 64)) (drop 64 d)) S'" "st_buf S' = st_buf S"
      unfolding b by blast
    have d: "k div 64 = Suc ((k - 64) div 64)" "k mod 64 = (k - 64) mod 64"
      using True by (simp_all add: le_div_geq le_mod_geq)
    have "take 64 d @ take (64 * ((k - 64) div 64)) (drop 64 d) = take (64 * (k div 64)) d"
      by (simp add: d take_add)
    then show ?thesis
      using S' True by (subst blake_blocks.simps) (simp add: d add.commute right_diff_distrib')
  next
    case False
    then show ?thesis
      using less.prems by (subst blake_blocks.simps) simp
  qed
qed

lemma blake_store_rest:
  assumes "rep_blocks iv a S" and "length b < 64" and "length (st_buf S) = 64"
  shows "blake_rep iv (a @ b)
    (if 8 * length b > 0 then S\<lparr>st_buf := blit (st_buf S) 0 b, buflen := 8 * length b\<rparr> else S\<lparr>buflen := 0\<rparr>)"
  using assms by (intro blake_repI) (simp_all add: blit_def)

lemma blake_blocks_store:
  assumes "rep_blocks iv a S" and "k \<le> length d"
  shows "blake_rep iv (a @ take k d)
    (let (S, data, datalen) = blake_blocks S d (8 * k)
     in if datalen > 0 then S\<lparr>st_buf := blit (st_buf S) 0 (take (datalen div 8) data), buflen := 0 * 8 + datalen\<rparr>
        else S\<lparr>buflen := 0\<rparr>)"
proof -
  let ?q = "64 * (k div 64)"
  obtain S' where S': "blake_blocks S d (8 * k) = (S', drop ?q d, 8 * (k mod 64))"
      "rep_blocks iv (a @ take ?q d) S'" "st_buf S' = st_buf S"
    using blake_blocks_rep [OF assms] by blast
  have k: "k = ?q + k mod 64" by simp
  have "take k d = take ?q d @ take (k mod 64) (drop ?q d)"
    by (subst k) (rule take_add)
  moreover have "length (take (k mod 64) (drop ?q d)) = k mod 64"
  proof -
    have "k mod 64 \<le> length d - ?q" using assms(2) k by linarith
    then show ?thesis by simp
  qed
  ultimately show ?thesis
    using blake_store_rest [OF S'(2), of "take (k mod 64) (drop ?q d)"] S'
    by (cases "k mod 64 = 0") (simp_all add: rep_blocks_def)
qed

lemma blake256_update_rep:
  assumes "blake_rep iv m S" and "k \<le> length d" and "k > 0 \<or> 64 dvd length m"
  shows "blake_rep iv (m @ take k d) (blake256_update S d (8 * k))"
proof -
  obtain a b where m: "m = a @ b" and a: "rep_blocks iv a S" and b: "length b < 64" "buflen S = 8 * length b"
      "take (length b) (st_buf S) = b"
    using assms(1) by (rule blake_repE)
  have buf: "length (st_buf S) = 64" and da: "64 dvd length a" using a by (simp_all add: rep_blocks_def)
  consider "b = []" | "b \<noteq> []" "64 - length b \<le> k" | "b \<noteq> []" "k < 64 - length b" by force
  then show ?thesis
  proof cases
    case 1
    then show ?thesis
      using blake_blocks_store [OF a assms(2)] m b by (simp add: blake256_update_def Let_def)
  next
    case 2
    let ?f = "64 - length b"
    let ?b = "blit (st_buf S) (length b) (take ?f d)"
    let ?S = "S\<lparr>st_buf := ?b\<rparr>"
    have lb: "length ?b = 64" using 2 b buf assms(2) by simp
    have eb: "?b = b @ take ?f d"
      using 2 b buf assms(2) by (simp add: blit_def)
    have S1: "rep_blocks iv (a @ b @ take ?f d) (blake256_compress (blake_count ?S) ?b)"
      using rep_blocks_absorb(1) [of iv a ?S ?b] a lb eb by simp
    have "blake_rep iv ((a @ b @ take ?f d) @ take (k - ?f) (drop ?f d))
      (let (S, data, datalen) = blake_blocks (blake256_compress (blake_count ?S) ?b) (drop ?f d) (8 * (k - ?f))
       in if datalen > 0 then S\<lparr>st_buf := blit (st_buf S) 0 (take (datalen div 8) data), buflen := 0 * 8 + datalen\<rparr>
          else S\<lparr>buflen := 0\<rparr>)"
      using assms(2) by (intro blake_blocks_store S1) simp
    moreover have "take ?f d @ take (k - ?f) (drop ?f d) = take k d"
      using take_add [of ?f "k - ?f" d] 2 by simp
    moreover have "8 * k - ?f * 8 = 8 * (k - ?f)" by simp
    ultimately show ?thesis
      using 2 b by (simp add: blake256_update_def Let_def m)
  next
    case 3
    then have k: "k > 0" "k + length b < 64" using assms(3) m b(1) da by (auto simp: dvd_add_right_iff nat_dvd_not_less)
    have "blake_blocks S d (8 * k) = (S, d, 8 * k)" using k by (subst blake_blocks.simps) simp
    then have "blake256_update S d (8 * k) =
      S\<lparr>st_buf := blit (st_buf S) (length b) (take k d), buflen := length b * 8 + 8 * k\<rparr>"
      using 3 k b by (simp add: blake256_update_def Let_def)
    moreover have "take (length b + k) (blit (st_buf S) (length b) (take k d)) = b @ take k d"
      using k b buf assms(2) by (simp add: blit_def)
    ultimately show ?thesis
      using a b buf k assms(2) unfolding m append_assoc by (intro blake_repI) simp_all
  qed
qed

section \<open>The end of a message\<close>

lemma blake256_update_small:
  assumes "buflen S = 8 * l" and "0 < k" and "l + k < 64" and "k \<le> length d"
  shows "blake256_update S d (8 * k) = S\<lparr>st_buf := blit (st_buf S) l (take k d), buflen := 8 * (l + k)\<rparr>"
proof -
  have "blake_blocks S d (8 * k) = (S, d, 8 * k)" using assms by (subst blake_blocks.simps) simp
  moreover have "\<not> (0 < l \<and> 64 - l \<le> k)" using assms(3) by linarith
  ultimately show ?thesis using assms by (cases "l = 0") (simp_all add: blake256_update_def Let_def)
qed

lemma blake256_update_fill:
  assumes "buflen S = 8 * l" and "0 < l" and "l + k = 64" and "k \<le> length d" and "length (st_buf S) = 64"
  shows "blake256_update S d (8 * k) =
    (let b = blit (st_buf S) l (take k d) in blake256_compress (blake_count (S\<lparr>st_buf := b\<rparr>)) b\<lparr>buflen := 0\<rparr>)"
proof -
  have "l = 64 - k" "k < 64" using assms by simp_all
  moreover have "blake_blocks T e 0 = (T, e, 0)" for T e by (subst blake_blocks.simps) simp
  ultimately show ?thesis using assms by (simp add: blake256_update_def Let_def)
qed

lemma blake_count_pair: "st_t S = [x, y] \<Longrightarrow> \<exists>x' y'. st_t (blake_count S) = [x', y']"
  by (simp add: blake_count_def Let_def)

lemma blake_last_block:
  assumes "length (st_h S) = 8" and "st_s S = [0, 0, 0, 0]" and "st_t (blake_count S) = [t0, t1]"
    and "buflen S = 448" and "length (st_buf S) = 64" and "length len8 = 8"
  shows "st_h (blake256_update S len8 64) =
    blake_F (st_h S) (take 56 (st_buf S) @ len8) (if nullt S = 0 then (t0, t1) else (0, 0))"
proof -
  let ?b = "blit (st_buf S) 56 len8"
  have b: "?b = take 56 (st_buf S) @ len8" using assms by (simp add: blit_def)
  have t: "st_t (blake_count (S\<lparr>st_buf := ?b\<rparr>)) = [t0, t1]"
    using assms(3) by (simp add: blake_count_def Let_def)
  have "blake256_update S len8 64 = blake256_compress (blake_count (S\<lparr>st_buf := ?b\<rparr>)) ?b\<lparr>buflen := 0\<rparr>"
    using blake256_update_fill [of S 56 8 len8] assms by (simp add: Let_def)
  then show ?thesis
    using blake256_compress_F [OF _ _ t, of ?b] assms b by simp
qed

lemma high_word: "(ucast (drop_bit 32 (of_nat n :: u64)) :: u32) = of_nat (n div 2 ^ 32)"
  unfolding drop_bit_eq_div [symmetric] by (rule bit_word_eqI) (auto simp: bit_simps add.commute)

lemma low_word: "(ucast (of_nat n :: u64) :: u32) = of_nat n"
  by (rule bit_word_eqI) (auto simp: bit_simps)

lemma blake_message_length:
  assumes "512 dvd n" and "l < 512"
  shows "U32TO8 (if of_nat n + of_nat l < (of_nat l :: u32) then of_nat (n div 2 ^ 32) + 1 else of_nat (n div 2 ^ 32)) @
    U32TO8 (of_nat n + of_nat l) = split_be 8 (of_nat (n + l) :: u64)"
    and "(n + l) div 2 ^ 32 = n div 2 ^ 32"
proof -
  obtain k where n: "n = 512 * k" using assms(1) by (rule dvdE)
  have r: "n mod 2 ^ 32 = 512 * (k mod 2 ^ 23)"
    using mult_mod_right [of 512 k "2 ^ 23"] by (simp add: n)
  have "k mod 2 ^ 23 < 2 ^ 23" by simp
  then have "n mod 2 ^ 32 + l < 2 ^ 32" using r assms(2) by simp
  then have s: "(n + l) mod 2 ^ 32 = n mod 2 ^ 32 + l" "(n + l) div 2 ^ 32 = n div 2 ^ 32"
    using assms(2) by (simp_all add: mod_add_left_eq [of n, symmetric] div_add1_eq [of n l] mod_less div_less del: mod_add_left_eq)
  then show "(n + l) div 2 ^ 32 = n div 2 ^ 32" by simp
  have "unat (of_nat (n + l) :: u32) = n mod 2 ^ 32 + l"
    using s(1) by (simp add: unsigned_of_nat take_bit_eq_mod del: of_nat_add)
  moreover have "unat (of_nat l :: u32) = l"
    using assms(2) by (simp add: unsigned_of_nat take_bit_nat_eq_self)
  ultimately have c: "\<not> of_nat n + of_nat l < (of_nat l :: u32)"
    by (simp add: word_less_nat_alt flip: of_nat_add)
  have w: "split_be 8 w = split_be 4 (ucast (drop_bit 32 w) :: u32) @ (split_be 4 (ucast w :: u32) :: byte list)" for w :: u64
    by (rule nth_equalityI)
      (auto simp: split_be_def split_le_def upt_rec numeral_eq_Suc less_Suc_eq intro!: bit_word_eqI simp: bit_simps)
  show "U32TO8 (if of_nat n + of_nat l < (of_nat l :: u32) then of_nat (n div 2 ^ 32) + 1 else of_nat (n div 2 ^ 32)) @
    U32TO8 (of_nat n + of_nat l) = split_be 8 (of_nat (n + l) :: u64)"
    unfolding w high_word low_word s using c by (simp add: U32TO8_split)
qed

end
