(* ===== verification/BlakeLaws.thy ===== *)
theory BlakeLaws
  imports Blake
begin

unbundle bit_operations_syntax

text \<open>
  What \<^verbatim>\<open>blake256.c\<close> computes: the padding and the counter of \<open>blake256_final_h\<close>, streams of
  updates, and the HMACs.
\<close>

section \<open>The last blocks\<close>

lemma blake_chain_whole:
  assumes "64 dvd length a" and "n = length a div 64" and "length a \<le> len"
  shows "blake_chain iv (a @ x) len n = chain iv a n"
proof -
  have "blake_chain iv (a @ x) len k = chain iv a k" if "k \<le> n" for k
    using that
  proof (induction k)
    case (Suc k)
    have k: "64 * Suc k \<le> length a" using Suc.prems assms(1,2) by auto
    then have "mem_slice (a @ x) (64 * k) 64 = mem_slice a (64 * k) 64" by (simp add: mem_slice_def)
    moreover have "bits_before len k = 512 * (k + 1)" using k assms(3) by (simp add: bits_before_def)
    ultimately show ?case using Suc by (simp add: blake_chain_def chain_def)
  qed (simp add: blake_chain_def chain_def)
  then show ?thesis by simp
qed

lemma counter_0: "counter 0 = (0, 0)"
  by (simp add: counter_def)

lemma blake_uncount_simps [simp]:
  "st_h (blake_uncount n S) = st_h S" "st_s (blake_uncount n S) = st_s S" "nullt (blake_uncount n S) = nullt S"
  "st_buf (blake_uncount n S) = st_buf S" "buflen (blake_uncount n S) = buflen S"
  "st_t S = [x, y] \<Longrightarrow> st_t (blake_uncount n S) = [x - of_nat n, y]"
  by (simp_all add: blake_uncount_def)

text \<open>The counter that has been set back to the bits of padding comes out as the number of message
  bits.\<close>

lemma count_after_uncount:
  assumes "st_t S = [of_nat n - 512, of_nat (n div 2 ^ 32)]" and "\<not> 512 dvd n"
  shows "st_t (blake_count S) = [fst (counter n), snd (counter n)]"
proof -
  have "\<not> 2 ^ 32 dvd n"
  proof
    assume "2 ^ 32 dvd n"
    then have "512 dvd n" by (rule dvd_trans [rotated]) simp
    with assms(2) show False by blast
  qed
  then have "(of_nat n :: u32) \<noteq> 0" by (simp add: word_of_nat_eq_0_iff)
  then show ?thesis using assms(1) by (simp add: blake_count_def counter_def Let_def)
qed

text \<open>The state after the padding that fits into the last block.\<close>

lemma take_padding: "take (Suc n) blake_padding = 0x80 # replicate n 0" if "n \<le> 63"
  using that by (simp add: blake_padding_def)

definition pad_small :: "blake_state \<Rightarrow> byte \<Rightarrow> byte \<Rightarrow> blake_state" where
  "pad_small S pa pb =
    (if buflen S = 440 then blake256_update (blake_uncount 8 S) [pa] 8
     else blake_uncount 8 (blake256_update (blake256_update (blake_uncount (440 - buflen S)
       (if buflen S = 0 then S\<lparr>nullt := 1\<rparr> else S)) blake_padding (440 - buflen S)) [pb] 8))"

lemma pad_small_state:
  assumes "rep_blocks iv a S" and "length b \<le> 55" and "buflen S = 8 * length b" and "take (length b) (st_buf S) = b"
  shows "\<exists>buf. pad_small S pa pb =
      S\<lparr>st_buf := buf, buflen := 448, nullt := (if b = [] then 1 else 0),
        st_t := [of_nat (8 * length a) - of_nat (448 - 8 * length b), of_nat (8 * length a div 2 ^ 32)]\<rparr> \<and>
    length buf = 64 \<and> take 56 buf = b @ (if length b = 55 then [pa] else 0x80 # replicate (54 - length b) 0 @ [pb])"
proof -
  let ?l = "length b"
  have S: "length (st_buf S) = 64" "nullt S = 0" "st_t S = [of_nat (8 * length a), of_nat (8 * length a div 2 ^ 32)]"
    using assms(1) by (simp_all add: rep_blocks_def counts_def counter_def)
  show ?thesis
  proof (cases "?l = 55")
    case True
    have "blake256_update (blake_uncount 8 S) [pa] (8 * 1) =
        blake_uncount 8 S\<lparr>st_buf := blit (st_buf S) 55 [pa], buflen := 8 * (55 + 1)\<rparr>"
      using assms(3) True by (subst blake256_update_small [of _ 55]) simp_all
    moreover have "take 56 (blit (st_buf S) 55 [pa]) = b @ [pa]"
      using assms(4) True S(1) by (simp add: blit_def)
    ultimately show ?thesis
      using True assms(3) S by (intro exI [of _ "blit (st_buf S) 55 [pa]"]) (auto simp: pad_small_def blake_uncount_def)
  next
    case False
    let ?S = "blake_uncount (440 - buflen S) (if buflen S = 0 then S\<lparr>nullt := 1\<rparr> else S)"
    let ?b1 = "blit (st_buf S) ?l (take (55 - ?l) blake_padding)"
    have n: "440 - buflen S = 8 * (55 - ?l)" using assms(3) by simp
    have lp: "length blake_padding = 64" by (simp add: blake_padding_def)
    have u1: "blake256_update ?S blake_padding (8 * (55 - ?l)) = ?S\<lparr>st_buf := ?b1, buflen := 8 * 55\<rparr>"
      using assms(2,3) False lp by (subst blake256_update_small [of _ ?l]) simp_all
    have u2: "blake256_update (?S\<lparr>st_buf := ?b1, buflen := 8 * 55\<rparr>) [pb] (8 * 1) =
        ?S\<lparr>st_buf := blit ?b1 55 [pb], buflen := 8 * (55 + 1)\<rparr>"
      by (subst blake256_update_small [of _ 55]) simp_all
    have "take (55 - ?l) blake_padding = 0x80 # replicate (54 - ?l) 0"
    proof -
      have "Suc (54 - ?l) = 55 - ?l" "54 - ?l \<le> 63" using assms(2) False by simp_all
      then show ?thesis using take_padding [of "54 - ?l"] by simp
    qed
    moreover have "take 56 (blit ?b1 55 [pb]) = b @ take (55 - ?l) blake_padding @ [pb]"
      using assms(2,4) S(1) False lp by (simp add: blit_def min_absorb2)
    ultimately have "take 56 (blit ?b1 55 [pb]) = b @ 0x80 # replicate (54 - ?l) 0 @ [pb]" by simp
    moreover have "length (blit ?b1 55 [pb]) = 64"
      using assms(2) S(1) lp by simp
    moreover have "pad_small S pa pb = blake_uncount 8 (?S\<lparr>st_buf := blit ?b1 55 [pb], buflen := 448\<rparr>)"
    proof -
      have ne: "buflen S \<noteq> 440" using False assms(3) by simp
      have "pad_small S pa pb = blake_uncount 8 (blake256_update (blake256_update ?S blake_padding (8 * (55 - ?l))) [pb] (8 * 1))"
        using ne by (simp only: pad_small_def n if_False mult_1_right)
      also have "\<dots> = blake_uncount 8 (?S\<lparr>st_buf := blit ?b1 55 [pb], buflen := 8 * (55 + 1)\<rparr>)"
        by (simp only: u1 u2)
      finally show ?thesis by simp
    qed
    moreover have "blake_uncount 8 (?S\<lparr>st_buf := blit ?b1 55 [pb], buflen := 448\<rparr>) =
      S\<lparr>st_buf := blit ?b1 55 [pb], buflen := 448, nullt := (if b = [] then 1 else 0),
        st_t := [of_nat (8 * length a) - of_nat (448 - 8 * length b), of_nat (8 * length a div 2 ^ 32)]\<rparr>"
    proof -
      have "448 - 8 * ?l = 8 + (440 - buflen S)" using assms(2,3) by simp
      then have "(of_nat (448 - 8 * ?l) :: u32) = 8 + of_nat (440 - buflen S)" by simp
      then show ?thesis using S assms(3) by (simp add: blake_uncount_def algebra_simps)
    qed
    ultimately show ?thesis
      using False by (intro exI [of _ "blit ?b1 55 [pb]"]) simp
  qed
qed


definition pad_large :: "blake_state \<Rightarrow> byte \<Rightarrow> blake_state" where
  "pad_large S pb =
    blake_uncount 8 (blake256_update (blake256_update
      (blake_uncount 440 (blake256_update (blake_uncount (512 - buflen S) S) blake_padding (512 - buflen S)))
      (drop 1 blake_padding) 440\<lparr>nullt := 1\<rparr>) [pb] 8)"

lemma blake_final_cases:
  "blake256_final_h S pa pb =
    (let len8 = U32TO8 (if st_t S ! 0 + of_nat (buflen S) < of_nat (buflen S) then st_t S ! 1 + 1 else st_t S ! 1) @
           U32TO8 (st_t S ! 0 + of_nat (buflen S));
         T = (if buflen S \<le> 440 then pad_small S pa pb else pad_large S pb);
         T = blake256_update (blake_uncount 64 T) len8 64
     in (T, concat (map (\<lambda>i. U32TO8 (st_h T ! i)) [0..<8])))"
  by (simp add: blake256_final_h_def pad_small_def pad_large_def Let_def)

lemma pad_large_state:
  assumes "rep_blocks iv a S" and "55 < length b" "length b < 64" and "buflen S = 8 * length b"
    and "take (length b) (st_buf S) = b"
  shows "\<exists>buf x y. pad_large S pb =
      S\<lparr>st_buf := buf, buflen := 448, nullt := 1, st_t := [x, y],
        st_h := blake_F (st_h S) (b @ 0x80 # replicate (63 - length b) 0) (counter (8 * length (a @ b)))\<rparr> \<and>
    length buf = 64 \<and> take 56 buf = replicate 55 0 @ [pb]"
proof -
  let ?l = "length b"
  have S: "length (st_buf S) = 64" "nullt S = 0" "st_t S = [of_nat (8 * length a), of_nat (8 * length a div 2 ^ 32)]"
      "st_s S = [0, 0, 0, 0]" "length (st_h S) = 8" "64 dvd length a"
    using assms(1) by (simp_all add: rep_blocks_def counts_def counter_def)
  have lp: "length blake_padding = 64" by (simp add: blake_padding_def)
  let ?S = "blake_uncount (512 - buflen S) S"
  let ?B = "b @ 0x80 # replicate (63 - ?l) 0"
  obtain q where q: "length a = 64 * q" using S(6) by (rule dvdE)
  have n: "512 - buflen S = 8 * (64 - ?l)" using assms(4) by simp
  have "Suc (63 - ?l) = 64 - ?l" using assms(3) by simp
  then have pad: "take (64 - ?l) blake_padding = 0x80 # replicate (63 - ?l) 0"
    using take_padding [of "63 - ?l"] by simp
  then have B: "blit (st_buf S) ?l (take (64 - ?l) blake_padding) = ?B"
    using assms(2,3,5) S(1) by (simp add: blit_def)
  have m: "8 * length (a @ b) div 2 ^ 32 = 8 * length a div 2 ^ 32"
    using blake_message_length(2) [of "8 * length a" "8 * ?l"] q assms(3) by (simp add: distrib_left)
  have "of_nat (8 * length a) - of_nat (512 - buflen S) = (of_nat (8 * length (a @ b)) - 512 :: u32)"
  proof -
    have "512 = 8 * ?l + (512 - buflen S)" using assms(3,4) by simp
    then have "(512 :: u32) = of_nat (8 * ?l) + of_nat (512 - buflen S)" by (metis of_nat_add of_nat_numeral)
    then show ?thesis by (simp add: algebra_simps)
  qed
  then have t: "st_t ?S = [of_nat (8 * length (a @ b)) - 512, of_nat (8 * length (a @ b) div 2 ^ 32)]"
    using S(3) m by simp
  have nd: "\<not> 512 dvd 8 * length (a @ b)"
  proof
    assume "512 dvd 8 * length (a @ b)"
    then have "512 dvd 512 * q + 8 * ?l" by (simp add: q distrib_left)
    then have "512 dvd 8 * ?l" by (simp add: dvd_add_right_iff)
    moreover have "0 < 8 * ?l" "8 * ?l < 512" using assms(2,3) by linarith+
    ultimately show False using nat_dvd_not_less by blast
  qed
  have c: "st_t (blake_count (?S\<lparr>st_buf := ?B\<rparr>)) = [fst (counter (8 * length (a @ b))), snd (counter (8 * length (a @ b)))]"
    using count_after_uncount [of "?S\<lparr>st_buf := ?B\<rparr>"] t nd by simp
  have bn: "b \<noteq> []" using assms(2) by auto
  let ?h = "blake_F (st_h S) ?B (counter (8 * length (a @ b)))"
  have lB: "length ?B = 64" using assms(3) by simp
  let ?U = "S\<lparr>st_t := [fst (counter (8 * length (a @ b))), snd (counter (8 * length (a @ b)))], st_buf := ?B, buflen := 0, st_h := ?h\<rparr>"
  have u1: "blake256_update ?S blake_padding (8 * (64 - ?l)) = ?U"
  proof -
    have "blake256_update ?S blake_padding (8 * (64 - ?l)) =
        blake256_compress (blake_count (?S\<lparr>st_buf := ?B\<rparr>)) ?B\<lparr>buflen := 0\<rparr>"
      using assms(2,3,4) lp S(1) B bn by (subst blake256_update_fill [of _ ?l]) (simp_all add: Let_def)
    also have "\<dots> = blake_count (?S\<lparr>st_buf := ?B\<rparr>)\<lparr>st_h := ?h, buflen := 0\<rparr>"
      using blake256_compress_F [OF _ _ c, of ?B] S lB by simp
    also have "blake_count (?S\<lparr>st_buf := ?B\<rparr>) = S\<lparr>st_t := st_t (blake_count (?S\<lparr>st_buf := ?B\<rparr>)), st_buf := ?B\<rparr>"
      by (simp add: blake_count_def blake_uncount_def Let_def)
    finally show ?thesis unfolding c by simp
  qed
  let ?b1 = "blit ?B 0 (replicate 55 0)"
  have d: "take 55 (drop 1 blake_padding) = replicate 55 0" by (simp add: blake_padding_def)
  have u2: "blake256_update (blake_uncount 440 ?U) (drop 1 blake_padding) (8 * 55) =
      blake_uncount 440 ?U\<lparr>st_buf := ?b1, buflen := 440\<rparr>"
    using lp by (subst blake256_update_small [of _ 0]) (simp_all add: d d [unfolded One_nat_def])
  have u3: "blake256_update (blake_uncount 440 ?U\<lparr>st_buf := ?b1, buflen := 440, nullt := 1\<rparr>) [pb] (8 * 1) =
      blake_uncount 440 ?U\<lparr>nullt := 1, st_buf := blit ?b1 55 [pb], buflen := 8 * (55 + 1)\<rparr>"
    by (subst blake256_update_small [of _ 55]) simp_all
  have "pad_large S pb = blake_uncount 8 (blake_uncount 440 ?U\<lparr>nullt := 1, st_buf := blit ?b1 55 [pb], buflen := 448\<rparr>)"
    using u1 u2 u3 by (simp add: pad_large_def n)
  moreover have "take 56 (blit ?b1 55 [pb]) = replicate 55 0 @ [pb]" "length (blit ?b1 55 [pb]) = 64"
    using lB by (simp_all add: blit_def)
  ultimately show ?thesis
    by (intro exI [of _ "blit ?b1 55 [pb]"] exI [of _ "fst (counter (8 * length (a @ b))) - 440 - 8"]
        exI [of _ "snd (counter (8 * length (a @ b)))"]) (simp add: blake_uncount_def)
qed

lemma whole_and_rest:
  assumes "64 dvd length a" and "length b < (64 :: nat)"
  shows "length (a @ b) mod 64 = length b" "8 * length (a @ b) div 2 ^ 32 = 8 * length a div 2 ^ 32"
    "b \<noteq> [] \<Longrightarrow> \<not> 512 dvd 8 * length (a @ b)"
    "U32TO8 (if of_nat (8 * length a) + of_nat (8 * length b) < (of_nat (8 * length b) :: u32)
        then of_nat (8 * length a div 2 ^ 32) + 1 else of_nat (8 * length a div 2 ^ 32)) @
      U32TO8 (of_nat (8 * length a) + of_nat (8 * length b)) = split_be 8 (of_nat (8 * length (a @ b)) :: u64)"
proof -
  obtain q where q: "length a = 64 * q" using assms(1) by (rule dvdE)
  then show "length (a @ b) mod 64 = length b" using assms(2) by simp
  have d: "512 dvd 8 * length a" using q by simp
  note M = blake_message_length [OF d, of "8 * length b"]
  show "8 * length (a @ b) div 2 ^ 32 = 8 * length a div 2 ^ 32"
    using M(2) assms(2) by (simp add: distrib_left)
  show "U32TO8 (if of_nat (8 * length a) + of_nat (8 * length b) < (of_nat (8 * length b) :: u32)
        then of_nat (8 * length a div 2 ^ 32) + 1 else of_nat (8 * length a div 2 ^ 32)) @
      U32TO8 (of_nat (8 * length a) + of_nat (8 * length b)) = split_be 8 (of_nat (8 * length (a @ b)) :: u64)"
    using M(1) assms(2) by (simp add: distrib_left)
  assume "b \<noteq> []"
  then have "0 < 8 * length b" "8 * length b < 512" using assms(2) by simp_all
  then have "\<not> 512 dvd 8 * length b" using nat_dvd_not_less by blast
  moreover have "8 * length (a @ b) = 8 * length a + 8 * length b" by simp
  ultimately show "\<not> 512 dvd 8 * length (a @ b)" using dvd_add_right_iff [OF d] by metis
qed

lemma blake_chain_Suc:
  assumes "64 dvd length a" and "n = length a div 64" and "length a \<le> len" and "64 \<le> length x"
  shows "blake_chain iv (a @ x) len (Suc n) = blake_F (chain iv a n) (take 64 x) (counter (bits_before len n))"
proof -
  have "mem_slice (a @ x) (64 * n) 64 = take 64 x" using assms(1,2) by (simp add: mem_slice_def)
  then show ?thesis
    using blake_chain_whole [OF assms(1-3), of iv x] by (simp add: blake_chain_def)
qed

lemma digest_words: "length h = 8 \<Longrightarrow> concat (map (\<lambda>i. U32TO8 (h ! i)) [0..<8]) = concat (map (split_be 4) h)"
  by (rule arg_cong [where f = concat], rule nth_equalityI) (simp_all add: U32TO8_split)

lemma last_bits: "64 * k = n \<Longrightarrow> l \<le> 64 \<Longrightarrow> min (8 * (n + l)) (512 * (k + 1)) = 8 * (n + l :: nat)"
  by auto

lemma pad_small_blocks:
  assumes "64 dvd length a" and "length b \<le> 55" and "m = a @ b"
  shows "blake_pad pa pb m = a @ b @ (if length b = 55 then [pa] else 0x80 # replicate (54 - length b) 0 @ [pb]) @
      split_be 8 (of_nat (8 * length m) :: u64)"
    and "bits_before (length m) (length a div 64) = (if b = [] then 0 else 8 * length m)"
proof -
  have l: "length m mod 64 = length b" using whole_and_rest(1) [OF assms(1), of b] assms(2,3) by simp
  have "(118 - length b) mod 64 = 54 - length b" if "length b \<noteq> 55"
  proof -
    have "118 - length b = 54 - length b + 64" using assms(2) that by linarith
    then have "(118 - length b) mod 64 = (54 - length b + 64) mod 64" by (simp only:)
    also have "\<dots> = (54 - length b) mod 64" by (rule mod_add_self2)
    also have "\<dots> = 54 - length b" by (rule mod_less) linarith
    finally show ?thesis .
  qed
  then have "(if length b = 55 then [pa] else 0x80 # replicate ((118 - length b) mod 64) 0 @ [pb]) =
      (if length b = 55 then [pa] else 0x80 # replicate (54 - length b) 0 @ [pb])" by simp
  then show "blake_pad pa pb m = a @ b @ (if length b = 55 then [pa] else 0x80 # replicate (54 - length b) 0 @ [pb]) @
      split_be 8 (of_nat (8 * length m) :: u64)"
    unfolding blake_pad_def Let_def l using assms(3) by (simp only: append_assoc)
  have q: "64 * (length a div 64) = length a" using assms(1) by simp
  have "min (8 * length m) (512 * (length a div 64 + 1)) = 8 * length m"
    unfolding assms(3) length_append using assms(2) by (intro last_bits [OF q]) simp
  moreover have "length a < length m \<longleftrightarrow> b \<noteq> []" by (simp add: assms(3))
  ultimately show "bits_before (length m) (length a div 64) = (if b = [] then 0 else 8 * length m)"
    unfolding bits_before_def q by metis
qed

lemma pad_large_blocks:
  assumes "64 dvd length a" and "55 < length b" and "length b < 64" and "m = a @ b"
  shows "blake_pad pa pb m = (a @ b @ 0x80 # replicate (63 - length b) 0) @ replicate 55 0 @ [pb] @
      split_be 8 (of_nat (8 * length m) :: u64)"
    and "bits_before (length m) (length a div 64) = 8 * length m"
    and "bits_before (length m) (Suc (length a div 64)) = 0"
proof -
  have l: "length m mod 64 = length b" using whole_and_rest(1) [OF assms(1), of b] assms(3,4) by simp
  have n: "(118 - length b) mod 64 = (63 - length b) + 55"
  proof -
    have "118 - length b = (63 - length b) + 55" "(63 - length b) + 55 < 64" using assms(2,3) by linarith+
    then show ?thesis by (simp only: mod_less)
  qed
  have ne: "length b \<noteq> 55" using assms(2) by simp
  show "blake_pad pa pb m = (a @ b @ 0x80 # replicate (63 - length b) 0) @ replicate 55 0 @ [pb] @
      split_be 8 (of_nat (8 * length m) :: u64)"
    unfolding blake_pad_def Let_def l n if_not_P [OF ne] replicate_add by (simp only: assms(4) append_assoc append_Cons)
  have q: "64 * (length a div 64) = length a" using assms(1) by simp
  have "min (8 * length m) (512 * (length a div 64 + 1)) = 8 * length m"
    unfolding assms(4) length_append using assms(3) by (intro last_bits [OF q]) simp
  moreover have "length a < length m" "\<not> 64 * Suc (length a div 64) < length m"
    using assms(2,3) unfolding assms(4) length_append mult_Suc_right q by linarith+
  ultimately show "bits_before (length m) (length a div 64) = 8 * length m"
      "bits_before (length m) (Suc (length a div 64)) = 0"
    unfolding bits_before_def q by (simp_all only: if_True if_False)
qed

lemma final_small:
  assumes "rep_blocks iv a S" and "length b \<le> 55" and "buflen S = 8 * length b" and "take (length b) (st_buf S) = b"
    and "m = a @ b"
  shows "st_h (blake256_update (blake_uncount 64 (pad_small S pa pb)) (split_be 8 (of_nat (8 * length m) :: u64)) 64) =
      blake_chain iv (blake_pad pa pb m) (length m) (length (blake_pad pa pb m) div 64)"
proof -
  let ?q = "length a div 64"
  let ?len8 = "split_be 8 (of_nat (8 * length m) :: u64) :: byte list"
  let ?mid = "if length b = 55 then [pa] else 0x80 # replicate (54 - length b) 0 @ [pb]"
  let ?B = "b @ ?mid @ ?len8"
  have da: "64 dvd length a" using assms(1) by (simp add: rep_blocks_def)
  have S: "st_h S = chain iv a ?q" "length (st_h S) = 8" "st_s S = [0, 0, 0, 0]" "length iv = 8"
    using assms(1) by (simp_all add: rep_blocks_def)
  obtain buf where T: "pad_small S pa pb =
      S\<lparr>st_buf := buf, buflen := 448, nullt := (if b = [] then 1 else 0),
        st_t := [of_nat (8 * length a) - of_nat (448 - 8 * length b), of_nat (8 * length a div 2 ^ 32)]\<rparr>"
      "length buf = 64" "take 56 buf = b @ ?mid"
    using pad_small_state [OF assms(1-4), of pa pb] by blast
  let ?T = "blake_uncount 64 (pad_small S pa pb)"
  note p = pad_small_blocks(1) [OF da assms(2,5), of pa pb] pad_small_blocks(2) [OF da assms(2,5)]
  have lB: "length ?B = 64" using assms(2) by simp
  have "st_h (blake256_update ?T ?len8 64) = blake_F (st_h S) ?B (counter (bits_before (length m) ?q))"
  proof (cases "b = []")
    case True
    have "st_t ?T = [of_nat (8 * length a) - of_nat (448 - 8 * length b) - of_nat 64, of_nat (8 * length a div 2 ^ 32)]"
      unfolding T(1) by (simp add: blake_uncount_def)
    then obtain x y where "st_t (blake_count ?T) = [x, y]"
      using blake_count_pair by blast
    then show ?thesis
      using blake_last_block [of ?T x y ?len8] S(2,3) T True by (simp add: p counter_0)
  next
    case False
    have "512 = (448 - 8 * length b) + 64 + 8 * length b" using assms(2) by simp
    then have "(512 :: u32) = of_nat (448 - 8 * length b) + 64 + of_nat (8 * length b)"
      by (metis of_nat_add of_nat_numeral)
    then have "st_t ?T = [of_nat (8 * length m) - 512, of_nat (8 * length m div 2 ^ 32)]"
      using T(1) whole_and_rest(2) [OF da, of b] assms(2) by (simp add: blake_uncount_def assms(5) algebra_simps)
    then have "st_t (blake_count ?T) = [fst (counter (8 * length m)), snd (counter (8 * length m))]"
      using count_after_uncount whole_and_rest(3) [OF da _ False] assms(2,5) by simp
    then show ?thesis
      using blake_last_block [of ?T _ _ ?len8] S(2,3) T False by (simp add: p)
  qed
  moreover have "blake_chain iv (blake_pad pa pb m) (length m) (Suc ?q) = blake_F (chain iv a ?q) ?B (counter (bits_before (length m) ?q))"
    using blake_chain_Suc [OF da refl, of "length m" ?B iv] lB unfolding p(1) by (simp add: assms(5))
  moreover have "length (blake_pad pa pb m) div 64 = Suc ?q"
    unfolding p(1) length_append [of a] lB using da by simp
  ultimately show ?thesis using S(1) by simp
qed

lemma final_large:
  assumes "rep_blocks iv a S" and "55 < length b" and "length b < 64" and "buflen S = 8 * length b"
    and "take (length b) (st_buf S) = b" and "m = a @ b"
  shows "st_h (blake256_update (blake_uncount 64 (pad_large S pb)) (split_be 8 (of_nat (8 * length m) :: u64)) 64) =
      blake_chain iv (blake_pad pa pb m) (length m) (length (blake_pad pa pb m) div 64)"
proof -
  let ?q = "length a div 64"
  let ?len8 = "split_be 8 (of_nat (8 * length m) :: u64) :: byte list"
  let ?B = "b @ 0x80 # replicate (63 - length b) 0"
  let ?C = "replicate 55 0 @ [pb] @ ?len8"
  have da: "64 dvd length a" using assms(1) by (simp add: rep_blocks_def)
  have S: "st_h S = chain iv a ?q" "length (st_h S) = 8" "st_s S = [0, 0, 0, 0]" "length iv = 8"
    using assms(1) by (simp_all add: rep_blocks_def)
  obtain buf x y where T: "pad_large S pb =
      S\<lparr>st_buf := buf, buflen := 448, nullt := 1, st_t := [x, y],
        st_h := blake_F (st_h S) ?B (counter (8 * length m))\<rparr>"
      "length buf = 64" "take 56 buf = replicate 55 0 @ [pb]"
    using pad_large_state [OF assms(1-5), of pb] assms(6) by blast
  let ?T = "blake_uncount 64 (pad_large S pb)"
  note p = pad_large_blocks(1) [OF da assms(2,3,6), of pa pb] pad_large_blocks(2,3) [OF da assms(2,3,6)]
  have lB: "length ?B = 64" "length ?C = 64" using assms(3) by simp_all
  have "st_t ?T = [x - of_nat 64, y]"
    unfolding T(1) by (simp add: blake_uncount_def)
  then obtain x' y' where "st_t (blake_count ?T) = [x', y']"
    using blake_count_pair by blast
  then have "st_h (blake256_update ?T ?len8 64) = blake_F (blake_F (st_h S) ?B (counter (8 * length m))) ?C (counter 0)"
    using blake_last_block [of ?T x' y' ?len8] S(2,3) T by (simp add: counter_0)
  moreover have "blake_chain iv (blake_pad pa pb m) (length m) (Suc (Suc ?q)) =
      blake_F (blake_chain iv (blake_pad pa pb m) (length m) (Suc ?q)) ?C (counter 0)"
  proof -
    have "length (a @ ?B) = 64 * Suc ?q" using da lB(1) by simp
    then have "mem_slice ((a @ ?B) @ ?C) (64 * Suc ?q) 64 = ?C"
      using lB(2) unfolding mem_slice_def by (metis append_eq_conv_conj order_refl take_all)
    then show ?thesis unfolding p(1) by (simp add: blake_chain_def p(3) del: append_assoc)
  qed
  moreover have "blake_chain iv (blake_pad pa pb m) (length m) (Suc ?q) = blake_F (chain iv a ?q) ?B (counter (8 * length m))"
  proof -
    have "take 64 (?B @ ?C) = ?B" using lB(1) by (metis append_eq_conv_conj)
    moreover have "length a \<le> length m" "64 \<le> length (?B @ ?C)" using lB by (simp_all add: assms(6))
    ultimately show ?thesis
      using blake_chain_Suc [OF da refl, of "length m" "?B @ ?C" iv] unfolding p(1) p(2) by (simp only: append_assoc)
  qed
  moreover have "length (blake_pad pa pb m) div 64 = Suc (Suc ?q)"
    unfolding p(1) length_append [of "a @ ?B"] length_append [of a] lB using da by simp
  ultimately show ?thesis using S(1) by simp
qed

lemma length_chain_digest: "length iv = 8 \<Longrightarrow> length (blake_chain iv p n k) = 8"
  by (induction k) (simp_all add: blake_chain_def)

lemma blake_final_digest:
  assumes "blake_rep iv m S"
  shows "snd (blake256_final_h S pa pb) = blake_digest iv pa pb m"
proof -
  obtain a b where m: "m = a @ b" and a: "rep_blocks iv a S" and b: "length b < 64" "buflen S = 8 * length b"
      "take (length b) (st_buf S) = b"
    using assms(1) by (rule blake_repE)
  have da: "64 dvd length a" and iv: "length iv = 8"
      and t: "st_t S = [of_nat (8 * length a), of_nat (8 * length a div 2 ^ 32)]"
    using a by (simp_all add: rep_blocks_def counts_def counter_def)
  have len8: "U32TO8 (if st_t S ! 0 + of_nat (buflen S) < of_nat (buflen S) then st_t S ! 1 + 1 else st_t S ! 1) @
           U32TO8 (st_t S ! 0 + of_nat (buflen S)) = split_be 8 (of_nat (8 * length m) :: u64)"
    using whole_and_rest(4) [OF da b(1)] unfolding t b(2) m by (simp only: nth_Cons_0 nth_Cons_Suc One_nat_def)
  let ?T = "if buflen S \<le> 440 then pad_small S pa pb else pad_large S pb"
  have "st_h (blake256_update (blake_uncount 64 ?T) (split_be 8 (of_nat (8 * length m) :: u64)) 64) =
      blake_chain iv (blake_pad pa pb m) (length m) (length (blake_pad pa pb m) div 64)"
  proof (cases "length b \<le> 55")
    case True
    then show ?thesis using final_small [OF a True b(2,3) m] b(2) by simp
  next
    case False
    then show ?thesis using final_large [OF a _ b m] b(2) by simp
  qed
  then show ?thesis
    unfolding blake_final_cases Let_def len8 blake_digest_def
    by (simp add: digest_words length_chain_digest iv)
qed


section \<open>Streams of data and their HMAC\<close>

text \<open>What a caller of init, update and final relies on: after \<open>init\<close> and any updates with data
  the state stands for the data so far, and \<open>final\<close> gives the digest of it.  An update without
  data is only harmless at a block boundary.\<close>

locale stream_hash =
  fixes init :: "'s \<Rightarrow> 's" and update :: "'s \<Rightarrow> byte list \<Rightarrow> nat \<Rightarrow> 's" and final :: "'s \<Rightarrow> 's \<times> byte list"
    and rep :: "byte list \<Rightarrow> 's \<Rightarrow> bool" and fresh :: "'s \<Rightarrow> bool" and digest :: "byte list \<Rightarrow> byte list"
    and size :: nat
  assumes rep_init: "fresh s \<Longrightarrow> rep [] (init s)"
    and rep_update: "rep m s \<Longrightarrow> n \<le> length d \<Longrightarrow> n > 0 \<or> 64 dvd length m \<Longrightarrow> rep (m @ take n d) (update s d (8 * n))"
    and final_digest: "rep m s \<Longrightarrow> snd (final s) = digest m"
    and length_digest: "size \<le> length (digest m)" and size_pos: "0 < size"
begin

lemma hash_digest:
  assumes "fresh s" and "n \<le> length d"
  shows "snd (final (update (init s) d (8 * n))) = digest (take n d)"
  using final_digest [OF rep_update [OF rep_init [OF assms(1)] assms(2)]] by simp

lemma rep_chunks:
  assumes "rep m s" and "\<forall>d \<in> set ds. d \<noteq> []"
  shows "rep (m @ concat ds) (fold (\<lambda>d s. update s d (8 * length d)) ds s)"
  using assms
proof (induction ds arbitrary: m s)
  case (Cons d ds)
  then have "rep (m @ d) (update s d (8 * length d))" using rep_update [of m s "length d" d] by simp
  then show ?case using Cons by fastforce
qed simp

lemma stream_digest:
  assumes "fresh s" and "\<forall>d \<in> set ds. d \<noteq> []"
  shows "snd (final (fold (\<lambda>d s. update s d (8 * length d)) ds (init s))) = digest (concat ds)"
  using final_digest [OF rep_chunks [OF rep_init [OF assms(1)] assms(2)]] by simp

lemma hmac_stream:
  assumes "fresh i" and "fresh j" and "length ipad = 64" and "length opad = 64" and "n \<le> length d"
  shows "snd (final (update (update (init j) opad (8 * 64))
      (snd (final (update (update (init i) ipad (8 * 64)) d (8 * n)))) (8 * size))) =
    digest (opad @ take size (digest (ipad @ take n d)))"
proof -
  have "rep ipad (update (init i) ipad (8 * 64))" "rep opad (update (init j) opad (8 * 64))"
    using rep_update [OF rep_init, of i 64 ipad] rep_update [OF rep_init, of j 64 opad] assms by simp_all
  then have "snd (final (update (update (init i) ipad (8 * 64)) d (8 * n))) = digest (ipad @ take n d)"
      "rep opad (update (init j) opad (8 * 64))"
    using final_digest [OF rep_update, of ipad _ n d] assms by simp_all
  then show ?thesis
    using final_digest [OF rep_update, of opad "update (init j) opad (8 * 64)" size "digest (ipad @ take n d)"]
      length_digest size_pos by simp
qed

end

definition iv256 :: "u32 list" where
  "iv256 = [0x6A09E667, 0xBB67AE85, 0x3C6EF372, 0xA54FF53A, 0x510E527F, 0x9B05688C, 0x1F83D9AB, 0x5BE0CD19]"

definition iv224 :: "u32 list" where
  "iv224 = [0xC1059ED8, 0x367CD507, 0x3070DD17, 0xF70E5939, 0xFFC00B31, 0x68581511, 0x64F98FA7, 0xBEFA4FA4]"

definition BLAKE256 :: "byte list \<Rightarrow> byte list" where
  "BLAKE256 m = blake_digest iv256 0x81 0x01 m"

definition BLAKE224_full :: "byte list \<Rightarrow> byte list" where
  "BLAKE224_full m = blake_digest iv224 0x80 0x00 m"

definition fresh_buf :: "blake_state \<Rightarrow> bool" where
  "fresh_buf S \<longleftrightarrow> length (st_buf S) = 64"

lemma length_blake_digest: "length iv = 8 \<Longrightarrow> length (blake_digest iv pa pb m) = 32"
proof -
  assume "length iv = 8"
  then have "length (blake_chain iv p n k) = 8" for p n k by (rule length_chain_digest)
  then have "length (concat (map (split_be 4 :: u32 \<Rightarrow> byte list) (blake_chain iv p n k))) = 32" for p n k
    by (simp add: length_concat comp_def sum_list_triv)
  then show ?thesis by (simp add: blake_digest_def Let_def)
qed

lemma rep_blake_init:
  "length iv = 8 \<Longrightarrow> fresh_buf S \<Longrightarrow> blake_rep iv [] (blake_init iv S)"
  by (simp add: blake_rep_def rep_blocks_def blake_init_def chain_def counts_def counter_def fresh_buf_def)

interpretation b256: stream_hash blake256_init blake256_update blake256_final "blake_rep iv256" fresh_buf BLAKE256 32
  by unfold_locales (simp_all add: rep_blake_init blake256_init_def iv256_def [symmetric] blake256_update_rep
      blake256_final_def blake_final_digest BLAKE256_def length_blake_digest, simp_all add: iv256_def rep_blake_init length_blake_digest)

interpretation b224: stream_hash blake224_init blake224_update blake224_final "blake_rep iv224" fresh_buf BLAKE224_full 28
  by unfold_locales (simp_all add: blake224_init_def iv224_def [symmetric] blake256_update_rep blake224_update_def
      blake224_final_def blake_final_digest BLAKE224_full_def, simp_all add: iv224_def rep_blake_init length_blake_digest)


lemma hmac_pad_eq:
  assumes "n \<le> 64" and "n \<le> length key"
  shows "hmac_pad c key n = map (\<lambda>b. b XOR c) (take n key @ replicate (64 - n) 0)"
  using assms by (intro nth_equalityI)
    (auto simp: hmac_pad_def update_loop_eq nth_append min_absorb2 xor.commute split: if_splits)

section \<open>Properties\<close>

text \<open>C31: The unrolled rounds of \<open>blake256_compress\<close>, one word of the matrix at a time, are the
  14 rounds of columns and diagonals of the BLAKE specification.\<close>

theorem blake256_compress_spec:
  assumes "length (st_h S) = 8" and "st_s S = [0, 0, 0, 0]" and "st_t S = [t0, t1]" and "length block = 64"
  shows "blake256_compress S block =
    S\<lparr>st_h := blake_F (st_h S) block (if nullt S = 0 then (t0, t1) else (0, 0))\<rparr>"
  using blake256_compress_F [OF assms(1-3), of block] assms(4) by simp

definition any_state :: blake_state where
  "any_state = \<lparr>st_h = iv256, st_s = [0, 0, 0, 0], st_t = [8, 0], buflen = 8, nullt = 0, st_buf = replicate 64 1\<rparr>"

lemma blake256_compress_spec_witness:
  "blake256_compress any_state (replicate 64 2) = any_state\<lparr>st_h := blake_F iv256 (replicate 64 2) (8, 0)\<rparr>"
  using blake256_compress_spec [of any_state 8 0 "replicate 64 2"] by (simp add: any_state_def iv256_def)

text \<open>The number of bits in 64 bits.\<close>

lemma unat_bits: "unat (inlen * 8 :: u64) = 8 * (unat inlen mod 2 ^ 61)"
proof -
  have "unat (inlen * 8) = unat inlen * 8 mod 2 ^ 64" by (simp add: unat_word_ariths)
  also have "\<dots> = 8 * (unat inlen mod 2 ^ 61)" using mult_mod_right [of 8 "unat inlen" "2 ^ 61"] by (simp add: mult.commute)
  finally show ?thesis .
qed

lemma blake_hashes:
  assumes "fresh_buf L" and "unat inlen \<le> length d"
  shows "blake256_hash L d inlen = BLAKE256 (take (unat inlen mod 2 ^ 61) d) \<and>
    blake224_hash L d inlen = BLAKE224_full (take (unat inlen mod 2 ^ 61) d) \<and> length (blake224_hash L d inlen) = 32"
proof -
  have "unat inlen mod 2 ^ 61 \<le> length d" using assms(2) mod_less_eq_dividend [of "unat inlen" "2 ^ 61"] by linarith
  from b256.hash_digest [OF assms(1) this] b224.hash_digest [OF assms(1) this] show ?thesis
    by (simp only: blake256_hash_def blake224_hash_def unat_bits Let_def BLAKE224_full_def length_blake_digest)
       (simp add: length_blake_digest iv224_def)
qed

lemma unat_length: "n < 2 ^ 61 \<Longrightarrow> unat (of_nat n :: u64) = n"
  by (simp add: unat_of_nat)

text \<open>The case of a whole message whose number of bits fits.\<close>

lemma blake_hashes_whole:
  assumes "fresh_buf L" and "length d < 2 ^ 61"
  shows "blake256_hash L d (of_nat (length d)) = BLAKE256 d" and "blake224_hash L d (of_nat (length d)) = BLAKE224_full d"
  using blake_hashes [OF assms(1), of "of_nat (length d)" d] assms(2) by (simp_all add: unat_length)

text \<open>C7: \<open>blake256_hash\<close> and \<open>blake224_hash\<close> pad, count and chain as BLAKE specifies, whatever the
  local state held before; both write 32 bytes, for the 28-byte digest of BLAKE-224 as well.  The input is
  the whole one below \<open>2 ^ 61\<close> bytes; from there on its number of bits wraps, and only the bytes that
  remain are hashed.\<close>

theorem blake_hash_digest:
  assumes "fresh_buf L" and "unat inlen \<le> length d"
  shows "blake256_hash L d inlen = BLAKE256 (take (unat inlen mod 2 ^ 61) d) \<and>
    blake224_hash L d inlen = BLAKE224_full (take (unat inlen mod 2 ^ 61) d) \<and> length (blake224_hash L d inlen) = 32"
  using assms by (rule blake_hashes)

lemma blake_hash_digest_witness:
  "blake256_hash any_state [1, 2, 3] 2 = BLAKE256 [1, 2] \<and> length (blake224_hash any_state [1, 2, 3] 2) = 32"
proof -
  have "fresh_buf any_state" by (simp add: fresh_buf_def any_state_def)
  from blake_hash_digest [OF this, of 2 "[1, 2, 3]"] show ?thesis
    by auto
qed

text \<open>C23: The digest does not depend on how the data is cut into updates, as long as no update is
  empty.\<close>

theorem blake256_stream:
  assumes "fresh_buf S" and "\<forall>d \<in> set ds. d \<noteq> []"
  shows "snd (blake256_final (fold (\<lambda>d s. blake256_update s d (8 * length d)) ds (blake256_init S))) = BLAKE256 (concat ds)"
  by (rule b256.stream_digest [OF assms])

lemma blake256_stream_witness:
  "snd (blake256_final (fold (\<lambda>d s. blake256_update s d (8 * length d)) [[1], [2, 3]] (blake256_init any_state))) =
    BLAKE256 [1, 2, 3]"
  using blake256_stream [of any_state "[[1], [2, 3]]"] by (simp add: fresh_buf_def any_state_def)

text \<open>C39: An update without data sets \<open>buflen\<close> to 0: the bytes that wait in the buffer for a whole
  block are lost, and the state is that of the message without them.\<close>

theorem blake256_empty_update:
  assumes "blake_rep iv m S"
  shows "blake_rep iv (take (64 * (length m div 64)) m) (blake256_update S d 0)"
proof -
  obtain a b where m: "m = a @ b" and a: "rep_blocks iv a S" and b: "length b < 64" "buflen S = 8 * length b"
    using assms by (rule blake_repE)
  obtain q where "length a = 64 * q" using a by (auto simp: rep_blocks_def elim: dvdE)
  then have "take (64 * (length m div 64)) m = a @ []" using b(1) by (simp add: m)
  moreover have "blake_blocks S d 0 = (S, d, 0)" by (subst blake_blocks.simps) simp
  then have "blake256_update S d 0 = S\<lparr>buflen := 0\<rparr>" using b by (simp add: blake256_update_def Let_def)
  ultimately show ?thesis using blake_repI [of iv a "S\<lparr>buflen := 0\<rparr>" "[]"] a by simp
qed

lemma blake256_empty_update_witness:
  "blake_rep iv256 [] (blake256_update (blake256_update (blake256_init any_state) [1] 8) [] 0)"
proof -
  have "blake_rep iv256 ([] @ take 1 [1]) (blake256_update (blake256_init any_state) [1] (8 * 1))"
    using b256.rep_update [OF b256.rep_init, of any_state 1 "[1]"] by (simp add: fresh_buf_def any_state_def)
  then show ?thesis
    using blake256_empty_update [of iv256 "[1]" "blake256_update (blake256_init any_state) [1] 8" "[]"] by simp
qed

text \<open>The key of RFC 2104: hashed when it is longer than a block, and filled up with zeros.\<close>

definition hmac_key :: "(byte list \<Rightarrow> byte list) \<Rightarrow> byte list \<Rightarrow> byte list" where
  "hmac_key H key = (let k = (if length key > 64 then H key else key) in k @ replicate (64 - length k) 0)"

definition HMAC :: "(byte list \<Rightarrow> byte list) \<Rightarrow> byte list \<Rightarrow> byte list \<Rightarrow> byte list" where
  "HMAC H k0 msg = H (map (\<lambda>b. b XOR 0x5c) k0 @ H (map (\<lambda>b. b XOR 0x36) k0 @ msg))"

lemma hmac_pad_key:
  assumes "if length key > 64 then k = H key \<and> n = length k \<and> n \<le> 64 else k = key \<and> n = length key"
  shows "hmac_pad c k n = map (\<lambda>b. b XOR c) (hmac_key H key)"
  using assms hmac_pad_eq [of n k c] by (auto simp: hmac_key_def Let_def split: if_splits)

lemma long_key: "n < 2 ^ 61 \<Longrightarrow> (64 :: u64) < of_nat n \<longleftrightarrow> 64 < n"
  by (simp add: word_less_nat_alt unat_of_nat)

lemma length_hmac_pad [simp]: "n \<le> 64 \<Longrightarrow> length (hmac_pad c key n) = 64"
  by (simp add: hmac_pad_def)

text \<open>C22: \<open>hmac_blake256_hash\<close> is HMAC (RFC 2104) with BLAKE-256, for keys and messages of less than
  \<open>2 ^ 61\<close> bytes, whose bits can be counted in 64 bits; keys longer than a block are included.\<close>

theorem hmac_blake256_rfc2104:
  assumes "fresh_buf L" and "fresh_buf (inner S)" and "fresh_buf (outer S)" and "length key < 2 ^ 61" and "length msg < 2 ^ 61"
  shows "hmac_blake256_hash L S key (of_nat (length key)) msg (of_nat (length msg)) = HMAC BLAKE256 (hmac_key BLAKE256 key) msg"
proof -
  let ?k = "if length key > 64 then blake256_hash L key (of_nat (length key)) else key"
  let ?n = "if length key > 64 then 32 else length key"
  have h: "blake256_hash L key (of_nat (length key)) = BLAKE256 key" "length (BLAKE256 key) = 32"
    using blake_hashes_whole(1) [OF assms(1,4)] by (simp_all add: BLAKE256_def length_blake_digest iv256_def)
  have p: "hmac_pad c ?k ?n = map (\<lambda>b. b XOR c) (hmac_key BLAKE256 key)" for c
    by (rule hmac_pad_key) (simp add: h)
  have l: "length (hmac_pad c ?k ?n) = 64" for c by simp
  note bits = unat_length [OF assms(4)] unat_length [OF assms(5)] mod_less [OF assms(5)] long_key [OF assms(4)]
  have "hmac_blake256_hash L S key (of_nat (length key)) msg (of_nat (length msg)) =
    snd (blake256_final (blake256_update (blake256_update (blake256_init (outer S)) (hmac_pad 0x5c ?k ?n) (8 * 64))
      (snd (blake256_final (blake256_update (blake256_update (blake256_init (inner S)) (hmac_pad 0x36 ?k ?n) (8 * 64))
        msg (8 * length msg)))) (8 * 32)))"
    by (simp add: hmac_blake256_hash_def hmac_blake256_init_def hmac_blake256_update_def hmac_blake256_final_def
        split_def Let_def unat_bits bits [simplified])
  also have "\<dots> = BLAKE256 (hmac_pad 0x5c ?k ?n @ take 32 (BLAKE256 (hmac_pad 0x36 ?k ?n @ msg)))"
    using b256.hmac_stream [OF assms(2,3) l l order_refl, where d = msg] by simp
  finally show ?thesis
    by (simp add: p HMAC_def BLAKE256_def length_blake_digest iv256_def)
qed

lemma hmac_blake256_rfc2104_witness:
  "hmac_blake256_hash any_state \<lparr>inner = any_state, outer = any_state\<rparr> (replicate 70 3) (of_nat (length (replicate 70 (3 :: byte)))) [1]
     (of_nat (length [1 :: byte])) = HMAC BLAKE256 (hmac_key BLAKE256 (replicate 70 3)) [1]"
  by (rule hmac_blake256_rfc2104) (simp_all add: fresh_buf_def any_state_def)

text \<open>\<open>hmac_blake224_hash\<close> is HMAC with BLAKE-224, except that a key longer than a block is
  reduced with BLAKE-256 and cut to 28 bytes where RFC 2104 asks for the hash of the HMAC itself.\<close>

theorem hmac_blake224_long_keys:
  assumes "fresh_buf L" and "fresh_buf (inner S)" and "fresh_buf (outer S)" and "length key < 2 ^ 61" and "length msg < 2 ^ 61"
  shows "take 28 (hmac_blake224_hash L S key (of_nat (length key)) msg (of_nat (length msg))) =
    HMAC (\<lambda>m. take 28 (BLAKE224_full m)) (hmac_key (\<lambda>k. take 28 (BLAKE256 k)) key) msg"
proof -
  let ?k = "if length key > 64 then blake256_hash L key (of_nat (length key)) else key"
  let ?n = "if length key > 64 then 28 else length key"
  have h: "blake256_hash L key (of_nat (length key)) = BLAKE256 key" "length (BLAKE256 key) = 32"
    using blake_hashes_whole(1) [OF assms(1,4)] by (simp_all add: BLAKE256_def length_blake_digest iv256_def)
  have p: "hmac_pad c ?k ?n = map (\<lambda>b. b XOR c) (hmac_key (\<lambda>k. take 28 (BLAKE256 k)) key)" for c
    using h by (simp add: hmac_pad_eq hmac_key_def)
  have l: "length (hmac_pad c ?k ?n) = 64" for c by simp
  note bits = unat_length [OF assms(4)] unat_length [OF assms(5)] mod_less [OF assms(5)] long_key [OF assms(4)]
  have "hmac_blake224_hash L S key (of_nat (length key)) msg (of_nat (length msg)) =
    snd (blake224_final (blake224_update (blake224_update (blake224_init (outer S)) (hmac_pad 0x5c ?k ?n) (8 * 64))
      (snd (blake224_final (blake224_update (blake224_update (blake224_init (inner S)) (hmac_pad 0x36 ?k ?n) (8 * 64))
        msg (8 * length msg)))) (8 * 28)))"
    by (simp add: hmac_blake224_hash_def hmac_blake224_init_def hmac_blake224_update_def hmac_blake224_final_def
        split_def Let_def unat_bits bits [simplified])
  also have "\<dots> = BLAKE224_full (hmac_pad 0x5c ?k ?n @ take 28 (BLAKE224_full (hmac_pad 0x36 ?k ?n @ msg)))"
    using b224.hmac_stream [OF assms(2,3) l l order_refl, where d = msg] by simp
  finally show ?thesis
    by (simp add: p HMAC_def)
qed

lemma hmac_blake224_long_keys_witness:
  "take 28 (hmac_blake224_hash any_state \<lparr>inner = any_state, outer = any_state\<rparr> [7] (of_nat (length [7 :: byte])) [1] (of_nat (length [1 :: byte]))) =
    HMAC (\<lambda>m. take 28 (BLAKE224_full m)) (hmac_key (\<lambda>k. take 28 (BLAKE256 k)) [7]) [1]"
  by (rule hmac_blake224_long_keys) (simp_all add: fresh_buf_def any_state_def)

end
