(* ===== verification/GroestlRounds.thy ===== *)
theory GroestlRounds
  imports Groestl OaesLaws
begin

unbundle bit_operations_syntax

text \<open>
  The rounds of \<^verbatim>\<open>src/src/hash/monero/groestl.c\<close> on bytes: the table holds the products of the S-box
  of AES with the circulant matrix, and a round of the code is AddRoundConstant, SubBytes, ShiftBytes
  and MixBytes of Groestl.
\<close>

section \<open>The rounds on bytes\<close>

text \<open>The first row of the circulant matrix of MixBytes, and the product with a column.\<close>

definition circ :: "byte list" where
  "circ = [0x02, 0x02, 0x03, 0x04, 0x05, 0x03, 0x05, 0x07]"

text \<open>Byte \<open>row\<close> of column \<open>j\<close> after the rounds of Groestl: the bytes are substituted by the S-box of
  AES, row \<open>k\<close> is rotated by \<open>shift ! k\<close> columns, and every column is multiplied with the matrix.\<close>

definition mixed_byte :: "nat list \<Rightarrow> byte list \<Rightarrow> nat \<Rightarrow> nat \<Rightarrow> byte" where
  "mixed_byte shift x j row =
    fold (\<lambda>k b. b XOR gmul (oaes_sub_byte (x ! (8 * ((j + shift ! k) mod 8) + k))) (circ ! ((k + 8 - row) mod 8))) [0..<8] 0"

definition groestl_mix :: "nat list \<Rightarrow> byte list \<Rightarrow> byte list" where
  "groestl_mix shift x = concat (map (\<lambda>j. map (mixed_byte shift x j) [0..<8]) [0..<8])"

definition mul4 :: "byte \<Rightarrow> byte" where "mul4 b = xtime (xtime b)"
definition mul5 :: "byte \<Rightarrow> byte" where "mul5 b = xtime (xtime b) XOR b"
definition mul7 :: "byte \<Rightarrow> byte" where "mul7 b = xtime (xtime b) XOR xtime b XOR b"

lemma groestl_products:
  "gmul b 0x02 = mul2 b" "gmul b 0x03 = mul3 b" "gmul b 0x04 = mul4 b" "gmul b 0x05 = mul5 b" "gmul b 0x07 = mul7 b"
  by (simp_all add: gmul_unfold mul_defs mul4_def mul5_def mul7_def bit_simps)
    (simp_all add: numeral_eq_Suc xor.assoc xor.commute xor.left_commute)

text \<open>The table words as sums, which evaluate quickly.\<close>

definition word_sum :: "byte \<Rightarrow> byte \<Rightarrow> byte \<Rightarrow> byte \<Rightarrow> u32" where
  "word_sum a b c d = ucast a + 256 * (ucast b + 256 * (ucast c + 256 * ucast d))"

definition pair_sums :: "byte \<Rightarrow> byte \<Rightarrow> byte \<Rightarrow> byte \<Rightarrow> byte \<Rightarrow> u32 list" where
  "pair_sums m2 m3 m4 m5 m7 = [word_sum m2 m7 m5 m3, word_sum m5 m4 m3 m2]"

definition pair_products :: "byte \<Rightarrow> byte \<Rightarrow> byte \<Rightarrow> u32 list" where
  "pair_products b x2 x4 = pair_sums x2 (x2 XOR b) x4 (x4 XOR b) (x4 XOR x2 XOR b)"

definition pair_of_x2 :: "byte \<Rightarrow> byte \<Rightarrow> u32 list" where
  "pair_of_x2 b x2 = pair_products b x2 (xtime x2)"

definition table_words :: "byte \<Rightarrow> u32 list" where
  "table_words s = pair_of_x2 s (xtime s)"

lemma groestl_T_eq: "groestl_T = concat (map table_words (concat oaes_sub_byte_value))"
  by code_simp

lemma word_sum_join: "word_sum a b c d = join_le [a, b, c, d]"
proof -
  have "ucast x + 256 * y = ucast x OR push_bit 8 y" for x :: byte and y :: u32
  proof -
    have "ucast x + push_bit 8 y = ucast x OR push_bit 8 y"
      by (rule disjunctive_add_eq_or) (auto simp: bit_eq_iff bit_simps dest: bit_imp_le_length)
    then show ?thesis by (simp add: push_bit_eq_mult mult.commute)
  qed
  then show ?thesis by (simp add: word_sum_def)
qed

lemma table_words_eq:
  "table_words s = [join_le [mul2 s, mul7 s, mul5 s, mul3 s], join_le [mul5 s, mul4 s, mul3 s, mul2 s]]"
  by (simp add: table_words_def pair_of_x2_def pair_products_def pair_sums_def word_sum_join mul_defs mul4_def mul5_def mul7_def
      del: join_le.simps)

lemma concat_pairs_nth:
  assumes "\<And>x. length (f x) = 2" and "i < length xs"
  shows "concat (map f xs) ! (2 * i) = f (xs ! i) ! 0" "concat (map f xs) ! (2 * i + 1) = f (xs ! i) ! 1"
  using assms(2)
proof (induction xs arbitrary: i)
  case (Cons x xs)
  {
    case 1
    then show ?case using Cons(1) assms(1) by (cases i) (simp_all add: nth_append)
  next
    case 2
    then show ?case using Cons(2) assms(1) by (cases i) (simp_all add: nth_append)
  }
qed simp_all

lemma groestl_T_nth:
  "groestl_T ! (2 * unat b) = join_le [mul2 (oaes_sub_byte b), mul7 (oaes_sub_byte b), mul5 (oaes_sub_byte b), mul3 (oaes_sub_byte b)]"
  "groestl_T ! (2 * unat b + 1) = join_le [mul5 (oaes_sub_byte b), mul4 (oaes_sub_byte b), mul3 (oaes_sub_byte b), mul2 (oaes_sub_byte b)]"
proof -
  have l: "length (concat oaes_sub_byte_value) = 256" by (simp add: oaes_sub_byte_value_def)
  have s: "concat oaes_sub_byte_value ! unat b = oaes_sub_byte b"
    by (simp add: oaes_sub_byte_def lookup16_concat table_shapes)
  have t: "length (table_words x) = 2" for x by (simp add: table_words_eq)
  show "groestl_T ! (2 * unat b) = join_le [mul2 (oaes_sub_byte b), mul7 (oaes_sub_byte b), mul5 (oaes_sub_byte b), mul3 (oaes_sub_byte b)]"
    "groestl_T ! (2 * unat b + 1) = join_le [mul5 (oaes_sub_byte b), mul4 (oaes_sub_byte b), mul3 (oaes_sub_byte b), mul2 (oaes_sub_byte b)]"
    unfolding groestl_T_eq using concat_pairs_nth [of table_words "unat b" "concat oaes_sub_byte_value", OF t] l unat_byte_less [of b]
    by (simp_all add: s table_words_eq del: join_le.simps)
qed

lemma rotate_columns:
  "ROTATE_COLUMN_DOWN 1 (join_le [a, b, c, d], join_le [e, f, g, h :: byte]) = (join_le [h, a, b, c], join_le [d, e, f, g])"
  "ROTATE_COLUMN_DOWN 2 (join_le [a, b, c, d], join_le [e, f, g, h :: byte]) = (join_le [g, h, a, b], join_le [c, d, e, f])"
  "ROTATE_COLUMN_DOWN 3 (join_le [a, b, c, d], join_le [e, f, g, h :: byte]) = (join_le [f, g, h, a], join_le [b, c, d, e])"
proof -
  have r: "push_bit (8 * n) (join_le (xs @ ys)) OR drop_bit (8 * (4 - n)) (join_le (us @ vs)) = (join_le (vs @ xs) :: u32)"
    if l: "length vs = n" "length us + n = 4" "length xs + n = 4" "length ys = n" for n and xs ys us vs :: "byte list"
  proof (rule bit_word_eqI)
    fix i assume i: "i < LENGTH(32)"
    define q k where "q = i div 8" and "k = i mod 8"
    have qk: "i = 8 * q + k" "k < 8" "q < 4" using i by (auto simp: q_def k_def)
    show "bit (push_bit (8 * n) (join_le (xs @ ys)) OR drop_bit (8 * (4 - n)) (join_le (us @ vs)) :: u32) i \<longleftrightarrow>
      bit (join_le (vs @ xs) :: u32) i"
    proof (cases "q < n")
      case True
      have "\<not> 8 * n \<le> i" using True qk(1,2) by linarith
      moreover have "8 * (4 - n) + i = 8 * (length us + q) + k" using l(2) qk(1) by auto
      ultimately show ?thesis
        using True l qk i by (simp add: bit_simps nth_append)
    next
      case False
      have "8 * n \<le> i" "i - 8 * n = 8 * (q - n) + k" using False qk(1) by auto
      moreover have "\<not> 8 * (4 - n) + i < 32" "q - n < length xs" using False l qk(1,3) by auto
      ultimately show ?thesis
        using False l qk i by (simp add: bit_simps nth_append)
    qed
  qed
  show "ROTATE_COLUMN_DOWN 1 (join_le [a, b, c, d], join_le [e, f, g, h :: byte]) = (join_le [h, a, b, c], join_le [d, e, f, g])"
    using r [of "[h]" 1 "[e, f, g]" "[a, b, c]" "[d]"] r [of "[d]" 1 "[a, b, c]" "[e, f, g]" "[h]"]
    by (simp add: ROTATE_COLUMN_DOWN_def del: join_le.simps)
  show "ROTATE_COLUMN_DOWN 2 (join_le [a, b, c, d], join_le [e, f, g, h :: byte]) = (join_le [g, h, a, b], join_le [c, d, e, f])"
    using r [of "[g, h]" 2 "[e, f]" "[a, b]" "[c, d]"] r [of "[c, d]" 2 "[a, b]" "[e, f]" "[g, h]"]
    by (simp add: ROTATE_COLUMN_DOWN_def del: join_le.simps)
  show "ROTATE_COLUMN_DOWN 3 (join_le [a, b, c, d], join_le [e, f, g, h :: byte]) = (join_le [f, g, h, a], join_le [b, c, d, e])"
    using r [of "[f, g, h]" 3 "[e]" "[a]" "[b, c, d]"] r [of "[b, c, d]" 3 "[a]" "[e]" "[f, g, h]"]
    by (simp add: ROTATE_COLUMN_DOWN_def del: join_le.simps)
qed


definition mixed_row :: "byte list \<Rightarrow> nat \<Rightarrow> byte" where
  "mixed_row s row = fold (\<lambda>k b. b XOR gmul (s ! k) (circ ! ((k + 8 - row) mod 8))) [0..<8] 0"

lemma upt_8: "[0..<8] = [0, 1, 2, 3, 4, 5, 6, 7 :: nat]"
  by (simp add: upt_rec)

lemma COLUMN_mixed:
  assumes "s = map oaes_sub_byte [x ! (4 * c0), x ! (4 * c1 + 1), x ! (4 * c2 + 2), x ! (4 * c3 + 3),
      x ! (4 * c4), x ! (4 * c5 + 1), x ! (4 * c6 + 2), x ! (4 * c7 + 3)]"
  shows "COLUMN x [c0, c1, c2, c3, c4, c5, c6, c7] =
    [join_le (map (mixed_row s) [0, 1, 2, 3]), join_le (map (mixed_row s) [4, 5, 6, 7])]"
proof -
  obtain s0 s1 s2 s3 s4 s5 s6 s7 where e: "s = [s0, s1, s2, s3, s4, s5, s6, s7]"
    "s0 = oaes_sub_byte (x ! (4 * c0))" "s1 = oaes_sub_byte (x ! (4 * c1 + 1))"
    "s2 = oaes_sub_byte (x ! (4 * c2 + 2))" "s3 = oaes_sub_byte (x ! (4 * c3 + 3))"
    "s4 = oaes_sub_byte (x ! (4 * c4))" "s5 = oaes_sub_byte (x ! (4 * c5 + 1))"
    "s6 = oaes_sub_byte (x ! (4 * c6 + 2))" "s7 = oaes_sub_byte (x ! (4 * c7 + 3))"
    using assms by simp
  have T: "T_pair x c r = (join_le [mul2 (oaes_sub_byte (x ! (4 * c + r))), mul7 (oaes_sub_byte (x ! (4 * c + r))),
      mul5 (oaes_sub_byte (x ! (4 * c + r))), mul3 (oaes_sub_byte (x ! (4 * c + r)))],
    join_le [mul5 (oaes_sub_byte (x ! (4 * c + r))), mul4 (oaes_sub_byte (x ! (4 * c + r))),
      mul3 (oaes_sub_byte (x ! (4 * c + r))), mul2 (oaes_sub_byte (x ! (4 * c + r)))])" for c r
    by (simp only: T_pair_def groestl_T_nth)
  show ?thesis
    unfolding COLUMN.simps T Let_def rotate_columns prod.case join_le_xor4 e(1) add_0_right e(2-) [symmetric]
    by (simp add: mixed_row_def upt_8 circ_def groestl_products xor.assoc xor.commute xor.left_commute del: join_le.simps)
qed

lemma word_bytes_nth:
  assumes "c < length x" and "r < 4"
  shows "word_bytes x ! (4 * c + r) = split_le 4 (x ! c) ! r"
  using assms
proof (induction x arbitrary: c)
  case (Cons w x)
  then show ?case by (cases c) (simp_all add: word_bytes_def nth_append)
qed simp

lemma length_word_bytes [simp]: "length (word_bytes x) = 4 * length x"
  by (induction x) (simp_all add: word_bytes_def)

lemma word_bytes_simps [simp]:
  "word_bytes [] = []" "word_bytes (w # x) = split_le 4 w @ word_bytes x" "word_bytes (x @ y) = word_bytes x @ word_bytes y"
  by (simp_all add: word_bytes_def)

lemma word_bytes_concat: "word_bytes (concat (map f xs)) = concat (map (\<lambda>j. word_bytes (f j)) xs)"
  by (induction xs) simp_all

lemma mixed_byte_row:
  "mixed_byte shift x j row = mixed_row (map (\<lambda>k. oaes_sub_byte (x ! (8 * ((j + shift ! k) mod 8) + k))) [0..<8]) row"
  by (simp add: mixed_byte_def mixed_row_def upt_8)

lemma COLUMN_bytes:
  assumes "s = map oaes_sub_byte [x ! (4 * c0), x ! (4 * c1 + 1), x ! (4 * c2 + 2), x ! (4 * c3 + 3),
      x ! (4 * c4), x ! (4 * c5 + 1), x ! (4 * c6 + 2), x ! (4 * c7 + 3)]"
  shows "word_bytes (COLUMN x [c0, c1, c2, c3, c4, c5, c6, c7]) = map (mixed_row s) [0..<8]"
  unfolding COLUMN_mixed [OF assms]
  using split_join_le [where bs = "map (mixed_row s) [0, 1, 2, 3]" and 'a = 32 and n = 4]
    split_join_le [where bs = "map (mixed_row s) [4, 5, 6, 7]" and 'a = 32 and n = 4]
  by (simp add: upt_8 del: join_le.simps)

text \<open>The columns of the code, two words to a column, are the shifts of the specification.\<close>

definition shift_Values :: "nat list list" where
  "shift_Values = [[0, 1, 2, 3, 4, 5, 6, 7], [1, 3, 5, 7, 0, 2, 4, 6]]"

definition half_columns :: "nat list \<Rightarrow> nat \<Rightarrow> nat list" where
  "half_columns shift j = map (\<lambda>k. 2 * ((j + shift ! k) mod 8) + k div 4) [0..<8]"

lemma columns_mix:
  "word_bytes (concat (map (COLUMN x) (map (half_columns shift) [0..<8]))) = groestl_mix shift x"
proof -
  have "word_bytes (COLUMN x (half_columns shift j)) = map (mixed_byte shift x j) [0..<8]" for j
  proof -
    have h: "half_columns shift j = [2 * ((j + shift ! 0) mod 8), 2 * ((j + shift ! 1) mod 8), 2 * ((j + shift ! 2) mod 8),
      2 * ((j + shift ! 3) mod 8), 2 * ((j + shift ! 4) mod 8) + 1, 2 * ((j + shift ! 5) mod 8) + 1,
      2 * ((j + shift ! 6) mod 8) + 1, 2 * ((j + shift ! 7) mod 8) + 1]"
      by (simp add: half_columns_def upt_8)
    show ?thesis
      unfolding h mixed_byte_row
      by (subst COLUMN_bytes [OF refl]) (simp add: upt_8 algebra_simps)
  qed
  then show ?thesis by (simp add: groestl_mix_def word_bytes_concat comp_def)
qed

lemma half_columns_P:
  "map (half_columns (shift_Values ! 0)) [0..<8] =
   [[0, 2, 4, 6, 9, 11, 13, 15], [2, 4, 6, 8, 11, 13, 15, 1],
    [4, 6, 8, 10, 13, 15, 1, 3], [6, 8, 10, 12, 15, 1, 3, 5],
    [8, 10, 12, 14, 1, 3, 5, 7], [10, 12, 14, 0, 3, 5, 7, 9],
    [12, 14, 0, 2, 5, 7, 9, 11], [14, 0, 2, 4, 7, 9, 11, 13]]"
  by code_simp

lemma half_columns_Q:
  "map (half_columns (shift_Values ! 1)) [0..<8] =
   [[2, 6, 10, 14, 1, 5, 9, 13], [4, 8, 12, 0, 3, 7, 11, 15],
    [6, 10, 14, 2, 5, 9, 13, 1], [8, 12, 0, 4, 7, 11, 15, 3],
    [10, 14, 2, 6, 9, 13, 1, 5], [12, 0, 4, 8, 11, 15, 3, 7],
    [14, 2, 6, 10, 13, 1, 5, 9], [0, 4, 8, 12, 15, 3, 7, 11]]"
  by code_simp

text \<open>AddRoundConstant: in round \<open>r\<close> of P row 0 of column \<open>j\<close> gets \<open>16 j XOR r\<close>; in Q every byte is
  complemented and row 7 gets the same constant.\<close>

definition add_P :: "byte \<Rightarrow> byte list \<Rightarrow> byte list" where
  "add_P r x = map (\<lambda>i. if i mod 8 = 0 then x ! i XOR (of_nat (16 * (i div 8)) XOR r) else x ! i) [0..<64]"

definition add_Q :: "byte \<Rightarrow> byte list \<Rightarrow> byte list" where
  "add_Q r x = map (\<lambda>i. if i mod 8 = 7 then NOT (x ! i) XOR (of_nat (16 * (i div 8)) XOR r) else NOT (x ! i)) [0..<64]"

lemma length_16:
  assumes "length x = 16"
  obtains x0 x1 x2 x3 x4 x5 x6 x7 x8 x9 xa xb xc xd xe xf where "x = [x0, x1, x2, x3, x4, x5, x6, x7, x8, x9, xa, xb, xc, xd, xe, xf]"
  using assms by (auto simp: numeral_eq_Suc length_Suc_conv)

lemma split_4: "split_le 4 (w :: u32) = [ucast w, ucast (drop_bit 8 w), ucast (drop_bit 16 w), ucast (drop_bit 24 w) :: byte]"
  by (simp add: split_le_def upt_rec)

lemma split_4_xor: "split_le 4 (w XOR v :: u32) = map2 (XOR) (split_le 4 w) (split_le 4 v :: byte list)"
  unfolding split_4 by (auto simp: bit_eq_iff bit_simps dest: bit_imp_le_length)

lemma split_4_not: "split_le 4 (NOT w :: u32) = map NOT (split_le 4 w :: byte list)"
  unfolding split_4 by (auto simp: bit_eq_iff bit_simps dest: bit_imp_le_length)

lemma split_4_byte: "split_le 4 (ucast (b :: byte) :: u32) = [b, 0, 0, 0 :: byte]"
  "split_le 4 (push_bit 24 (ucast (b :: byte)) :: u32) = [0, 0, 0, b :: byte]"
  unfolding split_4 by (auto simp: bit_eq_iff bit_simps dest: bit_imp_le_length)

lemma add_P_words:
  assumes "length x = 16"
  shows "word_bytes (fold (\<lambda>(i, c) x. x[i := x ! i XOR (c XOR ucast r)])
       [(0, 0x00000000), (2, 0x00000010), (4, 0x00000020), (6, 0x00000030),
        (8, 0x00000040), (10, 0x00000050), (12, 0x00000060), (14, 0x00000070)] x) = add_P r (word_bytes x)"
  using assms
  by (cases rule: length_16) (simp add: add_P_def upt_64 split_4_xor split_4_byte, simp add: split_4)

lemma split_4_consts:
  "split_le 4 (0xffffffff :: u32) = [-1, -1, -1, NOT 0x00 :: byte]"
  "split_le 4 (0xefffffff :: u32) = [-1, -1, -1, NOT 0x10 :: byte]"
  "split_le 4 (0xdfffffff :: u32) = [-1, -1, -1, NOT 0x20 :: byte]"
  "split_le 4 (0xcfffffff :: u32) = [-1, -1, -1, NOT 0x30 :: byte]"
  "split_le 4 (0xbfffffff :: u32) = [-1, -1, -1, NOT 0x40 :: byte]"
  "split_le 4 (0xafffffff :: u32) = [-1, -1, -1, NOT 0x50 :: byte]"
  "split_le 4 (0x9fffffff :: u32) = [-1, -1, -1, NOT 0x60 :: byte]"
  "split_le 4 (0x8fffffff :: u32) = [-1, -1, -1, NOT 0x70 :: byte]"
  by code_simp+

lemma xor_NOT: "a XOR NOT b = NOT (a XOR b)" "NOT a XOR b = NOT (a XOR b)" for a b :: byte
  by (rule bit_word_eqI, auto simp: bit_simps)+

lemma xor_NOT_xor: "x XOR (NOT a XOR r) = NOT (x XOR (a XOR r))" for x a r :: byte
  by (rule bit_word_eqI) (auto simp: bit_simps)

lemma xor_NOT_consts:
  fixes x r :: byte
  shows "x XOR (- 17 XOR r) = NOT (x XOR (16 XOR r))"
    "x XOR (- 33 XOR r) = NOT (x XOR (32 XOR r))"
    "x XOR (- 49 XOR r) = NOT (x XOR (48 XOR r))"
    "x XOR (- 65 XOR r) = NOT (x XOR (64 XOR r))"
    "x XOR (- 81 XOR r) = NOT (x XOR (80 XOR r))"
    "x XOR (- 97 XOR r) = NOT (x XOR (96 XOR r))"
    "x XOR (- 113 XOR r) = NOT (x XOR (112 XOR r))"
  using xor_NOT_xor [of x "0x10" r] xor_NOT_xor [of x "0x20" r] xor_NOT_xor [of x "0x30" r] xor_NOT_xor [of x "0x40" r]
    xor_NOT_xor [of x "0x50" r] xor_NOT_xor [of x "0x60" r] xor_NOT_xor [of x "0x70" r] by simp_all

lemma add_Q_words:
  assumes "length x = 16"
  shows "word_bytes (fold (\<lambda>(i, c) x. x[2 * i := NOT (x ! (2 * i)), 2 * i + 1 := x ! (2 * i + 1) XOR (c XOR push_bit 24 (ucast r))])
           [(0, 0xffffffff), (1, 0xefffffff), (2, 0xdfffffff), (3, 0xcfffffff),
            (4, 0xbfffffff), (5, 0xafffffff), (6, 0x9fffffff), (7, 0x8fffffff)] x) = add_Q r (word_bytes x)"
  using assms
  by (cases rule: length_16) (simp add: add_Q_def upt_64 split_4_xor split_4_byte split_4_not split_4_consts,
      simp add: split_4 xor_NOT xor_NOT_consts xor.assoc)


text \<open>One round of the code on words is one round of the specification on bytes.\<close>

lemma RND512P_bytes:
  assumes "length x = 16"
  shows "word_bytes (RND512P x (ucast r)) = groestl_mix (shift_Values ! 0) (add_P r (word_bytes x))"
  unfolding RND512P_def Let_def add_P_words [OF assms] half_columns_P [symmetric] by (rule columns_mix)

lemma RND512Q_bytes:
  assumes "length x = 16"
  shows "word_bytes (RND512Q x (push_bit 24 (ucast r))) = groestl_mix (shift_Values ! 1) (add_Q r (word_bytes x))"
  unfolding RND512Q_def Let_def add_Q_words [OF assms] half_columns_Q [symmetric] by (rule columns_mix)

lemma length_RND [simp]: "length (RND512P x r) = 16" "length (RND512Q x r) = 16"
  by (simp_all add: RND512P_def RND512Q_def Let_def case_prod_beta)

definition spec_P :: "byte list \<Rightarrow> byte list" where
  "spec_P x = fold (\<lambda>r x. groestl_mix (shift_Values ! 0) (add_P r x)) [0, 1, 2, 3, 4, 5, 6, 7, 8, 9] x"

definition spec_Q :: "byte list \<Rightarrow> byte list" where
  "spec_Q x = fold (\<lambda>r x. groestl_mix (shift_Values ! 1) (add_Q r x)) [0, 1, 2, 3, 4, 5, 6, 7, 8, 9] x"

lemma word_bytes_fold:
  assumes "\<And>x r. length x = 16 \<Longrightarrow> word_bytes (f (c r) x) = g r (word_bytes x)" and "\<And>x r. length (f (c r) x) = 16"
    and "length x = 16"
  shows "word_bytes (fold f (map c rs) x) = fold g rs (word_bytes x)"
  using assms(3) by (induction rs arbitrary: x) (simp_all add: assms(1,2))

lemma groestl_P_bytes:
  assumes "length x = 16"
  shows "word_bytes (groestl_P x) = spec_P (word_bytes x)"
  using word_bytes_fold [OF _ _ assms, of "\<lambda>r x. RND512P x r" ucast "\<lambda>r x. groestl_mix (shift_Values ! 0) (add_P r x)"
      "[0, 1, 2, 3, 4, 5, 6, 7, 8, 9]"]
  by (simp add: groestl_P_def spec_P_def RND512P_bytes)

lemma groestl_Q_bytes:
  assumes "length x = 16"
  shows "word_bytes (groestl_Q x) = spec_Q (word_bytes x)"
proof -
  have r: "[0x00000000, 0x01000000, 0x02000000, 0x03000000, 0x04000000, 0x05000000, 0x06000000, 0x07000000, 0x08000000, 0x09000000 :: u32]
    = map (\<lambda>r. push_bit 24 (ucast (r :: byte))) [0, 1, 2, 3, 4, 5, 6, 7, 8, 9]" by (simp add: push_bit_eq_mult)
  show ?thesis
    unfolding groestl_Q_def spec_Q_def r by (rule word_bytes_fold) (simp_all only: RND512Q_bytes length_RND assms)
qed

lemma length_PQ [simp]: "length (groestl_P x) = 16" "length (groestl_Q x) = 16"
  by (simp_all add: groestl_P_def groestl_Q_def)

lemma word_bytes_xor:
  assumes "length x = length y"
  shows "word_bytes (xor_list x y) = xor_list (word_bytes x) (word_bytes y)"
  using assms by (induction x y rule: list_induct2) (simp_all add: xor_list_def split_4_xor)

text \<open>The compression function \<open>h XOR P (h XOR m) XOR Q m\<close> on bytes.\<close>

definition spec_compress :: "byte list \<Rightarrow> byte list \<Rightarrow> byte list" where
  "spec_compress h m = xor_list h (xor_list (spec_P (xor_list h m)) (spec_Q m))"

definition spec_output :: "byte list \<Rightarrow> byte list" where
  "spec_output h = xor_list h (spec_P h)"

lemma F512_bytes:
  assumes "length h = 16" and "length m = 16"
  shows "word_bytes (F512 h m) = spec_compress (word_bytes h) (word_bytes m)"
  using assms by (simp add: F512_def Let_def spec_compress_def word_bytes_xor groestl_P_bytes groestl_Q_bytes)

lemma length_F512 [simp]: "length h = 16 \<Longrightarrow> length (F512 h m) = 16"
  by (simp add: F512_def Let_def)

end
