(* ===== verification/GroestlLaws.thy ===== *)
theory GroestlLaws
  imports GroestlRounds
begin

unbundle bit_operations_syntax

text \<open>
  The context of \<^verbatim>\<open>src/src/hash/monero/groestl.c\<close> and the message it stands for: \<open>groestl_rep\<close> for whole blocks
  and the buffer, \<open>after_update\<close> for all of it with the bits of a last byte.  \<open>Update\<close> appends to the
  message, \<open>Final\<close> computes the digest of the specification \<open>groestl_spec\<close>.
\<close>

section \<open>Blocks\<close>

definition groestl_chain :: "byte list \<Rightarrow> nat \<Rightarrow> byte list" where
  "groestl_chain m n = fold (\<lambda>i h. spec_compress h (mem_slice m (64 * i) 64)) [0..<n] (replicate 62 0 @ [1, 0])"

text \<open>The context after the whole blocks of \<open>a\<close>, with the bytes \<open>b\<close> in the buffer and \<open>r\<close> bits in the last of them.\<close>

definition groestl_rep :: "byte list \<Rightarrow> byte list \<Rightarrow> nat \<Rightarrow> groestl_state \<Rightarrow> bool" where
  "groestl_rep a b r ctx \<longleftrightarrow>
    64 dvd length a \<and> length (chaining ctx) = 16 \<and> word_bytes (chaining ctx) = groestl_chain a (length a div 64) \<and>
    block_counter1 ctx = of_nat (length a div 64) \<and> block_counter2 ctx = of_nat (length a div 64 div 2 ^ 32) \<and>
    length (g_buffer ctx) = 64 \<and> buf_ptr ctx = length b \<and> length b \<le> 64 \<and> take (length b) (g_buffer ctx) = b \<and>
    bits_in_last_byte ctx = r"

lemma groestl_chain_Suc:
  "groestl_chain m (Suc n) = spec_compress (groestl_chain m n) (mem_slice m (64 * n) 64)"
  by (simp add: groestl_chain_def)

lemma groestl_chain_append: "64 * n \<le> length m \<Longrightarrow> groestl_chain (m @ d) n = groestl_chain m n"
  by (induction n) (simp_all add: groestl_chain_Suc mem_slice_def, simp add: groestl_chain_def)

lemma length_input_words [simp]: "length (input_words inp) = 16"
  by (simp add: input_words_def)

lemma word_bytes_input_words:
  assumes "64 \<le> length inp"
  shows "word_bytes (input_words inp) = take 64 inp"
proof -
  have "split_le 4 (join_le (mem_slice inp (4 * i) 4) :: u32) = mem_slice inp (4 * i) 4" if "i < 16" for i
    using that assms by (intro split_join_le) simp_all
  then have "map (\<lambda>i. split_le 4 (join_le (mem_slice inp (4 * i) 4) :: u32)) [0..<16] = map (\<lambda>i. mem_slice inp (4 * i) 4) [0..<16]"
    by simp
  then have "word_bytes (input_words inp) = concat (map (\<lambda>i. mem_slice inp (4 * i) 4) [0..<16])"
    by (simp only: word_bytes_def input_words_def map_map comp_def)
  also have "\<dots> = mem_slice inp 0 (4 * 16)"
    using mem_slice_concat [of inp 0 4 16] by simp
  finally show ?thesis by (simp add: mem_slice_def)
qed

lemma count_block_counts:
  assumes "block_counter1 ctx = of_nat k" and "block_counter2 ctx = of_nat (k div 2 ^ 32)"
  shows "count_block ctx = ctx\<lparr>block_counter1 := of_nat (Suc k), block_counter2 := of_nat (Suc k div 2 ^ 32)\<rparr>"
proof -
  have "of_nat (Suc k) = (0 :: u32) \<longleftrightarrow> Suc k mod 2 ^ 32 = 0" by (rule of_nat_word_eq_0)
  then show ?thesis
    using assms by (auto simp: count_block_def Let_def div_Suc add.commute)
qed

lemma Transform_chaining:
  assumes "length (chaining ctx) = 16" and "64 \<le> length inp"
  shows "length (chaining (Transform ctx inp 64)) = 16"
    and "word_bytes (chaining (Transform ctx inp 64)) = spec_compress (word_bytes (chaining ctx)) (take 64 inp)"
  using assms
  by (simp_all add: Transform.simps [of _ _ 64] Transform.simps [of _ _ 0] count_block_def Let_def F512_bytes word_bytes_input_words)

lemma count_block_other [simp]:
  "chaining (count_block ctx) = chaining ctx" "g_buffer (count_block ctx) = g_buffer ctx" "buf_ptr (count_block ctx) = buf_ptr ctx"
  "bits_in_last_byte (count_block ctx) = bits_in_last_byte ctx"
  by (simp_all add: count_block_def Let_def)

lemma Transform_other [simp]:
  "g_buffer (Transform ctx inp n) = g_buffer ctx" "buf_ptr (Transform ctx inp n) = buf_ptr ctx"
  "bits_in_last_byte (Transform ctx inp n) = bits_in_last_byte ctx"
  by (induction ctx inp n rule: Transform.induct; subst Transform.simps; simp)+

lemma groestl_rep_absorb:
  assumes "groestl_rep a b r ctx" and "64 \<le> length inp"
  shows "groestl_rep (a @ take 64 inp) b r (count_block (ctx\<lparr>chaining := F512 (chaining ctx) (input_words inp)\<rparr>))"
proof -
  obtain k where k: "length a = 64 * k" using assms(1) by (auto simp: groestl_rep_def elim: dvdE)
  have "groestl_chain (a @ take 64 inp) (Suc k) = spec_compress (groestl_chain a k) (take 64 inp)"
    using k assms(2) by (simp add: groestl_chain_Suc groestl_chain_append mem_slice_def)
  then show ?thesis
    using assms k
    by (subst count_block_counts [of _ k]) (simp_all add: groestl_rep_def F512_bytes word_bytes_input_words min_absorb2)
qed

lemma Transform_rep:
  assumes "groestl_rep a b r ctx" and "n \<le> length inp"
  shows "groestl_rep (a @ take (64 * (n div 64)) inp) b r (Transform ctx inp (int n))"
  using assms
proof (induction n arbitrary: a ctx inp rule: less_induct)
  case (less n)
  show ?case
  proof (cases "64 \<le> n")
    case True
    let ?c = "count_block (ctx\<lparr>chaining := F512 (chaining ctx) (input_words inp)\<rparr>)"
    have "groestl_rep ((a @ take 64 inp) @ take (64 * ((n - 64) div 64)) (drop 64 inp)) b r (Transform ?c (drop 64 inp) (int (n - 64)))"
      using True less.prems groestl_rep_absorb [OF less.prems(1), of inp] by (intro less.IH) simp_all
    moreover have "take 64 inp @ take (64 * ((n - 64) div 64)) (drop 64 inp) = take (64 * (n div 64)) inp"
      using take_add [of 64 "64 * ((n - 64) div 64)" inp] True by (simp add: le_div_geq)
    ultimately show ?thesis
      using True by (subst Transform.simps) (simp add: of_nat_diff)
  next
    case False
    then show ?thesis using less.prems by (subst Transform.simps) simp
  qed
qed

lemma Transform_buffer:
  assumes "groestl_rep a b r ctx" and "length b = 64"
  shows "groestl_rep (a @ b) [] r (Transform (ctx\<lparr>buf_ptr := 0\<rparr>) (g_buffer ctx) 64)"
    and "(Transform ctx (g_buffer ctx) 64)\<lparr>buf_ptr := 0\<rparr> = Transform (ctx\<lparr>buf_ptr := 0\<rparr>) (g_buffer ctx) 64"
proof -
  have "groestl_rep a [] r (ctx\<lparr>buf_ptr := 0\<rparr>)" using assms(1) by (simp add: groestl_rep_def)
  from Transform_rep [OF this, of 64 "g_buffer ctx"] assms
  show "groestl_rep (a @ b) [] r (Transform (ctx\<lparr>buf_ptr := 0\<rparr>) (g_buffer ctx) 64)"
    by (simp add: groestl_rep_def)
  show "(Transform ctx (g_buffer ctx) 64)\<lparr>buf_ptr := 0\<rparr> = Transform (ctx\<lparr>buf_ptr := 0\<rparr>) (g_buffer ctx) 64"
    by (simp add: Transform.simps [of _ _ 64] Transform.simps [of _ _ 0] count_block_def Let_def)
qed

lemma put_byte_rep:
  assumes "groestl_rep a b r ctx" and "length b < 64"
  shows "groestl_rep a (b @ [x]) r (put_byte x ctx)"
  using assms by (simp add: groestl_rep_def put_byte_def take_Suc_conv_app_nth)


lemma take_drop_Cons:
  assumes "i < j" and "i < length d"
  shows "take (j - i) (drop i d) = d ! i # take (j - Suc i) (drop (Suc i) d)"
  using assms by (simp add: Cons_nth_drop_Suc [symmetric] Suc_diff_Suc [symmetric] take_Suc_Cons)

lemma fill_buffer_rep:
  assumes "groestl_rep a b r ctx" and "i \<le> q" and "q \<le> length d" and "j = min q (i + (64 - length b))"
  shows "\<exists>ctx'. fill_buffer d (int q) ctx (int i) = (ctx', int j) \<and> groestl_rep a (b @ take (j - i) (drop i d)) r ctx'"
  using assms
proof (induction "q - i" arbitrary: b ctx i)
  case 0
  then show ?case by (subst fill_buffer.simps) (auto simp: groestl_rep_def)
next
  case (Suc n)
  show ?case
  proof (cases "length b < 64")
    case True
    have "\<exists>ctx'. fill_buffer d (int q) (put_byte (d ! i) ctx) (int (Suc i)) = (ctx', int j) \<and>
        groestl_rep a ((b @ [d ! i]) @ take (j - Suc i) (drop (Suc i) d)) r ctx'"
      using Suc.prems Suc.hyps(2) True put_byte_rep [OF Suc.prems(1) True, of "d ! i"]
      by (intro Suc.hyps(1)) (auto simp: min_def)
    moreover have "take (j - i) (drop i d) = d ! i # take (j - Suc i) (drop (Suc i) d)"
      using Suc.prems Suc.hyps(2) True by (intro take_drop_Cons) auto
    moreover have "i < q" "buf_ptr ctx = length b" using Suc.hyps(2) Suc.prems(1) by (simp_all add: groestl_rep_def)
    ultimately show ?thesis
      using True by (subst fill_buffer.simps) (simp add: add.commute)
  next
    case False
    then show ?thesis using Suc.prems by (subst fill_buffer.simps) (auto simp: groestl_rep_def)
  qed
qed

lemma store_rest_rep:
  assumes "groestl_rep a b r ctx" and "i \<le> q" and "q \<le> length d" and "length b + (q - i) \<le> 64"
  shows "\<exists>ctx'. store_rest d (int q) ctx (int i) = (ctx', int q) \<and> groestl_rep a (b @ take (q - i) (drop i d)) r ctx'"
  using assms
proof (induction "q - i" arbitrary: b ctx i)
  case 0
  then show ?case by (subst store_rest.simps) (auto simp: groestl_rep_def)
next
  case (Suc n)
  have l: "length b < 64" using Suc.prems Suc.hyps(2) by simp
  have "\<exists>ctx'. store_rest d (int q) (put_byte (d ! i) ctx) (int (Suc i)) = (ctx', int q) \<and>
      groestl_rep a ((b @ [d ! i]) @ take (q - Suc i) (drop (Suc i) d)) r ctx'"
    using Suc.prems Suc.hyps(2) l put_byte_rep [OF Suc.prems(1) l, of "d ! i"]
    by (intro Suc.hyps(1)) auto
  moreover have "take (q - i) (drop i d) = d ! i # take (q - Suc i) (drop (Suc i) d)"
    using Suc.prems Suc.hyps(2) by (intro take_drop_Cons) auto
  moreover have "i < q" using Suc.hyps(2) by simp
  ultimately show ?case
    by (subst store_rest.simps) (simp add: add.commute)
qed

lemma c_int_small: "n < 2 ^ 31 \<Longrightarrow> c_int n = int n"
  by (simp add: c_int_def signed_of_nat signed_take_bit_int_eq_self)

text \<open>The bytes that \<open>n\<close> bits take.\<close>

definition bit_bytes :: "nat \<Rightarrow> nat" where
  "bit_bytes n = (n + 7) div 8"

lemma put_last_rep:
  assumes "groestl_rep a b 0 ctx" and "length b < 64"
  shows "groestl_rep a (b @ (if r \<noteq> 0 then [d ! q] else [])) r (put_last_bits d (int q) (int r) ctx)"
proof (cases "r = 0")
  case False
  have "groestl_rep a b r (ctx\<lparr>bits_in_last_byte := r\<rparr>)" using assms(1) by (simp add: groestl_rep_def)
  with False show ?thesis using put_byte_rep [OF _ assms(2)] by (simp add: put_last_bits_def)
qed (use assms in \<open>simp add: put_last_bits_def\<close>)


text \<open>\<open>groestl_Update\<close> from the bulk of the input on, at byte \<open>index\<close> of \<open>msglen\<close>.\<close>

definition update_bulk :: "byte list \<Rightarrow> int \<Rightarrow> int \<Rightarrow> groestl_state \<Rightarrow> int \<Rightarrow> groestl_state" where
  "update_bulk inp msglen rem ctx index =
    (let (ctx, index) = store_rest inp msglen (Transform ctx (drop (nat index) inp) (msglen - index)) 
           (index + ((msglen - index) sdiv 64) * 64)
     in put_last_bits inp index rem ctx)"

lemma groestl_Update_bulk:
  "groestl_Update ctx d n =
    (if buf_ptr ctx \<noteq> 0 then
       let (ctx, index) = fill_buffer d (c_int (n div 8)) ctx 0
       in if buf_ptr ctx < 64 then put_last_bits d index (c_int (n mod 8)) ctx
          else update_bulk d (c_int (n div 8)) (c_int (n mod 8)) (Transform (ctx\<lparr>buf_ptr := 0\<rparr>) (g_buffer ctx) 64) index
     else update_bulk d (c_int (n div 8)) (c_int (n mod 8)) ctx 0)"
  by (simp add: groestl_Update_def update_bulk_def Let_def case_prod_beta)

definition after_update :: "byte list \<Rightarrow> nat \<Rightarrow> groestl_state \<Rightarrow> bool" where
  "after_update m r ctx \<longleftrightarrow>
    (\<exists>a b. groestl_rep a b r ctx \<and> a @ b = m \<and> (if r = 0 then length b < 64 else b \<noteq> []))"

lemma after_updateI:
  "groestl_rep a b r ctx \<Longrightarrow> a @ b = m \<Longrightarrow> (if r = 0 then length b < 64 else b \<noteq> []) \<Longrightarrow> after_update m r ctx"
  unfolding after_update_def by blast

lemma update_bulk_rep:
  assumes rep: "groestl_rep a [] 0 ctx" and i: "i \<le> q" and q: "q \<le> length d"
  shows "after_update (a @ take (q - i) (drop i d) @ (if r \<noteq> 0 then [d ! q] else [])) r
    (update_bulk d (int q) (int r) ctx (int i))"
proof -
  define k where "k = i + 64 * ((q - i) div 64)"
  have k: "k \<le> q" "q - k < 64" "i \<le> k"
    using i mod_less_divisor [of 64 "q - i"] by (simp_all add: k_def minus_mult_div_eq_mod [symmetric])
  have "int (q - i) sdiv 64 = int ((q - i) div 64)"
    by (cases "q - i = 0") (simp_all add: signed_divide_int_def zdiv_int del: of_nat_diff)
  then have s: "int i + (int q - int i) sdiv 64 * 64 = int k"
    using i by (simp add: k_def of_nat_diff)
  have "groestl_rep (a @ take (k - i) (drop i d)) [] 0 (Transform ctx (drop i d) (int q - int i))"
    using Transform_rep [OF rep, of "q - i" "drop i d"] i q by (simp add: k_def of_nat_diff)
  from store_rest_rep [OF this k(1) q] k(2) obtain ctx' where
    st: "store_rest d (int q) (Transform ctx (drop i d) (int q - int i)) (int k) = (ctx', int q)"
    and rep': "groestl_rep (a @ take (k - i) (drop i d)) (take (q - k) (drop k d)) 0 ctx'" by auto
  have t: "take (k - i) (drop i d) @ take (q - k) (drop k d) = take (q - i) (drop i d)"
    using take_add [of "k - i" "q - k" "drop i d"] k by simp
  have l: "length (take (q - k) (drop k d)) < 64" using k(2) by simp
  show ?thesis
    unfolding after_update_def
  proof (intro exI conjI)
    show "groestl_rep (a @ take (k - i) (drop i d)) (take (q - k) (drop k d) @ (if r \<noteq> 0 then [d ! q] else [])) r
      (update_bulk d (int q) (int r) ctx (int i))"
      using put_last_rep [OF rep' l, of r d q] by (simp add: update_bulk_def s st)
  qed (use l t [symmetric] in simp_all)
qed

lemma groestl_Update_rep:
  assumes rep: "groestl_rep a b 0 ctx" and b: "length b < 64" and n: "n div 8 < 2 ^ 31" and l: "n div 8 \<le> length d"
  shows "after_update (a @ b @ take (n div 8) d @ (if n mod 8 \<noteq> 0 then [d ! (n div 8)] else [])) (n mod 8) (groestl_Update ctx d n)"
proof -
  define q r where "q = n div 8" and "r = n mod 8"
  have c: "c_int q = int q" "c_int r = int r"
    using n by (auto simp: q_def r_def intro!: c_int_small intro: le_less_trans [of _ 7])
  have q: "q \<le> length d" using l by (simp add: q_def)
  define last where "last = (if r \<noteq> 0 then [d ! q] else [])"
  have p: "buf_ptr ctx = length b" using rep by (simp add: groestl_rep_def)
  have "after_update (a @ b @ take q d @ last) r (groestl_Update ctx d n)"
  proof (cases "b = []")
    case True
    then show ?thesis
      using update_bulk_rep [of a ctx 0 q d r] rep q p by (simp add: groestl_Update_bulk q_def [symmetric] r_def [symmetric] c last_def)
  next
    case False
    define j where "j = min q (64 - length b)"
    obtain ctx' where f: "fill_buffer d (int q) ctx 0 = (ctx', int j)" and rep': "groestl_rep a (b @ take j d) 0 ctx'"
      using fill_buffer_rep [OF rep, of 0 q d j] q by (auto simp: j_def)
    have b': "buf_ptr ctx' = length (b @ take j d)" "length (b @ take j d) = length b + j"
      using rep' q by (simp_all add: groestl_rep_def j_def)
    show ?thesis
    proof (cases "length b + j < 64")
      case True
      then have "j = q" by (simp add: j_def)
      then have "groestl_Update ctx d n = put_last_bits d (int q) (int r) ctx'"
        using f p False b' True by (simp add: groestl_Update_bulk q_def [symmetric] r_def [symmetric] c)
      moreover have "groestl_rep a ((b @ take q d) @ last) r (put_last_bits d (int q) (int r) ctx')"
        using put_last_rep [OF rep', of r d q] True b'(2) \<open>j = q\<close> by (simp only: last_def)
      ultimately show ?thesis
        using True b'(2) \<open>j = q\<close> by (intro after_updateI [of a "(b @ take q d) @ last"]) (simp_all add: last_def)
    next
      case False
      have f64: "length (b @ take j d) = 64" using False b'(2) rep' by (simp add: groestl_rep_def)
      have u: "groestl_Update ctx d n = update_bulk d (int q) (int r) (Transform (ctx'\<lparr>buf_ptr := 0\<rparr>) (g_buffer ctx') 64) (int j)"
        using f p \<open>b \<noteq> []\<close> b'(1) f64 by (simp add: groestl_Update_bulk q_def [symmetric] r_def [symmetric] c)
      have t: "take j d @ take (q - j) (drop j d) = take q d"
        using take_add [of j "q - j" d] by (simp add: j_def)
      from Transform_buffer(1) [OF rep' f64] have "groestl_rep (a @ b @ take j d) [] 0 (Transform (ctx'\<lparr>buf_ptr := 0\<rparr>) (g_buffer ctx') 64)"
        by simp
      from update_bulk_rep [OF this _ q, of j r] show ?thesis
        by (simp add: u last_def t [symmetric] j_def)
    qed
  qed
  then show ?thesis by (simp only: q_def r_def last_def)
qed


section \<open>The padding and the digest\<close>

text \<open>The first \<open>r\<close> bits of the byte stay, the next one is set.\<close>

definition pad_byte :: "byte \<Rightarrow> nat \<Rightarrow> byte" where
  "pad_byte b r = (b AND push_bit (8 - r) (push_bit r 1 - 1)) XOR push_bit (7 - r) 1"

definition pad_body :: "byte list \<Rightarrow> nat \<Rightarrow> byte list" where
  "pad_body m r = (if r = 0 then m @ [0x80] else butlast m @ [pad_byte (last m) r])"

definition pad_whole :: "byte list \<Rightarrow> byte list" where
  "pad_whole body = (let z = (120 - length body mod 64) mod 64 in
    body @ replicate z 0 @ split_be 8 (of_nat ((length body + z + 8) div 64) :: 64 word))"

definition groestl_spec :: "byte list \<Rightarrow> nat \<Rightarrow> byte list" where
  "groestl_spec m r = (let p = pad_whole (pad_body m r) in drop 32 (spec_output (groestl_chain p (length p div 64))))"

lemma pad_one_rep:
  assumes "after_update m r ctx"
  obtains a b where "groestl_rep a b 0 (pad_one ctx)" and "a @ b = pad_body m r" and "b \<noteq> []"
proof -
  obtain a b where rep: "groestl_rep a b r ctx" and m: "a @ b = m" and b: "if r = 0 then length b < 64 else b \<noteq> []"
    using assms by (auto simp: after_update_def)
  show thesis
  proof (cases "r = 0")
    case True
    then have "pad_one ctx = put_byte 0x80 ctx" using rep by (simp add: pad_one_def groestl_rep_def Let_def)
    then show thesis
      using put_byte_rep [OF rep, of "0x80"] b True m that [of a "b @ [0x80]"] by (simp add: pad_body_def)
  next
    case False
    then obtain b' x where bx: "b = b' @ [x]" using b by (cases b rule: rev_cases) simp_all
    have x: "g_buffer ctx ! length b' = x" "take (length b') (g_buffer ctx) = b'" "length b' < 64" "length (g_buffer ctx) = 64"
      using rep by (auto simp: groestl_rep_def bx take_Suc_conv_app_nth)
    have "groestl_rep a (b' @ [pad_byte x r]) 0 (pad_one ctx)"
      using rep False x by (simp add: groestl_rep_def pad_one_def bx pad_byte_def Let_def take_Suc_conv_app_nth)
    then show thesis
      using False m bx that [of a "b' @ [pad_byte x r]"] by (auto simp: pad_body_def butlast_append)
  qed
qed

lemma pad_zeros_rep:
  assumes "groestl_rep a b r ctx" and "length b \<le> n" and "n \<le> 64"
  shows "groestl_rep a (b @ replicate (n - length b) 0) r (pad_zeros n ctx)"
proof -
  have "groestl_rep a (b @ replicate k 0) r ((put_byte 0 ^^ k) ctx)" if "k \<le> n - length b" for k
    using that
  proof (induction k)
    case (Suc k)
    then have "groestl_rep a ((b @ replicate k 0) @ [0]) r (put_byte 0 ((put_byte 0 ^^ k) ctx))"
      using assms(2,3) by (intro put_byte_rep) simp_all
    then show ?case by (simp add: replicate_append_same)
  qed (use assms(1) in simp)
  moreover have "buf_ptr ctx = length b" using assms(1) by (simp add: groestl_rep_def)
  ultimately show ?thesis by (simp add: pad_zeros_def)
qed

lemma row_indices_4: "[0..<4] = [0, 1, 2, 3 :: nat]"
  by (simp add: upt_rec)

lemma length_8:
  assumes "length x = 8"
  obtains x0 x1 x2 x3 x4 x5 x6 x7 where "x = [x0, x1, x2, x3, x4, x5, x6, x7]"
  using assms by (auto simp: numeral_eq_Suc length_Suc_conv)

lemma counter_bytes:
  fixes buf :: "byte list"
  assumes "length buf = 64"
  shows "fst (fold (\<lambda>k (buf, c). (buf[59 - k := ucast c], drop_bit 8 c)) [0..<4]
       (fst (fold (\<lambda>k (buf, c). (buf[63 - k := ucast c], drop_bit 8 c)) [0..<4] (buf, c1 :: u32)), c2 :: u32)) =
    take 56 buf @ split_be 4 c2 @ split_be 4 c1"
proof -
  have "length (drop 56 buf) = 8" using assms by simp
  then obtain y0 y1 y2 y3 y4 y5 y6 y7 where y: "drop 56 buf = [y0, y1, y2, y3, y4, y5, y6, y7]"
    by (rule length_8)
  define b where "b = take 56 buf"
  have "buf = b @ [y0, y1, y2, y3, y4, y5, y6, y7]" "length b = 56"
    using assms append_take_drop_id [of 56 buf] by (simp_all add: b_def y del: append_take_drop_id)
  then show ?thesis
    by (simp add: row_indices_4 split_be_def split_4 list_update_append)
qed

lemma split_be_halves:
  "(split_be 8 (of_nat n :: 64 word) :: byte list) = split_be 4 (of_nat (n div 2 ^ 32) :: u32) @ split_be 4 (of_nat n :: u32)"
proof -
  have d: "n div 2 ^ 32 = drop_bit 32 n" by (simp add: drop_bit_eq_div)
  have "(split_le 8 (of_nat n :: 64 word) :: byte list) = split_le 4 (of_nat n :: u32) @ (split_le 4 (of_nat (n div 2 ^ 32) :: u32) :: byte list)"
    unfolding d
    by (simp add: split_le_def row_indices_4 upt_8) (auto simp: bit_eq_iff bit_simps dest: bit_imp_le_length)
  then show ?thesis by (simp add: split_be_def)
qed


text \<open>\<open>groestl_Final\<close> after the first padding byte.\<close>

definition final_blocks :: "groestl_state \<Rightarrow> groestl_state" where
  "final_blocks ctx =
    (let ctx = pad_zeros (64 - 8)
           (if buf_ptr ctx > 64 - 8 then (let ctx = pad_zeros 64 ctx in (Transform ctx (g_buffer ctx) 64)\<lparr>buf_ptr := 0\<rparr>) else ctx)
     in count_block ctx)"

definition counter_block :: "groestl_state \<Rightarrow> byte list" where
  "counter_block ctx = take 56 (g_buffer ctx) @ split_be 4 (block_counter2 ctx) @ split_be 4 (block_counter1 ctx)"

lemma groestl_Final_digest:
  assumes "length (g_buffer (final_blocks (pad_one ctx))) = 64"
    and "length (chaining (final_blocks (pad_one ctx))) = 16"
  shows "snd (groestl_Final ctx) =
    drop 32 (spec_output (spec_compress (word_bytes (chaining (final_blocks (pad_one ctx)))) (counter_block (final_blocks (pad_one ctx)))))"
proof -
  define c where "c = final_blocks (pad_one ctx)"
  define b c1 where "b = fst (fold (\<lambda>k (buf, c). (buf[63 - k := ucast c], drop_bit 8 c)) [0..<4] (g_buffer c, block_counter1 c))"
    and "c1 = snd (fold (\<lambda>k (buf, c). (buf[63 - k := ucast c], drop_bit 8 c)) [0..<4] (g_buffer c, block_counter1 c))"
  define b' c2 where "b' = fst (fold (\<lambda>k (buf, c). (buf[59 - k := ucast c], drop_bit 8 c)) [0..<4] (b, block_counter2 c))"
    and "c2 = snd (fold (\<lambda>k (buf, c). (buf[59 - k := ucast c], drop_bit 8 c)) [0..<4] (b, block_counter2 c))"
  define t where "t = Transform (c\<lparr>g_buffer := b', block_counter1 := c1, block_counter2 := c2, buf_ptr := 56\<rparr>) b' 64"
  have l: "length (g_buffer c) = 64" "length (chaining c) = 16" using assms by (simp_all add: c_def)
  have b': "b' = counter_block c"
    unfolding b'_def b_def counter_block_def by (rule counter_bytes [OF l(1)])
  then have lb: "length b' = 64" using l by (simp add: counter_block_def split_be_def)
  have t: "length (chaining t) = 16" "word_bytes (chaining t) = spec_compress (word_bytes (chaining c)) b'"
    using Transform_chaining [of "c\<lparr>g_buffer := b', block_counter1 := c1, block_counter2 := c2, buf_ptr := 56\<rparr>" b'] l lb
    by (simp_all add: t_def)
  have "snd (groestl_Final ctx) = mem_slice (word_bytes (chaining (OutputTransformation t))) 32 32"
    unfolding groestl_Final_def t_def b'_def c2_def b_def c1_def c_def final_blocks_def Let_def prod.case case_prod_beta
      prod.collapse by simp
  also have "\<dots> = drop 32 (spec_output (word_bytes (chaining t)))"
    using t(1) by (simp add: OutputTransformation_def Let_def spec_output_def word_bytes_xor groestl_P_bytes mem_slice_def)
  finally show ?thesis by (simp only: t b' c_def)
qed


lemma zero_padding:
  assumes "64 dvd length a" and "b \<noteq> []" and "length b \<le> 64"
  shows "(120 - length (a @ b) mod 64) mod 64 = (if length b > 56 then 64 - length b + 56 else 56 - length b)"
proof -
  obtain k where "length a = 64 * k" using assms(1) by (rule dvdE)
  then have "length (a @ b) mod 64 = length b mod 64" by simp
  moreover have "(120 - n mod 64) mod 64 = (if n > 56 then 64 - n + 56 else 56 - n)" if n: "0 < n" "n \<le> 64" for n :: nat
  proof -
    consider "n \<le> 56" | "56 < n" "n < 64" | "n = 64"
      using order_le_imp_less_or_eq [OF n(2)] by (cases "n \<le> 56") auto
    then show ?thesis
    proof cases
      case 1
      then have "120 - n mod 64 = (56 - n) + 64" by simp
      then have "(120 - n mod 64) mod 64 = (56 - n) mod 64" by (simp only: mod_add_self2)
      then show ?thesis using 1 n(1) by simp
    qed simp_all
  qed
  ultimately show ?thesis using assms(2,3) by simp
qed

lemma final_blocks_rep:
  assumes rep: "groestl_rep a b 0 ctx" and b: "b \<noteq> []" and p: "p = pad_whole (a @ b)"
  obtains k where "length p = 64 * Suc k" and "counter_block (final_blocks ctx) = mem_slice p (64 * k) 64"
    and "word_bytes (chaining (final_blocks ctx)) = groestl_chain p k"
    and "length (g_buffer (final_blocks ctx)) = 64" and "length (chaining (final_blocks ctx)) = 16"
proof -
  define z where "z = (120 - length (a @ b) mod 64) mod 64"
  define c where "c = (if buf_ptr ctx > 64 - 8 then (let ctx = pad_zeros 64 ctx in (Transform ctx (g_buffer ctx) 64)\<lparr>buf_ptr := 0\<rparr>) else ctx)"
  have a: "64 dvd length a" and lb: "length b \<le> 64" and ptr: "buf_ptr ctx = length b" using rep by (simp_all add: groestl_rep_def)
  have z: "z = (if length b > 56 then 64 - length b + 56 else 56 - length b)" unfolding z_def by (rule zero_padding [OF a b lb])
  obtain a' b' where rep': "groestl_rep a' b' 0 (pad_zeros 56 c)" and b': "length b' = 56" and ab: "a' @ b' = a @ b @ replicate z 0"
  proof (cases "length b > 56")
    case True
    let ?b = "b @ replicate (64 - length b) 0"
    have "groestl_rep a ?b 0 (pad_zeros 64 ctx)" using lb by (intro pad_zeros_rep [OF rep]) simp_all
    then have "groestl_rep (a @ ?b) [] 0 c"
      using Transform_buffer [of a ?b 0 "pad_zeros 64 ctx"] lb True ptr by (simp add: c_def Let_def)
    moreover have "replicate (64 - length b) 0 @ replicate 56 0 = replicate z (0 :: byte)"
      using True by (simp add: z replicate_add [symmetric] del: replicate_append_same)
    ultimately show thesis
      using pad_zeros_rep [of "a @ ?b" "[]" 0 c 56] that [of "a @ ?b" "replicate 56 0"] by simp
  next
    case False
    then have "c = ctx" using ptr by (simp add: c_def)
    with pad_zeros_rep [OF rep, of 56] False z that [of a "b @ replicate (56 - length b) 0"] show thesis by simp
  qed
  obtain k where k: "length a' = 64 * k" using rep' by (auto simp: groestl_rep_def elim: dvdE)
  have lz: "length (a @ b) + z = 64 * k + 56" using arg_cong [OF ab, of length] k b' by simp
  then have "(length (a @ b) + z + 8) div 64 = Suc k" by simp
  then have p': "p = a' @ b' @ split_be 8 (of_nat (Suc k) :: 64 word)"
    unfolding p pad_whole_def Let_def z_def [symmetric] using arg_cong [OF ab, of "\<lambda>x. x @ split_be 8 (of_nat (Suc k) :: 64 word)"]
    by (simp only: append_assoc)
  define f where "f = final_blocks ctx"
  have f: "f = (pad_zeros 56 c)\<lparr>block_counter1 := of_nat (Suc k), block_counter2 := of_nat (Suc k div 2 ^ 32)\<rparr>"
  proof -
    have "f = count_block (pad_zeros 56 c)" by (simp add: f_def final_blocks_def c_def)
    then show ?thesis using count_block_counts [of "pad_zeros 56 c" k] rep' k by (simp only: groestl_rep_def) simp
  qed
  have bytes: "counter_block f = b' @ split_be 8 (of_nat (Suc k) :: 64 word)"
    using rep' b' by (simp add: f counter_block_def split_be_halves groestl_rep_def del: of_nat_Suc)
  show thesis
  proof (rule that)
    show "length p = 64 * Suc k" using k b' by (simp add: p' split_be_def)
    show "counter_block (final_blocks ctx) = mem_slice p (64 * k) 64"
      using k b' by (simp add: p' f_def [symmetric] bytes mem_slice_def split_be_def del: of_nat_Suc)
    show "word_bytes (chaining (final_blocks ctx)) = groestl_chain p k"
      using rep' k by (simp add: f_def [symmetric] f p' groestl_chain_append groestl_rep_def)
  qed (use rep' in \<open>simp_all add: f_def [symmetric] f groestl_rep_def\<close>)
qed

lemma groestl_Final_spec:
  assumes "after_update m r ctx"
  shows "snd (groestl_Final ctx) = groestl_spec m r"
proof -
  obtain a b where rep: "groestl_rep a b 0 (pad_one ctx)" "b \<noteq> []" and ab: "a @ b = pad_body m r"
    using pad_one_rep [OF assms] by blast
  obtain k where k: "length (pad_whole (a @ b)) = 64 * Suc k"
    "counter_block (final_blocks (pad_one ctx)) = mem_slice (pad_whole (a @ b)) (64 * k) 64"
    "word_bytes (chaining (final_blocks (pad_one ctx))) = groestl_chain (pad_whole (a @ b)) k"
    "length (g_buffer (final_blocks (pad_one ctx))) = 64" "length (chaining (final_blocks (pad_one ctx))) = 16"
    by (rule final_blocks_rep [OF rep refl])
  then have "groestl_chain (pad_whole (a @ b)) (length (pad_whole (a @ b)) div 64) =
      spec_compress (groestl_chain (pad_whole (a @ b)) k) (mem_slice (pad_whole (a @ b)) (64 * k) 64)"
    by (simp add: groestl_chain_Suc del: mult_Suc_right)
  then show ?thesis
    using groestl_Final_digest [OF k(4,5)] k(2,3) by (simp add: groestl_spec_def ab Let_def)
qed

lemma groestl_Init_rep:
  assumes "length (chaining L) = 16" and "length (g_buffer L) = 64"
  shows "groestl_rep [] [] 0 (groestl_Init L)"
proof -
  have "word_bytes ((replicate 16 0)[15 := u32BIG 256]) = replicate 62 0 @ [1, 0]" by code_simp
  then show ?thesis using assms by (simp add: groestl_rep_def groestl_Init_def groestl_chain_def)
qed

lemma bit_bytes_cases: "bit_bytes n = (if n mod 8 = 0 then n div 8 else Suc (n div 8))"
proof -
  have "(8 * q + r + 7) div 8 = (if r = 0 then q else Suc q)" if "r < 8" for q r :: nat
    using that by auto
  from this [of "n mod 8" "n div 8"] show ?thesis by (simp add: bit_bytes_def)
qed

lemma groestl_hash:
  assumes "length (g_buffer L) = 64" and "n div 8 < 2 ^ 31" and "length d = bit_bytes n"
  shows "groestl L d n = groestl_spec d (n mod 8)"
proof -
  have rep: "groestl_rep [] [] 0 (groestl_Init L)"
    using groestl_Init_rep [of "L\<lparr>chaining := replicate 16 0\<rparr>"] assms(1) by (simp add: groestl_Init_def)
  have d: "take (n div 8) d @ (if n mod 8 \<noteq> 0 then [d ! (n div 8)] else []) = d"
    using assms(3) by (cases "n mod 8 = 0") (simp_all add: bit_bytes_cases take_Suc_conv_app_nth [symmetric])
  have "n div 8 \<le> length d" by (simp add: assms(3) bit_bytes_def div_le_mono)
  from groestl_Update_rep [OF rep _ assms(2) this] d
  have "after_update d (n mod 8) (groestl_Update (groestl_Init L) d n)" by simp
  then show ?thesis by (simp add: groestl_def Let_def groestl_Final_spec)
qed


text \<open>C10: \<open>groestl\<close> computes Groestl-256 as specified, for messages of any number of bits whose
  byte count fits an \<open>int\<close>: the bits padded with a 1, zeros and the number of blocks, chained
  through the compression function, and the last 32 bytes of the output transformation.\<close>

theorem groestl_digest:
  assumes "length (g_buffer L) = 64" and "n div 8 < 2 ^ 31" and "length d = bit_bytes n"
  shows "groestl L d n = groestl_spec d (n mod 8)"
  using assms by (rule groestl_hash)

text \<open>A context on the stack before the call, and three bits of a message.\<close>

definition stack_context :: groestl_state where
  "stack_context = \<lparr>chaining = replicate 16 7, block_counter1 = 5, block_counter2 = 1, g_buffer = replicate 64 0xaa,
     buf_ptr = 3, bits_in_last_byte = 2\<rparr>"

lemma groestl_digest_witness:
  "groestl stack_context [0x61, 0x62, 0x63] 24 = groestl_spec [0x61, 0x62, 0x63] 0 \<and>
   groestl stack_context [0x61, 0xe0] 11 = groestl_spec [0x61, 0xe0] 3"
  using groestl_digest [of stack_context 24 "[0x61, 0x62, 0x63]"] groestl_digest [of stack_context 11 "[0x61, 0xe0]"]
  by (simp add: stack_context_def bit_bytes_def)

lemma c_int_negative:
  assumes "2 ^ 31 \<le> n" and "n < 2 ^ 32"
  shows "c_int n = int n - 2 ^ 32"
proof -
  have "(of_nat n :: u32) = of_int (int n - 2 ^ 32)" by simp
  then have "c_int n = signed_take_bit 31 (int n - 2 ^ 32)" by (simp only: c_int_def signed_of_int) simp
  also have "\<dots> = int n - 2 ^ 32" using assms by (intro signed_take_bit_int_eq_self) simp_all
  finally show ?thesis .
qed

text \<open>From 2 GiB to 4 GiB of data the conversion of the length to \<open>int\<close> is negative, no byte is
  read and the digest is that of the empty message.\<close>

theorem groestl_negative_length:
  assumes "length (g_buffer L) = 64" and "2 ^ 31 \<le> n" and "n < 2 ^ 32"
  shows "hash_extra_groestl L d n = groestl_spec [] 0"
proof -
  have m: "c_int n = int n - 2 ^ 32" "c_int 0 = 0" using assms(2,3) by (simp_all add: c_int_negative c_int_small)
  have neg: "int n - 2 ^ 32 < 0" using assms(3) by simp
  have idx: "int n - 2 ^ 32 \<le> (int n - 2 ^ 32) sdiv 64 * 64"
    using neg by (simp add: signed_divide_int_def)
  have ptr: "buf_ptr (groestl_Init L) = 0" by (simp add: groestl_Init_def)
  have t: "Transform c i (int n - 2 ^ 32) = c" for c i using neg by (subst Transform.simps) simp
  have st: "store_rest d (int n - 2 ^ 32) c ((int n - 2 ^ 32) sdiv 64 * 64) = (c, (int n - 2 ^ 32) sdiv 64 * 64)" for c
    using idx by (subst store_rest.simps) simp
  have "update_bulk d (int n - 2 ^ 32) 0 (groestl_Init L) 0 = groestl_Init L"
    unfolding update_bulk_def by (simp only: diff_zero add_0 t st Let_def prod.case) (simp add: put_last_bits_def)
  then have "groestl_Update (groestl_Init L) d (8 * n) = groestl_Init L"
    using ptr m by (simp add: groestl_Update_bulk)
  moreover have "groestl_rep [] [] 0 (groestl_Init L)"
    using groestl_Init_rep [of "L\<lparr>chaining := replicate 16 0\<rparr>"] assms(1) by (simp add: groestl_Init_def)
  then have "after_update [] 0 (groestl_Init L)" by (intro after_updateI [of "[]" "[]"]) simp_all
  ultimately show ?thesis
    using assms(3) by (simp add: hash_extra_groestl_def groestl_def Let_def groestl_Final_spec mult.commute)
qed

lemma groestl_negative_length_witness:
  "hash_extra_groestl stack_context [0x61] 0x80000000 = groestl_spec [] 0"
  using groestl_negative_length [of stack_context "0x80000000" "[0x61]"] by (simp add: stack_context_def)

end
