(* ===== verification/JhSpec.thy ===== *)
theory JhSpec
  imports Jh
begin

unbundle bit_operations_syntax

text \<open>
  The permutation of JH as it is specified, on 256 nibbles: the S-boxes chosen by the bits of the round constants,
  the MDS code on pairs, and the permutation of places.  The bit-sliced permutation of \<^verbatim>\<open>jh.c\<close> keeps the
  nibbles in other places, which come back after seven rounds.
\<close>

section \<open>The specification\<close>

definition jh_S0 :: "nat list" where "jh_S0 = [9, 0, 4, 11, 13, 12, 3, 15, 1, 10, 2, 6, 7, 5, 8, 14]"
definition jh_S1 :: "nat list" where "jh_S1 = [3, 12, 6, 13, 5, 7, 1, 9, 15, 2, 0, 4, 11, 10, 14, 8]"

definition jh_sbox :: "bool \<Rightarrow> nat \<Rightarrow> nat" where
  "jh_sbox c a = (if c then jh_S1 ! a else jh_S0 ! a)"

text \<open>Multiplication by \<open>2\<close> in the field with the polynomial \<open>x^4 + x + 1\<close>, and the MDS code.\<close>

definition jh_double :: "nat \<Rightarrow> nat" where
  "jh_double a = (if a < 8 then 2 * a else (2 * a) XOR 0x13)"

definition jh_mds :: "nat \<Rightarrow> nat \<Rightarrow> nat \<times> nat" where
  "jh_mds a b = (let d = b XOR jh_double a; c = a XOR jh_double d in (c, d))"

fun mds_layer :: "nat list \<Rightarrow> nat list" where
  "mds_layer (a # b # q) = (let (c, d) = jh_mds a b in c # d # mds_layer q)"
| "mds_layer q = q"

text \<open>The permutation of places: \<open>\<phi> \<circ> P' \<circ> \<pi>\<close>.\<close>

fun pi_places :: "'a list \<Rightarrow> 'a list" where
  "pi_places (a # b # c # d # q) = a # b # d # c # pi_places q"
| "pi_places q = q"

fun evens :: "'a list \<Rightarrow> 'a list" where
  "evens (a # b # q) = a # evens q"
| "evens q = q"

fun odds :: "'a list \<Rightarrow> 'a list" where
  "odds (a # b # q) = b # odds q"
| "odds q = []"

fun swap_pairs :: "'a list \<Rightarrow> 'a list" where
  "swap_pairs (a # b # q) = b # a # swap_pairs q"
| "swap_pairs q = q"

definition jh_P :: "'a list \<Rightarrow> 'a list" where
  "jh_P q = (let r = pi_places q in evens r @ swap_pairs (odds r))"

definition spec_jh_round :: "bool list \<Rightarrow> nat list \<Rightarrow> nat list" where
  "spec_jh_round cs q = jh_P (mds_layer (map2 jh_sbox cs q))"

text \<open>The round constants come from rounds on 64 nibbles, starting from the fraction of the root of 2.\<close>

definition root_2 :: "nat list" where
  "root_2 = [0x6, 0xa, 0x0, 0x9, 0xe, 0x6, 0x6, 0x7, 0xf, 0x3, 0xb, 0xc, 0xc, 0x9, 0x0, 0x8,
    0xb, 0x2, 0xf, 0xb, 0x1, 0x3, 0x6, 0x6, 0xe, 0xa, 0x9, 0x5, 0x7, 0xd, 0x3, 0xe,
    0x3, 0xa, 0xd, 0xe, 0xc, 0x1, 0x7, 0x5, 0x1, 0x2, 0x7, 0x7, 0x5, 0x0, 0x9, 0x9,
    0xd, 0xa, 0x2, 0xf, 0x5, 0x9, 0x0, 0xb, 0x0, 0x6, 0x6, 0x7, 0x3, 0x2, 0x2, 0xa]"

primrec spec_const :: "nat \<Rightarrow> nat list" where
  "spec_const 0 = root_2"
| "spec_const (Suc r) = spec_jh_round (replicate 64 False) (spec_const r)"

definition nibble_bits :: "nat list \<Rightarrow> bool list" where
  "nibble_bits q = concat (map (\<lambda>n. [n div 8 mod 2 = 1, n div 4 mod 2 = 1, n div 2 mod 2 = 1, n mod 2 = 1]) q)"

definition nib :: "bool \<Rightarrow> bool \<Rightarrow> bool \<Rightarrow> bool \<Rightarrow> nat" where
  "nib a b c d = 8 * of_bool a + 4 * of_bool b + 2 * of_bool c + of_bool d"

text \<open>Bit \<open>i\<close> of a string of bytes, the highest of a byte first; the nibbles of the 1024 bits, and back.\<close>

definition byte_bit :: "byte list \<Rightarrow> nat \<Rightarrow> bool" where
  "byte_bit bs i = bit (bs ! (i div 8)) (7 - i mod 8)"

definition jh_group :: "byte list \<Rightarrow> nat list" where
  "jh_group bs = map (\<lambda>j. let i = j div 2 + 128 * (j mod 2)
     in nib (byte_bit bs i) (byte_bit bs (i + 256)) (byte_bit bs (i + 512)) (byte_bit bs (i + 768))) [0..<256]"

definition group_bit :: "nat list \<Rightarrow> nat \<Rightarrow> bool" where
  "group_bit q i = (q ! (2 * (i mod 128) + i div 128 mod 2) div 2 ^ (3 - i div 256) mod 2 = 1)"

definition jh_degroup :: "nat list \<Rightarrow> byte list" where
  "jh_degroup q = map (\<lambda>n. foldl (\<lambda>b k. 2 * b + of_bool (group_bit q (8 * n + k))) 0 [0..<8]) [0..<128]"

definition spec_E8 :: "byte list \<Rightarrow> byte list" where
  "spec_E8 bs = jh_degroup (fold (\<lambda>r. spec_jh_round (nibble_bits (spec_const r))) [0..<42] (jh_group bs))"

section \<open>One round of the S-boxes and the code\<close>

lemma sbox_even:
  assumes "n < 64"
  shows "nib (bit (jh_SS m c0 c1 ! 0) n) (bit (jh_SS m c0 c1 ! 1) n) (bit (jh_SS m c0 c1 ! 2) n) (bit (jh_SS m c0 c1 ! 3) n) =
    jh_sbox (bit c0 n) (nib (bit (m ! 0) n) (bit (m ! 1) n) (bit (m ! 2) n) (bit (m ! 3) n))"
  using assms
  by (cases "bit c0 n"; cases "bit (m ! 0) n"; cases "bit (m ! 1) n"; cases "bit (m ! 2) n"; cases "bit (m ! 3) n";
      simp add: jh_SS_def Let_def bit_simps nib_def jh_sbox_def jh_S0_def jh_S1_def)

lemma sbox_odd:
  assumes "n < 64"
  shows "nib (bit (jh_SS m c0 c1 ! 4) n) (bit (jh_SS m c0 c1 ! 5) n) (bit (jh_SS m c0 c1 ! 6) n) (bit (jh_SS m c0 c1 ! 7) n) =
    jh_sbox (bit c1 n) (nib (bit (m ! 4) n) (bit (m ! 5) n) (bit (m ! 6) n) (bit (m ! 7) n))"
  using assms
  by (cases "bit c1 n"; cases "bit (m ! 4) n"; cases "bit (m ! 5) n"; cases "bit (m ! 6) n"; cases "bit (m ! 7) n";
      simp add: jh_SS_def Let_def bit_simps nib_def jh_sbox_def jh_S0_def jh_S1_def)

lemma nib_xor: "nib a0 a1 a2 a3 XOR nib b0 b1 b2 b3 = nib (a0 \<noteq> b0) (a1 \<noteq> b1) (a2 \<noteq> b2) (a3 \<noteq> b3)"
  by (cases a0; cases a1; cases a2; cases a3; cases b0; cases b1; cases b2; cases b3;
      simp add: nib_def flip: numeral_2_eq_2 numeral_3_eq_3)

lemma nib_double: "jh_double (nib a0 a1 a2 a3) = nib a1 a2 (a3 \<noteq> a0) a0"
  by (cases a0; cases a1; cases a2; cases a3; simp add: nib_def jh_double_def)

lemma nib_cong: "a = a' \<Longrightarrow> b = b' \<Longrightarrow> c = c' \<Longrightarrow> d = d' \<Longrightarrow> nib a b c d = nib a' b' c' d'"
  by simp

lemma mds_bits:
  fixes m :: "u64 list"
  assumes "n < 64"
  defines "o' \<equiv> jh_L m"
  shows "jh_mds (nib (bit (m ! 0) n) (bit (m ! 1) n) (bit (m ! 2) n) (bit (m ! 3) n))
      (nib (bit (m ! 4) n) (bit (m ! 5) n) (bit (m ! 6) n) (bit (m ! 7) n)) =
    (nib (bit (o' ! 0) n) (bit (o' ! 1) n) (bit (o' ! 2) n) (bit (o' ! 3) n),
     nib (bit (o' ! 4) n) (bit (o' ! 5) n) (bit (o' ! 6) n) (bit (o' ! 7) n))"
  using assms(1) by (auto simp: jh_mds_def nib_xor nib_double o'_def jh_L_def Let_def bit_simps intro!: nib_cong)

section \<open>Places\<close>

text \<open>The two halves of the nibbles, \<open>q ! (2 * m)\<close> and \<open>q ! (2 * m + 1)\<close>, are permuted on their own: the
  permutation of places rotates \<open>m\<close>, and swaps the halves of the second list.\<close>

fun interleave :: "'a list \<Rightarrow> 'a list \<Rightarrow> 'a list" where
  "interleave (a # as) (b # bs) = a # b # interleave as bs"
| "interleave as bs = []"

definition unshuffle :: "'a list \<Rightarrow> 'a list" where
  "unshuffle q = evens q @ odds q"

lemma map_evens: "evens (map f q) = map f (evens q)" "odds (map f q) = map f (odds q)" "swap_pairs (map f q) = map f (swap_pairs q)"
  by (induction q rule: evens.induct) simp_all

lemma map_interleave: "interleave (map f as) (map f bs) = map f (interleave as bs)"
  by (induction as bs rule: interleave.induct) simp_all

lemma map_unshuffle: "unshuffle (map f q) = map f (unshuffle q)"
  by (simp add: unshuffle_def map_evens)

lemma map_unshuffles: "(unshuffle ^^ t) (map f q) = map f ((unshuffle ^^ t) q)"
  by (induction t) (simp_all add: map_unshuffle)

lemma length_evens: "even (length q) \<Longrightarrow> length (evens q) = length q div 2 \<and> length (odds q) = length q div 2"
  by (induction q rule: evens.induct) auto

lemma length_unshuffle [simp]: "even (length q) \<Longrightarrow> length (unshuffle q) = length q"
  using length_evens [of q] by (auto simp: unshuffle_def elim: evenE)

lemma evens_append: "even (length as) \<Longrightarrow> evens (as @ bs) = evens as @ evens bs" "even (length as) \<Longrightarrow> odds (as @ bs) = odds as @ odds bs"
  by (induction as rule: evens.induct) auto

lemma evens_interleave: "length as = length bs \<Longrightarrow> evens (interleave as bs) = as \<and> odds (interleave as bs) = bs"
  by (induction as bs rule: interleave.induct) auto

lemma interleave_append: "length as = length bs \<Longrightarrow> interleave (as @ cs) (bs @ ds) = interleave as bs @ interleave cs ds"
  by (induction as bs rule: interleave.induct) auto

lemma jh_P_interleave:
  assumes "length as = length bs" and "even (length as)"
  shows "jh_P (interleave as bs) = interleave (unshuffle as) (odds bs @ evens bs)"
proof -
  have "evens (pi_places (interleave as bs)) = interleave (evens as) (odds bs) \<and>
      swap_pairs (odds (pi_places (interleave as bs))) = interleave (odds as) (evens bs)"
    using assms
  proof (induction as arbitrary: bs rule: evens.induct)
    case (1 a b q)
    then obtain c d r where "bs = c # d # r" by (cases bs; cases "tl bs") auto
    with 1 show ?case by simp
  qed auto
  moreover have "length (evens as) = length (odds bs)" using assms length_evens by metis
  ultimately show ?thesis by (simp add: jh_P_def Let_def unshuffle_def interleave_append)
qed

text \<open>The swaps of round \<open>t\<close> exchange blocks of \<open>2 ^ t\<close> positions.\<close>

fun flip_list :: "nat \<Rightarrow> 'a list \<Rightarrow> 'a list" where
  "flip_list 0 q = swap_pairs q"
| "flip_list (Suc t) q = interleave (flip_list t (evens q)) (flip_list t (odds q))"

lemma map_flip_list: "flip_list t (map f q) = map f (flip_list t q)"
  by (induction t arbitrary: q) (simp_all add: map_evens map_interleave)

lemma length_swap_pairs [simp]: "length (swap_pairs q) = length q"
  by (induction q rule: swap_pairs.induct) simp_all

lemma length_interleave: "length as = length bs \<Longrightarrow> length (interleave as bs) = 2 * length as"
  by (induction as bs rule: interleave.induct) auto

lemma length_flip_list: "2 ^ Suc t dvd length q \<Longrightarrow> length (flip_list t q) = length q"
proof (induction t arbitrary: q)
  case (Suc t)
  then obtain n where n: "length q = 2 * (2 ^ Suc t * n)" by (auto simp: dvd_def)
  then have "length (evens q) = 2 ^ Suc t * n" "length (odds q) = 2 ^ Suc t * n" using length_evens [of q] by auto
  with Suc.IH n show ?case by (simp add: length_interleave)
qed simp

lemma flip_list_append: "2 ^ Suc t dvd length as \<Longrightarrow> flip_list t (as @ bs) = flip_list t as @ flip_list t bs"
proof (induction t arbitrary: as bs)
  case 0
  then show ?case by (simp, induction as rule: swap_pairs.induct) auto
next
  case (Suc t)
  then obtain n where n: "length as = 2 * (2 ^ Suc t * n)" by (auto simp: dvd_def)
  then have h: "length (evens as) = 2 ^ Suc t * n" "length (odds as) = 2 ^ Suc t * n" using length_evens [of as] by auto
  then have "length (flip_list t (evens as)) = length (flip_list t (odds as))" by (simp add: length_flip_list)
  with Suc.IH h n show ?case by (simp add: evens_append interleave_append)
qed

lemma unshuffle_flip:
  assumes "2 ^ Suc (Suc t) dvd length q"
  shows "unshuffle (flip_list (Suc t) q) = flip_list t (unshuffle q)"
proof -
  obtain n where n: "length q = 2 * (2 ^ Suc t * n)" using assms by (auto simp: dvd_def)
  then have h: "length (evens q) = 2 ^ Suc t * n" "length (odds q) = 2 ^ Suc t * n" using length_evens [of q] by auto
  then have "length (flip_list t (evens q)) = length (flip_list t (odds q))" by (simp add: length_flip_list)
  then show ?thesis using h by (simp add: unshuffle_def evens_interleave flip_list_append)
qed

lemma unshuffle_swap_pairs: "even (length q) \<Longrightarrow> unshuffle (swap_pairs q) = odds q @ evens q"
proof -
  assume "even (length q)"
  then have "evens (swap_pairs q) = odds q \<and> odds (swap_pairs q) = evens q"
    by (induction q rule: swap_pairs.induct) auto
  then show ?thesis by (simp add: unshuffle_def)
qed

lemma unshuffles_flip:
  assumes "2 ^ Suc t dvd length q"
  shows "(unshuffle ^^ Suc t) (flip_list t q) = (let r = (unshuffle ^^ t) q in odds r @ evens r)"
  using assms
proof (induction t arbitrary: q)
  case 0
  then show ?case by (simp add: unshuffle_swap_pairs)
next
  case (Suc t)
  have e: "even (length q)" and d: "2 ^ Suc t dvd length (unshuffle q)"
    using Suc.prems by (auto simp: dvd_def)
  have "(unshuffle ^^ Suc (Suc t)) (flip_list (Suc t) q) = (unshuffle ^^ Suc t) (unshuffle (flip_list (Suc t) q))"
    by (simp add: funpow_swap1)
  also have "\<dots> = (unshuffle ^^ Suc t) (flip_list t (unshuffle q))" using Suc.prems by (simp only: unshuffle_flip)
  also have "\<dots> = (let r = (unshuffle ^^ t) (unshuffle q) in odds r @ evens r)" by (rule Suc.IH [OF d])
  finally show ?case by (simp add: funpow_swap1)
qed

lemma unshuffle_7: "(unshuffle ^^ 7) [0..<128] = [0..<128]"
  by code_simp

section \<open>The state as nibbles\<close>

text \<open>Position \<open>k\<close> of a row is in word \<open>k div 64\<close>, at a bit that counts from the highest of a byte.  The
  nibbles are those of the even and of the odd rows.\<close>

definition bit_place :: "nat \<Rightarrow> nat" where
  "bit_place k = 8 * (k mod 64 div 8) + (7 - k mod 8)"

definition row_bit :: "u64 list \<Rightarrow> nat \<Rightarrow> nat \<Rightarrow> bool" where
  "row_bit x r k = bit (x ! (2 * r + k div 64)) (bit_place k)"

definition row_nib :: "u64 list \<Rightarrow> nat \<Rightarrow> nat \<Rightarrow> nat" where
  "row_nib x p k = nib (row_bit x p k) (row_bit x (p + 2) k) (row_bit x (p + 4) k) (row_bit x (p + 6) k)"

definition place :: "nat \<Rightarrow> nat list" where
  "place t = (unshuffle ^^ t) [0..<128]"

definition nibbles :: "nat \<Rightarrow> u64 list \<Rightarrow> nat list" where
  "nibbles t x = interleave (map (row_nib x 0) (place t)) (map (row_nib x 1) (place t))"

definition flipped :: "nat \<Rightarrow> nat \<Rightarrow> nat" where
  "flipped t k = flip_list t [0..<128] ! k"

lemma length_place [simp]: "length (place t) = 128"
  by (induction t) (simp_all add: place_def)

lemma map_flipped:
  assumes "t \<le> 6"
  shows "map (flipped t) [0..<128] = flip_list t [0..<128]"
proof -
  have "(2 :: nat) ^ Suc t dvd 2 ^ 7" using assms by (intro le_imp_power_dvd) simp
  then have "length (flip_list t [0..<128]) = 128" by (simp add: length_flip_list)
  then show ?thesis using map_nth [of "flip_list t [0..<128]"] by (simp add: flipped_def [abs_def])
qed

lemma jh_P_nibbles:
  assumes "t \<le> 6"
  shows "jh_P (interleave (map e (place t)) (map f (place t))) =
    interleave (map e (place (Suc t))) (map f (map (flipped t) (place (Suc t))))"
proof -
  have "(2 :: nat) ^ Suc t dvd 2 ^ 7" using assms by (intro le_imp_power_dvd) simp
  then have "(unshuffle ^^ Suc t) (flip_list t [0..<128]) = odds (place t) @ evens (place t)"
    using unshuffles_flip [of t "[0..<128]"] by (simp add: place_def Let_def)
  then have "map (flipped t) (place (Suc t)) = odds (place t) @ evens (place t)"
    unfolding map_flipped [OF assms, symmetric] map_unshuffles by (simp only: place_def)
  moreover have "unshuffle (place t) = place (Suc t)" by (simp add: place_def)
  ultimately show ?thesis by (simp add: jh_P_interleave map_evens map_unshuffle)
qed

text \<open>The layers of S-boxes and of the code, on nibbles.\<close>

definition const_bit :: "nat \<Rightarrow> nat \<Rightarrow> nat \<Rightarrow> bool" where
  "const_bit r p k = bit (jh_const r (2 * p + k div 64)) (bit_place k)"

definition mixed :: "nat \<Rightarrow> u64 list \<Rightarrow> nat \<Rightarrow> nat \<times> nat" where
  "mixed r x k = jh_mds (jh_sbox (const_bit r 0 k) (row_nib x 0 k)) (jh_sbox (const_bit r 1 k) (row_nib x 1 k))"

lemma layers_mixed:
  "mds_layer (map2 jh_sbox (interleave (map (const_bit r 0) I) (map (const_bit r 1) I))
      (interleave (map (row_nib x 0) I) (map (row_nib x 1) I))) =
    interleave (map (\<lambda>k. fst (mixed r x k)) I) (map (\<lambda>k. snd (mixed r x k)) I)"
  by (induction I) (simp_all add: mixed_def split: prod.split)

definition round_bits :: "nat \<Rightarrow> nat \<Rightarrow> bool list" where
  "round_bits t r = interleave (map (const_bit r 0) (place t)) (map (const_bit r 1) (place t))"

lemma set_place: "k \<in> set (place t) \<Longrightarrow> k < 128"
proof (induction t arbitrary: k)
  case (Suc t)
  have "set (evens q) \<subseteq> set q \<and> set (odds q) \<subseteq> set q" for q :: "nat list"
    by (induction q rule: evens.induct) auto
  moreover have "place (Suc t) = evens (place t) @ odds (place t)" by (simp add: place_def unshuffle_def)
  ultimately have "k \<in> set (place t)" using Suc.prems by auto
  then show ?case by (rule Suc.IH)
qed (simp add: place_def)

lemma nibbles_round:
  assumes "t \<le> 6"
    and "\<And>k. k < 128 \<Longrightarrow> row_nib y 0 k = fst (mixed r x k)"
    and "\<And>k. k < 128 \<Longrightarrow> row_nib y 1 k = snd (mixed r x (flipped t k))"
  shows "nibbles (Suc t) y = spec_jh_round (round_bits t r) (nibbles t x)"
proof -
  have "spec_jh_round (round_bits t r) (nibbles t x) =
      interleave (map (\<lambda>k. fst (mixed r x k)) (place (Suc t))) (map (\<lambda>k. snd (mixed r x k)) (map (flipped t) (place (Suc t))))"
    unfolding spec_jh_round_def round_bits_def nibbles_def layers_mixed by (rule jh_P_nibbles [OF assms(1)])
  also have "\<dots> = nibbles (Suc t) y"
    unfolding nibbles_def map_map
    by (intro arg_cong2 [where f = interleave] map_cong) (simp_all add: assms(2,3) set_place del: One_nat_def)
  finally show ?thesis by simp
qed

section \<open>The rounds of the code\<close>

definition swapped_bits :: "(u64 \<Rightarrow> u64) \<Rightarrow> nat \<Rightarrow> bool" where
  "swapped_bits f t \<longleftrightarrow> (\<forall>w. map (\<lambda>k. bit (f w) (bit_place k)) [0..<64] = map (\<lambda>k. bit w (bit_place k)) (flip_list t [0..<64]))"

lemma bit_beyond: "64 \<le> n \<Longrightarrow> \<not> bit (w :: u64) n"
  by (auto dest: bit_imp_le_length)

lemma SWAP1_bits: "swapped_bits SWAP1 0"
  unfolding swapped_bits_def by (simp add: upt_64 SWAP1_def bit_place_def bit_eval bit_double_iff mult.commute [of _ "2 :: u64"])

lemma SWAP2_bits: "swapped_bits SWAP2 (Suc 0)"
  unfolding swapped_bits_def by (simp add: upt_64 SWAP2_def bit_place_def bit_eval; (simp add: numeral_2_eq_2 numeral_3_eq_3)?)

lemma SWAP4_bits: "swapped_bits SWAP4 (Suc (Suc 0))"
  unfolding swapped_bits_def by (simp add: upt_64 SWAP4_def bit_place_def bit_eval; (simp add: numeral_2_eq_2 numeral_3_eq_3)?)

lemma SWAP8_bits: "swapped_bits SWAP8 (Suc (Suc (Suc 0)))"
  unfolding swapped_bits_def by (simp add: upt_64 SWAP8_def bit_place_def bit_eval; (simp add: numeral_2_eq_2 numeral_3_eq_3)?)

lemma SWAP16_bits: "swapped_bits SWAP16 (Suc (Suc (Suc (Suc 0))))"
  unfolding swapped_bits_def by (simp add: upt_64 SWAP16_def bit_place_def bit_eval; (simp add: numeral_2_eq_2 numeral_3_eq_3)?)

lemma SWAP32_bits: "swapped_bits SWAP32 (Suc (Suc (Suc (Suc (Suc 0)))))"
  unfolding swapped_bits_def by (simp add: upt_64 SWAP32_def bit_place_def bit_eval bit_beyond)

lemma nth_upt_64: "k < 64 \<Longrightarrow> [64..<128] ! k = k + 64" "k < 64 \<Longrightarrow> [0..<64] ! k = k"
  by (subst nth_upt; simp)+

lemma flipped_6:
  assumes "k < 128"
  shows "flipped 6 k = (k + 64) mod 128"
proof -
  have "flip_list 6 [0..<128] = [64..<128] @ [0..<64]" by code_simp
  then have f: "flipped 6 k = (if k < 64 then [64..<128] ! k else [0..<64] ! (k - 64))"
    by (simp only: flipped_def nth_append length_upt) simp
  show ?thesis
  proof (cases "k < 64")
    case True
    have "flipped 6 k = k + 64" using f True by (simp only: nth_upt_64 if_True)
    then show ?thesis using True by simp
  next
    case False
    have "flipped 6 k = k - 64" using f False assms by (simp only: if_False) (subst nth_upt_64(2); simp)
    then show ?thesis using False assms by (simp add: mod_if)
  qed
qed

lemma set_flip_list: "set (flip_list t q) \<subseteq> set q"
proof (induction t arbitrary: q)
  case 0
  then show ?case by (simp, induction q rule: swap_pairs.induct) auto
next
  case (Suc t)
  have i: "set (interleave as bs) \<subseteq> set as \<union> set bs" for as bs :: "'a list"
    by (induction as bs rule: interleave.induct) auto
  have "set (evens q) \<subseteq> set q \<and> set (odds q) \<subseteq> set q"
    by (induction q rule: evens.induct) auto
  moreover have "set (flip_list (Suc t) q) \<subseteq> set (flip_list t (evens q)) \<union> set (flip_list t (odds q))"
    using i by simp
  ultimately show ?case using Suc [of "evens q"] Suc [of "odds q"] by blast
qed

lemma flipped_word:
  assumes "swapped_bits f t" and "t < 6" and "k < 128"
  shows "bit (f w) (bit_place k) = bit w (bit_place (flipped t k)) \<and> flipped t k div 64 = k div 64"
proof -
  define L where "L = [0..<64::nat]"
  define F where "F = flip_list t L"
  have L: "length L = 64" "set L = {0..<64}" "\<And>j. j < 64 \<Longrightarrow> L ! j = j"
    unfolding L_def by (simp_all only: length_upt set_upt nth_upt)
  have d: "(2 :: nat) ^ Suc t dvd 2 ^ 6" using assms(2) by (intro le_imp_power_dvd) simp
  then have len: "length F = 64" by (simp add: length_flip_list F_def L)
  have "[0..<128] = L @ map (\<lambda>k. 64 + k) L"
    unfolding L_def using upt_add_eq_append [of 0 64 64] map_add_upt [of 64 64] by (simp only: add.commute) simp
  then have f: "flip_list t [0..<128] = F @ map (\<lambda>k. 64 + k) F"
    using d by (simp add: flip_list_append map_flip_list F_def L)
  have lt: "F ! j < 64" if "j < 64" for j
  proof -
    have "F ! j \<in> set F" using that len by (intro nth_mem) simp
    then have "F ! j \<in> {0..<64}" using set_flip_list [of t L] L(2) by (auto simp only: F_def)
    then show ?thesis by simp
  qed
  have w: "bit (f w) (bit_place j) = bit w (bit_place (F ! j))" if "j < 64" for j
  proof -
    have "map (\<lambda>k. bit (f w) (bit_place k)) L ! j = map (\<lambda>k. bit w (bit_place k)) F ! j"
      using assms(1) by (simp only: swapped_bits_def F_def L_def)
    then show ?thesis using that len L by simp
  qed
  have p: "bit_place (64 + j) = bit_place j" for j
  proof -
    have "(64 + j) mod 8 = j mod 8" by presburger
    then show ?thesis by (simp add: bit_place_def)
  qed
  show ?thesis
  proof (cases "k < 64")
    case False
    then obtain j where k: "k = 64 + j" "j < 64" using assms(3) by (metis add_diff_inverse_nat add_less_cancel_left numeral_Bit0)
    then have "flipped t k = 64 + F ! j" using len by (simp add: flipped_def f nth_append)
    then show ?thesis using w [OF k(2)] lt [OF k(2)] k p by (simp add: div_if)
  qed (use w [of k] lt [of k] len in \<open>simp add: flipped_def f nth_append\<close>)
qed

lemma bit_place_less: "bit_place k < 64"
proof -
  have "k mod 64 div 8 < 8" "k mod 8 < 8" by (simp_all add: less_mult_imp_div_less)
  then show ?thesis by (simp add: bit_place_def)
qed


definition jh_words :: "nat \<Rightarrow> nat \<Rightarrow> u64 list \<Rightarrow> u64 list" where
  "jh_words r i x = jh_L (jh_SS [x ! (0 + i), x ! (4 + i), x ! (8 + i), x ! (12 + i), x ! (2 + i), x ! (6 + i), x ! (10 + i), x ! (14 + i)]
     (jh_const r i) (jh_const r (i + 2)))"

lemma list_16: "length x = 16 \<Longrightarrow>
    x = [x ! 0, x ! 1, x ! 2, x ! 3, x ! 4, x ! 5, x ! 6, x ! 7, x ! 8, x ! 9, x ! 10, x ! 11, x ! 12, x ! 13, x ! 14, x ! 15]"
  by (rule nth_equalityI) (auto simp: less_Suc_eq numeral_eq_Suc)

definition jh_rows :: "(u64 \<Rightarrow> u64) \<Rightarrow> u64 list \<Rightarrow> u64 list \<Rightarrow> u64 list" where
  "jh_rows f A B = [A ! 0, B ! 0, f (A ! 4), f (B ! 4), A ! 1, B ! 1, f (A ! 5), f (B ! 5),
     A ! 2, B ! 2, f (A ! 6), f (B ! 6), A ! 3, B ! 3, f (A ! 7), f (B ! 7)]"

lemma jh_round_rows: "length x = 16 \<Longrightarrow> jh_round f r x = jh_rows f (jh_words r 0 x) (jh_words r 1 x)"
  by (subst list_16, assumption) (simp add: jh_round_def jh_column_def jh_rows_def jh_words_def Let_def)

lemma mixed_words:
  assumes "length x = 16"
  shows "mixed r x k =
    (let W = jh_words r (k div 64) x; b = bit_place k in
     (nib (bit (W ! 0) b) (bit (W ! 1) b) (bit (W ! 2) b) (bit (W ! 3) b),
      nib (bit (W ! 4) b) (bit (W ! 5) b) (bit (W ! 6) b) (bit (W ! 7) b)))"
proof -
  let ?i = "k div 64"
  let ?m = "[x ! (0 + ?i), x ! (4 + ?i), x ! (8 + ?i), x ! (12 + ?i), x ! (2 + ?i), x ! (6 + ?i), x ! (10 + ?i), x ! (14 + ?i)]"
  have b: "bit_place k < 64" by (rule bit_place_less)
  have s: "Suc (Suc (Suc (Suc n))) = 4 + n" "4 + Suc (Suc n) = 6 + n" for n by simp_all
  show ?thesis
    unfolding jh_words_def Let_def mds_bits [OF b, symmetric] sbox_even [OF b] sbox_odd [OF b]
    by (simp add: mixed_def row_nib_def row_bit_def const_bit_def add.commute s)
qed

lemma rows_nib:
  assumes "k < 128"
  shows "row_nib (jh_rows f A B) 0 k =
      (let W = if k < 64 then A else B; b = bit_place k in nib (bit (W ! 0) b) (bit (W ! 1) b) (bit (W ! 2) b) (bit (W ! 3) b))"
    and "row_nib (jh_rows f A B) 1 k =
      (let W = if k < 64 then A else B; b = bit_place k in
        nib (bit (f (W ! 4)) b) (bit (f (W ! 5)) b) (bit (f (W ! 6)) b) (bit (f (W ! 7)) b))"
  using assms by (auto simp: row_nib_def row_bit_def jh_rows_def Let_def div_if)

lemma jh_round_nibbles:
  assumes "length x = 16" and "t < 6" and "swapped_bits f t"
  shows "nibbles (Suc t) (jh_round f r x) = spec_jh_round (round_bits t r) (nibbles t x)"
proof (rule nibbles_round)
  fix k :: nat
  assume k: "k < 128"
  have d: "k div 64 = (if k < 64 then 0 else 1)" using k by (auto simp: div_if)
  have w: "bit (f w) (bit_place k) = bit w (bit_place (flipped t k))" "flipped t k div 64 = k div 64" for w
    using flipped_word [OF assms(3,2) k] by auto
  show "row_nib (jh_round f r x) 0 k = fst (mixed r x k)"
    using k by (simp add: jh_round_rows rows_nib mixed_words assms(1) Let_def d del: One_nat_def)
  show "row_nib (jh_round f r x) 1 k = snd (mixed r x (flipped t k))"
    using k by (simp add: jh_round_rows rows_nib mixed_words assms(1) w Let_def d del: One_nat_def)
qed (use assms in simp)

lemma length_jh_round [simp]: "length x = 16 \<Longrightarrow> length (jh_round f r x) = 16"
  by (simp add: jh_round_rows jh_rows_def)

text \<open>The seventh round exchanges the words of the odd rows instead.\<close>

definition exchange :: "u64 list \<Rightarrow> u64 list \<Rightarrow> u64 list" where
  "exchange A B = [A ! 0, B ! 0, B ! 4, A ! 4, A ! 1, B ! 1, B ! 5, A ! 5, A ! 2, B ! 2, B ! 6, A ! 6, A ! 3, B ! 3, B ! 7, A ! 7]"

lemma swap_columns_rows: "swap_columns (jh_rows (\<lambda>w. w) A B) = exchange A B"
  by (simp add: swap_columns_def jh_rows_def exchange_def)

lemma exchange_nib:
  assumes "k < 128"
  shows "row_nib (exchange A B) 0 k =
      (let W = if k < 64 then A else B; b = bit_place k in nib (bit (W ! 0) b) (bit (W ! 1) b) (bit (W ! 2) b) (bit (W ! 3) b))"
    and "row_nib (exchange A B) 1 k =
      (let W = if k < 64 then B else A; b = bit_place k in nib (bit (W ! 4) b) (bit (W ! 5) b) (bit (W ! 6) b) (bit (W ! 7) b))"
  using assms by (auto simp: row_nib_def row_bit_def exchange_def Let_def div_if)

lemma jh_last_nibbles:
  assumes "length x = 16"
  shows "nibbles 7 (swap_columns (jh_round (\<lambda>w. w) r x)) = spec_jh_round (round_bits 6 r) (nibbles 6 x)"
proof -
  let ?y = "swap_columns (jh_round (\<lambda>w. w) r x)"
  have y: "?y = exchange (jh_words r 0 x) (jh_words r 1 x)"
    by (simp only: jh_round_rows [OF assms] swap_columns_rows)
  have "nibbles (Suc 6) ?y = spec_jh_round (round_bits 6 r) (nibbles 6 x)"
  proof (rule nibbles_round)
    fix k :: nat
    assume k: "k < 128"
    have d: "k div 64 = (if k < 64 then 0 else 1)" using k by (auto simp: div_if)
    have f: "flipped 6 k div 64 = (if k < 64 then 1 else 0)" using k by (auto simp: flipped_6 div_if mod_if)
    have "(k + 64) mod 8 = k mod 8" by presburger
    then have b: "bit_place (flipped 6 k) = bit_place k" using k by (simp add: bit_place_def flipped_6 mod_mod_cancel)
    show "row_nib ?y 0 k = fst (mixed r x k)"
      using k by (simp add: y exchange_nib mixed_words assms(1) Let_def d del: One_nat_def)
    show "row_nib ?y 1 k = snd (mixed r x (flipped 6 k))"
      using k by (simp add: y exchange_nib mixed_words assms(1) Let_def f b del: One_nat_def)
  qed simp
  then show ?thesis by simp
qed

lemma place_7: "place 7 = place 0"
  unfolding place_def by (simp only: unshuffle_7 funpow_0)

definition jh_seven :: "nat \<Rightarrow> u64 list \<Rightarrow> u64 list" where
  "jh_seven n x = swap_columns (jh_round (\<lambda>w. w) (n + 6) (jh_round SWAP32 (n + 5) (jh_round SWAP16 (n + 4)
     (jh_round SWAP8 (n + 3) (jh_round SWAP4 (n + 2) (jh_round SWAP2 (n + 1) (jh_round SWAP1 (n + 0) x)))))))"

lemma E8_sevens: "E8 x = fold jh_seven [0, 7, 14, 21, 28, 35] x"
  unfolding E8_def jh_seven_def Let_def ..

definition code_round :: "nat \<Rightarrow> nat list \<Rightarrow> nat list" where
  "code_round r = spec_jh_round (round_bits (r mod 7) r)"

lemma jh_seven_nibbles:
  assumes "length x = 16"
  shows "nibbles 0 (jh_seven (7 * k) x) = fold code_round [7 * k..<7 * k + 7] (nibbles 0 x)"
proof -
  have n: "nibbles 0 y = nibbles 7 y" for y by (simp only: nibbles_def place_7)
  have u: "[7 * k..<7 * k + 7] = [7 * k + 0, 7 * k + 1, 7 * k + 2, 7 * k + 3, 7 * k + 4, 7 * k + 5, 7 * k + 6]"
    by (simp add: upt_rec)
  have r: "nibbles 1 (jh_round SWAP1 n y) = spec_jh_round (round_bits 0 n) (nibbles 0 y)"
    "nibbles 2 (jh_round SWAP2 n y) = spec_jh_round (round_bits 1 n) (nibbles 1 y)"
    "nibbles 3 (jh_round SWAP4 n y) = spec_jh_round (round_bits 2 n) (nibbles 2 y)"
    "nibbles 4 (jh_round SWAP8 n y) = spec_jh_round (round_bits 3 n) (nibbles 3 y)"
    "nibbles 5 (jh_round SWAP16 n y) = spec_jh_round (round_bits 4 n) (nibbles 4 y)"
    "nibbles 6 (jh_round SWAP32 n y) = spec_jh_round (round_bits 5 n) (nibbles 5 y)"
    if "length y = 16" for n y
    using that jh_round_nibbles [of y _ SWAP1 n] jh_round_nibbles [of y _ SWAP2 n] jh_round_nibbles [of y _ SWAP4 n]
      jh_round_nibbles [of y _ SWAP8 n] jh_round_nibbles [of y _ SWAP16 n] jh_round_nibbles [of y _ SWAP32 n]
      SWAP1_bits SWAP2_bits SWAP4_bits SWAP8_bits SWAP16_bits SWAP32_bits
    by (simp_all add: eval_nat_numeral)
  have m: "code_round (7 * k + j) = spec_jh_round (round_bits j (7 * k + j))" if "j < 7" for j
    using that by (simp add: code_round_def)
  show ?thesis
    unfolding u n [of "jh_seven (7 * k) x"]
    by (simp only: jh_seven_def jh_last_nibbles r assms length_jh_round m fold.simps comp_apply id_apply numeral_less_iff zero_less_numeral
        one_less_numeral_iff rel_simps)
qed

lemma length_swap_columns [simp]: "length (swap_columns x) = length x"
  by (simp add: swap_columns_def)

lemma length_jh_seven [simp]: "length x = 16 \<Longrightarrow> length (jh_seven n x) = 16"
  unfolding jh_seven_def by simp

lemma E8_rounds:
  assumes "length x = 16"
  shows "nibbles 0 (E8 x) = fold code_round [0..<42] (nibbles 0 x) \<and> length (E8 x) = 16"
proof -
  have "[0..<42] = concat (map (\<lambda>k. [7 * k..<7 * k + 7]) [0, 1, 2, 3, 4, 5 :: nat])" by (simp add: upt_rec)
  then show ?thesis
    using assms jh_seven_nibbles [of _ 0] jh_seven_nibbles [of _ 1] jh_seven_nibbles [of _ 2] jh_seven_nibbles [of _ 3]
      jh_seven_nibbles [of _ 4] jh_seven_nibbles [of _ 5]
    by (simp add: E8_sevens)
qed

end
