(* ===== verification/JhConsts.thy ===== *)
theory JhConsts
  imports JhSpec
begin

text \<open>
  The table of round constants of \<^verbatim>\<open>jh.c\<close>: each row is the constant of the specification, its bits in the
  places where the bit-sliced round finds them.
\<close>

section \<open>Nibbles as four bits\<close>

type_synonym quad = "bool \<times> bool \<times> bool \<times> bool"

definition quad_nib :: "quad \<Rightarrow> nat" where
  "quad_nib q = (case q of (a, b, c, d) \<Rightarrow> nib a b c d)"

definition quad_S0 :: "quad \<Rightarrow> quad" where
  "quad_S0 q = (case q of (a, b, c, d) \<Rightarrow>
     if a then (if b then (if c then (if d then (True, True, True, False) else (True, False, False, False))
                           else (if d then (False, True, False, True) else (False, True, True, True)))
                else (if c then (if d then (False, True, True, False) else (False, False, True, False))
                      else (if d then (True, False, True, False) else (False, False, False, True))))
     else (if b then (if c then (if d then (True, True, True, True) else (False, False, True, True))
                      else (if d then (True, True, False, False) else (True, True, False, True)))
           else (if c then (if d then (True, False, True, True) else (False, True, False, False))
                 else (if d then (False, False, False, False) else (True, False, False, True)))))"

fun quad_layers :: "quad list \<Rightarrow> quad list" where
  "quad_layers (p # q # r) =
    (case quad_S0 p of (a0, a1, a2, a3) \<Rightarrow> case quad_S0 q of (b0, b1, b2, b3) \<Rightarrow>
       let d0 = (b0 \<noteq> a1); d1 = (b1 \<noteq> a2); d2 = (b2 \<noteq> (a3 \<noteq> a0)); d3 = (b3 \<noteq> a0)
       in (a0 \<noteq> d1, a1 \<noteq> d2, a2 \<noteq> (d3 \<noteq> d0), a3 \<noteq> d0) # (d0, d1, d2, d3) # quad_layers r)"
| "quad_layers r = []"

definition quad_round :: "quad list \<Rightarrow> quad list" where
  "quad_round q = jh_P (quad_layers q)"

fun quad_bits :: "quad list \<Rightarrow> bool list" where
  "quad_bits ((a, b, c, d) # q) = a # b # c # d # quad_bits q"
| "quad_bits [] = []"

lemma nib_bits: "nibble_bits [nib a b c d] = [a, b, c, d]"
  by (cases a; cases b; cases c; cases d; simp add: nib_def nibble_bits_def)

lemma quad_nib_bits: "nibble_bits (map quad_nib q) = quad_bits q"
proof (induction q rule: quad_bits.induct)
  case (1 a b c d q)
  then show ?case using nib_bits [of a b c d] by (simp add: nibble_bits_def quad_nib_def)
qed (simp add: nibble_bits_def)

lemma quad_nib_S0: "jh_sbox False (quad_nib q) = quad_nib (quad_S0 q)"
  by (cases q; simp add: jh_sbox_def quad_nib_def quad_S0_def nib_def jh_S0_def)

lemma map2_sbox_zeros: "length q \<le> n \<Longrightarrow> map2 jh_sbox (replicate n False) q = map (jh_sbox False) q"
proof (induction q arbitrary: n)
  case (Cons a q)
  then show ?case by (cases n) simp_all
qed simp

lemma quad_nib_layers: "even (length q) \<Longrightarrow> mds_layer (map (jh_sbox False) (map quad_nib q)) = map quad_nib (quad_layers q)"
proof (induction q rule: quad_layers.induct)
  case (1 p q r)
  obtain a0 a1 a2 a3 where p: "quad_S0 p = (a0, a1, a2, a3)" by (cases "quad_S0 p")
  obtain b0 b1 b2 b3 where q: "quad_S0 q = (b0, b1, b2, b3)" by (cases "quad_S0 q")
  show ?case using 1
    by (simp add: p q quad_nib_S0 jh_mds_def Let_def) (simp add: quad_nib_def nib_double nib_xor)
qed simp_all

lemma map_jh_P: "jh_P (map f q) = map f (jh_P q)"
proof -
  have "pi_places (map f q) = map f (pi_places q)" by (induction q rule: pi_places.induct) simp_all
  then show ?thesis by (simp add: jh_P_def Let_def map_evens)
qed

lemma quad_nib_round:
  assumes "length q = 64"
  shows "spec_jh_round (replicate 64 False) (map quad_nib q) = map quad_nib (quad_round q)"
  using assms by (simp add: spec_jh_round_def map2_sbox_zeros quad_nib_layers map_jh_P quad_round_def del: map_map)

lemma length_quad_round: "length q = 64 \<Longrightarrow> length (quad_round q) = 64"
proof -
  have l: "even (length q) \<Longrightarrow> length (quad_layers q) = length q" for q
    by (induction q rule: quad_layers.induct) (auto simp: Let_def split: prod.split)
  have p: "length (pi_places q) = length q" for q :: "quad list" by (induction q rule: pi_places.induct) simp_all
  assume "length q = 64"
  then have "length (pi_places (quad_layers q)) = 64" by (simp add: l p)
  then show ?thesis using length_evens [of "pi_places (quad_layers q)"] by (simp add: quad_round_def jh_P_def Let_def)
qed

definition quad_root :: "quad list" where
  "quad_root = map (\<lambda>n. (n div 8 mod 2 = 1, n div 4 mod 2 = 1, n div 2 mod 2 = 1, n mod 2 = 1)) root_2"

lemma quad_const: "spec_const r = map quad_nib ((quad_round ^^ r) quad_root) \<and> length ((quad_round ^^ r) quad_root) = 64"
proof (induction r)
  case 0
  show ?case by (simp add: quad_root_def root_2_def quad_nib_def nib_def)
qed (simp add: quad_nib_round length_quad_round)

section \<open>The rows of the table\<close>

fun num_bits :: "nat \<Rightarrow> num \<Rightarrow> bool list \<Rightarrow> bool list" where
  "num_bits 0 n acc = acc"
| "num_bits (Suc k) num.One acc = num_bits 0 num.One (replicate k False @ True # acc)"
| "num_bits (Suc k) (num.Bit0 n) acc = num_bits k n (False # acc)"
| "num_bits (Suc k) (num.Bit1 n) acc = num_bits k n (True # acc)"

definition byte_bits :: "byte \<Rightarrow> bool list" where
  "byte_bits b = [bit b 7, bit b 6, bit b 5, bit b 4, bit b 3, bit b 2, bit b 1, bit b 0]"

definition row_bits :: "byte list \<Rightarrow> bool list" where
  "row_bits bs = concat (map byte_bits bs)"

lemma row_bits_Cons: "row_bits (b # bs) = byte_bits b @ row_bits bs" and length_byte_bits: "length (byte_bits b) = 8"
  by (simp_all add: row_bits_def byte_bits_def)

lemma nth_row_bits: "k < 8 * length bs \<Longrightarrow> row_bits bs ! k = bit (bs ! (k div 8)) (7 - k mod 8)"
proof (induction bs arbitrary: k)
  case (Cons b bs)
  show ?case
  proof (cases "k < 8")
    case True
    then have "k = 0 \<or> k = 1 \<or> k = 2 \<or> k = 3 \<or> k = 4 \<or> k = 5 \<or> k = 6 \<or> k = 7" by presburger
    then show ?thesis by (auto simp: row_bits_def byte_bits_def)
  next
    case False
    then obtain j where k: "k = 8 + j" using le_Suc_ex [of 8 k] by auto
    have "row_bits (b # bs) ! k = row_bits bs ! j" by (simp add: row_bits_Cons nth_append length_byte_bits k)
    moreover have "(8 + j) div 8 = Suc (j div 8)" by simp
    ultimately show ?thesis using Cons.IH [of j] Cons.prems by (simp add: k)
  qed
qed simp

lemma length_row_bits [simp]: "length (row_bits bs) = 8 * length bs"
  by (induction bs) (simp_all add: row_bits_def byte_bits_def)

lemma bit_mem_word:
  fixes bs :: "byte list"
  assumes "k < 64" and "8 * w + 8 \<le> length bs"
  shows "bit (join_le (mem_slice bs (8 * w) 8) :: u64) (bit_place k) = bit (bs ! (8 * w + k div 8)) (7 - k mod 8)"
proof -
  define c where "c = 7 - k mod 8"
  have "c < 8" by (simp add: c_def)
  moreover have "bit_place k = 8 * (k div 8) + c" using assms(1) by (simp add: bit_place_def c_def)
  ultimately have "bit_place k div 8 = k div 8" "bit_place k mod 8 = c" by simp_all
  moreover have "k div 8 < 8" using assms(1) by (simp add: less_mult_imp_div_less)
  ultimately show ?thesis using assms bit_place_less [of k] by (simp add: bit_join_le c_def)
qed

lemma length_table: "r < 42 \<Longrightarrow> length (E8_bitslice_roundconstant ! r) = 32"
proof -
  have "\<forall>row \<in> set E8_bitslice_roundconstant. length row = 32" "length E8_bitslice_roundconstant = 42"
    unfolding E8_bitslice_roundconstant_def by simp_all
  then show "r < 42 \<Longrightarrow> length (E8_bitslice_roundconstant ! r) = 32" by simp
qed

lemma bit_mem_row:
  fixes bs :: "byte list"
  assumes "k < 128" and "16 * r + 16 \<le> length bs"
  shows "bit (join_le (mem_slice bs (8 * (2 * r + k div 64)) 8) :: u64) (bit_place k) =
    bit (bs ! ((128 * r + k) div 8)) (7 - (128 * r + k) mod 8)"
proof -
  define i j where "i = k div 64" and "j = k mod 64"
  have k: "k = 64 * i + j" "i < 2" "j < 64" using assms(1) by (simp_all add: i_def j_def less_mult_imp_div_less)
  have "bit_place k = bit_place j" by (simp add: bit_place_def j_def mod_mod_cancel)
  then have "bit (join_le (mem_slice bs (8 * (2 * r + k div 64)) 8) :: u64) (bit_place k) =
      bit (join_le (mem_slice bs (8 * (2 * r + i)) 8) :: u64) (bit_place j)"
    by (simp only: i_def)
  also have "\<dots> = bit (bs ! (8 * (2 * r + i) + j div 8)) (7 - j mod 8)"
    using assms k by (intro bit_mem_word) simp_all
  also have "8 * (2 * r + i) + j div 8 = (8 * (8 * (2 * r + i)) + j) div 8" by simp
  also have "j mod 8 = (8 * (8 * (2 * r + i)) + j) mod 8" by (rule mod_mult_self4 [symmetric])
  also have "8 * (8 * (2 * r + i)) + j = 128 * r + k" by (simp add: k(1))
  finally show ?thesis .
qed

lemma const_bit_row:
  assumes "k < 128" and "r < 42" and "p < 2"
  shows "const_bit r p k = row_bits (E8_bitslice_roundconstant ! r) ! (128 * p + k)"
  using assms bit_mem_row [of k p "E8_bitslice_roundconstant ! r"]
  by (simp only: const_bit_def jh_const_def) (simp add: nth_row_bits length_table)

text \<open>The check walks down the rows with the constants of the specification beside it.\<close>

fun consts_ok :: "nat \<Rightarrow> bool list list list \<Rightarrow> quad list \<Rightarrow> bool" where
  "consts_ok t [] q \<longleftrightarrow> True"
| "consts_ok t (b # bs) q \<longleftrightarrow>
    interleave ((unshuffle ^^ t) (concat (take 16 b))) ((unshuffle ^^ t) (concat (drop 16 b))) = quad_bits q \<and>
    consts_ok (if t = 6 then 0 else Suc t) bs (quad_round q)"

lemma round_bits_row:
  assumes "r < 42"
  defines "b \<equiv> map byte_bits (E8_bitslice_roundconstant ! r)"
  shows "round_bits t r = interleave ((unshuffle ^^ t) (concat (take 16 b))) ((unshuffle ^^ t) (concat (drop 16 b)))"
proof -
  let ?row = "E8_bitslice_roundconstant ! r"
  have len: "length ?row = 32" by (rule length_table [OF assms(1)])
  have half: "concat (take 16 b) = row_bits (take 16 ?row)" "concat (drop 16 b) = row_bits (drop 16 ?row)"
    by (simp_all add: b_def row_bits_def take_map drop_map)
  have row: "row_bits ?row = row_bits (take 16 ?row) @ row_bits (drop 16 ?row)"
    by (simp only: row_bits_def concat_append [symmetric] map_append [symmetric] append_take_drop_id)
  have c: "map (const_bit r p) [0..<128] = row_bits (if p = 0 then take 16 ?row else drop 16 ?row)" if "p < 2" for p
  proof (rule nth_equalityI)
    fix k assume "k < length (map (const_bit r p) [0..<128])"
    then have k: "k < 128" by simp
    then show "map (const_bit r p) [0..<128] ! k = row_bits (if p = 0 then take 16 ?row else drop 16 ?row) ! k"
    proof -
      have "map (const_bit r p) [0..<128] ! k = const_bit r p k" using k by (subst nth_map; simp)
      also have "\<dots> = row_bits ?row ! (128 * p + k)" using k that assms(1) by (simp add: const_bit_row)
      also have "\<dots> = row_bits (if p = 0 then take 16 ?row else drop 16 ?row) ! k"
      proof -
        have "p = 0 \<or> p = 1" using that by auto
        then show ?thesis using k by (elim disjE) (simp_all add: row nth_append len)
      qed
      finally show ?thesis .
    qed
  qed (use len in simp)
  have "map (const_bit r p) (place t) = (unshuffle ^^ t) (map (const_bit r p) [0..<128])" for p
    by (simp only: place_def map_unshuffles)
  then show ?thesis by (simp only: round_bits_def half c [of 0] c [of 1]) simp
qed

lemma consts_ok_nth:
  assumes "consts_ok t (map (map byte_bits) rows) q" and "i < length rows" and "t < 7"
  shows "let b = map byte_bits (rows ! i); s = (t + i) mod 7 in
    interleave ((unshuffle ^^ s) (concat (take 16 b))) ((unshuffle ^^ s) (concat (drop 16 b))) = quad_bits ((quad_round ^^ i) q)"
  using assms
proof (induction rows arbitrary: t q i)
  case (Cons row rows)
  show ?case
  proof (cases i)
    case 0
    then show ?thesis using Cons.prems by (simp add: Let_def)
  next
    case (Suc j)
    let ?t = "if t = 6 then 0 else Suc t"
    have "(?t + j) mod 7 = (t + i) mod 7" using Suc by (auto simp: mod_add_self1)
    moreover have "?t < 7" using Cons.prems by auto
    ultimately show ?thesis using Cons.IH [of ?t "quad_round q" j] Cons.prems Suc by (simp add: funpow_swap1 Let_def)
  qed
qed simp

lemma byte_bits_num:
  "byte_bits (numeral n) = num_bits 8 n []" "byte_bits 0 = replicate 8 False" "byte_bits 1 = num_bits 8 num.One []"
proof -
  have n: "num_bits k n acc = rev (map (bit (numeral n :: int)) [0..<k]) @ acc" for k n acc
  proof (induction k n acc rule: num_bits.induct)
    case (2 k acc)
    have "rev (map (bit (1 :: int)) [0..<Suc k]) = replicate k False @ [True]"
      by (simp add: map_upt_Suc bit_1_iff bit_0 map_replicate_const del: upt_Suc)
    then show ?case by simp
  qed (simp_all add: map_upt_Suc bit_numeral_rec comp_def del: upt_Suc)
  show "byte_bits (numeral n) = num_bits 8 n []"
    by (simp add: n byte_bits_def upt_rec bit_numeral_word_iff) (simp add: eval_nat_numeral)
  show "byte_bits 0 = replicate 8 False" by (simp add: byte_bits_def eval_nat_numeral)
  show "byte_bits 1 = num_bits 8 num.One []" by (simp add: n byte_bits_def upt_rec bit_1_iff)
qed

lemma consts_table: "consts_ok 0 (map (map byte_bits) E8_bitslice_roundconstant) quad_root"
  unfolding E8_bitslice_roundconstant_def list.map byte_bits_num
  by code_simp

end
