(* ===== verification/JhTables.thy ===== *)
theory JhTables
  imports JhConsts
begin

unbundle bit_operations_syntax

text \<open>
  The compression of JH and its initial values.  \<^verbatim>\<open>jh.c\<close> holds the initial values in four tables; the
  specification computes them from the length of the digest, and they are recomputed here on nibbles kept as four bits.
\<close>

section \<open>Nibbles and bytes\<close>

lemma nib_div:
  "nib a b c d div 8 mod 2 = Suc 0 \<longleftrightarrow> a" "nib a b c d div 4 mod 2 = Suc 0 \<longleftrightarrow> b"
  "nib a b c d div 2 mod 2 = Suc 0 \<longleftrightarrow> c" "nib a b c d mod 2 = Suc 0 \<longleftrightarrow> d"
  by (cases a; cases b; cases c; cases d; simp add: nib_def)+

lemma group_bit_group:
  assumes "i < 1024"
  shows "group_bit (jh_group bs) i = byte_bit bs i"
proof -
  define a c where "a = i mod 256" and "c = i div 256"
  have i: "i = 256 * c + a" "a < 256" "c < 4" using assms by (simp_all add: a_def c_def less_mult_imp_div_less)
  define j where "j = 2 * (a mod 128) + a div 128"
  have "i mod 128 = a mod 128" by (simp add: a_def mod_mod_cancel)
  moreover have "i div 128 mod 2 = a div 128"
  proof -
    have "(2 * 128 * c + a) div 128 = 2 * c + a div 128" by simp
    moreover have "a div 128 < 2" using i(2) by (simp add: less_mult_imp_div_less)
    ultimately show ?thesis by (simp add: i(1))
  qed
  ultimately have g: "group_bit q i \<longleftrightarrow> q ! j div 2 ^ (3 - c) mod 2 = 1" for q
    by (simp add: group_bit_def j_def c_def)
  have d: "a div 128 < 2" using i(2) by (simp add: less_mult_imp_div_less)
  then have "j < 256" "j div 2 + 128 * (j mod 2) = a" by (simp_all add: j_def)
  then have q: "jh_group bs ! j = nib (byte_bit bs a) (byte_bit bs (a + 256)) (byte_bit bs (a + 512)) (byte_bit bs (a + 768))"
    by (subst jh_group_def, subst nth_map) (simp_all add: Let_def)
  have "c = 0 \<or> c = 1 \<or> c = 2 \<or> c = 3" using i(3) by linarith
  then show ?thesis unfolding g q using i(1) by (elim disjE) (simp_all add: nib_div add.commute flip: numeral_2_eq_2)
qed

lemma byte_of_bits: "foldl (\<lambda>b k. 2 * b + of_bool (bit w (7 - k))) 0 [0..<8] = (w :: byte)"
proof -
  have "horner_sum of_bool 2 (map (bit w) [0..<8]) = w" by (simp add: horner_sum_bit_eq_take_bit take_bit_word_eq_self)
  then show ?thesis by (simp add: upt_rec eval_nat_numeral algebra_simps)
qed

lemma jh_degroup_group: "length bs = 128 \<Longrightarrow> jh_degroup (jh_group bs) = bs"
proof (rule nth_equalityI)
  assume len: "length bs = 128"
  then show "length (jh_degroup (jh_group bs)) = length bs" by (simp add: jh_degroup_def)
  fix n
  assume "n < length (jh_degroup (jh_group bs))"
  then have n: "n < 128" by (simp add: jh_degroup_def)
  have "foldl (\<lambda>b k. 2 * b + of_bool (group_bit (jh_group bs) (8 * n + k))) (0 :: byte) [0..<8] =
      foldl (\<lambda>b k. 2 * b + of_bool (bit (bs ! n) (7 - k))) 0 [0..<8]"
    using n by (intro foldl_cong refl) (simp add: group_bit_group byte_bit_def)
  then show "jh_degroup (jh_group bs) ! n = bs ! n"
    using n by (subst jh_degroup_def, subst nth_map) (simp_all add: byte_of_bits)
qed

section \<open>The compression and the initial values\<close>

definition jh_compress :: "byte list \<Rightarrow> byte list \<Rightarrow> byte list" where
  "jh_compress H m = (let y = spec_E8 (xor_list (take 64 H) m @ drop 64 H) in take 64 y @ xor_list (drop 64 y) m)"

text \<open>The initial value is the compression of a block of zeros with the length of the digest in two bytes.\<close>

definition jh_start :: "nat \<Rightarrow> byte list" where
  "jh_start len = of_nat (len div 256) # of_nat (len mod 256) # replicate 126 0"

definition jh_IV :: "nat \<Rightarrow> byte list" where
  "jh_IV len = jh_compress (jh_start len) (replicate 64 0)"

lemma xor_list_zeros: "length x = n \<Longrightarrow> xor_list x (replicate n 0) = (x :: byte list)"
  by (induction x arbitrary: n) (auto simp: xor_list_def)

lemma length_spec_E8 [simp]: "length (spec_E8 bs) = 128"
  by (simp add: spec_E8_def jh_degroup_def)

lemma length_jh_start [simp]: "length (jh_start len) = 128"
  by (simp add: jh_start_def)

lemma jh_IV_E8: "jh_IV len = spec_E8 (jh_start len)"
  by (simp add: jh_IV_def jh_compress_def Let_def xor_list_zeros)

lemma length_jh_IV [simp]: "length (jh_IV len) = 128"
  by (simp add: jh_IV_E8)

text \<open>The constant the round constants start from: 256 binary digits of the fraction of the root of 2.\<close>

lemma root_2_digits:
  "let r = foldl (\<lambda>v d. 16 * v + d) 0 root_2 in (2 ^ 256 + r) ^ 2 < 2 * (2 ^ 256) ^ 2 \<and> 2 * (2 ^ 256) ^ 2 < (2 ^ 256 + r + 1) ^ 2"
  by (simp add: root_2_def Let_def)

section \<open>Rounds on nibbles as four bits\<close>

definition quad_S1 :: "quad \<Rightarrow> quad" where
  "quad_S1 q = (case q of (a, b, c, d) \<Rightarrow>
     if a then (if b then (if c then (if d then (True, False, False, False) else (True, True, True, False))
                           else (if d then (True, False, True, False) else (True, False, True, True)))
                else (if c then (if d then (False, True, False, False) else (False, False, False, False))
                      else (if d then (False, False, True, False) else (True, True, True, True))))
     else (if b then (if c then (if d then (True, False, False, True) else (False, False, False, True))
                      else (if d then (False, True, True, True) else (False, True, False, True)))
           else (if c then (if d then (True, True, False, True) else (False, True, True, False))
                 else (if d then (True, True, False, False) else (False, False, True, True)))))"

definition quad_sub :: "bool \<Rightarrow> quad \<Rightarrow> quad" where
  "quad_sub c q = (if c then quad_S1 q else quad_S0 q)"

text \<open>The two results of the MDS code.\<close>

fun quad_fst :: "quad \<Rightarrow> quad \<Rightarrow> quad" where
  "quad_fst (a0, a1, a2, a3) (b0, b1, b2, b3) =
    (a0 \<noteq> (b1 \<noteq> a2), a1 \<noteq> (b2 \<noteq> (a3 \<noteq> a0)), a2 \<noteq> ((b3 \<noteq> a0) \<noteq> (b0 \<noteq> a1)), a3 \<noteq> (b0 \<noteq> a1))"

fun quad_snd :: "quad \<Rightarrow> quad \<Rightarrow> quad" where
  "quad_snd (a0, a1, a2, a3) (b0, b1, b2, b3) = (b0 \<noteq> a1, b1 \<noteq> a2, b2 \<noteq> (a3 \<noteq> a0), b3 \<noteq> a0)"

fun quad_subs :: "bool list \<Rightarrow> quad list \<Rightarrow> quad list" where
  "quad_subs (c # d # cs) (p # q # r) =
    quad_fst (quad_sub c p) (quad_sub d q) # quad_snd (quad_sub c p) (quad_sub d q) # quad_subs cs r"
| "quad_subs cs q = []"

lemma quad_nib_sub: "jh_sbox c (quad_nib q) = quad_nib (quad_sub c q)"
  by (cases c; cases q; simp add: jh_sbox_def quad_nib_def quad_sub_def quad_S0_def quad_S1_def nib_def jh_S0_def jh_S1_def)

lemma quad_nib_mds: "jh_mds (quad_nib p) (quad_nib q) = (quad_nib (quad_fst p q), quad_nib (quad_snd p q))"
  by (cases p; cases q; simp add: jh_mds_def Let_def quad_nib_def nib_double nib_xor)

lemma quad_nib_subs:
  "length cs = length q \<Longrightarrow> even (length q) \<Longrightarrow> mds_layer (map2 jh_sbox cs (map quad_nib q)) = map quad_nib (quad_subs cs q)"
  by (induction cs q rule: quad_subs.induct) (auto simp: length_Suc_conv quad_nib_sub quad_nib_mds)

lemma length_quad_subs: "length cs = length q \<Longrightarrow> even (length q) \<Longrightarrow> length (quad_subs cs q) = length q"
  by (induction cs q rule: quad_subs.induct) (auto simp: length_Suc_conv)

lemma quad_layers_subs: "quad_layers (p # q # r) =
  quad_fst (quad_sub False p) (quad_sub False q) # quad_snd (quad_sub False p) (quad_sub False q) # quad_layers r"
  by (cases "quad_S0 p"; cases "quad_S0 q"; simp add: quad_sub_def Let_def)

text \<open>The rounds, with the constant of each beside the state.\<close>

fun quad_rounds :: "nat \<Rightarrow> quad list \<Rightarrow> quad list \<Rightarrow> quad list" where
  "quad_rounds 0 c q = q"
| "quad_rounds (Suc n) c q = quad_rounds n (quad_round c) (jh_P (quad_subs (quad_bits c) q))"

lemma length_quad_bits: "length (quad_bits q) = 4 * length q"
  by (induction q rule: quad_bits.induct) simp_all

lemma length_jh_P: "4 dvd length q \<Longrightarrow> length (jh_P q) = length q"
proof -
  have "length (pi_places q) = length q" by (induction q rule: pi_places.induct) simp_all
  moreover assume "4 dvd length q"
  then have "even (length q)" by (rule dvd_trans [rotated]) simp
  ultimately show ?thesis using length_evens [of "pi_places q"] by (auto simp: jh_P_def Let_def elim: evenE)
qed

lemma quad_rounds_spec:
  assumes "length q = 256"
  shows "fold (\<lambda>r. spec_jh_round (nibble_bits (spec_const r))) [k..<k + n] (map quad_nib q) =
    map quad_nib (quad_rounds n ((quad_round ^^ k) quad_root) q)"
  using assms
proof (induction n arbitrary: k q)
  case (Suc n)
  let ?c = "quad_bits ((quad_round ^^ k) quad_root)" and ?q = "jh_P (quad_subs (quad_bits ((quad_round ^^ k) quad_root)) q)"
  have c: "nibble_bits (spec_const k) = ?c" "length ?c = 256"
    using quad_const [of k] by (simp_all add: quad_nib_bits length_quad_bits)
  have "length ?q = 256" using Suc.prems c(2) by (simp add: length_jh_P length_quad_subs)
  moreover have "spec_jh_round (nibble_bits (spec_const k)) (map quad_nib q) = map quad_nib ?q"
    using Suc.prems c by (simp add: spec_jh_round_def quad_nib_subs map_jh_P del: map_map)
  moreover have "[k..<k + Suc n] = k # [Suc k..<Suc k + n]" by (simp add: upt_rec)
  ultimately show ?case using Suc.IH [of ?q "Suc k"] by simp
qed simp

section \<open>The nibbles of a string of bytes\<close>

fun quad_rows :: "bool list \<Rightarrow> bool list \<Rightarrow> bool list \<Rightarrow> bool list \<Rightarrow> quad list" where
  "quad_rows (a # as) (b # bs) (c # cs) (d # ds) = (a, b, c, d) # quad_rows as bs cs ds"
| "quad_rows as bs cs ds = []"

definition quad_row :: "bool list list \<Rightarrow> nat \<Rightarrow> bool list" where
  "quad_row x r = concat (take 16 (drop (16 * r) x))"

definition quad_group :: "bool list list \<Rightarrow> quad list" where
  "quad_group x = interleave (quad_rows (quad_row x 0) (quad_row x 2) (quad_row x 4) (quad_row x 6))
    (quad_rows (quad_row x 1) (quad_row x 3) (quad_row x 5) (quad_row x 7))"

lemma quad_rows_map: "quad_rows (map f xs) (map g xs) (map h xs) (map l xs) = map (\<lambda>x. (f x, g x, h x, l x)) xs"
  by (induction xs) simp_all

lemma quad_row_bits:
  assumes "length bs = 128" and "r < 8"
  shows "quad_row (map byte_bits bs) r = map (\<lambda>k. byte_bit bs (128 * r + k)) [0..<128]"
proof (rule nth_equalityI)
  have row: "quad_row (map byte_bits bs) r = row_bits (take 16 (drop (16 * r) bs))"
    by (simp add: quad_row_def row_bits_def take_map drop_map)
  show "length (quad_row (map byte_bits bs) r) = length (map (\<lambda>k. byte_bit bs (128 * r + k)) [0..<128])"
    using assms by (simp add: row)
  fix k assume "k < length (quad_row (map byte_bits bs) r)"
  then have k: "k < 128" using assms by (simp add: row)
  then have k8: "k div 8 < 16" by (simp add: less_mult_imp_div_less)
  have "(128 * r + k) div 8 = 16 * r + k div 8" "(128 * r + k) mod 8 = k mod 8"
    using div_mult_self2 [of 8 k "16 * r"] mod_mult_self2 [of k 8 "16 * r"] by (simp_all add: algebra_simps)
  then show "quad_row (map byte_bits bs) r ! k = map (\<lambda>k. byte_bit bs (128 * r + k)) [0..<128] ! k"
    using assms k k8 by (simp add: row nth_row_bits byte_bit_def)
qed

lemma interleave_upt: "interleave (map f [0..<n]) (map g [0..<n]) = map (\<lambda>j. if even j then f (j div 2) else g (j div 2)) [0..<2 * n]"
  by (induction n) (simp_all add: interleave_append)

lemma quad_group_bytes:
  assumes "length bs = 128"
  shows "jh_group bs = map quad_nib (quad_group (map byte_bits bs))" and "length (quad_group (map byte_bits bs)) = 256"
proof -
  let ?f = "\<lambda>p k. (byte_bit bs (k + 128 * p), byte_bit bs (k + 128 * p + 256), byte_bit bs (k + 128 * p + 512), byte_bit bs (k + 128 * p + 768))"
  have "quad_group (map byte_bits bs) = interleave (map (?f 0) [0..<128]) (map (?f 1) [0..<128])"
    using assms by (simp add: quad_group_def quad_row_bits quad_rows_map add.commute)
  then have g: "quad_group (map byte_bits bs) = map (\<lambda>j. if even j then ?f 0 (j div 2) else ?f 1 (j div 2)) [0..<2 * 128]"
    by (simp only: interleave_upt)
  then show "length (quad_group (map byte_bits bs)) = 256" by simp
  show "jh_group bs = map quad_nib (quad_group (map byte_bits bs))"
    unfolding g jh_group_def map_map
    by (rule map_cong) (auto simp: quad_nib_def Let_def odd_iff_mod_2_eq_one simp del: One_nat_def)
qed

lemma quad_E8:
  assumes "length bs = 128" and "length cs = 128"
    and "quad_rounds 42 quad_root (quad_group (map byte_bits bs)) = quad_group (map byte_bits cs)"
  shows "spec_E8 bs = cs"
  using assms quad_rounds_spec [of "quad_group (map byte_bits bs)" 0 42] jh_degroup_group [of cs]
  by (simp add: spec_E8_def quad_group_bytes del: map_map)

section \<open>Calculating\<close>

text \<open>The permutation of places in two passes; the passes below take sixteen nibbles at a time, so that the
  simplifier seldom walks over the rest of a list.\<close>

fun fourths :: "'a list \<Rightarrow> 'a list" where
  "fourths (a # b # c # d # q) = a # d # fourths q"
| "fourths q = []"

fun middles :: "'a list \<Rightarrow> 'a list" where
  "middles (a # b # c # d # q) = c # b # middles q"
| "middles q = []"

lemma jh_P_passes: "4 dvd length q \<Longrightarrow> jh_P q = fourths q @ middles q"
proof -
  have four: "4 dvd Suc (Suc (Suc (Suc n))) \<longleftrightarrow> 4 dvd n" for n :: nat
    by presburger
  have "evens (pi_places q) = fourths q \<and> swap_pairs (odds (pi_places q)) = middles q" if "4 dvd length q"
    using that by (induction q rule: pi_places.induct) (auto simp: four dest: dvd_imp_le)
  then show "4 dvd length q \<Longrightarrow> jh_P q = fourths q @ middles q" by (simp add: jh_P_def Let_def)
qed

definition join :: "'a list \<Rightarrow> 'a list \<Rightarrow> 'a list" where
  "join as bs = as @ bs"

lemma quad_subs_16 [code]:
  "quad_subs (c0 # c1 # c2 # c3 # c4 # c5 # c6 # c7 # c8 # c9 # c10 # c11 # c12 # c13 # c14 # c15 # c) (q0 # q1 # q2 #
      q3 # q4 # q5 # q6 # q7 # q8 # q9 # q10 # q11 # q12 # q13 # q14 # q15 # r) = quad_fst (quad_sub c0 q0) (quad_sub
      c1 q1) # quad_snd (quad_sub c0 q0) (quad_sub c1 q1) # quad_fst (quad_sub c2 q2) (quad_sub c3 q3) # quad_snd
      (quad_sub c2 q2) (quad_sub c3 q3) # quad_fst (quad_sub c4 q4) (quad_sub c5 q5) # quad_snd (quad_sub c4 q4)
      (quad_sub c5 q5) # quad_fst (quad_sub c6 q6) (quad_sub c7 q7) # quad_snd (quad_sub c6 q6) (quad_sub c7 q7) #
      quad_fst (quad_sub c8 q8) (quad_sub c9 q9) # quad_snd (quad_sub c8 q8) (quad_sub c9 q9) # quad_fst (quad_sub c10
      q10) (quad_sub c11 q11) # quad_snd (quad_sub c10 q10) (quad_sub c11 q11) # quad_fst (quad_sub c12 q12) (quad_sub
      c13 q13) # quad_snd (quad_sub c12 q12) (quad_sub c13 q13) # quad_fst (quad_sub c14 q14) (quad_sub c15 q15) #
      quad_snd (quad_sub c14 q14) (quad_sub c15 q15) # quad_subs c r"
  "quad_subs [] [] = []"
  by (simp_all only: quad_subs.simps)

lemma quad_layers_16 [code]:
  "quad_layers (q0 # q1 # q2 # q3 # q4 # q5 # q6 # q7 # q8 # q9 # q10 # q11 # q12 # q13 # q14 # q15 # r) = quad_fst
      (quad_sub False q0) (quad_sub False q1) # quad_snd (quad_sub False q0) (quad_sub False q1) # quad_fst (quad_sub
      False q2) (quad_sub False q3) # quad_snd (quad_sub False q2) (quad_sub False q3) # quad_fst (quad_sub False q4)
      (quad_sub False q5) # quad_snd (quad_sub False q4) (quad_sub False q5) # quad_fst (quad_sub False q6) (quad_sub
      False q7) # quad_snd (quad_sub False q6) (quad_sub False q7) # quad_fst (quad_sub False q8) (quad_sub False q9)
      # quad_snd (quad_sub False q8) (quad_sub False q9) # quad_fst (quad_sub False q10) (quad_sub False q11) #
      quad_snd (quad_sub False q10) (quad_sub False q11) # quad_fst (quad_sub False q12) (quad_sub False q13) #
      quad_snd (quad_sub False q12) (quad_sub False q13) # quad_fst (quad_sub False q14) (quad_sub False q15) #
      quad_snd (quad_sub False q14) (quad_sub False q15) # quad_layers r"
  "quad_layers [] = []"
  by (simp_all only: quad_layers_subs quad_layers.simps(2))

lemma fourths_16 [code]:
  "fourths (q0 # q1 # q2 # q3 # q4 # q5 # q6 # q7 # q8 # q9 # q10 # q11 # q12 # q13 # q14 # q15 # r) = q0 # q3 # q4 # q7
      # q8 # q11 # q12 # q15 # fourths r"
  "fourths [] = []"
  by (simp_all only: fourths.simps)

lemma middles_16 [code]:
  "middles (q0 # q1 # q2 # q3 # q4 # q5 # q6 # q7 # q8 # q9 # q10 # q11 # q12 # q13 # q14 # q15 # r) = q2 # q1 # q6 # q5
      # q10 # q9 # q14 # q13 # middles r"
  "middles [] = []"
  by (simp_all only: middles.simps)

lemma join_16 [code]:
  "join (q0 # q1 # q2 # q3 # q4 # q5 # q6 # q7 # q8 # q9 # q10 # q11 # q12 # q13 # q14 # q15 # r) s = q0 # q1 # q2 # q3
      # q4 # q5 # q6 # q7 # q8 # q9 # q10 # q11 # q12 # q13 # q14 # q15 # join r s"
  "join [] s = s"
  by (simp_all only: join_def append.simps)

lemma quad_bits_8 [code]:
  "quad_bits ((a0, b0, c0, d0) # (a1, b1, c1, d1) # (a2, b2, c2, d2) # (a3, b3, c3, d3) # (a4, b4, c4, d4) # (a5, b5,
      c5, d5) # (a6, b6, c6, d6) # (a7, b7, c7, d7) # r) = a0 # b0 # c0 # d0 # a1 # b1 # c1 # d1 # a2 # b2 # c2 # d2 #
      a3 # b3 # c3 # d3 # a4 # b4 # c4 # d4 # a5 # b5 # c5 # d5 # a6 # b6 # c6 # d6 # a7 # b7 # c7 # d7 # quad_bits r"
  "quad_bits [] = []"
  by (simp_all only: quad_bits.simps)

lemma quad_sub_table [code]:
  "quad_sub False (False, False, False, False) = (True, False, False, True)"
  "quad_sub False (False, False, False, True) = (False, False, False, False)"
  "quad_sub False (False, False, True, False) = (False, True, False, False)"
  "quad_sub False (False, False, True, True) = (True, False, True, True)"
  "quad_sub False (False, True, False, False) = (True, True, False, True)"
  "quad_sub False (False, True, False, True) = (True, True, False, False)"
  "quad_sub False (False, True, True, False) = (False, False, True, True)"
  "quad_sub False (False, True, True, True) = (True, True, True, True)"
  "quad_sub False (True, False, False, False) = (False, False, False, True)"
  "quad_sub False (True, False, False, True) = (True, False, True, False)"
  "quad_sub False (True, False, True, False) = (False, False, True, False)"
  "quad_sub False (True, False, True, True) = (False, True, True, False)"
  "quad_sub False (True, True, False, False) = (False, True, True, True)"
  "quad_sub False (True, True, False, True) = (False, True, False, True)"
  "quad_sub False (True, True, True, False) = (True, False, False, False)"
  "quad_sub False (True, True, True, True) = (True, True, True, False)"
  "quad_sub True (False, False, False, False) = (False, False, True, True)"
  "quad_sub True (False, False, False, True) = (True, True, False, False)"
  "quad_sub True (False, False, True, False) = (False, True, True, False)"
  "quad_sub True (False, False, True, True) = (True, True, False, True)"
  "quad_sub True (False, True, False, False) = (False, True, False, True)"
  "quad_sub True (False, True, False, True) = (False, True, True, True)"
  "quad_sub True (False, True, True, False) = (False, False, False, True)"
  "quad_sub True (False, True, True, True) = (True, False, False, True)"
  "quad_sub True (True, False, False, False) = (True, True, True, True)"
  "quad_sub True (True, False, False, True) = (False, False, True, False)"
  "quad_sub True (True, False, True, False) = (False, False, False, False)"
  "quad_sub True (True, False, True, True) = (False, True, False, False)"
  "quad_sub True (True, True, False, False) = (True, False, True, True)"
  "quad_sub True (True, True, False, True) = (True, False, True, False)"
  "quad_sub True (True, True, True, False) = (True, True, True, False)"
  "quad_sub True (True, True, True, True) = (True, False, False, False)"
  by (simp_all add: quad_sub_def quad_S0_def quad_S1_def)


fun quad_run :: "nat \<Rightarrow> quad list \<Rightarrow> quad list \<Rightarrow> quad list" where
  "quad_run 0 c q = q"
| "quad_run (Suc n) c q =
    quad_run n (join (fourths (quad_layers c)) (middles (quad_layers c)))
      (join (fourths (quad_subs (quad_bits c) q)) (middles (quad_subs (quad_bits c) q)))"

lemma quad_run_rounds: "length c = 64 \<Longrightarrow> length q = 256 \<Longrightarrow> quad_rounds n c q = quad_run n c q"
proof (induction n arbitrary: c q)
  case (Suc n)
  have "even k \<Longrightarrow> length x = k \<Longrightarrow> length (quad_layers x) = k" for x k
    by (induction x arbitrary: k rule: quad_layers.induct) (auto simp: Let_def split: prod.split)
  from this [of 64 c] have c: "length (quad_layers c) = 64" using Suc.prems by simp
  have q: "length (quad_subs (quad_bits c) q) = 256" using Suc.prems by (simp add: length_quad_bits length_quad_subs)
  have "jh_P (quad_layers c) = fourths (quad_layers c) @ middles (quad_layers c)" using c by (intro jh_P_passes) simp
  moreover have "jh_P (quad_subs (quad_bits c) q) = fourths (quad_subs (quad_bits c) q) @ middles (quad_subs (quad_bits c) q)"
    using q by (intro jh_P_passes) simp
  moreover have "length (quad_round c) = 64" using Suc.prems by (simp add: length_quad_round)
  moreover have "length (jh_P (quad_subs (quad_bits c) q)) = 256" using q by (simp add: length_jh_P)
  ultimately show ?case using Suc.IH [of "quad_round c" "jh_P (quad_subs (quad_bits c) q)"] by (simp add: quad_round_def join_def)
qed simp

section \<open>The tables\<close>

lemma quad_IV:
  assumes "length H = 128" and "quad_run 42 quad_root (quad_group (map byte_bits (jh_start len))) = quad_group (map byte_bits H)"
  shows "jh_IV len = H"
proof -
  have "length quad_root = 64" using quad_const [of 0] by simp
  then show ?thesis
    using assms by (simp add: jh_IV_E8 quad_E8 quad_run_rounds quad_group_bytes)
qed

lemma jh_starts:
  "jh_start 224 = 0 # 0xe0 # replicate 126 0" "jh_start 256 = 1 # 0 # replicate 126 0"
  "jh_start 384 = 1 # 0x80 # replicate 126 0" "jh_start 512 = 2 # 0 # replicate 126 0"
  by (simp_all add: jh_start_def)

lemma JH224_table: "quad_run 42 quad_root (quad_group (map byte_bits (jh_start 224))) = quad_group (map byte_bits JH224_H0)"
  unfolding JH224_H0_def jh_starts list.map map_replicate byte_bits_num
  by code_simp

lemma JH256_table: "quad_run 42 quad_root (quad_group (map byte_bits (jh_start 256))) = quad_group (map byte_bits JH256_H0)"
  unfolding JH256_H0_def jh_starts list.map map_replicate byte_bits_num
  by code_simp

lemma JH384_table: "quad_run 42 quad_root (quad_group (map byte_bits (jh_start 384))) = quad_group (map byte_bits JH384_H0)"
  unfolding JH384_H0_def jh_starts list.map map_replicate byte_bits_num
  by code_simp

lemma JH512_table: "quad_run 42 quad_root (quad_group (map byte_bits (jh_start 512))) = quad_group (map byte_bits JH512_H0)"
  unfolding JH512_H0_def jh_starts list.map map_replicate byte_bits_num
  by code_simp

theorem jh_IV_tables: "jh_IV 224 = JH224_H0" "jh_IV 256 = JH256_H0" "jh_IV 384 = JH384_H0" "jh_IV 512 = JH512_H0"
  by (rule quad_IV [OF _ JH224_table] quad_IV [OF _ JH256_table] quad_IV [OF _ JH384_table] quad_IV [OF _ JH512_table],
    simp add: JH224_H0_def JH256_H0_def JH384_H0_def JH512_H0_def)+

end
