(* ===== verification/JhLaws.thy ===== *)
theory JhLaws
  imports JhTables
begin

unbundle bit_operations_syntax

text \<open>
  JH as it is specified, on strings of bytes: the bijective function \<open>spec_E8\<close>, the compression, the padding
  and the truncation; the code of \<^verbatim>\<open>jh.c\<close> computes it.
\<close>

section \<open>The bijective function\<close>

lemma code_round_spec: "r < 42 \<Longrightarrow> code_round r = spec_jh_round (nibble_bits (spec_const r))"
proof -
  assume r: "r < 42"
  have len: "length E8_bitslice_roundconstant = 42" by (simp add: E8_bitslice_roundconstant_def)
  have "round_bits (r mod 7) r = quad_bits ((quad_round ^^ r) quad_root)"
    using consts_ok_nth [OF consts_table, of r] r len by (simp add: Let_def round_bits_row)
  then show ?thesis using quad_const [of r] by (simp add: code_round_def quad_nib_bits)
qed

definition jh_bytes :: "u64 list \<Rightarrow> byte list" where
  "jh_bytes x = concat (map (split_le 8) x)"

lemma jh_bytes_simps [simp]:
  "jh_bytes [] = []" "jh_bytes (w # x) = split_le 8 w @ jh_bytes x" "jh_bytes (x @ y) = jh_bytes x @ jh_bytes y"
  "length (jh_bytes x) = 8 * length x"
  by (simp_all add: jh_bytes_def length_pieces)

lemma jh_bytes_take: "take (8 * n) (jh_bytes x) = jh_bytes (take n x)" "drop (8 * n) (jh_bytes x) = jh_bytes (drop n x)"
proof -
  have "take (8 * n) (jh_bytes x) = jh_bytes (take n x) \<and> drop (8 * n) (jh_bytes x) = jh_bytes (drop n x)"
    by (induction x arbitrary: n) (simp, case_tac n, simp_all)
  then show "take (8 * n) (jh_bytes x) = jh_bytes (take n x)" "drop (8 * n) (jh_bytes x) = jh_bytes (drop n x)" by simp_all
qed

lemma jh_bytes_load: "length bs = 128 \<Longrightarrow> jh_bytes (load_words bs) = bs"
proof -
  assume len: "length bs = 128"
  have "jh_bytes (load_words bs) = concat (map (\<lambda>j. mem_slice bs (0 + 8 * j) 8) [0..<16])"
    unfolding jh_bytes_def load_words_def map_map comp_def
    by (intro arg_cong [where f = concat] map_cong refl) (use len in \<open>simp add: split_join_le\<close>)
  also have "\<dots> = mem_slice bs 0 (8 * 16)" by (simp only: mem_slice_concat)
  finally show ?thesis using len by simp
qed

lemma load_jh_bytes: "length x = 16 \<Longrightarrow> load_words (jh_bytes x) = x"
  unfolding load_words_def jh_bytes_def
  by (rule nth_equalityI) (simp_all add: mem_slice_pieces join_split_le)

lemma load_row_nib:
  assumes "length bs = 128" and "k < 128" and "p < 2"
  shows "row_nib (load_words bs) p k =
    nib (byte_bit bs (k + 128 * p)) (byte_bit bs (k + 128 * p + 256)) (byte_bit bs (k + 128 * p + 512)) (byte_bit bs (k + 128 * p + 768))"
proof -
  have "row_bit (load_words bs) r k = byte_bit bs (128 * r + k)" if "r < 8" for r
  proof -
    have "k div 64 < 2" using assms(2) by (simp add: less_mult_imp_div_less)
    then have "2 * r + k div 64 < 16" using that by simp
    then have "load_words bs ! (2 * r + k div 64) = join_le (mem_slice bs (8 * (2 * r + k div 64)) 8)"
      by (subst load_words_def, subst nth_map) simp_all
    then show ?thesis using bit_mem_row [of k r bs] assms that by (simp only: row_bit_def byte_bit_def)
  qed
  then show ?thesis using assms(3) by (simp add: row_nib_def algebra_simps)
qed

lemma jh_group_nibbles: "length bs = 128 \<Longrightarrow> jh_group bs = nibbles 0 (load_words bs)"
proof -
  assume len: "length bs = 128"
  have "nibbles 0 (load_words bs) =
      map (\<lambda>j. if even j then row_nib (load_words bs) 0 (j div 2) else row_nib (load_words bs) 1 (j div 2)) [0..<2 * 128]"
    unfolding nibbles_def place_def funpow_0 by (rule interleave_upt)
  also have "\<dots> = jh_group bs"
    unfolding jh_group_def
    by (rule map_cong) (auto simp: load_row_nib len Let_def odd_iff_mod_2_eq_one less_mult_imp_div_less simp del: One_nat_def)
  finally show ?thesis by simp
qed

theorem E8_spec:
  assumes "length x = 16"
  shows "jh_bytes (E8 x) = spec_E8 (jh_bytes x) \<and> length (E8 x) = 16"
proof -
  have E: "nibbles 0 (E8 x) = fold code_round [0..<42] (nibbles 0 x)" "length (E8 x) = 16" using E8_rounds [OF assms] by auto
  have g: "jh_group (jh_bytes y) = nibbles 0 y" if "length y = 16" for y
    using that by (simp add: jh_group_nibbles load_jh_bytes)
  have "jh_bytes (E8 x) = jh_degroup (nibbles 0 (E8 x))" using E(2) g [of "E8 x"] jh_degroup_group [of "jh_bytes (E8 x)"] by simp
  also have "\<dots> = jh_degroup (fold (\<lambda>r. spec_jh_round (nibble_bits (spec_const r))) [0..<42] (jh_group (jh_bytes x)))"
    unfolding E(1) g [OF assms] by (intro arg_cong [where f = jh_degroup] fold_cong refl) (simp add: code_round_spec)
  finally show ?thesis using E(2) by (simp add: spec_E8_def)
qed

section \<open>The hash\<close>

fun jh_chain :: "byte list \<Rightarrow> byte list \<Rightarrow> byte list" where
  "jh_chain H m = (if length m < 64 then H else jh_chain (jh_compress H (take 64 m)) (drop 64 m))"

declare jh_chain.simps [simp del]

text \<open>A message of \<open>n\<close> bits is followed by a 1, at least 383 zeros, and its length.  The bits of the last byte
  that are not of the message do not count: they are cleared before the 1 is put after the last bit.\<close>

definition jh_pad_byte :: "nat \<Rightarrow> byte \<Rightarrow> byte" where
  "jh_pad_byte k b = (b AND NOT (mask (8 - k))) OR push_bit (7 - k) 1"

definition jh_extend :: "byte list \<Rightarrow> nat \<Rightarrow> byte list" where
  "jh_extend one n = one @ replicate (64 * ((n + 511) div 512 + 1) - 16 - length one) 0 @ replicate 8 0 @ split_be 8 (of_nat n :: u64)"

definition jh_pad :: "byte list \<Rightarrow> nat \<Rightarrow> byte list" where
  "jh_pad d n = jh_extend (if n mod 8 = 0 then d @ [0x80] else d[n div 8 := jh_pad_byte (n mod 8) (d ! (n div 8))]) n"

definition jh_spec :: "nat \<Rightarrow> byte list \<Rightarrow> nat \<Rightarrow> byte list" where
  "jh_spec len d n = drop (128 - len div 8) (jh_chain (jh_IV len) (jh_pad d n))"

lemma split_le_xor: "split_le n (x XOR y :: 'a::len word) = xor_list (split_le n x) (split_le n y :: 'b::len word list)"
  by (rule nth_equalityI) (simp_all add: drop_bit_xor unsigned_xor_eq)

lemma jh_bytes_xor:
  "length ms = 8 * length xs \<Longrightarrow>
    jh_bytes (map (\<lambda>i. xs ! i XOR join_le (mem_slice ms (8 * i) 8)) [0..<length xs]) = xor_list (jh_bytes xs) ms"
proof (induction xs arbitrary: ms)
  case (Cons w xs)
  have s: "mem_slice ms (8 * Suc i) 8 = mem_slice (drop 8 ms) (8 * i) 8" for i by (simp add: mem_slice_def add.commute)
  have "jh_bytes (map (\<lambda>i. (w # xs) ! i XOR join_le (mem_slice ms (8 * i) 8)) [0..<length (w # xs)]) =
      split_le 8 (w XOR join_le (take 8 ms)) @ jh_bytes (map (\<lambda>i. xs ! i XOR join_le (mem_slice (drop 8 ms) (8 * i) 8)) [0..<length xs])"
    by (simp add: map_upt_Suc s mem_slice_def [of ms 0] del: upt_Suc mult_Suc_right)
  also have "\<dots> = xor_list (split_le 8 w) (take 8 ms) @ xor_list (jh_bytes xs) (drop 8 ms)"
    using Cons by (simp add: split_le_xor split_join_le)
  also have "\<dots> = xor_list (jh_bytes (w # xs)) (take 8 ms @ drop 8 ms)"
    unfolding xor_list_def jh_bytes_simps map_append [symmetric]
    by (rule arg_cong [where f = "map _"], rule zip_append [symmetric]) (use Cons.prems in simp)
  finally show ?case by simp
qed (simp add: xor_list_def)

lemma fold_second_half:
  "length a = n \<Longrightarrow> fold (\<lambda>i x. x[n + i := f i (x ! (n + i))]) is (a @ b) = a @ fold (\<lambda>i x. x[i := f i (x ! i)]) is b"
  by (induction "is" arbitrary: b) (simp_all add: list_update_append nth_append)

lemma F8_other [simp]:
  "hashbitlen (F8 s) = hashbitlen s" "jh_databitlen (F8 s) = jh_databitlen s" "datasize_in_buffer (F8 s) = datasize_in_buffer s"
  "jh_buffer (F8 s) = jh_buffer s"
  by (simp_all add: F8_def Let_def)

lemma F8_spec:
  assumes "length (jh_x s) = 16" and "length (jh_buffer s) = 64"
  shows "jh_bytes (jh_x (F8 s)) = jh_compress (jh_bytes (jh_x s)) (jh_buffer s) \<and> length (jh_x (F8 s)) = 16"
proof -
  let ?w = "\<lambda>i. join_le (mem_slice (jh_buffer s) (8 * i) 8) :: u64" and ?x = "jh_x s"
  define a where "a = map (\<lambda>i. take 8 ?x ! i XOR ?w i) [0..<length (take 8 ?x)] @ drop 8 ?x"
  have "fold (\<lambda>i x. x[i := x ! i XOR ?w i]) [0..<8] ?x = update_loop 8 (\<lambda>i v. v XOR ?w i) ?x"
    by (simp only: update_loop_def)
  also have "\<dots> = a" using assms(1) by (subst update_loop_eq) (simp_all add: a_def)
  finally have first: "fold (\<lambda>i x. x[i := x ! i XOR ?w i]) [0..<8] ?x = a" .
  have a: "length a = 16" "jh_bytes a = xor_list (take 64 (jh_bytes ?x)) (jh_buffer s) @ drop 64 (jh_bytes ?x)"
    using assms jh_bytes_xor [of "jh_buffer s" "take 8 ?x"] jh_bytes_take [of 8 ?x] by (simp_all add: a_def)
  define e where "e = E8 a"
  have e: "length e = 16" "jh_bytes e = spec_E8 (jh_bytes a)" using E8_spec [OF a(1)] by (auto simp: e_def)
  define b where "b = take 8 e @ map (\<lambda>i. drop 8 e ! i XOR ?w i) [0..<length (drop 8 e)]"
  have "fold (\<lambda>i x. x[8 + i := x ! (8 + i) XOR ?w i]) [0..<8] (take 8 e @ drop 8 e) = take 8 e @ update_loop 8 (\<lambda>i v. v XOR ?w i) (drop 8 e)"
    unfolding update_loop_def using e(1) by (intro fold_second_half) simp
  also have "\<dots> = b" using e(1) by (subst update_loop_eq) (simp_all add: b_def)
  finally have second: "fold (\<lambda>i x. x[8 + i := x ! (8 + i) XOR ?w i]) [0..<8] e = b" by simp
  have b: "length b = 16" "jh_bytes b = take 64 (jh_bytes e) @ xor_list (drop 64 (jh_bytes e)) (jh_buffer s)"
    using assms e(1) jh_bytes_xor [of "jh_buffer s" "drop 8 e"] jh_bytes_take [of 8 e] by (simp_all add: b_def)
  have "jh_x (F8 s) = b" by (simp only: F8_def Let_def first second e_def [symmetric]) simp
  then show ?thesis using b by (simp add: jh_compress_def Let_def e(2) a(2))
qed

lemma jh_chain_append: "64 dvd length a \<Longrightarrow> jh_chain H (a @ b) = jh_chain (jh_chain H a) b"
proof (induction H a rule: jh_chain.induct)
  case (1 H m)
  show ?case
  proof (cases "length m < 64")
    case True
    then have "m = []" using 1(2) by (auto dest: dvd_imp_le)
    then show ?thesis by (simp add: jh_chain.simps [of H "[]"])
  next
    case False
    then show ?thesis using 1 by (simp add: jh_chain.simps [of H m] jh_chain.simps [of H "m @ b"])
  qed
qed

lemma jh_chain_block: "length m = 64 \<Longrightarrow> jh_chain H m = jh_compress H m"
  by (simp add: jh_chain.simps [of H m] jh_chain.simps [of _ "[]"])

definition jh_ok :: "byte list \<Rightarrow> jh_state \<Rightarrow> bool" where
  "jh_ok H s \<longleftrightarrow> length (jh_x s) = 16 \<and> length (jh_buffer s) = 64 \<and> jh_bytes (jh_x s) = H"

lemma jh_ok_F8: "jh_ok H s \<Longrightarrow> jh_ok (jh_compress H (jh_buffer s)) (F8 s)"
  using F8_spec [of s] by (auto simp: jh_ok_def)

lemma copy_in_Some:
  assumes "p + n \<le> length d" and "off + n \<le> 64" and "jh_ok H s"
  shows "copy_in s off d p n = Some (s\<lparr>jh_buffer := blit (jh_buffer s) off (mem_slice d p n)\<rparr>) \<and>
    jh_ok H (s\<lparr>jh_buffer := blit (jh_buffer s) off (mem_slice d p n)\<rparr>)"
  using assms by (simp add: copy_in_def jh_ok_def)

lemma hash_blocks_chain:
  assumes "jh_ok H s" and "i + unat n div 8 \<le> length d"
  shows "\<exists>s'. hash_blocks d s i n = Some (s', i + 64 * (unat n div 512), of_nat (unat n mod 512)) \<and>
    jh_ok (jh_chain H (mem_slice d i (64 * (unat n div 512)))) s' \<and> hashbitlen s' = hashbitlen s \<and>
    jh_databitlen s' = jh_databitlen s \<and> datasize_in_buffer s' = datasize_in_buffer s"
  using assms
proof (induction d s i n arbitrary: H rule: hash_blocks.induct)
  case (1 d s i n)
  show ?case
  proof (cases "512 \<le> n")
    case True
    then have n: "512 \<le> unat n" by (simp add: word_le_nat_alt)
    then have u: "unat (n - 512) = unat n - 512" using True by (simp add: unat_sub)
    have q: "unat n div 512 = Suc ((unat n - 512) div 512)" "(unat n - 512) mod 512 = unat n mod 512"
      using n by (simp_all add: le_div_geq le_mod_geq)
    let ?t = "s\<lparr>jh_buffer := blit (jh_buffer s) 0 (mem_slice d i 64)\<rparr>"
    have "i + 64 \<le> length d" using 1(3) n div_le_mono [OF n, of 8] by simp
    then have c: "copy_in s 0 d i 64 = Some ?t" "jh_ok H ?t" and l: "length (mem_slice d i 64) = 64"
      using copy_in_Some [of i 64 d 0 H s] 1(2) by auto
    have b: "jh_buffer ?t = mem_slice d i 64" using 1(2) l by (simp add: jh_ok_def)
    have ok: "jh_ok (jh_compress H (mem_slice d i 64)) (F8 ?t)" using jh_ok_F8 [OF c(2)] b by simp
    have "(8 * 64 + (unat n - 512)) div 8 = 64 + (unat n - 512) div 8" by simp
    then have "unat n div 8 = 64 + (unat n - 512) div 8" using n by simp
    then have "i + 64 + unat (n - 512) div 8 \<le> length d" using 1(3) u by simp
    from 1(1) [OF True c(1) ok this]
    obtain s' where s': "hash_blocks d (F8 ?t) (i + 64) (n - 512) = Some (s', i + 64 + 64 * ((unat n - 512) div 512), of_nat (unat n mod 512))"
        "jh_ok (jh_chain (jh_compress H (mem_slice d i 64)) (mem_slice d (i + 64) (64 * ((unat n - 512) div 512)))) s'"
        "hashbitlen s' = hashbitlen s" "jh_databitlen s' = jh_databitlen s" "datasize_in_buffer s' = datasize_in_buffer s"
      by (auto simp: u q(2))
    have m: "mem_slice d i (64 * (unat n div 512)) = mem_slice d i 64 @ mem_slice d (i + 64) (64 * ((unat n - 512) div 512))"
      using mem_slice_add [of d i 64 "64 * ((unat n - 512) div 512)"] by (simp add: q(1))
    have "hash_blocks d s i n = Some (s', i + 64 * (unat n div 512), of_nat (unat n mod 512))"
      using s'(1) c(1) True by (subst hash_blocks.simps) (simp add: q(1))
    then show ?thesis using s'(2-) l by (simp add: m jh_chain_append jh_chain_block)
  next
    case False
    then have "unat n < 512" by (simp add: word_le_nat_alt)
    then show ?thesis using False 1(2) by (subst hash_blocks.simps) (simp add: mem_slice_def jh_chain.simps [of H "[]"])
  qed
qed

lemma put_length_bytes:
  assumes "length buf = 64"
  shows "put_length bits buf = take 56 buf @ split_be 8 bits"
proof -
  have m: "(0xff :: u64) = mask 8" by (simp add: mask_eq_exp_minus_1)
  have a: "ucast (v AND 0xff) = (ucast v :: byte)" for v :: u64
    unfolding m by (rule bit_eqI) (auto simp: bit_simps)
  have p: "put_length bits (t @ [y0, y1, y2, y3, y4, y5, y6, y7]) = t @ split_be 8 bits" if "length t = 56" for t y0 y1 y2 y3 y4 y5 y6 y7
    using that by (simp add: put_length_def Let_def list_update_append split_be_def split_le_def upt_rec a)
  have "y = [y ! 0, y ! 1, y ! 2, y ! 3, y ! 4, y ! 5, y ! 6, y ! 7]" if "length y = 8" for y :: "byte list"
    using that by (intro nth_equalityI) (auto simp: less_Suc_eq numeral_eq_Suc)
  then have e: "drop 56 buf = [drop 56 buf ! 0, drop 56 buf ! 1, drop 56 buf ! 2, drop 56 buf ! 3,
      drop 56 buf ! 4, drop 56 buf ! 5, drop 56 buf ! 6, drop 56 buf ! 7]"
    using assms by (simp only: length_drop)
  have "put_length bits (take 56 buf @ drop 56 buf) = take 56 buf @ split_be 8 bits"
    by (subst e, rule p) (simp add: assms)
  then show ?thesis by simp
qed

lemma zero_rest: "s \<le> n \<Longrightarrow> n \<le> length b \<Longrightarrow> fold (\<lambda>i b. b[i := 0]) [s..<n] b = take s b @ replicate (n - s) 0 @ drop n b"
proof (induction n)
  case (Suc n)
  show ?case
  proof (cases "s = Suc n")
    case False
    then have "fold (\<lambda>i b. b[i := 0]) [s..<Suc n] b = (take s b @ replicate (n - s) 0 @ drop n b)[n := 0]"
      using Suc by (simp add: le_Suc_eq)
    also have "drop n b = b ! n # drop (Suc n) b" using Suc.prems by (simp add: Cons_nth_drop_Suc)
    also have "(take s b @ replicate (n - s) 0 @ b ! n # drop (Suc n) b)[n := 0] = take s b @ replicate (n - s) 0 @ 0 # drop (Suc n) b"
      using Suc.prems False by (simp add: list_update_append)
    also have "\<dots> = take s b @ replicate (Suc n - s) 0 @ drop (Suc n) b"
      using Suc.prems False by (simp add: Suc_diff_le replicate_append_same [symmetric])
    finally show ?thesis .
  qed simp
qed simp

text \<open>The state after the data, and after the last blocks.\<close>

definition jh_after :: "byte list \<Rightarrow> byte list \<Rightarrow> nat \<Rightarrow> jh_state \<Rightarrow> bool" where
  "jh_after H d n s \<longleftrightarrow>
    (let rest = drop (64 * (n div 512)) d in
     jh_databitlen s = of_nat n \<and> jh_ok (jh_chain H (take (64 * (n div 512)) d)) s \<and>
     (n mod 512 \<noteq> 0 \<longrightarrow> datasize_in_buffer s = of_nat (n mod 512) \<and> take (length rest) (jh_buffer s) = rest))"

lemma word_bits_mod: "of_nat n AND (0x1ff :: u64) = of_nat (n mod 512)" "of_nat n AND (7 :: u64) = of_nat (n mod 8)"
proof -
  have m: "(0x1ff :: u64) = mask 9" "(7 :: u64) = mask 3" by (simp_all add: mask_eq_exp_minus_1)
  show "of_nat n AND (0x1ff :: u64) = of_nat (n mod 512)" "of_nat n AND (7 :: u64) = of_nat (n mod 8)"
    unfolding m take_bit_eq_mask [symmetric] take_bit_of_nat by (simp_all add: take_bit_eq_mod)
qed

lemma small_unat: "k < 512 \<Longrightarrow> unat (of_nat k :: u64) = k"
  by (simp add: unat_of_nat take_bit_nat_eq_self)

lemma rest_size:
  fixes n :: nat
  defines "q \<equiv> n div 512" and "r \<equiv> n mod 512"
  shows "(n + 7) div 8 = 64 * q + (if r mod 8 = 0 then r div 8 else r div 8 + 1)" and "n div 8 = 64 * q + r div 8"
    and "n mod 8 = r mod 8" and "r div 8 < 64"
proof -
  have n: "n = 8 * (64 * q + r div 8) + r mod 8" and r: "r mod 8 < 8" by (simp_all add: q_def r_def)
  have "(8 * a + b) div 8 = a" "(8 * a + b + 7) div 8 = (if b = 0 then a else a + 1)" if "b < 8" for a b :: nat
    using that by auto
  from this [OF r, of "64 * q + r div 8"] n
  show "(n + 7) div 8 = 64 * q + (if r mod 8 = 0 then r div 8 else r div 8 + 1)" "n div 8 = 64 * q + r div 8" by simp_all
  show "n mod 8 = r mod 8" by (simp add: r_def mod_mod_cancel)
  show "r div 8 < 64" by (simp add: r_def less_mult_imp_div_less)
qed

lemma jh_Update_after:
  assumes "jh_ok H s" and "datasize_in_buffer s = 0" and "jh_databitlen s = 0"
    and "length d = (n + 7) div 8" and "n < 2 ^ 64"
  shows "\<exists>s'. jh_Update s d (of_nat n) = Some s' \<and> jh_after H d n s' \<and> hashbitlen s' = hashbitlen s"
proof -
  define q r where "q = n div 512" and "r = n mod 512"
  have n: "unat (of_nat n :: u64) = n" using assms(5) by (simp add: unat_of_nat take_bit_nat_eq_self)
  let ?s = "s\<lparr>jh_databitlen := of_nat n\<rparr>"
  have "jh_ok H ?s" using assms(1) by (simp add: jh_ok_def)
  moreover have "0 + n div 8 \<le> length d" using assms(4) by (simp add: div_le_mono)
  ultimately obtain t where t: "hash_blocks d ?s 0 (of_nat n) = Some (t, 64 * q, of_nat r)"
      "jh_ok (jh_chain H (take (64 * q) d)) t" "hashbitlen t = hashbitlen s" "jh_databitlen t = of_nat n" "datasize_in_buffer t = 0"
    using hash_blocks_chain [of H ?s 0 "of_nat n" d] assms(2) n by (auto simp: q_def r_def mem_slice_def)
  have r512: "r < 512" by (simp add: r_def)
  have u: "jh_Update s d (of_nat n) =
      (if (of_nat r :: u64) > 0 then
         let m = unat (drop_bit 3 (of_nat r AND 0x1ff :: u64))
         in (case copy_in t 0 d (64 * q) (if of_nat r AND (7 :: u64) = 0 then m else m + 1) of None \<Rightarrow> None
             | Some state \<Rightarrow> Some (state\<lparr>datasize_in_buffer := of_nat r\<rparr>))
       else Some t)"
    by (simp add: jh_Update_def Let_def assms(2,3) t(1))
  show ?thesis
  proof (cases "r = 0")
    case True
    then show ?thesis using u t by (simp add: jh_after_def Let_def q_def r_def)
  next
    case False
    have pos: "(of_nat r :: u64) > 0" using False small_unat [OF r512] by (simp add: word_less_nat_alt)
    have m: "unat (drop_bit 3 (of_nat r AND 0x1ff :: u64)) = r div 8"
      using r512 by (simp only: word_bits_mod unat_drop_bit_eq) (simp add: small_unat drop_bit_eq_div)
    have e: "of_nat r AND (7 :: u64) = 0 \<longleftrightarrow> r mod 8 = 0"
      using small_unat [of "r mod 8"] by (simp add: word_bits_mod unat_eq_zero [symmetric])
    define k where "k = (if r mod 8 = 0 then r div 8 else r div 8 + 1)"
    have len: "length d = 64 * q + k" "k \<le> 64" using rest_size [of n] assms(4) by (auto simp: k_def q_def r_def)
    then have rest: "mem_slice d (64 * q) k = drop (64 * q) d" by (simp add: mem_slice_def)
    obtain t' where t': "t' = t\<lparr>jh_buffer := blit (jh_buffer t) 0 (drop (64 * q) d)\<rparr>" "copy_in t 0 d (64 * q) k = Some t'"
        "jh_ok (jh_chain H (take (64 * q) d)) t'"
      using copy_in_Some [of "64 * q" k d 0, OF _ _ t(2)] len rest by auto
    have "jh_Update s d (of_nat n) = Some (t'\<lparr>datasize_in_buffer := of_nat r\<rparr>)"
      unfolding u Let_def m e k_def [symmetric] t'(2) using pos by simp
    moreover have "jh_after H d n (t'\<lparr>datasize_in_buffer := of_nat r\<rparr>)"
      using t' t(4) len by (simp add: jh_after_def Let_def q_def r_def jh_ok_def blit_def)
    ultimately show ?thesis using t'(1) t(3) by simp
  qed
qed

text \<open>The code sets the bit of the 1 and leaves the bits below it, which are 0 in the messages it is meant for.\<close>

definition jh_filled :: "byte list \<Rightarrow> nat \<Rightarrow> byte list" where
  "jh_filled d n = jh_extend (if n mod 8 = 0 then d @ [0x80] else d[n div 8 := d ! (n div 8) OR push_bit (7 - n mod 8) 1]) n"

lemma jh_pad_filled: "n mod 8 = 0 \<or> take_bit (8 - n mod 8) (d ! (n div 8)) = 0 \<Longrightarrow> jh_pad d n = jh_filled d n"
proof -
  have "b AND NOT (mask k) = b" if "take_bit k b = 0" for b :: byte and k
  proof (rule bit_eqI)
    fix i
    have "\<not> bit (take_bit k b) i" unfolding that by simp
    then show "bit (b AND NOT (mask k)) i = bit b i" by (auto simp: bit_simps dest: bit_imp_le_length)
  qed
  then show "n mod 8 = 0 \<or> take_bit (8 - n mod 8) (d ! (n div 8)) = 0 \<Longrightarrow> jh_pad d n = jh_filled d n"
    by (auto simp: jh_pad_def jh_filled_def jh_pad_byte_def)
qed

lemma jh_filled_whole:
  assumes "n mod 512 = 0" and "length d = (n + 7) div 8"
  shows "jh_filled d n = d @ (0x80 # replicate 55 0 @ split_be 8 (of_nat n :: u64))"
proof -
  obtain q where n: "n = 512 * q" using assms(1) by auto
  have "(512 * q + 511) div 512 = q" "(8 * (64 * q) + 7) div 8 = 64 * q" by simp_all
  then have "(n + 511) div 512 = q" "length d = 64 * q" "n mod 8 = 0" using assms(2) by (simp_all add: n)
  then show ?thesis by (simp add: jh_filled_def jh_extend_def replicate_add [symmetric])
qed

definition last_bytes :: "byte list \<Rightarrow> nat \<Rightarrow> byte list" where
  "last_bytes rest r = (if r mod 8 = 0 then rest @ [0x80] else rest[r div 8 := rest ! (r div 8) OR push_bit (7 - r mod 8) 1])"

lemma jh_filled_rest:
  fixes n :: nat
  defines "q \<equiv> n div 512" and "r \<equiv> n mod 512"
  assumes "r \<noteq> 0" and "length d = (n + 7) div 8"
  defines "l \<equiv> last_bytes (drop (64 * q) d) r"
  shows "jh_filled d n = take (64 * q) d @ (l @ replicate (64 - length l) 0) @ (replicate 56 0 @ split_be 8 (of_nat n :: u64))"
    and "length l \<le> 64"
proof -
  have size: "length d = 64 * q + (if r mod 8 = 0 then r div 8 else r div 8 + 1)" "n div 8 = 64 * q + r div 8"
      "n mod 8 = r mod 8" "r div 8 < 64"
    using rest_size [of n] assms(4) by (simp_all only: q_def r_def)
  then have len: "length l = r div 8 + 1" by (simp add: l_def last_bytes_def)
  then show "length l \<le> 64" using size by simp
  have "n + 511 = 512 * (q + 1) + (r - 1)" "r - 1 < 512" using assms(3) by (simp_all add: q_def r_def)
  then have blocks: "(n + 511) div 512 = q + 1" by simp
  have one: "(if n mod 8 = 0 then d @ [0x80] else d[n div 8 := d ! (n div 8) OR push_bit (7 - n mod 8) 1]) = take (64 * q) d @ l"
  proof (cases "r mod 8 = 0")
    case False
    have "(take (64 * q) d @ drop (64 * q) d)[n div 8 := d ! (n div 8) OR push_bit (7 - n mod 8) 1] = take (64 * q) d @ l"
      using size False by (subst list_update_append) (simp add: l_def last_bytes_def)
    then show ?thesis using size(3) False by simp
  qed (simp add: l_def last_bytes_def size(3))
  have z: "64 * (q + 1 + 1) - 16 - length (take (64 * q) d @ l) + 8 = (64 - length l) + 56" using size len by simp
  have "jh_filled d n = (take (64 * q) d @ l) @ replicate (64 * (q + 1 + 1) - 16 - length (take (64 * q) d @ l) + 8) 0 @ split_be 8 (of_nat n :: u64)"
    unfolding jh_filled_def jh_extend_def one blocks by (simp only: replicate_add append_assoc)
  then show "jh_filled d n = take (64 * q) d @ (l @ replicate (64 - length l) 0) @ (replicate 56 0 @ split_be 8 (of_nat n :: u64))"
    unfolding z by (simp only: replicate_add append_assoc)
qed

text \<open>The state in which \<open>Final\<close> leaves the hash, before the truncation.\<close>

definition jh_last :: "jh_state \<Rightarrow> jh_state" where
  "jh_last s = fst (jh_Final s)"

lemma jh_Final_output:
  "jh_Final s =
    (let x = jh_bytes (jh_x (jh_last s)) in
     (jh_last s,
      if hashbitlen s = 224 then mem_slice x (64 + 36) 28
      else if hashbitlen s = 256 then mem_slice x (64 + 32) 32
      else if hashbitlen s = 384 then mem_slice x (64 + 16) 48
      else if hashbitlen s = 512 then mem_slice x 64 64
      else []))"
proof -
  have "hashbitlen (jh_last s) = hashbitlen s" by (simp add: jh_last_def jh_Final_def Let_def)
  moreover have "jh_Final s =
    (let x = jh_bytes (jh_x (jh_last s)) in
     (jh_last s,
      if hashbitlen (jh_last s) = 224 then mem_slice x (64 + 36) 28
      else if hashbitlen (jh_last s) = 256 then mem_slice x (64 + 32) 32
      else if hashbitlen (jh_last s) = 384 then mem_slice x (64 + 16) 48
      else if hashbitlen (jh_last s) = 512 then mem_slice x 64 64
      else []))"
    by (simp only: jh_last_def jh_Final_def Let_def fst_conv jh_bytes_def)
  ultimately show ?thesis by (simp only:)
qed

lemma jh_last_whole:
  assumes "jh_databitlen s AND 0x1ff = 0"
  shows "jh_last s = F8 (s\<lparr>jh_buffer := 0x80 # replicate 55 0 @ split_be 8 (jh_databitlen s)\<rparr>)"
proof -
  have "take 56 ((replicate 64 0)[0 := 0x80]) = (0x80 :: byte) # replicate 55 0" by (simp add: eval_nat_numeral)
  then show ?thesis
    using assms by (simp add: jh_last_def jh_Final_def Let_def put_length_bytes del: list_update.simps take_replicate replicate.simps)
qed

lemma jh_last_rest:
  fixes s :: jh_state and n :: nat
  defines "r \<equiv> n mod 512"
  assumes "jh_databitlen s = of_nat n" and "datasize_in_buffer s = of_nat r" and "r \<noteq> 0" and "length (jh_buffer s) = 64"
    and "take (length rest) (jh_buffer s) = rest" and "length rest = (if r mod 8 = 0 then r div 8 else r div 8 + 1)"
  defines "l \<equiv> last_bytes rest r"
  shows "jh_last s = F8 ((F8 (s\<lparr>jh_buffer := l @ replicate (64 - length l) 0\<rparr>))\<lparr>jh_buffer := replicate 56 0 @ split_be 8 (of_nat n :: u64)\<rparr>)"
proof -
  have r512: "r < 512" "r div 8 < 64" by (simp_all add: r_def less_mult_imp_div_less)
  have nz: "(of_nat n AND 0x1ff :: u64) \<noteq> 0"
    using small_unat [OF r512(1)] assms(4) by (auto simp: word_bits_mod r_def [symmetric])
  have k: "unat (drop_bit 3 (of_nat n AND 0x1ff :: u64)) = r div 8"
    using r512 by (simp only: word_bits_mod unat_drop_bit_eq r_def [symmetric]) (simp add: small_unat drop_bit_eq_div)
  have e: "(of_nat r :: u64) AND 7 = 0 \<longleftrightarrow> r mod 8 = 0"
    using small_unat [of "r mod 8"] by (simp add: word_bits_mod unat_eq_zero [symmetric])
  have m: "unat (of_nat n AND (7 :: u64)) = r mod 8"
    using small_unat [of "r mod 8"] by (simp add: word_bits_mod r_def mod_mod_cancel)
  have one: "ucast (push_bit (7 - r mod 8) (1 :: u32)) = (push_bit (7 - r mod 8) 1 :: byte)"
    by (intro bit_eqI) (auto simp: bit_simps bit_exp_iff)
  have l: "(take (length rest) (jh_buffer s) @ replicate (64 - length rest) 0)
      [r div 8 := (take (length rest) (jh_buffer s) @ replicate (64 - length rest) 0) ! (r div 8) OR push_bit (7 - r mod 8) 1] =
    l @ replicate (64 - length l) 0"
  proof (cases "r mod 8 = 0")
    case True
    have "replicate (64 - r div 8) (0 :: byte) = 0 # replicate (63 - r div 8) 0"
      using r512(2) by (simp add: Suc_diff_le [symmetric] flip: replicate_Suc)
    then show ?thesis using True assms(6,7) by (simp add: l_def last_bytes_def list_update_append nth_append)
  next
    case False
    then show ?thesis using assms(6,7) by (simp add: l_def last_bytes_def list_update_append nth_append)
  qed
  have z: "fold (\<lambda>i buf. buf[i := 0]) [(if r mod 8 = 0 then r div 8 else r div 8 + 1)..<64] (jh_buffer s) =
      take (length rest) (jh_buffer s) @ replicate (64 - length rest) 0"
    using assms(5,7) r512(2) by (subst zero_rest) simp_all
  have "take 56 (replicate 64 0) = replicate 56 (0 :: byte)" by simp
  then show ?thesis
    unfolding jh_last_def jh_Final_def Let_def assms(2,3) k e m z one l fst_conv
    using nz by (simp add: put_length_bytes)
qed

lemma jh_Final_chain:
  assumes "jh_after (jh_IV len) d n s" and "length d = (n + 7) div 8" and "n < 2 ^ 64"
  shows "jh_ok (jh_chain (jh_IV len) (jh_filled d n)) (jh_last s)"
proof -
  define q r where "q = n div 512" and "r = n mod 512"
  define H where "H = jh_chain (jh_IV len) (take (64 * q) d)"
  let ?size = "split_be 8 (of_nat n :: u64) :: byte list"
  have s: "jh_databitlen s = of_nat n" "jh_ok H s"
    using assms(1) by (simp_all add: jh_after_def Let_def q_def H_def)
  have len: "length d = 64 * q + (if r mod 8 = 0 then r div 8 else r div 8 + 1)" "r div 8 < 64"
    using rest_size [of n] assms(2) by (simp_all only: q_def r_def)
  then have start: "64 dvd length (take (64 * q) d)" by simp
  have step: "jh_ok (jh_compress G b) (F8 (t\<lparr>jh_buffer := b\<rparr>))" if "jh_ok G t" "length b = 64" for G b t
    using that jh_ok_F8 [of G "t\<lparr>jh_buffer := b\<rparr>"] by (simp add: jh_ok_def)
  show ?thesis
  proof (cases "r = 0")
    case True
    have "jh_databitlen s AND 0x1ff = 0" using True by (simp add: s(1) word_bits_mod r_def)
    then have "jh_last s = F8 (s\<lparr>jh_buffer := 0x80 # replicate 55 0 @ ?size\<rparr>)" using jh_last_whole s(1) by metis
    moreover have "jh_filled d n = take (64 * q) d @ (0x80 # replicate 55 0 @ ?size)"
      using jh_filled_whole [of n d] assms(2) True len by (simp add: r_def)
    ultimately show ?thesis
      using step [OF s(2), of "0x80 # replicate 55 0 @ ?size"] by (simp add: jh_chain_append [OF start] jh_chain_block H_def)
  next
    case False
    let ?rest = "drop (64 * q) d"
    let ?l = "last_bytes ?rest r"
    have p: "jh_filled d n = take (64 * q) d @ (?l @ replicate (64 - length ?l) 0) @ (replicate 56 0 @ ?size)" "length ?l \<le> 64"
      using jh_filled_rest [OF False [unfolded r_def] assms(2)] by (simp_all only: q_def r_def)
    have buf: "length (jh_buffer s) = 64" using s(2) by (simp add: jh_ok_def)
    have size: "datasize_in_buffer s = of_nat r" "take (length ?rest) (jh_buffer s) = ?rest"
      using assms(1) False by (simp_all add: jh_after_def Let_def q_def r_def)
    have "length ?rest = (if r mod 8 = 0 then r div 8 else r div 8 + 1)" using len by simp
    note f = jh_last_rest [of s n ?rest, folded r_def, OF s(1) size(1) False buf size(2) this]
    have c: "jh_chain (jh_IV len) (jh_filled d n) =
        jh_compress (jh_compress H (?l @ replicate (64 - length ?l) 0)) (replicate 56 0 @ ?size)"
      unfolding p(1) jh_chain_append [OF start] H_def
      by (subst jh_chain_append) (use p(2) in \<open>simp_all add: jh_chain_block\<close>)
    show ?thesis unfolding c f by (intro step s(2)) (use p(2) in simp_all)
  qed
qed

lemma jh_Init_ok:
  assumes "len = 224 \<or> len = 256 \<or> len = 384 \<or> len = 512" and "length (jh_buffer stack) = 64"
  shows "jh_ok (jh_IV len) (jh_Init stack (int len))"
proof -
  have "length JH224_H0 = 128" "length JH256_H0 = 128" "length JH384_H0 = 128" "length JH512_H0 = 128"
    by (simp_all add: JH224_H0_def JH256_H0_def JH384_H0_def JH512_H0_def)
  moreover have "length (load_words bs) = 16" for bs by (simp add: load_words_def)
  ultimately show ?thesis using assms by (auto simp: jh_ok_def jh_Init_def jh_IV_tables Let_def jh_bytes_load)
qed

lemma jh_hash_spec:
  assumes "len = 224 \<or> len = 256 \<or> len = 384 \<or> len = 512" and "length (jh_buffer stack) = 64"
    and "length d = (n + 7) div 8" and "n < 2 ^ 64" and "n mod 8 = 0 \<or> take_bit (8 - n mod 8) (d ! (n div 8)) = 0"
  shows "jh_hash stack (int len) d (of_nat n) = Some (SUCCESS, jh_spec len d n)"
proof -
  let ?i = "jh_Init stack (int len)"
  have i: "datasize_in_buffer ?i = 0" "jh_databitlen ?i = 0" "hashbitlen ?i = int len"
    using assms(1) by (auto simp: jh_Init_def Let_def)
  obtain s where s: "jh_Update ?i d (of_nat n) = Some s" "jh_after (jh_IV len) d n s" "hashbitlen s = int len"
    using jh_Update_after [OF jh_Init_ok [OF assms(1,2)] i(1,2) assms(3,4)] i(3) by auto
  have f: "jh_bytes (jh_x (jh_last s)) = jh_chain (jh_IV len) (jh_pad d n)" "length (jh_x (jh_last s)) = 16"
    using jh_Final_chain [OF s(2) assms(3,4)] jh_pad_filled [OF assms(5)] by (simp_all add: jh_ok_def)
  have "snd (jh_Final s) = drop (128 - len div 8) (jh_bytes (jh_x (jh_last s)))"
    using assms(1) s(3) f(2) by (elim disjE) (simp_all add: jh_Final_output Let_def mem_slice_def)
  then show ?thesis
    using assms(1) s(1) f(1) by (auto simp: jh_hash_def Let_def jh_spec_def split: prod.split)
qed

text \<open>C9: \<open>jh_hash\<close> computes JH of the four sizes as specified, for every number of bits: the padding, the chain of compressions
  from an initial value computed from the length of the digest, and the truncation.  The bits of the last byte that are not of
  the message are 0, as the comment of \<open>Update\<close> assumes.\<close>

theorem jh_digest:
  assumes "len = 224 \<or> len = 256 \<or> len = 384 \<or> len = 512" and "length (jh_buffer stack) = 64"
    and "length d = (n + 7) div 8" and "n < 2 ^ 64" and "n mod 8 = 0 \<or> take_bit (8 - n mod 8) (d ! (n div 8)) = 0"
  shows "jh_hash stack (int len) d (of_nat n) = Some (SUCCESS, jh_spec len d n)"
  using assms by (rule jh_hash_spec)

text \<open>A state on the stack before the call.\<close>

definition jh_stack :: jh_state where
  "jh_stack = \<lparr>hashbitlen = 3, jh_databitlen = 5, datasize_in_buffer = 1, jh_x = replicate 16 7, jh_buffer = replicate 64 0xaa\<rparr>"

lemma jh_digest_witness:
  "jh_hash jh_stack 256 [0x61, 0x62, 0x63] 24 = Some (SUCCESS, jh_spec 256 [0x61, 0x62, 0x63] 24) \<and>
   jh_hash jh_stack 512 [0x61, 0xe0] 11 = Some (SUCCESS, jh_spec 512 [0x61, 0xe0] 11)"
  using jh_digest [of 256 jh_stack "[0x61, 0x62, 0x63]" 24] jh_digest [of 512 jh_stack "[0x61, 0xe0]" 11]
  by (simp add: jh_stack_def)

lemma jh_hash_bytes:
  assumes "length (jh_buffer stack) = 64" and "length d = len" and "len < 2 ^ 61"
  shows "hash_extra_jh stack d len = Some (jh_spec 256 d (8 * len))"
proof -
  have "(8 * len + 7) div 8 = len" by simp
  moreover have "jh_hash stack (int 256) d (of_nat (8 * len)) = Some (SUCCESS, jh_spec 256 d (8 * len))"
    by (rule jh_hash_spec) (use assms calculation in simp_all)
  ultimately show ?thesis by (simp add: hash_extra_jh_def)
qed

text \<open>Data appended to a buffer that stays short of a block is read past its end: the copy always fills the buffer.\<close>

lemma jh_Update_reads_on:
  assumes "0 < datasize_in_buffer s" and "datasize_in_buffer s + bits < 512" and "length d < 64 - unat (drop_bit 3 (datasize_in_buffer s))"
  shows "jh_Update s d bits = None"
  using assms by (simp add: jh_Update_def Let_def copy_in_def)

end
