(* ===== verification/Stratum.thy ===== *)
theory Stratum
  imports Prelude
begin

text \<open>
  The stratum client: \<^verbatim>\<open>src/src/stratum/client.cpp\<close> and \<^verbatim>\<open>client.hpp\<close>.  The methods pass the members of the
  client along.  Boost is not part of the repository: a property tree is a value of any type with
  the operations of \<open>json_api\<close>, and an asynchronous operation that the client starts is added to
  \<open>pending\<close>; any pending operation may end with success or failure, which is an \<open>event\<close> for its
  completion handler.  An exception leaves the handler as \<open>Inl\<close>.  Output to the console is left out.
\<close>

section \<open>The code\<close>

text \<open>What the client uses of a property tree: \<open>read_json\<close> (\<open>None\<close> if it throws), \<open>get_optional\<close> for
  strings and 64-bit integers, \<open>get_child_optional\<close> and \<open>empty\<close>.\<close>

record 't json_api =
  read_json :: "string \<Rightarrow> 't option"
  get_string :: "'t \<Rightarrow> string \<Rightarrow> string option"
  get_int64 :: "'t \<Rightarrow> string \<Rightarrow> int option"
  get_child :: "'t \<Rightarrow> string \<Rightarrow> 't option"
  tree_empty :: "'t \<Rightarrow> bool"

datatype client_op = Connecting | Writing string | Reading | Timing

datatype client_exception = Json_parser_error | Ptree_bad_path

record client =
  user :: string
  pass :: string
  socket_open :: bool
  write_queue :: "string list"
  response :: string
  seq_number :: int
  rpc_id :: string
  is_reconnecting :: bool
  pending :: "client_op list"
  jobs :: "(string \<times> string \<times> string \<times> string) list"

text \<open>The constructor leaves \<open>_is_reconnecting\<close> as it was in memory.\<close>

definition new_client :: "string \<Rightarrow> string \<Rightarrow> bool \<Rightarrow> client" where
  "new_client usr pwd memory =
    \<lparr>user = usr, pass = pwd, socket_open = False, write_queue = [], response = [], seq_number = 0, rpc_id = [],
     is_reconnecting = memory, pending = [], jobs = []\<rparr>"

definition start_op :: "client_op \<Rightarrow> client \<Rightarrow> client" where
  "start_op op c = c\<lparr>pending := pending c @ [op]\<rparr>"

definition delay_connect :: "client \<Rightarrow> client" where
  "delay_connect c =
    (if is_reconnecting c then c
     else start_op Timing (c\<lparr>is_reconnecting := True, socket_open := False\<rparr>))"

definition do_connect :: "client \<Rightarrow> client" where
  "do_connect c = start_op Connecting (c\<lparr>is_reconnecting := False\<rparr>)"

definition do_write :: "client \<Rightarrow> client" where
  "do_write c = start_op (Writing (hd (write_queue c))) c"

definition do_read :: "client \<Rightarrow> client" where
  "do_read c = start_op Reading c"

definition write_msg :: "string \<Rightarrow> client \<Rightarrow> client" where
  "write_msg buffer c =
    (let c = c\<lparr>write_queue := write_queue c @ [buffer]\<rparr>;
         c = (if length (write_queue c) = 1 then do_write c else c)
     in c\<lparr>seq_number := seq_number c + 1\<rparr>)"

definition quoted :: "string \<Rightarrow> string" where
  "quoted s = CHR 0x22 # s @ [CHR 0x22]"

definition login_message :: "string \<Rightarrow> string \<Rightarrow> string" where
  "login_message usr pwd =
    ''{'' @
      quoted ''id'' @ '':1,'' @
      quoted ''jsonrpc'' @ '':2.0,'' @
      quoted ''method'' @ '':'' @ quoted ''login'' @ '','' @
      quoted ''params'' @ '':{'' @
        quoted ''login'' @ '':'' @ quoted usr @ '','' @
        quoted ''pass'' @ '':'' @ quoted pwd @ '','' @
        quoted ''agent'' @ '':'' @ quoted ''fingera_monero_beta'' @ '','' @
        quoted ''algo'' @ '':['' @ quoted ''1'' @ '']'' @
      ''}'' @
    ''}'' @ [CHR 0x0A]"

definition do_login :: "client \<Rightarrow> client" where
  "do_login c =
    (let c = c\<lparr>seq_number := 0\<rparr>
     in write_msg (login_message (user c) (pass c)) c)"

text \<open>An \<open>int64_t\<close> written to a stream.\<close>

fun decimal_digits :: "nat \<Rightarrow> string" where
  "decimal_digits n = (if n < 10 then [char_of (48 + n)] else decimal_digits (n div 10) @ [char_of (48 + n mod 10)])"

definition decimal :: "int \<Rightarrow> string" where
  "decimal n = (if n < 0 then ''-'' @ decimal_digits (nat (- n)) else decimal_digits (nat n))"

definition do_ping :: "client \<Rightarrow> client" where
  "do_ping c = write_msg
    (''{'' @
      quoted ''id'' @ '':'' @ decimal (seq_number c) @ '','' @
      quoted ''jsonrpc'' @ '':2.0,'' @
      quoted ''method'' @ '':'' @ quoted ''keepalived'' @ '','' @
      quoted ''params'' @ '':{'' @
        quoted ''id'' @ '':'' @ quoted (rpc_id c) @
      ''}'' @
    ''}'' @ [CHR 0x0A]) c"

text \<open>\<open>strncasecmp\<close> of the C library on the bytes up to the terminating zero.\<close>

definition c_char :: "string \<Rightarrow> nat" where
  "c_char s = (case s of [] \<Rightarrow> 0 | c # _ \<Rightarrow> of_char c)"

definition tolower :: "nat \<Rightarrow> nat" where
  "tolower c = (if 65 \<le> c \<and> c \<le> 90 then c + 32 else c)"

fun strncasecmp :: "string \<Rightarrow> string \<Rightarrow> nat \<Rightarrow> int" where
  "strncasecmp s1 s2 0 = 0"
| "strncasecmp s1 s2 (Suc n) =
    (let c = tolower (c_char s1); d = tolower (c_char s2)
     in if c \<noteq> d then int c - int d else if c = 0 then 0 else strncasecmp (tl s1) (tl s2) n)"

definition is_critical_error :: "string option \<Rightarrow> bool" where
  "is_critical_error message =
    (case message of None \<Rightarrow> False
     | Some m \<Rightarrow>
        if strncasecmp m ''Unauthenticated'' 15 = 0 then True
        else if strncasecmp m ''your IP is banned'' 17 = 0 then True
        else if strncasecmp m ''IP Address currently banned'' 27 = 0 then True
        else False)"

definition on_job :: "string \<Rightarrow> string \<Rightarrow> string \<Rightarrow> string \<Rightarrow> client \<Rightarrow> client" where
  "on_job i job_id blob target c = c\<lparr>jobs := jobs c @ [(i, job_id, blob, target)]\<rparr>"

definition parse_job :: "'t json_api \<Rightarrow> 't \<Rightarrow> client \<Rightarrow> client" where
  "parse_job js tree c =
    (case (get_string js tree ''job_id'', get_string js tree ''blob'', get_string js tree ''target'', get_string js tree ''id'') of
       (Some job_id, Some blob, Some target, Some i) \<Rightarrow> on_job i job_id blob target c
     | _ \<Rightarrow> c)"

text \<open>The branches of \<open>_on_message\<close> for a response (\<open>True\<close> if it returns early) and for a notification.\<close>

definition on_response :: "'t json_api \<Rightarrow> 't \<Rightarrow> int \<Rightarrow> client \<Rightarrow> client \<times> bool" where
  "on_response js tree msg_id c =
    (let result = get_child js tree ''result''; err = get_child js tree ''error'' in
     if err \<noteq> None \<and> \<not> tree_empty js (the err) then
       if is_critical_error (get_string js (the err) ''message'') then (delay_connect c, True) else (c, False)
     else
       case result of None \<Rightarrow> (c, False)
       | Some result \<Rightarrow>
           if msg_id = 1 then
             case get_string js result ''status'' of None \<Rightarrow> (delay_connect c, True)
             | Some result_status \<Rightarrow>
                 if result_status = ''OK'' then
                   case get_string js result ''id'' of None \<Rightarrow> (delay_connect c, True)
                   | Some result_id \<Rightarrow>
                       let c = c\<lparr>rpc_id := result_id\<rparr>
                       in (case get_child js result ''job'' of None \<Rightarrow> (c, False) | Some job \<Rightarrow> (parse_job js job c, False))
                 else (c, False)
           else (c, False))"

definition on_notification :: "'t json_api \<Rightarrow> 't \<Rightarrow> client \<Rightarrow> client" where
  "on_notification js tree c =
    (case get_string js tree ''method'' of None \<Rightarrow> c
     | Some method \<Rightarrow>
         if method \<noteq> ''job'' then c
         else (case get_child js tree ''params'' of None \<Rightarrow> c | Some params \<Rightarrow> parse_job js params c))"

definition on_message :: "'t json_api \<Rightarrow> bool \<Rightarrow> client \<Rightarrow> client_exception + client" where
  "on_message js err c =
    (if err then Inr (delay_connect c)
     else
       let sout = response c; c = c\<lparr>response := []\<rparr> in
       case read_json js sout of None \<Rightarrow> Inl Json_parser_error
       | Some tree \<Rightarrow>
           (case get_string js tree ''jsonrpc'' of None \<Rightarrow> Inl Ptree_bad_path
            | Some jsonrpc \<Rightarrow>
                (case get_int64 js tree ''id'' of
                   Some msg_id \<Rightarrow>
                     let (c, return) = on_response js tree msg_id c
                     in if return then Inr c else Inr (do_read c)
                 | None \<Rightarrow> Inr (do_read (on_notification js tree c)))))"

text \<open>The completion handlers of \<open>async_connect\<close> and \<open>async_write\<close>.\<close>

definition on_connected :: "bool \<Rightarrow> client \<Rightarrow> client" where
  "on_connected ok c = (if ok then do_login (c\<lparr>socket_open := True\<rparr>) else delay_connect c)"

definition on_written :: "bool \<Rightarrow> client \<Rightarrow> client" where
  "on_written ok c =
    (if ok then
       let c = c\<lparr>write_queue := tl (write_queue c)\<rparr>;
           c = (if write_queue c \<noteq> [] then do_write c else c)
       in do_read c
     else delay_connect c)"

definition login :: "client \<Rightarrow> client" where
  "login c = do_connect c"

section \<open>Runs\<close>

text \<open>
  The end of an operation.  A read that fails may have received part of a line; one that succeeds
  has a line in the buffer.  The handler of the timer ignores its error code.
\<close>

datatype client_event = Connected bool | Written bool | Received string | Read_failed string | Expired

fun ends :: "client_event \<Rightarrow> client_op \<Rightarrow> bool" where
  "ends (Connected ok) op \<longleftrightarrow> op = Connecting"
| "ends (Written ok) op \<longleftrightarrow> (case op of Writing m \<Rightarrow> True | _ \<Rightarrow> False)"
| "ends (Received s) op \<longleftrightarrow> op = Reading"
| "ends (Read_failed s) op \<longleftrightarrow> op = Reading"
| "ends Expired op \<longleftrightarrow> op = Timing"

fun handler :: "'t json_api \<Rightarrow> client_event \<Rightarrow> client \<Rightarrow> client_exception + client" where
  "handler js (Connected ok) c = Inr (on_connected ok c)"
| "handler js (Written ok) c = Inr (on_written ok c)"
| "handler js (Received s) c = on_message js False (c\<lparr>response := response c @ s\<rparr>)"
| "handler js (Read_failed s) c = on_message js True (c\<lparr>response := response c @ s\<rparr>)"
| "handler js Expired c = Inr (do_connect c)"

definition line_complete :: "client_event \<Rightarrow> client \<Rightarrow> bool" where
  "line_complete ev c = (case ev of Received s \<Rightarrow> CHR 0x0A \<in> set (response c @ s) | _ \<Rightarrow> True)"

text \<open>\<open>client_runs js c evs r\<close>: the events \<open>evs\<close> lead from the client \<open>c\<close> to the outcome \<open>r\<close>, which is
  the client or an exception that has left a handler.\<close>

inductive client_runs :: "'t json_api \<Rightarrow> client \<Rightarrow> client_event list \<Rightarrow> client_exception + client \<Rightarrow> bool"
  for js :: "'t json_api" and c :: client where
  stop: "client_runs js c [] (Inr c)"
| step: "client_runs js c evs (Inr c') \<Longrightarrow> pending c' = ops1 @ op # ops2 \<Longrightarrow> ends ev op \<Longrightarrow> line_complete ev c' \<Longrightarrow>
    client_runs js c (evs @ [ev]) (handler js ev (c'\<lparr>pending := ops1 @ ops2\<rparr>))"

end
