(* ===== verification/StratumLaws.thy ===== *)
theory StratumLaws
  imports Stratum
begin

text \<open>
  The stratum client as a protocol: the phases that a run of it goes through, what a failed write
  does to them, where jobs come from, and the texts it sends and compares.
\<close>

section \<open>The phases\<close>

text \<open>The client as its user sees it.  A write that has failed leaves its message in the queue.\<close>

datatype phase = Joining | Authenticating | Listening | Backing_off | Broken_joining | Broken_backing_off | Stalled

inductive next_phase :: "phase \<Rightarrow> client_event \<Rightarrow> phase \<Rightarrow> bool" where
  joined: "next_phase Joining (Connected True) Authenticating"
| not_joined: "next_phase Joining (Connected False) Backing_off"
| sent: "next_phase Authenticating (Written True) Listening"
| not_sent: "next_phase Authenticating (Written False) Broken_backing_off"
| heard: "next_phase Listening (Received s) Listening"
| refused: "next_phase Listening (Received s) Backing_off"
| lost: "next_phase Listening (Read_failed s) Backing_off"
| again: "next_phase Backing_off Expired Joining"
| broken_again: "next_phase Broken_backing_off Expired Broken_joining"
| broken_not_joined: "next_phase Broken_joining (Connected False) Broken_backing_off"
| broken_joined: "next_phase Broken_joining (Connected True) Stalled"

inductive_simps next_phase_simps:
  "next_phase Joining ev ph" "next_phase Authenticating ev ph" "next_phase Listening ev ph" "next_phase Backing_off ev ph"
  "next_phase Broken_joining ev ph" "next_phase Broken_backing_off ev ph" "next_phase Stalled ev ph"

inductive protocol :: "client_event list \<Rightarrow> phase \<Rightarrow> bool" where
  start: "protocol [] Joining"
| move: "protocol evs ph \<Longrightarrow> next_phase ph ev ph' \<Longrightarrow> protocol (evs @ [ev]) ph'"

text \<open>The members of the client in each phase.\<close>

fun in_phase :: "phase \<Rightarrow> client \<Rightarrow> bool" where
  "in_phase Joining c \<longleftrightarrow> pending c = [Connecting] \<and> \<not> is_reconnecting c \<and> write_queue c = []"
| "in_phase Authenticating c \<longleftrightarrow> pending c = [Writing (login_message (user c) (pass c))] \<and> \<not> is_reconnecting c \<and>
    write_queue c = [login_message (user c) (pass c)] \<and> socket_open c \<and> seq_number c = 1"
| "in_phase Listening c \<longleftrightarrow> pending c = [Reading] \<and> \<not> is_reconnecting c \<and> write_queue c = [] \<and> socket_open c \<and> seq_number c = 1"
| "in_phase Backing_off c \<longleftrightarrow> pending c = [Timing] \<and> is_reconnecting c \<and> write_queue c = [] \<and> \<not> socket_open c"
| "in_phase Broken_joining c \<longleftrightarrow> pending c = [Connecting] \<and> \<not> is_reconnecting c \<and> length (write_queue c) = 1"
| "in_phase Broken_backing_off c \<longleftrightarrow> pending c = [Timing] \<and> is_reconnecting c \<and> length (write_queue c) = 1 \<and> \<not> socket_open c"
| "in_phase Stalled c \<longleftrightarrow> pending c = [] \<and> length (write_queue c) = 2"

definition start_client :: "string \<Rightarrow> string \<Rightarrow> bool \<Rightarrow> client" where
  "start_client usr pwd memory = login (new_client usr pwd memory)"

named_theorems client_defs

lemmas [client_defs] = start_op_def delay_connect_def do_connect_def do_write_def do_read_def write_msg_def do_login_def
  on_connected_def on_written_def login_def new_client_def start_client_def on_job_def Let_def

lemma on_job_members [simp]:
  "pending (on_job i j b t c) = pending c" "is_reconnecting (on_job i j b t c) = is_reconnecting c"
  "write_queue (on_job i j b t c) = write_queue c" "socket_open (on_job i j b t c) = socket_open c"
  "seq_number (on_job i j b t c) = seq_number c" "response (on_job i j b t c) = response c"
  by (simp_all add: on_job_def)

lemma parse_job_members [simp]:
  "pending (parse_job js t c) = pending c" "is_reconnecting (parse_job js t c) = is_reconnecting c"
  "write_queue (parse_job js t c) = write_queue c" "socket_open (parse_job js t c) = socket_open c"
  "seq_number (parse_job js t c) = seq_number c" "response (parse_job js t c) = response c"
  by (simp_all add: parse_job_def split: option.splits)

lemma on_notification_members [simp]:
  "pending (on_notification js t c) = pending c" "is_reconnecting (on_notification js t c) = is_reconnecting c"
  "write_queue (on_notification js t c) = write_queue c" "socket_open (on_notification js t c) = socket_open c"
  "seq_number (on_notification js t c) = seq_number c" "response (on_notification js t c) = response c"
  by (simp_all add: on_notification_def split: option.splits)

text \<open>A response is either taken in, with the connection as it was, or it ends the session.\<close>

lemma on_response_cases:
  obtains c' where "on_response js t i c = (c', False)" and "pending c' = pending c" and "is_reconnecting c' = is_reconnecting c"
      and "write_queue c' = write_queue c" and "socket_open c' = socket_open c" and "seq_number c' = seq_number c"
  | "on_response js t i c = (delay_connect c, True)"
proof -
  let ?r = "on_response js t i c"
  have "(\<exists>c'. ?r = (c', False) \<and> pending c' = pending c \<and> is_reconnecting c' = is_reconnecting c \<and>
      write_queue c' = write_queue c \<and> socket_open c' = socket_open c \<and> seq_number c' = seq_number c) \<or> ?r = (delay_connect c, True)"
    by (simp add: on_response_def Let_def split: option.splits)
  then show thesis using that by blast
qed

lemma on_message_listening:
  assumes "on_message js err c = Inr c'" and "pending c = []" and "\<not> is_reconnecting c" and "write_queue c = []"
    and "socket_open c" and "seq_number c = 1"
  shows "in_phase Backing_off c' \<or> \<not> err \<and> in_phase Listening c'"
proof (cases err)
  case True
  then show ?thesis using assms by (auto simp: on_message_def client_defs)
next
  case False
  then obtain t where t: "read_json js (response c) = Some t"
    using assms(1) by (auto simp: on_message_def Let_def split: option.splits)
  show ?thesis
  proof (cases "get_int64 js t ''id''")
    case None
    then show ?thesis using assms False t by (auto simp: on_message_def client_defs split: option.splits)
  next
    case (Some i)
    let ?c = "c\<lparr>response := []\<rparr>"
    show ?thesis
      by (rule on_response_cases [of js t i ?c])
        (use assms False t Some in \<open>auto simp: on_message_def client_defs split: option.splits\<close>)
  qed
qed

lemma handler_next_phase:
  assumes "in_phase ph c" and "pending c = [op]" and "ends ev op" and "handler js ev (c\<lparr>pending := []\<rparr>) = Inr c'"
  shows "\<exists>ph'. next_phase ph ev ph' \<and> in_phase ph' c'"
proof (cases ph)
  case Joining
  then obtain ok where "ev = Connected ok" using assms(1-3) by (cases ev) auto
  then show ?thesis using assms Joining by (cases ok) (auto simp: next_phase_simps client_defs)
next
  case Authenticating
  then obtain ok where "ev = Written ok" using assms(1-3) by (cases ev) auto
  then show ?thesis using assms Authenticating by (cases ok) (auto simp: next_phase_simps client_defs)
next
  case Listening
  then consider s where "ev = Received s" | s where "ev = Read_failed s" using assms(1-3) by (cases ev) auto
  then show ?thesis
  proof cases
    case 1
    have "in_phase Backing_off c' \<or> \<not> False \<and> in_phase Listening c'"
      by (rule on_message_listening [of js _ "c\<lparr>pending := [], response := response c @ s\<rparr>"])
        (use assms Listening 1 in simp_all)
    then show ?thesis unfolding 1 Listening next_phase_simps by blast
  next
    case 2
    have "in_phase Backing_off c' \<or> \<not> True \<and> in_phase Listening c'"
      by (rule on_message_listening [of js _ "c\<lparr>pending := [], response := response c @ s\<rparr>"])
        (use assms Listening 2 in simp_all)
    then show ?thesis unfolding 2 Listening next_phase_simps by blast
  qed
next
  case Broken_joining
  then obtain ok where "ev = Connected ok" using assms(1-3) by (cases ev) auto
  then show ?thesis using assms Broken_joining by (cases ok) (auto simp: next_phase_simps client_defs)
next
  case Broken_backing_off
  then have "ev = Expired" using assms(1-3) by (cases ev) auto
  then show ?thesis using assms Broken_backing_off by (auto simp: next_phase_simps client_defs)
next
  case Backing_off
  then have "ev = Expired" using assms(1-3) by (cases ev) auto
  then show ?thesis using assms Backing_off by (auto simp: next_phase_simps client_defs)
qed (use assms in auto)

lemma in_phase_pending:
  assumes "in_phase ph c" and "pending c = ops1 @ op # ops2"
  shows "ops1 = []" and "ops2 = []" and "pending c = [op]"
proof -
  have "length (pending c) \<le> 1" using assms(1) by (cases ph) auto
  then show "ops1 = []" "ops2 = []" "pending c = [op]" using assms(2) by auto
qed

lemma client_runs_protocol:
  assumes "client_runs js (start_client u p mem) evs (Inr c)"
  shows "\<exists>ph. protocol evs ph \<and> in_phase ph c"
  using assms
proof (induction evs "Inr c :: client_exception + client" arbitrary: c rule: client_runs.induct)
  case stop
  then show ?case by (intro exI [of _ Joining]) (auto simp: client_defs protocol.start)
next
  case (step evs c' ops1 op ops2 ev)
  then obtain ph where ph: "protocol evs ph" "in_phase ph c'" by blast
  note o = in_phase_pending [OF ph(2) step.hyps(3)]
  obtain ph' where "next_phase ph ev ph'" "in_phase ph' c"
    using handler_next_phase [OF ph(2) o(3) step.hyps(4)] step.hyps(6) o by auto
  then show ?case using protocol.move [OF ph(1)] by blast
qed


lemma protocol_no_failed_write:
  assumes "protocol evs ph" and "Written False \<notin> set evs"
  shows "ph = Joining \<or> ph = Authenticating \<or> ph = Listening \<or> ph = Backing_off"
  using assms by (induction rule: protocol.induct) (auto simp: next_phase_simps)

lemma broken_next:
  assumes "ph = Broken_joining \<or> ph = Broken_backing_off \<or> ph = Stalled" and "next_phase ph ev ph'"
  shows "ph' = Broken_joining \<or> ph' = Broken_backing_off \<or> ph' = Stalled" and "ev = Connected True \<or> ph = Stalled \<Longrightarrow> ph' = Stalled"
  using assms by (auto simp: next_phase_simps)

lemma protocol_failed_write:
  assumes "protocol evs ph" and "evs = evs1 @ Written False # evs2"
  shows "(ph = Broken_joining \<or> ph = Broken_backing_off \<or> ph = Stalled) \<and> (Connected True \<in> set evs2 \<longrightarrow> ph = Stalled)"
  using assms
proof (induction arbitrary: evs2 rule: protocol.induct)
  case (move evs ph ev ph')
  show ?case
  proof (cases evs2 rule: rev_cases)
    case Nil
    then have "next_phase ph (Written False) ph'" using move.hyps(2) move.prems by simp
    then show ?thesis using Nil by (cases ph) (auto simp: next_phase_simps)
  next
    case (snoc evs' e)
    then have "evs = evs1 @ Written False # evs'" and "e = ev" using move.prems by simp_all
    with move.IH have ih: "ph = Broken_joining \<or> ph = Broken_backing_off \<or> ph = Stalled" "Connected True \<in> set evs' \<longrightarrow> ph = Stalled"
      by blast+
    show ?thesis
      using broken_next(1) [OF ih(1) move.hyps(2)] broken_next(2) [OF ih(1) move.hyps(2)] ih(2) snoc \<open>e = ev\<close> by auto
  qed
qed simp

text \<open>One step forward from each phase, when the network does what it should.\<close>

lemma client_runs_only:
  assumes "client_runs js c0 evs (Inr c)" and "pending c = [op]" and "ends ev op" and "line_complete ev c"
  shows "client_runs js c0 (evs @ [ev]) (handler js ev (c\<lparr>pending := []\<rparr>))"
  using client_runs.step [OF assms(1) _ assms(3,4), of "[]" "[]"] assms(2) by simp

lemma join_then_send:
  assumes "client_runs js c0 evs (Inr c)" and "in_phase Joining c"
  shows "\<exists>c'. client_runs js c0 (evs @ [Connected True]) (Inr c') \<and> in_phase Authenticating c' \<and> response c' = response c"
  using client_runs_only [OF assms(1), of Connecting "Connected True"] assms(2) by (auto simp: client_defs line_complete_def)

lemma send_then_listen:
  assumes "client_runs js c0 evs (Inr c)" and "in_phase Authenticating c"
  shows "\<exists>c'. client_runs js c0 (evs @ [Written True]) (Inr c') \<and> in_phase Listening c' \<and> response c' = response c"
  using client_runs_only [OF assms(1), of _ "Written True"] assms(2) by (auto simp: client_defs line_complete_def)

lemma back_then_join:
  assumes "client_runs js c0 evs (Inr c)" and "in_phase Backing_off c"
  shows "\<exists>c'. client_runs js c0 (evs @ [Expired]) (Inr c') \<and> in_phase Joining c' \<and> response c' = response c"
  using client_runs_only [OF assms(1), of _ "Expired"] assms(2) by (auto simp: client_defs line_complete_def)

lemma reconnect_then_listen:
  assumes "client_runs js c0 evs (Inr c)" and "in_phase Backing_off c"
  shows "\<exists>c'. client_runs js c0 (evs @ [Expired, Connected True, Written True]) (Inr c') \<and> in_phase Listening c' \<and> response c' = response c"
proof -
  obtain c1 where "client_runs js c0 (evs @ [Expired]) (Inr c1)" "in_phase Joining c1" "response c1 = response c"
    using back_then_join [OF assms] by blast
  moreover from join_then_send [OF this(1,2)] obtain c2 where
    "client_runs js c0 ((evs @ [Expired]) @ [Connected True]) (Inr c2)" "in_phase Authenticating c2" "response c2 = response c1" by blast
  moreover from send_then_listen [OF this(1,2)] obtain c3 where
    "client_runs js c0 (((evs @ [Expired]) @ [Connected True]) @ [Written True]) (Inr c3)" "in_phase Listening c3" "response c3 = response c2"
    by blast
  ultimately show ?thesis by auto
qed

text \<open>C12: Every run of the client that no exception ends follows the protocol: connecting, sending the
  login, listening, waiting five seconds after an error; one operation is pending at a time, and the
  uninitialised \<open>_is_reconnecting\<close> does not matter.\<close>

theorem client_follows_protocol:
  assumes "client_runs js (start_client u p mem) evs (Inr c)"
  shows "\<exists>ph. protocol evs ph \<and> in_phase ph c"
  using assms by (rule client_runs_protocol)

text \<open>C21: As long as no write fails the client is never stuck: an operation is pending, and at most three
  events of a working network bring it back to reading from an open connection.\<close>

theorem client_recovers:
  assumes "client_runs js (start_client u p mem) evs (Inr c)" and "Written False \<notin> set evs"
  shows "length (pending c) = 1 \<and>
    (\<exists>evs' c'. length evs' \<le> 3 \<and> client_runs js (start_client u p mem) (evs @ evs') (Inr c') \<and> in_phase Listening c')"
proof -
  obtain ph where ph: "protocol evs ph" "in_phase ph c" using client_runs_protocol [OF assms(1)] by blast
  then consider "in_phase Joining c" | "in_phase Authenticating c" | "in_phase Listening c" | "in_phase Backing_off c"
    using protocol_no_failed_write [OF ph(1) assms(2)] by blast
  then show ?thesis
  proof cases
    case 1
    then obtain c1 where c1: "client_runs js (start_client u p mem) (evs @ [Connected True]) (Inr c1)" "in_phase Authenticating c1"
      using join_then_send [OF assms(1)] by blast
    from send_then_listen [OF this] 1 show ?thesis
      by (auto intro!: exI [of _ "[Connected True, Written True]"])
  next
    case 2
    then show ?thesis using send_then_listen [OF assms(1)] by (auto intro!: exI [of _ "[Written True]"])
  next
    case 3
    then show ?thesis using assms(1) by (auto intro!: exI [of _ "[]"])
  next
    case 4
    then show ?thesis
      using reconnect_then_listen [OF assms(1)] by (auto intro!: exI [of _ "[Expired, Connected True, Written True]"])
  qed
qed

text \<open>C20: After a failed write the client never writes or reads again: the message stays in the queue, so
  the login of the next connection is queued behind it and never sent, and then nothing is pending.\<close>

theorem client_stalls_after_failed_write:
  assumes "client_runs js (start_client u p mem) (evs1 @ Written False # evs2) (Inr c)"
  shows "set (pending c) \<subseteq> {Connecting, Timing} \<and> (Connected True \<in> set evs2 \<longrightarrow> pending c = [])"
proof -
  obtain ph where ph: "protocol (evs1 @ Written False # evs2) ph" "in_phase ph c" using client_runs_protocol [OF assms] by blast
  from protocol_failed_write [OF ph(1) refl] ph(2) show ?thesis by auto
qed

text \<open>C28: The bytes that a broken connection leaves in the buffer are put before the first line of the
  next one; if they do not parse together the exception leaves the handler.\<close>

theorem client_parses_stale_bytes:
  assumes "client_runs js (start_client u p mem) evs (Inr c)" and "pending c = [Reading]"
    and "CHR 0x0A \<in> set line" and "read_json js (response c @ rest @ line) = None"
  shows "client_runs js (start_client u p mem) (evs @ [Read_failed rest, Expired, Connected True, Written True, Received line])
    (Inl Json_parser_error)"
proof -
  obtain ph where ph: "protocol evs ph" "in_phase ph c" using client_runs_protocol [OF assms(1)] by blast
  then have l: "in_phase Listening c" using assms(2) by (cases ph) auto
  obtain c1 where c1: "client_runs js (start_client u p mem) (evs @ [Read_failed rest]) (Inr c1)" "in_phase Backing_off c1"
      "response c1 = response c @ rest"
    using client_runs_only [OF assms(1,2), of "Read_failed rest"] l by (auto simp: client_defs line_complete_def on_message_def)
  from reconnect_then_listen [OF c1(1,2)] obtain c2 where
    c2: "client_runs js (start_client u p mem) ((evs @ [Read_failed rest]) @ [Expired, Connected True, Written True]) (Inr c2)"
      "in_phase Listening c2" "response c2 = response c1" by blast
  show ?thesis
    using client_runs_only [OF c2(1), of Reading "Received line"] c2(2,3) c1(3) assms(3,4)
    by (simp add: line_complete_def on_message_def)
qed

section \<open>Jobs\<close>

text \<open>The subtree of a message that holds a job: the parameters of a \<open>job\<close> notification, or the job in
  the answer to the login, if that has an \<open>OK\<close> status and a session id.\<close>

definition job_tree :: "'t json_api \<Rightarrow> 't \<Rightarrow> 't option" where
  "job_tree js t =
    (case get_int64 js t ''id'' of
       None \<Rightarrow> if get_string js t ''method'' = Some ''job'' then get_child js t ''params'' else None
     | Some i \<Rightarrow>
         if i = 1 \<and> (case get_child js t ''error'' of None \<Rightarrow> True | Some e \<Rightarrow> tree_empty js e) then
           case get_child js t ''result'' of None \<Rightarrow> None
           | Some r \<Rightarrow> if get_string js r ''status'' = Some ''OK'' \<and> get_string js r ''id'' \<noteq> None then get_child js r ''job'' else None
         else None)"

definition job_fields :: "'t json_api \<Rightarrow> 't \<Rightarrow> (string \<times> string \<times> string \<times> string) list" where
  "job_fields js j =
    (case (get_string js j ''id'', get_string js j ''job_id'', get_string js j ''blob'', get_string js j ''target'') of
       (Some i, Some k, Some b, Some g) \<Rightarrow> [(i, k, b, g)] | _ \<Rightarrow> [])"

definition announced_jobs :: "'t json_api \<Rightarrow> 't \<Rightarrow> (string \<times> string \<times> string \<times> string) list" where
  "announced_jobs js t = (case job_tree js t of None \<Rightarrow> [] | Some j \<Rightarrow> job_fields js j)"

lemma jobs_parse_job [simp]: "jobs (parse_job js j c) = jobs c @ job_fields js j"
  by (simp add: parse_job_def job_fields_def on_job_def split: option.split)

lemma jobs_kept [simp]:
  "jobs (delay_connect c) = jobs c" "jobs (do_connect c) = jobs c" "jobs (do_read c) = jobs c" "jobs (on_connected ok c) = jobs c"
  "jobs (on_written ok c) = jobs c" "jobs (start_client u p mem) = []"
  by (simp_all add: client_defs)

lemma on_message_jobs:
  assumes "on_message js False c = Inr c'"
  obtains t where "read_json js (response c) = Some t" and "jobs c' = jobs c @ announced_jobs js t"
proof -
  obtain t where t: "read_json js (response c) = Some t"
    using assms by (auto simp: on_message_def Let_def split: option.splits)
  have "jobs c' = jobs c @ announced_jobs js t"
  proof (cases "get_int64 js t ''id''")
    case None
    then have "jobs c' = jobs (on_notification js t (c\<lparr>response := []\<rparr>))"
      using assms t by (auto simp: on_message_def Let_def split: option.splits)
    also have "\<dots> = jobs c @ announced_jobs js t"
      using None by (simp add: on_notification_def announced_jobs_def job_tree_def split: option.split)
    finally show ?thesis .
  next
    case (Some i)
    then have "jobs c' = jobs (fst (on_response js t i (c\<lparr>response := []\<rparr>)))"
      using assms t by (auto simp: on_message_def Let_def case_prod_beta split: option.splits if_splits)
    also have "\<dots> = jobs c @ announced_jobs js t"
      using Some by (simp add: on_response_def announced_jobs_def job_tree_def Let_def split: option.split)
    finally show ?thesis .
  qed
  with t show thesis by (rule that)
qed

text \<open>The texts that a list of events gives to the parser, one for each read that succeeds: the bytes of that read,
  after those of the failed reads since the last text; and the bytes that wait for the next text.\<close>

fun received_texts :: "string \<Rightarrow> client_event list \<Rightarrow> string list" where
  "received_texts rest [] = []"
| "received_texts rest (Received s # evs) = (rest @ s) # received_texts [] evs"
| "received_texts rest (Read_failed s # evs) = received_texts (rest @ s) evs"
| "received_texts rest (ev # evs) = received_texts rest evs"

fun unread_bytes :: "string \<Rightarrow> client_event list \<Rightarrow> string" where
  "unread_bytes rest [] = rest"
| "unread_bytes rest (Received s # evs) = unread_bytes [] evs"
| "unread_bytes rest (Read_failed s # evs) = unread_bytes (rest @ s) evs"
| "unread_bytes rest (ev # evs) = unread_bytes rest evs"

lemma received_texts_snoc:
  "received_texts rest (evs @ [Received s]) = received_texts rest evs @ [unread_bytes rest evs @ s]"
  "\<not> (\<exists>s. ev = Received s) \<Longrightarrow> received_texts rest (evs @ [ev]) = received_texts rest evs"
proof -
  show "received_texts rest (evs @ [Received s]) = received_texts rest evs @ [unread_bytes rest evs @ s]"
    by (induction rest evs rule: received_texts.induct) simp_all
  assume "\<not> (\<exists>s. ev = Received s)"
  then show "received_texts rest (evs @ [ev]) = received_texts rest evs"
    by (induction rest evs rule: received_texts.induct) (cases ev; simp)+
qed

lemma unread_bytes_snoc:
  "unread_bytes rest (evs @ [ev]) = (case ev of Received s \<Rightarrow> [] | Read_failed s \<Rightarrow> unread_bytes rest evs @ s | _ \<Rightarrow> unread_bytes rest evs)"
  by (induction rest evs rule: unread_bytes.induct) (cases ev; simp)+

lemma response_kept [simp]:
  "response (delay_connect c) = response c" "response (do_connect c) = response c" "response (do_read c) = response c"
  "response (on_connected ok c) = response c" "response (on_written ok c) = response c" "response (start_client u p mem) = []"
  "response (fst (on_response js t i c)) = response c"
  by (simp_all add: client_defs on_response_def split: option.split)

lemma on_message_response:
  assumes "on_message js False c = Inr c'"
  shows "response c' = []"
proof -
  let ?c = "c\<lparr>response := []\<rparr>"
  obtain t where t: "read_json js (response c) = Some t"
    using assms by (auto simp: on_message_def Let_def split: option.splits)
  show ?thesis
  proof (cases "get_int64 js t ''id''")
    case None
    then have "response c' = response (on_notification js t ?c)"
      using assms t by (auto simp: on_message_def Let_def split: option.splits)
    then show ?thesis by simp
  next
    case (Some i)
    then have "response c' = response (fst (on_response js t i ?c))"
      using assms t by (auto simp: on_message_def Let_def case_prod_beta split: option.splits if_splits)
    then show ?thesis by simp
  qed
qed

lemma client_runs_texts:
  assumes "client_runs js (start_client u p mem) evs (Inr c)"
  shows "response c = unread_bytes [] evs \<and>
    (\<exists>trees. map (read_json js) (received_texts [] evs) = map Some trees \<and> jobs c = concat (map (announced_jobs js) trees))"
  using assms
proof (induction evs "Inr c :: client_exception + client" arbitrary: c rule: client_runs.induct)
  case (step evs c' ops1 op ops2 ev)
  let ?c = "c'\<lparr>pending := ops1 @ ops2\<rparr>"
  from step.hyps(2) obtain trees where r: "response c' = unread_bytes [] evs"
    and trees: "map (read_json js) (received_texts [] evs) = map Some trees" "jobs c' = concat (map (announced_jobs js) trees)" by blast
  show ?case
  proof (cases "\<exists>s. ev = Received s")
    case True
    then obtain s where ev: "ev = Received s" by blast
    then have m: "on_message js False (?c\<lparr>response := response c' @ s\<rparr>) = Inr c" using step.hyps(6) by simp
    obtain t where "read_json js (response c' @ s) = Some t" "jobs c = jobs c' @ announced_jobs js t"
      by (rule on_message_jobs [OF m]) simp
    then show ?thesis
      using trees r on_message_response [OF m] by (auto simp: ev received_texts_snoc unread_bytes_snoc intro!: exI [of _ "trees @ [t]"])
  next
    case False
    then have "jobs c = jobs c'" "response c = unread_bytes [] (evs @ [ev])"
      using step.hyps(6) r by (cases ev; auto simp: on_message_def unread_bytes_snoc)+
    then show ?thesis using trees by (auto simp: received_texts_snoc(2) [OF False])
  qed
qed (auto simp: intro!: exI [of _ "[]"])

text \<open>C24: Only messages of the server start jobs: every text that a run has received parses, and the jobs passed
  to \<open>_on_job\<close> are those announced by these texts, in order, each once.\<close>

theorem client_jobs_announced:
  assumes "client_runs js (start_client u p mem) evs (Inr c)"
  shows "\<exists>trees. map (read_json js) (received_texts [] evs) = map Some trees \<and> jobs c = concat (map (announced_jobs js) trees)"
  using client_runs_texts [OF assms] by blast

section \<open>Texts\<close>

lemma split_at_separator:
  assumes "x \<notin> set u" and "x \<notin> set v" and "u @ x # r = v @ x # s"
  shows "u = v \<and> r = s"
  using assms
proof (induction u arbitrary: v)
  case Nil
  then show ?case by (cases v) auto
next
  case (Cons a u)
  then show ?case by (cases v) auto
qed

text \<open>The login message determines the user and the password, if user names have no quotation mark.\<close>

theorem login_message_credentials:
  assumes "CHR 0x22 \<notin> set u" and "CHR 0x22 \<notin> set u'"
  shows "login_message u p = login_message u' p' \<longleftrightarrow> u = u' \<and> p = p'"
proof
  assume e: "login_message u p = login_message u' p'"
  define t where "t x = '','' @ quoted ''pass'' @ '':'' @ quoted x @ '','' @ quoted ''agent'' @ '':'' @ quoted ''fingera_monero_beta'' @ '','' @
        quoted ''algo'' @ '':['' @ quoted ''1'' @ '']'' @ ''}'' @ ''}'' @ [CHR 0x0A]" for x
  have "login_message x y = (''{'' @ quoted ''id'' @ '':1,'' @ quoted ''jsonrpc'' @ '':2.0,'' @ quoted ''method'' @ '':'' @ quoted ''login'' @ '','' @
      quoted ''params'' @ '':{'' @ quoted ''login'' @ '':'' @ [CHR 0x22]) @ (x @ CHR 0x22 # t y)" for x y
    unfolding login_message_def t_def by (simp only: quoted_def [of x] append_assoc append_Cons append_Nil)
  with e have "u @ CHR 0x22 # t p = u' @ CHR 0x22 # t p'" by (simp only: same_append_eq)
  from split_at_separator [OF assms this] show "u = u' \<and> p = p'"
    by (simp only: t_def quoted_def append_assoc same_append_eq append_Cons append_same_eq list.inject)
qed simp

text \<open>Both texts in the letters that the comparison folds.\<close>

definition folded :: "string \<Rightarrow> nat list" where
  "folded s = map (\<lambda>c. tolower (of_char c)) s"

lemma tolower_0: "tolower c = 0 \<longleftrightarrow> c = 0"
  by (simp add: tolower_def)

lemma strncasecmp_prefix:
  assumes "0 \<notin> set (folded p)"
  shows "strncasecmp s p (length p) = 0 \<longleftrightarrow> take (length p) (folded s) = folded p"
  using assms
proof (induction p arbitrary: s)
  case (Cons x p)
  have x: "tolower (of_char x) \<noteq> 0" using Cons.prems by (simp add: folded_def)
  show ?case
  proof (cases s)
    case Nil
    then show ?thesis using x by (simp add: c_char_def folded_def tolower_0 tolower_def [of 0] Let_def)
  next
    case (Cons y s')
    then show ?thesis
      using Cons.IH [of s'] Cons.prems x by (auto simp: c_char_def folded_def Let_def)
  qed
qed (simp add: folded_def)

text \<open>An error message is critical if it starts with one of the three texts, in small or capital letters.\<close>

theorem is_critical_error_prefix:
  "is_critical_error message \<longleftrightarrow>
    (\<exists>m. message = Some m \<and> (\<exists>p \<in> {''Unauthenticated'', ''your IP is banned'', ''IP Address currently banned''}.
      take (length p) (folded m) = folded p))"
proof (cases message)
  case (Some m)
  define starts where "starts p \<longleftrightarrow> take (length p) (folded m) = folded p" for p
  have c: "0 \<notin> set (folded ''Unauthenticated'')" "0 \<notin> set (folded ''your IP is banned'')"
    "0 \<notin> set (folded ''IP Address currently banned'')" by code_simp+
  have l: "length ''Unauthenticated'' = 15" "length ''your IP is banned'' = 17" "length ''IP Address currently banned'' = 27"
    by simp_all
  have "is_critical_error message \<longleftrightarrow>
      starts ''Unauthenticated'' \<or> starts ''your IP is banned'' \<or> starts ''IP Address currently banned''"
    using strncasecmp_prefix [OF c(1), of m] strncasecmp_prefix [OF c(2), of m] strncasecmp_prefix [OF c(3), of m]
    unfolding Some is_critical_error_def option.case starts_def l by argo
  then show ?thesis by (simp only: Some starts_def option.inject ex_simps bex_simps simp_thms)
qed (simp add: is_critical_error_def)

section \<open>Example\<close>

text \<open>Runs with one pending operation at a time can be computed.\<close>

fun run_events :: "'t json_api \<Rightarrow> client \<Rightarrow> client_event list \<Rightarrow> (client_exception + client) option" where
  "run_events js c [] = Some (Inr c)"
| "run_events js c (ev # evs) =
    (case pending c of
       [op] \<Rightarrow>
         if ends ev op \<and> line_complete ev c then
           (case handler js ev (c\<lparr>pending := []\<rparr>) of
              Inr c' \<Rightarrow> run_events js c' evs
            | Inl e \<Rightarrow> if evs = [] then Some (Inl e) else None)
         else None
     | _ \<Rightarrow> None)"

lemma run_events_runs:
  assumes "run_events js c evs = Some r" and "client_runs js c0 evs0 (Inr c)"
  shows "client_runs js c0 (evs0 @ evs) r"
  using assms
proof (induction evs arbitrary: c evs0)
  case (Cons ev evs)
  then obtain op where op: "pending c = [op]" "ends ev op" "line_complete ev c"
    by (auto split: list.splits if_splits)
  have run: "client_runs js c0 (evs0 @ [ev]) (handler js ev (c\<lparr>pending := []\<rparr>))"
    by (rule client_runs_only [OF Cons.prems(2) op])
  show ?case
  proof (cases "handler js ev (c\<lparr>pending := []\<rparr>)")
    case (Inl e)
    then show ?thesis using run Cons.prems(1) op by (auto split: if_splits)
  next
    case (Inr c')
    then show ?thesis using run Cons.prems(1) op Cons.IH [of c' "evs0 @ [ev]"] by simp
  qed
qed simp

lemma run_events_start: "run_events js c evs = Some r \<Longrightarrow> client_runs js c evs r"
  using run_events_runs [of js c evs r c "[]"] by (simp add: client_runs.stop)

text \<open>A parser that knows two lines: the answer to the login, with a job, and a notification of a job.  The
  trees are numbers.\<close>

definition demo_json :: "nat json_api" where
  "demo_json =
    \<lparr>read_json = map_of [(''login'' @ [CHR 0x0A], 0), (''job'' @ [CHR 0x0A], 3)],
     get_string = (\<lambda>t p. map_of
       [((0, ''jsonrpc''), ''2.0''), ((1, ''status''), ''OK''), ((1, ''id''), ''session''),
        ((2, ''id''), ''session''), ((2, ''job_id''), ''7''), ((2, ''blob''), ''0707''), ((2, ''target''), ''ff''),
        ((3, ''jsonrpc''), ''2.0''), ((3, ''method''), ''job'')] (t, p)),
     get_int64 = (\<lambda>t p. if (t, p) = (0, ''id'') then Some 1 else None),
     get_child = (\<lambda>t p. map_of [((0, ''result''), 1), ((1, ''job''), 2), ((3, ''params''), 2)] (t, p)),
     tree_empty = (\<lambda>t. False)\<rparr>"

definition demo_client :: client where
  "demo_client = start_client ''user'' ''x'' True"

lemmas demo_defs = demo_json_def demo_client_def client_defs on_message_def on_response_def on_notification_def
  parse_job_def line_complete_def

definition listening_run :: "client_event list" where
  "listening_run = [Connected False, Expired, Connected True, Written True, Received (''login'' @ [CHR 0x0A]), Received (''job'' @ [CHR 0x0A])]"

definition outcome_client :: "(client_exception + client) option \<Rightarrow> client" where
  "outcome_client r = (case r of Some (Inr c) \<Rightarrow> c | _ \<Rightarrow> new_client [] [] False)"

definition demo_listening :: client where
  "demo_listening = outcome_client (run_events demo_json demo_client listening_run)"

definition demo_stalled :: client where
  "demo_stalled = outcome_client (run_events demo_json demo_client [Connected True, Written False, Expired, Connected True])"

lemma demo_listening_run: "client_runs demo_json (start_client ''user'' ''x'' True) listening_run (Inr demo_listening)"
proof -
  have "run_events demo_json demo_client listening_run = Some (Inr demo_listening)" by code_simp
  then show ?thesis unfolding demo_client_def by (rule run_events_start)
qed

lemma demo_stalled_run:
  "client_runs demo_json (start_client ''user'' ''x'' True) ([Connected True] @ Written False # [Expired, Connected True]) (Inr demo_stalled)"
proof -
  have "run_events demo_json demo_client ([Connected True] @ Written False # [Expired, Connected True]) = Some (Inr demo_stalled)"
    by code_simp
  then show ?thesis unfolding demo_client_def by (rule run_events_start)
qed

lemma client_follows_protocol_witness: "\<exists>ph. protocol listening_run ph \<and> in_phase ph demo_listening"
  by (rule client_follows_protocol [OF demo_listening_run])

lemma client_recovers_witness:
  "length (pending demo_listening) = 1 \<and>
    (\<exists>evs' c'. length evs' \<le> 3 \<and> client_runs demo_json (start_client ''user'' ''x'' True) (listening_run @ evs') (Inr c') \<and>
      in_phase Listening c')"
  by (rule client_recovers [OF demo_listening_run]) (simp add: listening_run_def)

lemma client_stalls_after_failed_write_witness: "pending demo_stalled = [] \<and> length (write_queue demo_stalled) = 2"
proof -
  have "length (write_queue demo_stalled) = 2" by code_simp
  then show ?thesis using client_stalls_after_failed_write [OF demo_stalled_run] by simp
qed

lemma client_parses_stale_bytes_witness:
  "client_runs demo_json (start_client ''user'' ''x'' True)
    (listening_run @ [Read_failed ''{'', Expired, Connected True, Written True, Received (''login'' @ [CHR 0x0A])]) (Inl Json_parser_error)"
proof (rule client_parses_stale_bytes [OF demo_listening_run])
  show "pending demo_listening = [Reading]" by code_simp
  show "read_json demo_json (response demo_listening @ ''{'' @ ''login'' @ [CHR 0x0A]) = None" by code_simp
qed simp

lemma client_jobs_announced_witness:
  "jobs demo_listening = announced_jobs demo_json 0 @ announced_jobs demo_json 3 \<and>
    announced_jobs demo_json 3 = [(''session'', ''7'', ''0707'', ''ff'')]"
proof -
  have "map (read_json demo_json) (received_texts [] listening_run) = map Some [0, 3]" by code_simp
  moreover have "map Some trees = map Some trees' \<longleftrightarrow> trees = trees'" for trees trees' :: "nat list"
    by (rule inj_map_eq_map) simp
  ultimately have "jobs demo_listening = concat (map (announced_jobs demo_json) [0, 3])"
    using client_jobs_announced [OF demo_listening_run] by metis
  moreover have "announced_jobs demo_json 3 = [(''session'', ''7'', ''0707'', ''ff'')]" by code_simp
  ultimately show ?thesis by simp
qed

lemma login_message_credentials_witness: "login_message ''user'' ''x'' \<noteq> login_message ''user'' ''y''"
  using login_message_credentials [of "''user''" "''user''" "''x''" "''y''"] by simp

text \<open>With a quotation mark in the user name two clients send the same text.\<close>

lemma login_message_ambiguous:
  "login_message (''a'' @ [CHR 0x22] @ '','' @ quoted ''pass'' @ '':'' @ [CHR 0x22] @ ''b'') ''c'' =
   login_message ''a'' (''b'' @ [CHR 0x22] @ '','' @ quoted ''pass'' @ '':'' @ [CHR 0x22] @ ''c'')"
  by code_simp

text \<open>The first keepalive after a login has the number of the login, 1, by which \<open>_on_message\<close> recognises the
  answer to it.\<close>

lemma first_ping_number:
  assumes "in_phase Listening c"
  shows "take 7 (last (write_queue (do_ping c))) = ''{'' @ quoted ''id'' @ '':1''"
proof -
  have "char_of (49 :: nat) = CHR ''1''" by code_simp
  then show ?thesis
    using assms by (simp add: do_ping_def write_msg_def do_write_def start_op_def Let_def decimal_def quoted_def)
qed

end
