(* ===== verification/CpuFeatures.thy ===== *)
theory CpuFeatures
  imports Prelude
begin

unbundle bit_operations_syntax

text \<open>
  The detection of CPU features: \<^verbatim>\<open>src/src/cpu_features.cpp\<close>, built with GCC or Clang for x86-64.  The
  instructions \<open>cpuid\<close> and \<open>xgetbv\<close> are arguments; the variables that they overwrite are passed along
  under their names.  The map of features keeps what it had under other names.
\<close>

section \<open>The code\<close>

text \<open>The answers in \<open>ax\<close>, \<open>bx\<close>, \<open>cx\<close>, \<open>dx\<close> for a leaf and for a subleaf, and register XCR0 in two halves.\<close>

record cpu =
  cpuid :: "u32 \<Rightarrow> u32 \<times> u32 \<times> u32 \<times> u32"
  cpuid_ex :: "u32 \<Rightarrow> u32 \<Rightarrow> u32 \<times> u32 \<times> u32 \<times> u32"
  xgetbv :: "u32 \<times> u32"

text \<open>\<open>(r >> n) & 1\<close> as a truth value.\<close>

definition flag :: "u32 \<Rightarrow> nat \<Rightarrow> bool" where
  "flag r n \<longleftrightarrow> drop_bit n r AND 1 \<noteq> 0"

definition get_cpu_features :: "cpu \<Rightarrow> (string \<rightharpoonup> bool) \<Rightarrow> (string \<rightharpoonup> bool) \<times> bool" where
  "get_cpu_features cpu features =
    (let (max_level, bx, cx, dx) = cpuid cpu 0 in
     if max_level < 1 then (features, False)
     else
       let (ax, bx, cx, dx) = cpuid cpu 1;
           features = features(
              ''cmov'' \<mapsto> flag dx 15,
              ''mmx'' \<mapsto> flag dx 23,
              ''sse'' \<mapsto> flag dx 25,
              ''sse2'' \<mapsto> flag dx 26,
              ''sse3'' \<mapsto> flag cx 0,
              ''ssse3'' \<mapsto> flag cx 9,
              ''sse4.1'' \<mapsto> flag cx 19,
              ''sse4.2'' \<mapsto> flag cx 20,
              ''pclmul'' \<mapsto> flag cx 1,
              ''cx16'' \<mapsto> flag cx 13,
              ''movbe'' \<mapsto> flag cx 22,
              ''popcnt'' \<mapsto> flag cx 23,
              ''aes'' \<mapsto> flag cx 25,
              ''rdrnd'' \<mapsto> flag cx 30);
           has_avx_registers = flag cx 27 \<and> flag cx 28;
           (ax, dx) = (if has_avx_registers then xgetbv cpu else (ax, dx));
           has_avx_save = (has_avx_registers \<and> ax AND 0x6 = 0x6);
           features = features(
              ''avx'' \<mapsto> has_avx_save,
              ''fma'' \<mapsto> has_avx_save \<and> flag cx 12,
              ''f16c'' \<mapsto> has_avx_save \<and> flag cx 29,
              ''xsave'' \<mapsto> has_avx_save \<and> flag cx 26);
           has_avx512_save = (has_avx_save \<and> ax AND 0xe0 = 0xe0);
           (max_ext_level, bx, cx, dx) = cpuid cpu 0x80000000;
           hax_ext_leaf1 = (max_ext_level \<ge> 0x80000001);
           (ax, bx, cx, dx) = (if hax_ext_leaf1 then cpuid cpu 0x80000001 else (ax, bx, cx, dx));
           features = features(
              ''lzcnt'' \<mapsto> hax_ext_leaf1 \<and> flag cx 5,
              ''sse4a'' \<mapsto> hax_ext_leaf1 \<and> flag cx 6,
              ''prfchw'' \<mapsto> hax_ext_leaf1 \<and> flag cx 8,
              ''xop'' \<mapsto> hax_ext_leaf1 \<and> flag cx 11 \<and> has_avx_save,
              ''fma4'' \<mapsto> hax_ext_leaf1 \<and> flag cx 16 \<and> has_avx_save,
              ''tbm'' \<mapsto> hax_ext_leaf1 \<and> flag cx 21,
              ''mwaitx'' \<mapsto> hax_ext_leaf1 \<and> flag cx 29);
           has_leaf7 = (max_level \<ge> 7);
           (ax, bx, cx, dx) = (if has_leaf7 then cpuid_ex cpu 0x7 0x0 else (ax, bx, cx, dx));
           features = features(
              ''avx2'' \<mapsto> has_avx_save \<and> has_leaf7 \<and> flag bx 5,
              ''fsgsbase'' \<mapsto> has_leaf7 \<and> flag bx 0,
              ''sgx'' \<mapsto> has_leaf7 \<and> flag bx 2,
              ''bmi'' \<mapsto> has_leaf7 \<and> flag bx 3,
              ''hle'' \<mapsto> has_leaf7 \<and> flag bx 4,
              ''bmi2'' \<mapsto> has_leaf7 \<and> flag bx 8,
              ''invpcid'' \<mapsto> has_leaf7 \<and> flag bx 10,
              ''rtm'' \<mapsto> has_leaf7 \<and> flag bx 11,
              ''rdseed'' \<mapsto> has_leaf7 \<and> flag bx 18,
              ''adx'' \<mapsto> has_leaf7 \<and> flag bx 19,
              ''smap'' \<mapsto> has_leaf7 \<and> flag bx 20,
              ''pcommit'' \<mapsto> has_leaf7 \<and> flag bx 22,
              ''clflushopt'' \<mapsto> has_leaf7 \<and> flag bx 23,
              ''clwb'' \<mapsto> has_leaf7 \<and> flag bx 24,
              ''sha'' \<mapsto> has_leaf7 \<and> flag bx 29,
              ''avx512f'' \<mapsto> has_leaf7 \<and> flag bx 16 \<and> has_avx512_save,
              ''avx512dq'' \<mapsto> has_leaf7 \<and> flag bx 17 \<and> has_avx512_save,
              ''avx512ifma'' \<mapsto> has_leaf7 \<and> flag bx 21 \<and> has_avx512_save,
              ''avx512pf'' \<mapsto> has_leaf7 \<and> flag bx 26 \<and> has_avx512_save,
              ''avx512er'' \<mapsto> has_leaf7 \<and> flag bx 27 \<and> has_avx512_save,
              ''avx512cd'' \<mapsto> has_leaf7 \<and> flag bx 28 \<and> has_avx512_save,
              ''avx512bw'' \<mapsto> has_leaf7 \<and> flag bx 30 \<and> has_avx512_save,
              ''avx512vl'' \<mapsto> has_leaf7 \<and> flag bx 31 \<and> has_avx512_save,
              ''prefetchwt1'' \<mapsto> has_leaf7 \<and> flag cx 0,
              ''avx512vbmi'' \<mapsto> has_leaf7 \<and> flag cx 1 \<and> has_avx512_save,
              ''pku'' \<mapsto> has_leaf7 \<and> flag cx 4);
           has_leafd = (max_level \<ge> 0xd);
           (ax, bx, cx, dx) = (if has_leafd then cpuid_ex cpu 0xd 0x1 else (ax, bx, cx, dx));
           features = features(
              ''xsaveopt'' \<mapsto> has_avx_save \<and> has_leafd \<and> flag ax 0,
              ''xsavec'' \<mapsto> has_avx_save \<and> has_leafd \<and> flag ax 1,
              ''xsaves'' \<mapsto> has_avx_save \<and> has_leafd \<and> flag ax 3)
       in (features, True))"

section \<open>The table of features\<close>

text \<open>Where each feature is found and what the operating system has to save for it.\<close>

datatype leaf = Leaf1 | Extended1 | Leaf7 | LeafD

datatype register = EAX | EBX | ECX | EDX

datatype os_state = No_state | AVX_state | AVX512_state

definition feature_table :: "(string \<times> leaf \<times> register \<times> nat \<times> os_state) list" where
  "feature_table =
    [(''cmov'', Leaf1, EDX, 15, No_state),
     (''mmx'', Leaf1, EDX, 23, No_state),
     (''sse'', Leaf1, EDX, 25, No_state),
     (''sse2'', Leaf1, EDX, 26, No_state),
     (''sse3'', Leaf1, ECX, 0, No_state),
     (''ssse3'', Leaf1, ECX, 9, No_state),
     (''sse4.1'', Leaf1, ECX, 19, No_state),
     (''sse4.2'', Leaf1, ECX, 20, No_state),
     (''pclmul'', Leaf1, ECX, 1, No_state),
     (''cx16'', Leaf1, ECX, 13, No_state),
     (''movbe'', Leaf1, ECX, 22, No_state),
     (''popcnt'', Leaf1, ECX, 23, No_state),
     (''aes'', Leaf1, ECX, 25, No_state),
     (''rdrnd'', Leaf1, ECX, 30, No_state),
     (''avx'', Leaf1, ECX, 28, AVX_state),
     (''fma'', Leaf1, ECX, 12, AVX_state),
     (''f16c'', Leaf1, ECX, 29, AVX_state),
     (''xsave'', Leaf1, ECX, 26, AVX_state),
     (''lzcnt'', Extended1, ECX, 5, No_state),
     (''sse4a'', Extended1, ECX, 6, No_state),
     (''prfchw'', Extended1, ECX, 8, No_state),
     (''xop'', Extended1, ECX, 11, AVX_state),
     (''fma4'', Extended1, ECX, 16, AVX_state),
     (''tbm'', Extended1, ECX, 21, No_state),
     (''mwaitx'', Extended1, ECX, 29, No_state),
     (''avx2'', Leaf7, EBX, 5, AVX_state),
     (''fsgsbase'', Leaf7, EBX, 0, No_state),
     (''sgx'', Leaf7, EBX, 2, No_state),
     (''bmi'', Leaf7, EBX, 3, No_state),
     (''hle'', Leaf7, EBX, 4, No_state),
     (''bmi2'', Leaf7, EBX, 8, No_state),
     (''invpcid'', Leaf7, EBX, 10, No_state),
     (''rtm'', Leaf7, EBX, 11, No_state),
     (''rdseed'', Leaf7, EBX, 18, No_state),
     (''adx'', Leaf7, EBX, 19, No_state),
     (''smap'', Leaf7, EBX, 20, No_state),
     (''pcommit'', Leaf7, EBX, 22, No_state),
     (''clflushopt'', Leaf7, EBX, 23, No_state),
     (''clwb'', Leaf7, EBX, 24, No_state),
     (''sha'', Leaf7, EBX, 29, No_state),
     (''avx512f'', Leaf7, EBX, 16, AVX512_state),
     (''avx512dq'', Leaf7, EBX, 17, AVX512_state),
     (''avx512ifma'', Leaf7, EBX, 21, AVX512_state),
     (''avx512pf'', Leaf7, EBX, 26, AVX512_state),
     (''avx512er'', Leaf7, EBX, 27, AVX512_state),
     (''avx512cd'', Leaf7, EBX, 28, AVX512_state),
     (''avx512bw'', Leaf7, EBX, 30, AVX512_state),
     (''avx512vl'', Leaf7, EBX, 31, AVX512_state),
     (''prefetchwt1'', Leaf7, ECX, 0, No_state),
     (''avx512vbmi'', Leaf7, ECX, 1, AVX512_state),
     (''pku'', Leaf7, ECX, 4, No_state),
     (''xsaveopt'', LeafD, EAX, 0, AVX_state),
     (''xsavec'', LeafD, EAX, 1, AVX_state),
     (''xsaves'', LeafD, EAX, 3, AVX_state)]"

fun register_of :: "register \<Rightarrow> u32 \<times> u32 \<times> u32 \<times> u32 \<Rightarrow> u32" where
  "register_of EAX (a, b, c, d) = a"
| "register_of EBX (a, b, c, d) = b"
| "register_of ECX (a, b, c, d) = c"
| "register_of EDX (a, b, c, d) = d"

fun leaf_registers :: "cpu \<Rightarrow> leaf \<Rightarrow> u32 \<times> u32 \<times> u32 \<times> u32" where
  "leaf_registers cpu Leaf1 = cpuid cpu 1"
| "leaf_registers cpu Extended1 = cpuid cpu 0x80000001"
| "leaf_registers cpu Leaf7 = cpuid_ex cpu 7 0"
| "leaf_registers cpu LeafD = cpuid_ex cpu 0xd 1"

definition max_leaf :: "cpu \<Rightarrow> u32" where
  "max_leaf cpu = register_of EAX (cpuid cpu 0)"

fun leaf_available :: "cpu \<Rightarrow> leaf \<Rightarrow> bool" where
  "leaf_available cpu Leaf1 \<longleftrightarrow> max_leaf cpu \<ge> 1"
| "leaf_available cpu Extended1 \<longleftrightarrow> register_of EAX (cpuid cpu 0x80000000) \<ge> 0x80000001"
| "leaf_available cpu Leaf7 \<longleftrightarrow> max_leaf cpu \<ge> 7"
| "leaf_available cpu LeafD \<longleftrightarrow> max_leaf cpu \<ge> 0xd"

definition avx_saved :: "cpu \<Rightarrow> bool" where
  "avx_saved cpu \<longleftrightarrow>
    bit (register_of ECX (cpuid cpu 1)) 27 \<and> bit (register_of ECX (cpuid cpu 1)) 28 \<and> fst (xgetbv cpu) AND 0x6 = 0x6"

fun os_saves :: "cpu \<Rightarrow> os_state \<Rightarrow> bool" where
  "os_saves cpu No_state \<longleftrightarrow> True"
| "os_saves cpu AVX_state \<longleftrightarrow> avx_saved cpu"
| "os_saves cpu AVX512_state \<longleftrightarrow> avx_saved cpu \<and> fst (xgetbv cpu) AND 0xe0 = 0xe0"

definition supported :: "cpu \<Rightarrow> leaf \<times> register \<times> nat \<times> os_state \<Rightarrow> bool" where
  "supported cpu f = (let (l, r, n, s) = f in leaf_available cpu l \<and> bit (register_of r (leaf_registers cpu l)) n \<and> os_saves cpu s)"

lemma register_EAX: "register_of EAX t = fst t"
  by (cases t) simp

lemma flag_bit: "flag r n = bit r n"
  by (simp add: flag_def bit_iff_and_drop_bit_eq_1 and_one_eq)

lemma feature_names_distinct: "distinct (map fst feature_table)"
  by code_simp

lemma map_add_fold:
  assumes "distinct (map fst xs)"
  shows "m ++ map_of (map (\<lambda>(k, x). (k, f x)) xs) = fold (\<lambda>(k, x) m. m(k \<mapsto> f x)) xs m"
proof -
  have "distinct (map fst (map (\<lambda>(k, x). (k, f x)) xs))" using assms by (simp add: comp_def case_prod_beta)
  then have "map_of (map (\<lambda>(k, x). (k, f x)) xs) = map_of (rev (map (\<lambda>(k, x). (k, f x)) xs))"
    by (subst map_of_inject_set) (simp_all add: rev_map [symmetric] del: map_map)
  then have "m ++ map_of (map (\<lambda>(k, x). (k, f x)) xs) = m ++ map_of (rev (map (\<lambda>(k, x). (k, f x)) xs))" by simp
  also have "\<dots> = fold (\<lambda>(k, v) m. m(k \<mapsto> v)) (map (\<lambda>(k, x). (k, f x)) xs) m"
    by (simp add: map_add_map_of_foldr foldr_conv_fold del: map_map rev_map)
  finally show ?thesis by (simp add: fold_map comp_def case_prod_beta')
qed

text \<open>The features are those of the table: a feature is set if its leaf exists, its bit is set and the
  operating system saves the registers that it needs; all other entries of the map stay.\<close>

lemma cpu_features_eq:
  "get_cpu_features cpu m =
    (if max_leaf cpu < 1 then (m, False)
     else (m ++ map_of (map (\<lambda>(k, f). (k, supported cpu f)) feature_table), True))"
proof (cases "max_leaf cpu < 1")
  case True
  then show ?thesis by (simp add: get_cpu_features_def max_leaf_def register_EAX Let_def case_prod_beta)
next
  case False
  obtain a0 b0 c0 d0 where l0: "cpuid cpu 0 = (a0, b0, c0, d0)" by (cases "cpuid cpu 0")
  obtain a1 b1 c1 d1 where l1: "cpuid cpu 1 = (a1, b1, c1, d1)" by (cases "cpuid cpu 1")
  obtain ae be ce de where le: "cpuid cpu 0x80000000 = (ae, be, ce, de)" by (cases "cpuid cpu 0x80000000")
  obtain af bf cf df where lf: "cpuid cpu 0x80000001 = (af, bf, cf, df)" by (cases "cpuid cpu 0x80000001")
  obtain a7 b7 c7 d7 where l7: "cpuid_ex cpu 7 0 = (a7, b7, c7, d7)" by (cases "cpuid_ex cpu 7 0")
  obtain ad bd cd dd where ld: "cpuid_ex cpu 0xd 1 = (ad, bd, cd, dd)" by (cases "cpuid_ex cpu 0xd 1")
  obtain x y where xcr: "xgetbv cpu = (x, y)" by (cases "xgetbv cpu")
  define e7 ed ee where "e7 \<longleftrightarrow> a0 \<ge> 7" and "ed \<longleftrightarrow> a0 \<ge> 0xd" and "ee \<longleftrightarrow> ae \<ge> 0x80000001"
  note defs = e7_def [symmetric] ed_def [symmetric] ee_def [symmetric]
  have spec: "supported cpu (l, r, n, s) \<longleftrightarrow> leaf_available cpu l \<and> bit (register_of r (leaf_registers cpu l)) n \<and> os_saves cpu s"
    for l r n s by (simp add: supported_def)
  have avail: "leaf_available cpu Leaf1 = True" "leaf_available cpu Extended1 = ee" "leaf_available cpu Leaf7 = e7" "leaf_available cpu LeafD = ed"
    using False by (simp_all only: leaf_available.simps max_leaf_def l0 le register_of.simps defs not_less simp_thms)
  have regs: "leaf_registers cpu Leaf1 = (a1, b1, c1, d1)" "leaf_registers cpu Extended1 = (af, bf, cf, df)"
    "leaf_registers cpu Leaf7 = (a7, b7, c7, d7)" "leaf_registers cpu LeafD = (ad, bd, cd, dd)"
    by (simp_all add: l1 lf l7 ld)
  have "snd (get_cpu_features cpu m)" 
    using False by (simp add: get_cpu_features_def max_leaf_def l0 Let_def case_prod_beta)
  moreover have "fst (get_cpu_features cpu m) = fold (\<lambda>(k, f) m. m(k \<mapsto> supported cpu f)) feature_table m"
    using False
    unfolding get_cpu_features_def max_leaf_def l0 l1 le lf l7 ld xcr Let_def prod.case defs feature_table_def fold_simps
      spec avail regs register_of.simps os_saves.simps avx_saved_def flag_bit fst_conv snd_conv
    by (cases "bit c1 27"; cases "bit c1 28"; cases ee; cases e7; cases ed; simp add: conj_ac)
  ultimately show ?thesis
    using False by (simp add: map_add_fold [OF feature_names_distinct] prod_eq_iff)
qed


lemma cpu_features_lookup:
  assumes "get_cpu_features cpu m = (m', True)" and "(k, f) \<in> set feature_table"
  shows "m' k = Some (supported cpu f)"
proof -
  have "map_of (map (\<lambda>(k, f). (k, supported cpu f)) feature_table) k = Some (supported cpu f)"
    using assms(2) feature_names_distinct by (auto simp: map_of_eq_Some_iff comp_def case_prod_beta image_iff intro!: bexI [of _ "(k, f)"])
  then show ?thesis using assms(1) by (auto simp: cpu_features_eq split: if_splits)
qed

definition avx_features :: "string list" where
  "avx_features = [''avx'', ''avx2'', ''fma'', ''f16c'', ''xsave'', ''xop'', ''fma4'', ''xsaveopt'', ''xsavec'', ''xsaves'']"

definition avx512_features :: "string list" where
  "avx512_features = [''avx512f'', ''avx512dq'', ''avx512ifma'', ''avx512pf'', ''avx512er'', ''avx512cd'', ''avx512bw'',
    ''avx512vl'', ''avx512vbmi'']"

definition needs :: "string list \<Rightarrow> os_state \<Rightarrow> bool" where
  "needs ks st \<longleftrightarrow> list_all (\<lambda>k. case map_of feature_table k of None \<Rightarrow> False | Some (l, r, n, s) \<Rightarrow> s = st) ks"

lemma table_needs: "needs avx_features AVX_state" "needs avx512_features AVX512_state"
  by code_simp+

lemma cpu_features_os:
  assumes "get_cpu_features cpu m = (m', True)" and "needs ks st" and "k \<in> set ks" and "m' k = Some True"
  shows "os_saves cpu st"
proof -
  obtain l r n where "map_of feature_table k = Some (l, r, n, st)"
    using assms(2,3) by (auto simp: needs_def list_all_iff split: option.splits)
  then have "(k, l, r, n, st) \<in> set feature_table" by (rule map_of_SomeD)
  from cpu_features_lookup [OF assms(1) this] assms(4) show ?thesis by (simp add: supported_def)
qed

text \<open>C37: The features are those of the table: if the processor has leaf 1, a feature is set iff its leaf
  exists, its bit is set and the operating system saves the registers that it needs.  All other entries of
  the map stay; without leaf 1 all of it stays and the function returns false.\<close>

theorem cpu_features_table:
  "get_cpu_features cpu m =
    (if max_leaf cpu < 1 then (m, False)
     else (m ++ map_of (map (\<lambda>(k, f). (k, supported cpu f)) feature_table), True))"
  by (rule cpu_features_eq)

text \<open>C36: A feature that works on wide registers is reported only if the operating system saves them: XCR0
  has the bits 1 and 2 for AVX, and also the bits 5 to 7 for AVX-512.\<close>

theorem cpu_features_safe:
  assumes "get_cpu_features cpu m = (m', True)" and "m' k = Some True"
  shows "(k \<in> set avx_features \<longrightarrow> fst (xgetbv cpu) AND 0x6 = 0x6) \<and>
    (k \<in> set avx512_features \<longrightarrow> fst (xgetbv cpu) AND 0x6 = 0x6 \<and> fst (xgetbv cpu) AND 0xe0 = 0xe0)"
  using cpu_features_os [OF assms(1) table_needs(1) _ assms(2)] cpu_features_os [OF assms(1) table_needs(2) _ assms(2)]
  by (auto simp: avx_saved_def)

text \<open>A processor with AVX2, whose operating system saves its registers but not those of AVX-512.\<close>

definition demo_cpu :: cpu where
  "demo_cpu = \<lparr>cpuid = (\<lambda>l. if l = 0 then (7, 0, 0, 0) else if l = 1 then (0, 0, 0x18001000, 0x07808000) else (0x80000001, 0, 0, 0)),
     cpuid_ex = (\<lambda>l s. (0, 0x00010020, 0, 0)), xgetbv = (0x7, 0)\<rparr>"

lemma cpu_features_safe_witness:
  "fst (get_cpu_features demo_cpu Map.empty) ''avx2'' = Some True \<and> ''avx2'' \<in> set avx_features \<and>
   fst (xgetbv demo_cpu) AND 0x6 = 0x6 \<and> fst (get_cpu_features demo_cpu Map.empty) ''avx512f'' = Some False"
proof -
  have v: "snd (get_cpu_features demo_cpu Map.empty)" "fst (get_cpu_features demo_cpu Map.empty) ''avx2'' = Some True"
    "fst (get_cpu_features demo_cpu Map.empty) ''avx512f'' = Some False" "''avx2'' \<in> set avx_features"
    by code_simp+
  then have "get_cpu_features demo_cpu Map.empty = (fst (get_cpu_features demo_cpu Map.empty), True)" by (simp add: prod_eq_iff)
  from cpu_features_safe [OF this v(2)] v show ?thesis by blast
qed

end
