(* ===== verification/Skein.thy ===== *)
theory Skein
  imports Prelude "HOL-Library.Monad_Syntax"
begin

unbundle bit_operations_syntax

text \<open>
  Skein: \<^verbatim>\<open>src/src/hash/monero/skein.c\<close>, \<^verbatim>\<open>skein.h\<close> and \<^verbatim>\<open>skein_port.h\<close> as they are built: a little-endian
  host, \<open>SKEIN_LOOP\<close> 001 (the rounds of Skein-256 and Skein-512 unrolled, those of Skein-1024 in a loop of two key
  injections), error checks off.  A copy or a block that reaches past the end of its memory has no result.  The
  functions on contexts always return \<open>SKEIN_SUCCESS\<close>; the value of a definition is the context they leave.
  What \<open>#if 0\<close> excludes (extended initialisation, MAC and tree output) is not modelled.
\<close>

section \<open>Constants and contexts\<close>

definition MK_64 :: "u64 \<Rightarrow> u64 \<Rightarrow> u64" where
  "MK_64 hi32 lo32 = lo32 + push_bit 32 hi32"

definition SKEIN_T1_BIT :: "nat \<Rightarrow> nat" where
  "SKEIN_T1_BIT n = n - 64"

definition SKEIN_T1_FLAG_FIRST :: u64 where "SKEIN_T1_FLAG_FIRST = push_bit (SKEIN_T1_BIT 126) 1"
definition SKEIN_T1_FLAG_FINAL :: u64 where "SKEIN_T1_FLAG_FINAL = push_bit (SKEIN_T1_BIT 127) 1"
definition SKEIN_T1_FLAG_BIT_PAD :: u64 where "SKEIN_T1_FLAG_BIT_PAD = push_bit (SKEIN_T1_BIT 119) 1"

definition SKEIN_T1_BLK_TYPE :: "u64 \<Rightarrow> u64" where
  "SKEIN_T1_BLK_TYPE t = push_bit (SKEIN_T1_BIT 120) t"

definition SKEIN_T1_BLK_TYPE_CFG :: u64 where "SKEIN_T1_BLK_TYPE_CFG = SKEIN_T1_BLK_TYPE 4"
definition SKEIN_T1_BLK_TYPE_MSG :: u64 where "SKEIN_T1_BLK_TYPE_MSG = SKEIN_T1_BLK_TYPE 48"
definition SKEIN_T1_BLK_TYPE_OUT :: u64 where "SKEIN_T1_BLK_TYPE_OUT = SKEIN_T1_BLK_TYPE 63"
definition SKEIN_T1_BLK_TYPE_CFG_FINAL :: u64 where "SKEIN_T1_BLK_TYPE_CFG_FINAL = SKEIN_T1_BLK_TYPE_CFG OR SKEIN_T1_FLAG_FINAL"
definition SKEIN_T1_BLK_TYPE_OUT_FINAL :: u64 where "SKEIN_T1_BLK_TYPE_OUT_FINAL = SKEIN_T1_BLK_TYPE_OUT OR SKEIN_T1_FLAG_FINAL"

definition SKEIN_SCHEMA_VER :: u64 where "SKEIN_SCHEMA_VER = MK_64 1 0x33414853"
definition SKEIN_KS_PARITY :: u64 where "SKEIN_KS_PARITY = MK_64 0x1BD11BDA 0xA9FC1A22"
definition SKEIN_CFG_STR_LEN :: u64 where "SKEIN_CFG_STR_LEN = 4 * 8"

definition SKEIN_CFG_TREE_INFO :: "u64 \<Rightarrow> u64 \<Rightarrow> u64 \<Rightarrow> u64" where
  "SKEIN_CFG_TREE_INFO leaf node maxLvl = push_bit 0 leaf OR push_bit 8 node OR push_bit 16 maxLvl"

definition SKEIN_CFG_TREE_INFO_SEQUENTIAL :: u64 where "SKEIN_CFG_TREE_INFO_SEQUENTIAL = SKEIN_CFG_TREE_INFO 0 0 0"

record skein_ctxt =
  hashBitLen :: u64
  bCnt :: u64
  skein_T0 :: u64
  skein_T1 :: u64
  skein_X :: "u64 list"
  skein_b :: "byte list"

definition Skein_Start_New_Type :: "u64 \<Rightarrow> skein_ctxt \<Rightarrow> skein_ctxt" where
  "Skein_Start_New_Type blk_type ctx = ctx\<lparr>skein_T0 := 0, skein_T1 := SKEIN_T1_FLAG_FIRST OR blk_type, bCnt := 0\<rparr>"

definition Skein_Set_Bit_Pad_Flag :: "skein_ctxt \<Rightarrow> skein_ctxt" where
  "Skein_Set_Bit_Pad_Flag ctx = ctx\<lparr>skein_T1 := skein_T1 ctx OR SKEIN_T1_FLAG_BIT_PAD\<rparr>"

definition RotL_64 :: "u64 \<Rightarrow> nat \<Rightarrow> u64" where
  "RotL_64 x n = push_bit n x OR drop_bit (64 - n) x"

text \<open>Words from and to memory by \<open>memcpy\<close>, and the portable versions byte by byte.\<close>

definition Skein_Get64_LSB_First :: "byte list \<Rightarrow> nat \<Rightarrow> u64 list" where
  "Skein_Get64_LSB_First src wCnt = map (\<lambda>i. join_le (mem_slice src (8 * i) 8)) [0..<wCnt]"

definition Skein_Put64_LSB_First :: "u64 list \<Rightarrow> nat \<Rightarrow> byte list" where
  "Skein_Put64_LSB_First src n = take n (concat (map (split_le 8) src))"

definition Skein_Get64_portable :: "byte list \<Rightarrow> nat \<Rightarrow> u64 list" where
  "Skein_Get64_portable src wCnt =
    map (\<lambda>i. let n = 8 * i in
      ucast (src ! n) + push_bit 8 (ucast (src ! (n + 1))) + push_bit 16 (ucast (src ! (n + 2))) + push_bit 24 (ucast (src ! (n + 3))) +
      push_bit 32 (ucast (src ! (n + 4))) + push_bit 40 (ucast (src ! (n + 5))) + push_bit 48 (ucast (src ! (n + 6))) +
      push_bit 56 (ucast (src ! (n + 7)))) [0..<wCnt]"

definition Skein_Put64_portable :: "u64 list \<Rightarrow> nat \<Rightarrow> byte list" where
  "Skein_Put64_portable src n = map (\<lambda>i. ucast (drop_bit (8 * (i mod 8)) (src ! (i div 8)))) [0..<n]"

section \<open>Tables\<close>

definition R_256 :: "nat list list" where
  "R_256 = [[14, 16],
    [52, 57],
    [23, 40],
    [5, 37],
    [25, 33],
    [46, 12],
    [58, 22],
    [32, 32]]"

definition R_512 :: "nat list list" where
  "R_512 = [[46, 36, 19, 37],
    [33, 27, 14, 42],
    [17, 49, 36, 39],
    [44, 9, 54, 56],
    [39, 30, 34, 24],
    [13, 50, 10, 17],
    [25, 29, 39, 43],
    [8, 35, 56, 22]]"

definition R1024 :: "nat list list" where
  "R1024 = [[24, 13, 8, 47, 8, 17, 22, 37],
    [38, 19, 10, 55, 49, 18, 23, 52],
    [33, 4, 51, 13, 34, 41, 59, 17],
    [5, 20, 48, 41, 47, 28, 16, 25],
    [41, 9, 37, 31, 12, 47, 44, 30],
    [16, 34, 56, 51, 4, 53, 42, 41],
    [31, 44, 47, 46, 19, 42, 44, 25],
    [9, 48, 35, 52, 23, 31, 37, 20]]"

definition SKEIN_256_IV_128 :: "u64 list" where
  "SKEIN_256_IV_128 =
    [MK_64 0xE1111906 0x964D7260, MK_64 0x883DAAA7 0x7C8D811C,
     MK_64 0x10080DF4 0x91960F7A, MK_64 0xCCF7DDE5 0xB45BC1C2]"

definition SKEIN_256_IV_160 :: "u64 list" where
  "SKEIN_256_IV_160 =
    [MK_64 0x14202314 0x72825E98, MK_64 0x2AC4E9A2 0x5A77E590,
     MK_64 0xD47A5856 0x8838D63E, MK_64 0x2DD2E496 0x8586AB7D]"

definition SKEIN_256_IV_224 :: "u64 list" where
  "SKEIN_256_IV_224 =
    [MK_64 0xC6098A8C 0x9AE5EA0B, MK_64 0x876D5686 0x08C5191C,
     MK_64 0x99CB88D7 0xD7F53884, MK_64 0x384BDDB1 0xAEDDB5DE]"

definition SKEIN_256_IV_256 :: "u64 list" where
  "SKEIN_256_IV_256 =
    [MK_64 0xFC9DA860 0xD048B449, MK_64 0x2FCA6647 0x9FA7D833,
     MK_64 0xB33BC389 0x6656840F, MK_64 0x6A54E920 0xFDE8DA69]"

definition SKEIN_512_IV_128 :: "u64 list" where
  "SKEIN_512_IV_128 =
    [MK_64 0xA8BC7BF3 0x6FBF9F52, MK_64 0x1E9872CE 0xBD1AF0AA,
     MK_64 0x309B1790 0xB32190D3, MK_64 0xBCFBB854 0x3F94805C,
     MK_64 0x0DA61BCD 0x6E31B11B, MK_64 0x1A18EBEA 0xD46A32E3,
     MK_64 0xA2CC5B18 0xCE84AA82, MK_64 0x6982AB28 0x9D46982D]"

definition SKEIN_512_IV_160 :: "u64 list" where
  "SKEIN_512_IV_160 =
    [MK_64 0x28B81A2A 0xE013BD91, MK_64 0xC2F11668 0xB5BDF78F,
     MK_64 0x1760D8F3 0xF6A56F12, MK_64 0x4FB74758 0x8239904F,
     MK_64 0x21EDE07F 0x7EAF5056, MK_64 0xD908922E 0x63ED70B8,
     MK_64 0xB8EC76FF 0xECCB52FA, MK_64 0x01A47BB8 0xA3F27A6E]"

definition SKEIN_512_IV_224 :: "u64 list" where
  "SKEIN_512_IV_224 =
    [MK_64 0xCCD06162 0x48677224, MK_64 0xCBA65CF3 0xA92339EF,
     MK_64 0x8CCD69D6 0x52FF4B64, MK_64 0x398AED7B 0x3AB890B4,
     MK_64 0x0F59D1B1 0x457D2BD0, MK_64 0x6776FE65 0x75D4EB3D,
     MK_64 0x99FBC70E 0x997413E9, MK_64 0x9E2CFCCF 0xE1C41EF7]"

definition SKEIN_512_IV_256 :: "u64 list" where
  "SKEIN_512_IV_256 =
    [MK_64 0xCCD044A1 0x2FDB3E13, MK_64 0xE8359030 0x1A79A9EB,
     MK_64 0x55AEA061 0x4F816E6F, MK_64 0x2A2767A4 0xAE9B94DB,
     MK_64 0xEC06025E 0x74DD7683, MK_64 0xE7A436CD 0xC4746251,
     MK_64 0xC36FBAF9 0x393AD185, MK_64 0x3EEDBA18 0x33EDFC13]"

definition SKEIN_512_IV_384 :: "u64 list" where
  "SKEIN_512_IV_384 =
    [MK_64 0xA3F6C6BF 0x3A75EF5F, MK_64 0xB0FEF9CC 0xFD84FAA4,
     MK_64 0x9D77DD66 0x3D770CFE, MK_64 0xD798CBF3 0xB468FDDA,
     MK_64 0x1BC4A666 0x8A0E4465, MK_64 0x7ED7D434 0xE5807407,
     MK_64 0x548FC1AC 0xD4EC44D6, MK_64 0x266E1754 0x6AA18FF8]"

definition SKEIN_512_IV_512 :: "u64 list" where
  "SKEIN_512_IV_512 =
    [MK_64 0x4903ADFF 0x749C51CE, MK_64 0x0D95DE39 0x9746DF03,
     MK_64 0x8FD19341 0x27C79BCE, MK_64 0x9A255629 0xFF352CB1,
     MK_64 0x5DB62599 0xDF6CA7B0, MK_64 0xEABE394C 0xA9D5C3F4,
     MK_64 0x991112C7 0x1A75B523, MK_64 0xAE18A40B 0x660FCC33]"

definition SKEIN1024_IV_384 :: "u64 list" where
  "SKEIN1024_IV_384 =
    [MK_64 0x5102B6B8 0xC1894A35, MK_64 0xFEEBC9E3 0xFE8AF11A,
     MK_64 0x0C807F06 0xE32BED71, MK_64 0x60C13A52 0xB41A91F6,
     MK_64 0x9716D35D 0xD4917C38, MK_64 0xE780DF12 0x6FD31D3A,
     MK_64 0x797846B6 0xC898303A, MK_64 0xB172C2A8 0xB3572A3B,
     MK_64 0xC9BC8203 0xA6104A6C, MK_64 0x65909338 0xD75624F4,
     MK_64 0x94BCC568 0x4B3F81A0, MK_64 0x3EBBF51E 0x10ECFD46,
     MK_64 0x2DF50F0B 0xEEB08542, MK_64 0x3B5A6530 0x0DBC6516,
     MK_64 0x484B9CD2 0x167BBCE1, MK_64 0x2D136947 0xD4CBAFEA]"

definition SKEIN1024_IV_512 :: "u64 list" where
  "SKEIN1024_IV_512 =
    [MK_64 0xCAEC0E5D 0x7C1B1B18, MK_64 0xA01B0E04 0x5F03E802,
     MK_64 0x33840451 0xED912885, MK_64 0x374AFB04 0xEAEC2E1C,
     MK_64 0xDF25A0E2 0x813581F7, MK_64 0xE4004093 0x8B12F9D2,
     MK_64 0xA662D539 0xC2ED39B6, MK_64 0xFA8B85CF 0x45D8C75A,
     MK_64 0x8316ED8E 0x29EDE796, MK_64 0x053289C0 0x2E9F91B8,
     MK_64 0xC3F8EF1D 0x6D518B73, MK_64 0xBDCEC3C4 0xD5EF332E,
     MK_64 0x549A7E52 0x22974487, MK_64 0x67070872 0x5B749816,
     MK_64 0xB9CD28FB 0xF0581BD1, MK_64 0x0E2940B8 0x15804974]"

definition SKEIN1024_IV_1024 :: "u64 list" where
  "SKEIN1024_IV_1024 =
    [MK_64 0xD593DA07 0x41E72355, MK_64 0x15B5E511 0xAC73E00C,
     MK_64 0x5180E5AE 0xBAF2C4F0, MK_64 0x03BD41D3 0xFCBCAFAF,
     MK_64 0x1CAEC6FD 0x1983A898, MK_64 0x6E510B8B 0xCDD0589F,
     MK_64 0x77E2BDFD 0xC6394ADA, MK_64 0xC11E1DB5 0x24DCB0A3,
     MK_64 0xD6D14AF9 0xC6329AB5, MK_64 0x6A9B0BFC 0x6EB67E0D,
     MK_64 0x9243C60D 0xCCFF1332, MK_64 0x1A1F1DDE 0x743F02D4,
     MK_64 0x0996753C 0x10ED0BB8, MK_64 0x6572DD22 0xF2B4969A,
     MK_64 0x61FD3062 0xD00A579A, MK_64 0x1DE0536E 0x8682E539]"

section \<open>The block functions\<close>

text \<open>\<open>X##p0 += X##p1; X##p1 = RotL_64(X##p1,R); X##p1 ^= X##p0;\<close>\<close>

definition skein_mix :: "nat \<Rightarrow> nat \<Rightarrow> nat \<Rightarrow> u64 list \<Rightarrow> u64 list" where
  "skein_mix p0 p1 R X =
    (let X = X[p0 := X ! p0 + X ! p1];
         X = X[p1 := RotL_64 (X ! p1) R]
     in X[p1 := X ! p1 XOR X ! p0])"

definition Round256 :: "nat \<Rightarrow> nat \<Rightarrow> nat \<Rightarrow> nat \<Rightarrow> nat list \<Rightarrow> u64 list \<Rightarrow> u64 list" where
  "Round256 p0 p1 p2 p3 ROT X =
    (let X = skein_mix p0 p1 (ROT ! 0) X
     in skein_mix p2 p3 (ROT ! 1) X)"

definition I256 :: "u64 list \<Rightarrow> u64 list \<Rightarrow> nat \<Rightarrow> u64 list \<Rightarrow> u64 list" where
  "I256 ks ts R X =
    [X ! 0 + ks ! ((R + 1) mod 5),
     X ! 1 + (ks ! ((R + 2) mod 5) + ts ! ((R + 1) mod 3)),
     X ! 2 + (ks ! ((R + 3) mod 5) + ts ! ((R + 2) mod 3)),
     X ! 3 + (ks ! ((R + 4) mod 5) + of_nat R + 1)]"

definition R256_8_rounds :: "u64 list \<Rightarrow> u64 list \<Rightarrow> nat \<Rightarrow> u64 list \<Rightarrow> u64 list" where
  "R256_8_rounds ks ts R X =
    (let X = Round256 0 1 2 3 (R_256 ! 0) X;
         X = Round256 0 3 2 1 (R_256 ! 1) X;
         X = Round256 0 1 2 3 (R_256 ! 2) X;
         X = Round256 0 3 2 1 (R_256 ! 3) X;
         X = I256 ks ts (2 * R) X;
         X = Round256 0 1 2 3 (R_256 ! 4) X;
         X = Round256 0 3 2 1 (R_256 ! 5) X;
         X = Round256 0 1 2 3 (R_256 ! 6) X;
         X = Round256 0 3 2 1 (R_256 ! 7) X
     in I256 ks ts (2 * R + 1) X)"

text \<open>The rounds, as far as the preprocessor unrolls them for a total of 72.\<close>

definition R256_rounds :: "u64 list \<Rightarrow> u64 list \<Rightarrow> u64 list \<Rightarrow> u64 list" where
  "R256_rounds ks ts X = fold (R256_8_rounds ks ts) [0, 1, 2, 3, 4, 5, 6, 7, 8] X"

definition feed_forward :: "u64 list \<Rightarrow> u64 list \<Rightarrow> u64 list" where
  "feed_forward X w = map2 (XOR) X w"

text \<open>What a block makes of the chaining variables: the key schedule, the first key injection, the rounds and
  the feedforward.\<close>

definition block_256 :: "u64 list \<Rightarrow> u64 \<Rightarrow> u64 \<Rightarrow> u64 list \<Rightarrow> u64 list" where
  "block_256 X t0 t1 w =
    (let ks = [X ! 0, X ! 1, X ! 2, X ! 3, X ! 0 XOR X ! 1 XOR X ! 2 XOR X ! 3 XOR SKEIN_KS_PARITY];
         ts = [t0, t1, t0 XOR t1];
         X = [w ! 0 + ks ! 0, w ! 1 + ks ! 1 + ts ! 0, w ! 2 + ks ! 2 + ts ! 1, w ! 3 + ks ! 3]
     in feed_forward (R256_rounds ks ts X) w)"

definition Round512 :: "nat \<Rightarrow> nat \<Rightarrow> nat \<Rightarrow> nat \<Rightarrow> nat \<Rightarrow> nat \<Rightarrow> nat \<Rightarrow> nat \<Rightarrow> nat list \<Rightarrow> u64 list \<Rightarrow> u64 list" where
  "Round512 p0 p1 p2 p3 p4 p5 p6 p7 ROT X =
    (let X = skein_mix p0 p1 (ROT ! 0) X;
         X = skein_mix p2 p3 (ROT ! 1) X;
         X = skein_mix p4 p5 (ROT ! 2) X
     in skein_mix p6 p7 (ROT ! 3) X)"

definition I512 :: "u64 list \<Rightarrow> u64 list \<Rightarrow> nat \<Rightarrow> u64 list \<Rightarrow> u64 list" where
  "I512 ks ts R X =
    [X ! 0 + ks ! ((R + 1) mod 9),
     X ! 1 + ks ! ((R + 2) mod 9),
     X ! 2 + ks ! ((R + 3) mod 9),
     X ! 3 + ks ! ((R + 4) mod 9),
     X ! 4 + ks ! ((R + 5) mod 9),
     X ! 5 + (ks ! ((R + 6) mod 9) + ts ! ((R + 1) mod 3)),
     X ! 6 + (ks ! ((R + 7) mod 9) + ts ! ((R + 2) mod 3)),
     X ! 7 + (ks ! ((R + 8) mod 9) + of_nat R + 1)]"

definition R512_8_rounds :: "u64 list \<Rightarrow> u64 list \<Rightarrow> nat \<Rightarrow> u64 list \<Rightarrow> u64 list" where
  "R512_8_rounds ks ts R X =
    (let X = Round512 0 1 2 3 4 5 6 7 (R_512 ! 0) X;
         X = Round512 2 1 4 7 6 5 0 3 (R_512 ! 1) X;
         X = Round512 4 1 6 3 0 5 2 7 (R_512 ! 2) X;
         X = Round512 6 1 0 7 2 5 4 3 (R_512 ! 3) X;
         X = I512 ks ts (2 * R) X;
         X = Round512 0 1 2 3 4 5 6 7 (R_512 ! 4) X;
         X = Round512 2 1 4 7 6 5 0 3 (R_512 ! 5) X;
         X = Round512 4 1 6 3 0 5 2 7 (R_512 ! 6) X;
         X = Round512 6 1 0 7 2 5 4 3 (R_512 ! 7) X
     in I512 ks ts (2 * R + 1) X)"

definition R512_rounds :: "u64 list \<Rightarrow> u64 list \<Rightarrow> u64 list \<Rightarrow> u64 list" where
  "R512_rounds ks ts X = fold (R512_8_rounds ks ts) [0, 1, 2, 3, 4, 5, 6, 7, 8] X"

definition block_512 :: "u64 list \<Rightarrow> u64 \<Rightarrow> u64 \<Rightarrow> u64 list \<Rightarrow> u64 list" where
  "block_512 X t0 t1 w =
    (let ks = [X ! 0, X ! 1, X ! 2, X ! 3, X ! 4, X ! 5, X ! 6, X ! 7,
               X ! 0 XOR X ! 1 XOR X ! 2 XOR X ! 3 XOR X ! 4 XOR X ! 5 XOR X ! 6 XOR X ! 7 XOR SKEIN_KS_PARITY];
         ts = [t0, t1, t0 XOR t1];
         X = [w ! 0 + ks ! 0, w ! 1 + ks ! 1, w ! 2 + ks ! 2, w ! 3 + ks ! 3, w ! 4 + ks ! 4,
              w ! 5 + ks ! 5 + ts ! 0, w ! 6 + ks ! 6 + ts ! 1, w ! 7 + ks ! 7]
     in feed_forward (R512_rounds ks ts X) w)"

definition Round1024 :: "nat list \<Rightarrow> nat list \<Rightarrow> u64 list \<Rightarrow> u64 list" where
  "Round1024 p ROT X =
    (let X = skein_mix (p ! 0) (p ! 1) (ROT ! 0) X;
         X = skein_mix (p ! 2) (p ! 3) (ROT ! 1) X;
         X = skein_mix (p ! 4) (p ! 5) (ROT ! 2) X;
         X = skein_mix (p ! 6) (p ! 7) (ROT ! 3) X;
         X = skein_mix (p ! 8) (p ! 9) (ROT ! 4) X;
         X = skein_mix (p ! 10) (p ! 11) (ROT ! 5) X;
         X = skein_mix (p ! 12) (p ! 13) (ROT ! 6) X
     in skein_mix (p ! 14) (p ! 15) (ROT ! 7) X)"

text \<open>The array \<open>kw\<close> of Skein-1024 is the part of it that has been written: \<open>ts\<close> begins at its word 0 and \<open>ks\<close> at its
  word 3, so \<open>ts\<close> runs into the words of \<open>ks\<close> that are no longer needed.\<close>

definition set_kw :: "u64 list \<Rightarrow> nat \<Rightarrow> u64 \<Rightarrow> u64 list" where
  "set_kw kw i v = (if i = length kw then kw @ [v] else kw[i := v])"

definition KW_TWK_BASE :: nat where "KW_TWK_BASE = 0"
definition KW_KEY_BASE :: nat where "KW_KEY_BASE = 3"

definition I1024 :: "nat \<Rightarrow> nat \<Rightarrow> u64 list \<times> u64 list \<Rightarrow> u64 list \<times> u64 list" where
  "I1024 r R = (\<lambda>(X, kw).
    (let ks = (\<lambda>kw i. kw ! (KW_KEY_BASE + i)); ts = (\<lambda>kw i. kw ! (KW_TWK_BASE + i));
         X =
          [X ! 0 + ks kw (r + R + 0), X ! 1 + ks kw (r + R + 1), X ! 2 + ks kw (r + R + 2), X ! 3 + ks kw (r + R + 3),
           X ! 4 + ks kw (r + R + 4), X ! 5 + ks kw (r + R + 5), X ! 6 + ks kw (r + R + 6), X ! 7 + ks kw (r + R + 7),
           X ! 8 + ks kw (r + R + 8), X ! 9 + ks kw (r + R + 9), X ! 10 + ks kw (r + R + 10), X ! 11 + ks kw (r + R + 11),
           X ! 12 + ks kw (r + R + 12),
           X ! 13 + (ks kw (r + R + 13) + ts kw (r + R + 0)),
           X ! 14 + (ks kw (r + R + 14) + ts kw (r + R + 1)),
           X ! 15 + (ks kw (r + R + 15) + of_nat (r + R))];
         kw = set_kw kw (KW_KEY_BASE + (r + R + 16)) (ks kw (r + R - 1));
         kw = set_kw kw (KW_TWK_BASE + (r + R + 2)) (ts kw (r + R - 1))
     in (X, kw)))"

definition R1024_8_rounds :: "nat \<Rightarrow> u64 list \<times> u64 list \<Rightarrow> u64 list \<times> u64 list" where
  "R1024_8_rounds r = (\<lambda>(X, kw).
    (let X = Round1024 [0, 1, 2, 3, 4, 5, 6, 7, 8, 9, 10, 11, 12, 13, 14, 15] (R1024 ! 0) X;
         X = Round1024 [0, 9, 2, 13, 6, 11, 4, 15, 10, 7, 12, 3, 14, 5, 8, 1] (R1024 ! 1) X;
         X = Round1024 [0, 7, 2, 5, 4, 3, 6, 1, 12, 15, 14, 13, 8, 11, 10, 9] (R1024 ! 2) X;
         X = Round1024 [0, 15, 2, 11, 6, 13, 4, 9, 14, 1, 8, 5, 10, 3, 12, 7] (R1024 ! 3) X;
         (X, kw) = I1024 r 0 (X, kw);
         X = Round1024 [0, 1, 2, 3, 4, 5, 6, 7, 8, 9, 10, 11, 12, 13, 14, 15] (R1024 ! 4) X;
         X = Round1024 [0, 9, 2, 13, 6, 11, 4, 15, 10, 7, 12, 3, 14, 5, 8, 1] (R1024 ! 5) X;
         X = Round1024 [0, 7, 2, 5, 4, 3, 6, 1, 12, 15, 14, 13, 8, 11, 10, 9] (R1024 ! 6) X;
         X = Round1024 [0, 15, 2, 11, 6, 13, 4, 9, 14, 1, 8, 5, 10, 3, 12, 7] (R1024 ! 7) X
     in I1024 r 1 (X, kw)))"

definition R1024_rounds :: "u64 list \<times> u64 list \<Rightarrow> u64 list \<times> u64 list" where
  "R1024_rounds s = fold R1024_8_rounds [1, 3, 5, 7, 9, 11, 13, 15, 17, 19] s"

definition block_1024 :: "u64 list \<Rightarrow> u64 \<Rightarrow> u64 \<Rightarrow> u64 list \<Rightarrow> u64 list" where
  "block_1024 X t0 t1 w =
    (let ks = [X ! 0, X ! 1, X ! 2, X ! 3, X ! 4, X ! 5, X ! 6, X ! 7, X ! 8, X ! 9, X ! 10, X ! 11, X ! 12, X ! 13, X ! 14, X ! 15,
               X ! 0 XOR X ! 1 XOR X ! 2 XOR X ! 3 XOR X ! 4 XOR X ! 5 XOR X ! 6 XOR X ! 7 XOR
               X ! 8 XOR X ! 9 XOR X ! 10 XOR X ! 11 XOR X ! 12 XOR X ! 13 XOR X ! 14 XOR X ! 15 XOR SKEIN_KS_PARITY];
         ts = [t0, t1, t0 XOR t1];
         X = [w ! 0 + ks ! 0, w ! 1 + ks ! 1, w ! 2 + ks ! 2, w ! 3 + ks ! 3, w ! 4 + ks ! 4, w ! 5 + ks ! 5, w ! 6 + ks ! 6,
              w ! 7 + ks ! 7, w ! 8 + ks ! 8, w ! 9 + ks ! 9, w ! 10 + ks ! 10, w ! 11 + ks ! 11, w ! 12 + ks ! 12,
              w ! 13 + ks ! 13 + ts ! 0, w ! 14 + ks ! 14 + ts ! 1, w ! 15 + ks ! 15]
     in feed_forward (fst (R1024_rounds (X, ts @ ks))) w)"

lemma count_down: "n \<noteq> 1 \<Longrightarrow> unat (n - 2) < unat (n - 1 :: u64)"
proof -
  assume "n \<noteq> 1"
  then have "unat (n - 1 - 1) = unat (n - 1) - 1" "0 < unat (n - 1)"
    by (simp_all only: unat_minus_one right_minus_eq not_False_eq_True unat_gt_0 diff_0 eq_iff_diff_eq_0 [symmetric] simp_thms)
  then show ?thesis by simp
qed

text \<open>The loop over \<open>blkCnt\<close> blocks at the pointer.\<close>

function Process_Block ::
  "nat \<Rightarrow> (u64 list \<Rightarrow> u64 \<Rightarrow> u64 \<Rightarrow> u64 list \<Rightarrow> u64 list) \<Rightarrow> skein_ctxt \<Rightarrow> byte list \<Rightarrow> u64 \<Rightarrow> u64 \<Rightarrow> skein_ctxt option" where
  "Process_Block W block ctx blkPtr blkCnt byteCntAdd =
    (if length blkPtr < 8 * W then None
     else
       let t0 = skein_T0 ctx + byteCntAdd;
           w = Skein_Get64_LSB_First blkPtr W;
           ctx = ctx\<lparr>skein_X := block (skein_X ctx) t0 (skein_T1 ctx) w, skein_T0 := t0,
             skein_T1 := skein_T1 ctx AND NOT SKEIN_T1_FLAG_FIRST\<rparr>
       in if blkCnt - 1 \<noteq> 0 then Process_Block W block ctx (drop (8 * W) blkPtr) (blkCnt - 1) byteCntAdd else Some ctx)"
  by pat_completeness auto
termination
  by (relation "measure (\<lambda>(W, block, ctx, blkPtr, blkCnt, byteCntAdd). unat (blkCnt - 1))") (auto simp: count_down)

declare Process_Block.simps [simp del]

definition Skein_256_Process_Block :: "skein_ctxt \<Rightarrow> byte list \<Rightarrow> u64 \<Rightarrow> u64 \<Rightarrow> skein_ctxt option" where
  "Skein_256_Process_Block = Process_Block 4 block_256"

definition Skein_512_Process_Block :: "skein_ctxt \<Rightarrow> byte list \<Rightarrow> u64 \<Rightarrow> u64 \<Rightarrow> skein_ctxt option" where
  "Skein_512_Process_Block = Process_Block 8 block_512"

definition Skein1024_Process_Block :: "skein_ctxt \<Rightarrow> byte list \<Rightarrow> u64 \<Rightarrow> u64 \<Rightarrow> skein_ctxt option" where
  "Skein1024_Process_Block = Process_Block 16 block_1024"

section \<open>Hashing\<close>

text \<open>The functions for the three sizes are the same but for the number of words and the block function.\<close>

definition config_block :: "nat \<Rightarrow> u64 \<Rightarrow> byte list" where
  "config_block W len = concat (map (split_le 8) [SKEIN_SCHEMA_VER, len, SKEIN_CFG_TREE_INFO_SEQUENTIAL]) @ replicate (8 * W - 3 * 8) 0"

definition process_config ::
  "nat \<Rightarrow> (skein_ctxt \<Rightarrow> byte list \<Rightarrow> u64 \<Rightarrow> u64 \<Rightarrow> skein_ctxt option) \<Rightarrow> u64 \<Rightarrow> skein_ctxt \<Rightarrow> skein_ctxt option" where
  "process_config W process len ctx =
    (let ctx = Skein_Start_New_Type SKEIN_T1_BLK_TYPE_CFG_FINAL ctx;
         ctx = ctx\<lparr>skein_X := replicate W 0\<rparr>
     in process ctx (config_block W len) 1 SKEIN_CFG_STR_LEN)"

definition Skein_512_Init :: "skein_ctxt \<Rightarrow> u64 \<Rightarrow> skein_ctxt option" where
  "Skein_512_Init ctx len =
    do {
      let ctx = ctx\<lparr>hashBitLen := len\<rparr>;
      ctx \<leftarrow>
        (if len = 512 then Some (ctx\<lparr>skein_X := SKEIN_512_IV_512\<rparr>)
         else if len = 384 then Some (ctx\<lparr>skein_X := SKEIN_512_IV_384\<rparr>)
         else if len = 256 then Some (ctx\<lparr>skein_X := SKEIN_512_IV_256\<rparr>)
         else if len = 224 then Some (ctx\<lparr>skein_X := SKEIN_512_IV_224\<rparr>)
         else process_config 8 Skein_512_Process_Block len ctx);
      Some (Skein_Start_New_Type SKEIN_T1_BLK_TYPE_MSG ctx)
    }"

definition Skein1024_Init :: "skein_ctxt \<Rightarrow> u64 \<Rightarrow> skein_ctxt option" where
  "Skein1024_Init ctx len =
    do {
      let ctx = ctx\<lparr>hashBitLen := len\<rparr>;
      ctx \<leftarrow>
        (if len = 512 then Some (ctx\<lparr>skein_X := SKEIN1024_IV_512\<rparr>)
         else if len = 384 then Some (ctx\<lparr>skein_X := SKEIN1024_IV_384\<rparr>)
         else if len = 1024 then Some (ctx\<lparr>skein_X := SKEIN1024_IV_1024\<rparr>)
         else process_config 16 Skein1024_Process_Block len ctx);
      Some (Skein_Start_New_Type SKEIN_T1_BLK_TYPE_MSG ctx)
    }"

text \<open>\<open>memcpy\<close> of \<open>n\<close> bytes of the message to the end of the buffer of \<open>sz\<close> bytes.\<close>

definition append_b :: "nat \<Rightarrow> skein_ctxt \<Rightarrow> byte list \<Rightarrow> u64 \<Rightarrow> skein_ctxt option" where
  "append_b sz ctx msg n =
    (if unat n \<le> length msg \<and> unat (bCnt ctx) + unat n \<le> sz then
       Some (ctx\<lparr>skein_b := blit (skein_b ctx) (unat (bCnt ctx)) (take (unat n) msg), bCnt := bCnt ctx + n\<rparr>)
     else None)"

text \<open>The buffered data is finished up with data of the message; then the full blocks but the last are taken from
  the message itself.\<close>

definition finish_buffered ::
  "nat \<Rightarrow> (skein_ctxt \<Rightarrow> byte list \<Rightarrow> u64 \<Rightarrow> u64 \<Rightarrow> skein_ctxt option) \<Rightarrow> skein_ctxt \<Rightarrow> byte list \<Rightarrow> u64 \<Rightarrow>
    (skein_ctxt \<times> byte list \<times> u64) option" where
  "finish_buffered W process ctx msg msgByteCnt =
    (let sz = of_nat (8 * W) in
     if bCnt ctx \<noteq> 0 then
       do {
         let n = sz - bCnt ctx;
         (ctx, msg, msgByteCnt) \<leftarrow>
           (if n \<noteq> 0 then
              do {
                ctx \<leftarrow> append_b (8 * W) ctx msg n;
                Some (ctx, drop (unat n) msg, msgByteCnt - n)
              }
            else Some (ctx, msg, msgByteCnt));
         ctx \<leftarrow> process ctx (skein_b ctx) 1 sz;
         Some (ctx\<lparr>bCnt := 0\<rparr>, msg, msgByteCnt)
       }
     else Some (ctx, msg, msgByteCnt))"

definition direct_blocks ::
  "nat \<Rightarrow> (skein_ctxt \<Rightarrow> byte list \<Rightarrow> u64 \<Rightarrow> u64 \<Rightarrow> skein_ctxt option) \<Rightarrow> skein_ctxt \<Rightarrow> byte list \<Rightarrow> u64 \<Rightarrow>
    (skein_ctxt \<times> byte list \<times> u64) option" where
  "direct_blocks W process ctx msg msgByteCnt =
    (let sz = of_nat (8 * W) in
     if msgByteCnt > sz then
       do {
         let n = (msgByteCnt - 1) div sz;
         ctx \<leftarrow> process ctx msg n sz;
         Some (ctx, drop (unat (n * sz)) msg, msgByteCnt - n * sz)
       }
     else Some (ctx, msg, msgByteCnt))"

definition ctxt_Update ::
  "nat \<Rightarrow> (skein_ctxt \<Rightarrow> byte list \<Rightarrow> u64 \<Rightarrow> u64 \<Rightarrow> skein_ctxt option) \<Rightarrow> skein_ctxt \<Rightarrow> byte list \<Rightarrow> u64 \<Rightarrow> skein_ctxt option" where
  "ctxt_Update W process ctx msg msgByteCnt =
    do {
      (ctx, msg, msgByteCnt) \<leftarrow>
        (if msgByteCnt + bCnt ctx > of_nat (8 * W) then
           do {
             (ctx, msg, msgByteCnt) \<leftarrow> finish_buffered W process ctx msg msgByteCnt;
             direct_blocks W process ctx msg msgByteCnt
           }
         else Some (ctx, msg, msgByteCnt));
      if msgByteCnt \<noteq> 0 then append_b (8 * W) ctx msg msgByteCnt else Some ctx
    }"

definition Skein_256_Update :: "skein_ctxt \<Rightarrow> byte list \<Rightarrow> u64 \<Rightarrow> skein_ctxt option" where
  "Skein_256_Update = ctxt_Update 4 Skein_256_Process_Block"

definition Skein_512_Update :: "skein_ctxt \<Rightarrow> byte list \<Rightarrow> u64 \<Rightarrow> skein_ctxt option" where
  "Skein_512_Update = ctxt_Update 8 Skein_512_Process_Block"

definition Skein1024_Update :: "skein_ctxt \<Rightarrow> byte list \<Rightarrow> u64 \<Rightarrow> skein_ctxt option" where
  "Skein1024_Update = ctxt_Update 16 Skein1024_Process_Block"

text \<open>The loop of the counter mode, from counter \<open>i\<close>, for \<open>byteCnt\<close> bytes in all: the context and the bytes it puts
  out.\<close>

function output_blocks ::
  "nat \<Rightarrow> (skein_ctxt \<Rightarrow> byte list \<Rightarrow> u64 \<Rightarrow> u64 \<Rightarrow> skein_ctxt option) \<Rightarrow> u64 list \<Rightarrow> nat \<Rightarrow> nat \<Rightarrow> skein_ctxt \<Rightarrow>
    (skein_ctxt \<times> byte list) option" where
  "output_blocks W process X byteCnt i ctx =
    (if 0 < W \<and> i * (8 * W) < byteCnt then
       do {
         let ctx = ctx\<lparr>skein_b := blit (skein_b ctx) 0 (split_le 8 (of_nat i :: u64))\<rparr>;
         let ctx = Skein_Start_New_Type SKEIN_T1_BLK_TYPE_OUT_FINAL ctx;
         ctx \<leftarrow> process ctx (skein_b ctx) 1 8;
         let n = byteCnt - i * (8 * W);
         let n = (if n \<ge> 8 * W then 8 * W else n);
         let out = Skein_Put64_LSB_First (skein_X ctx) n;
         let ctx = ctx\<lparr>skein_X := X\<rparr>;
         (ctx, rest) \<leftarrow> output_blocks W process X byteCnt (i + 1) ctx;
         Some (ctx, out @ rest)
       }
     else Some (ctx, []))"
  by pat_completeness auto
termination
  by (relation "measure (\<lambda>(W, process, X, byteCnt, i, ctx). byteCnt - i * (8 * W))") (auto simp: diff_less_mono2)

declare output_blocks.simps [simp del]

definition ctxt_Final ::
  "nat \<Rightarrow> (skein_ctxt \<Rightarrow> byte list \<Rightarrow> u64 \<Rightarrow> u64 \<Rightarrow> skein_ctxt option) \<Rightarrow> skein_ctxt \<Rightarrow> (skein_ctxt \<times> byte list) option" where
  "ctxt_Final W process ctx =
    do {
      let sz = 8 * W;
      let ctx = ctx\<lparr>skein_T1 := skein_T1 ctx OR SKEIN_T1_FLAG_FINAL\<rparr>;
      let n = unat (bCnt ctx);
      let ctx = (if n < sz then ctx\<lparr>skein_b := blit (skein_b ctx) n (replicate (sz - n) 0)\<rparr> else ctx);
      ctx \<leftarrow> process ctx (skein_b ctx) 1 (bCnt ctx);
      let byteCnt = unat (drop_bit 3 (hashBitLen ctx + 7));
      let ctx = ctx\<lparr>skein_b := replicate sz 0\<rparr>;
      output_blocks W process (skein_X ctx) byteCnt 0 ctx
    }"

definition Skein_256_Final :: "skein_ctxt \<Rightarrow> (skein_ctxt \<times> byte list) option" where
  "Skein_256_Final = ctxt_Final 4 Skein_256_Process_Block"

definition Skein_512_Final :: "skein_ctxt \<Rightarrow> (skein_ctxt \<times> byte list) option" where
  "Skein_512_Final = ctxt_Final 8 Skein_512_Process_Block"

definition Skein1024_Final :: "skein_ctxt \<Rightarrow> (skein_ctxt \<times> byte list) option" where
  "Skein1024_Final = ctxt_Final 16 Skein1024_Process_Block"

section \<open>The interface\<close>

datatype skein_return = SKEIN_SUCCESS | SKEIN_FAIL | SKEIN_BAD_HASHLEN

text \<open>The union of the three contexts is the one that \<open>statebits\<close> selects.\<close>

record skein_state =
  statebits :: u32
  skein_u :: skein_ctxt

definition SKEIN_512_NIST_MAX_HASHBITS :: int where "SKEIN_512_NIST_MAX_HASHBITS = 512"

definition skein_Init :: "skein_state \<Rightarrow> int \<Rightarrow> (skein_return \<times> skein_state) option" where
  "skein_Init state hashbitlen =
    (if hashbitlen \<le> SKEIN_512_NIST_MAX_HASHBITS then
       do {
         let state = state\<lparr>statebits := 64 * 8\<rparr>;
         ctx \<leftarrow> Skein_512_Init (skein_u state) (of_int hashbitlen);
         Some (SKEIN_SUCCESS, state\<lparr>skein_u := ctx\<rparr>)
       }
     else
       do {
         let state = state\<lparr>statebits := 64 * 16\<rparr>;
         ctx \<leftarrow> Skein1024_Init (skein_u state) (of_int hashbitlen);
         Some (SKEIN_SUCCESS, state\<lparr>skein_u := ctx\<rparr>)
       })"

definition skein_Update :: "skein_state \<Rightarrow> byte list \<Rightarrow> u64 \<Rightarrow> (skein_return \<times> skein_state) option" where
  "skein_Update state data bitlen =
    (let selector = drop_bit 8 (statebits state) AND 3;
         update =
          (if selector = 2 then Some Skein_512_Update
           else if selector = 1 then Some Skein_256_Update
           else if selector = 0 then Some Skein1024_Update
           else None)
     in if bitlen AND 7 = 0 then
          case update of None \<Rightarrow> Some (SKEIN_FAIL, state)
          | Some update \<Rightarrow>
              do {
                ctx \<leftarrow> update (skein_u state) data (drop_bit 3 bitlen);
                Some (SKEIN_SUCCESS, state\<lparr>skein_u := ctx\<rparr>)
              }
        else
          let n = drop_bit 3 bitlen + 1
          in if unat (n - 1) < length data then
               let mask = ucast (push_bit (7 - unat (bitlen AND 7)) (1 :: u32)) :: byte;
                   b = (data ! unat (n - 1) AND (0 - mask)) OR mask
               in case update of None \<Rightarrow> Some (SKEIN_FAIL, state)
                  | Some update \<Rightarrow>
                      do {
                        ctx \<leftarrow> update (skein_u state) data (n - 1);
                        ctx \<leftarrow> update ctx [b] 1;
                        Some (SKEIN_SUCCESS, state\<lparr>skein_u := Skein_Set_Bit_Pad_Flag ctx\<rparr>)
                      }
             else None)"

definition skein_Final :: "skein_state \<Rightarrow> (skein_return \<times> skein_state \<times> byte list) option" where
  "skein_Final state =
    (let selector = drop_bit 8 (statebits state) AND 3;
         final =
          (if selector = 2 then Some Skein_512_Final
           else if selector = 1 then Some Skein_256_Final
           else if selector = 0 then Some Skein1024_Final
           else None)
     in case final of None \<Rightarrow> Some (SKEIN_FAIL, state, [])
        | Some final \<Rightarrow>
            do {
              (ctx, hashval) \<leftarrow> final (skein_u state);
              Some (SKEIN_SUCCESS, state\<lparr>skein_u := ctx\<rparr>, hashval)
            })"

definition skein_hash :: "skein_state \<Rightarrow> int \<Rightarrow> byte list \<Rightarrow> u64 \<Rightarrow> (skein_return \<times> byte list) option" where
  "skein_hash stack hashbitlen data bitlen =
    do {
      (r, state) \<leftarrow> skein_Init stack hashbitlen;
      if r = SKEIN_SUCCESS then
        do {
          (r, state) \<leftarrow> skein_Update state data bitlen;
          (r', state, hashval) \<leftarrow> skein_Final state;
          Some (r, hashval)
        }
      else Some (r, [])
    }"

text \<open>\<^verbatim>\<open>hash-extra-skein.c\<close>: the assertion fails if the hash does not succeed.\<close>

definition hash_extra_skein :: "skein_state \<Rightarrow> byte list \<Rightarrow> nat \<Rightarrow> byte list option" where
  "hash_extra_skein stack data len =
    do {
      (r, hash) \<leftarrow> skein_hash stack (8 * 32) data (8 * of_nat len);
      if r = SKEIN_SUCCESS then Some hash else None
    }"

end
