(* ===== verification/SkeinSpec.thy ===== *)
theory SkeinSpec
  imports Skein
begin

unbundle bit_operations_syntax

text \<open>
  The block cipher Threefish as it is specified, with 4, 8 or 16 words, and the proof that the block functions of
  \<^verbatim>\<open>skein.c\<close> encrypt the block with it and add the block.  The rotations are those of the tables in the code.
\<close>

section \<open>Threefish\<close>

definition tf_rounds :: "nat \<Rightarrow> nat" where
  "tf_rounds W = (if W = 16 then 80 else 72)"

definition tf_rotations :: "nat \<Rightarrow> nat list list" where
  "tf_rotations W = (if W = 4 then R_256 else if W = 8 then R_512 else R1024)"

definition tf_places :: "nat \<Rightarrow> nat list" where
  "tf_places W =
    (if W = 4 then [0, 3, 2, 1]
     else if W = 8 then [2, 1, 4, 7, 6, 5, 0, 3]
     else [0, 9, 2, 13, 6, 11, 4, 15, 10, 7, 12, 3, 14, 5, 8, 1])"

definition tf_subkey :: "nat \<Rightarrow> u64 list \<Rightarrow> u64 \<Rightarrow> u64 \<Rightarrow> nat \<Rightarrow> u64 list" where
  "tf_subkey W K t0 t1 s =
    (let key = K @ [foldl (XOR) 0x1BD11BDAA9FC1A22 K]; tweak = [t0, t1, t0 XOR t1]
     in map (\<lambda>i. key ! ((s + i) mod (W + 1)) +
         (if i = W - 3 then tweak ! (s mod 3) else if i = W - 2 then tweak ! ((s + 1) mod 3) else if i = W - 1 then of_nat s else 0))
       [0..<W])"

fun tf_mix :: "nat list \<Rightarrow> u64 list \<Rightarrow> u64 list" where
  "tf_mix (r # rs) (a # b # v) = (a + b) # (word_rotl r b XOR (a + b)) # tf_mix rs v"
| "tf_mix rs v = []"

definition pick :: "nat list \<Rightarrow> 'a list \<Rightarrow> 'a list" where
  "pick p v = map ((!) v) p"

definition tf_round :: "nat \<Rightarrow> nat \<Rightarrow> u64 list \<Rightarrow> u64 list" where
  "tf_round W d v = pick (tf_places W) (tf_mix (tf_rotations W ! (d mod 8)) v)"

definition add_words :: "u64 list \<Rightarrow> u64 list \<Rightarrow> u64 list" where
  "add_words v k = map2 (+) v k"

definition threefish :: "nat \<Rightarrow> u64 list \<Rightarrow> u64 \<Rightarrow> u64 \<Rightarrow> u64 list \<Rightarrow> u64 list" where
  "threefish W K t0 t1 v =
    (let v = fold (\<lambda>d v. tf_round W d (if d mod 4 = 0 then add_words v (tf_subkey W K t0 t1 (d div 4)) else v)) [0..<tf_rounds W] v
     in add_words v (tf_subkey W K t0 t1 (tf_rounds W div 4)))"

section \<open>Four rounds\<close>

lemma upt_0_4: "[0..<4] = [0, 1, 2, 3]" and upt_8: "[0..<8] = [0, 1, 2, 3, 4, 5, 6, 7]" and upt_9: "[0..<9] = [0, 1, 2, 3, 4, 5, 6, 7, 8]"
  and upt_16_words: "[0..<16] = [0, 1, 2, 3, 4, 5, 6, 7, 8, 9, 10, 11, 12, 13, 14, 15]"
  by code_simp+

lemma length_add_words [simp]: "length (add_words v k) = min (length v) (length k)"
  by (simp add: add_words_def)

lemma length_tf_subkey [simp]: "length (tf_subkey W K t0 t1 s) = W"
  by (simp add: tf_subkey_def Let_def)

lemma pick_pick: "\<forall>i \<in> set q. i < length p \<Longrightarrow> pick q (pick p v) = pick (map ((!) p) q) v"
  by (simp add: pick_def)

lemma RotL_64_rotl: "0 < n \<Longrightarrow> n < 64 \<Longrightarrow> RotL_64 x n = word_rotl n x"
  using word_rotl_shifts [of n x] by (simp add: RotL_64_def)

lemma list_4: "length x = 4 \<Longrightarrow> x = [x ! 0, x ! 1, x ! 2, x ! 3]"
  by (rule nth_equalityI) (auto simp: less_Suc_eq numeral_eq_Suc)

lemma list_8: "length x = 8 \<Longrightarrow> x = [x ! 0, x ! 1, x ! 2, x ! 3, x ! 4, x ! 5, x ! 6, x ! 7]"
  by (rule nth_equalityI) (auto simp: less_Suc_eq numeral_eq_Suc)

lemma list_16_words: "length x = 16 \<Longrightarrow>
    x = [x ! 0, x ! 1, x ! 2, x ! 3, x ! 4, x ! 5, x ! 6, x ! 7, x ! 8, x ! 9, x ! 10, x ! 11, x ! 12, x ! 13, x ! 14, x ! 15]"
  by (rule nth_equalityI) (auto simp: less_Suc_eq numeral_eq_Suc)

text \<open>A round of the code does its mixes where the words are; \<open>p\<close> tells in which order.\<close>

fun mixes :: "nat list \<Rightarrow> nat list \<Rightarrow> u64 list \<Rightarrow> u64 list" where
  "mixes (a # b # p) (r # rs) X = mixes p rs (skein_mix a b r X)"
| "mixes p rs X = X"

lemma skein_mix_nth:
  assumes "a < length X" and "b < length X" and "a \<noteq> b" and "0 < r \<and> r < 64"
  shows "skein_mix a b r X = X[a := X ! a + X ! b, b := word_rotl r (X ! b) XOR (X ! a + X ! b)]"
  using assms by (simp add: skein_mix_def Let_def RotL_64_rotl)

lemma mixes_other:
  "distinct p \<Longrightarrow> set p \<subseteq> {..<length X} \<Longrightarrow> \<forall>r \<in> set rs. 0 < r \<and> r < 64 \<Longrightarrow> i \<notin> set p \<Longrightarrow>
    mixes p rs X ! i = X ! i \<and> length (mixes p rs X) = length X"
  by (induction p rs X rule: mixes.induct) (simp_all add: skein_mix_nth)

lemma length_mixes [simp]: "length (mixes p rs X) = length X"
  by (induction p rs X rule: mixes.induct) (simp_all add: skein_mix_def Let_def)

lemma pick_update: "a \<notin> set p \<Longrightarrow> pick p (X[a := v]) = pick p X"
  unfolding pick_def by (intro map_cong refl) (metis nth_list_update_neq)

lemma pick_simps [simp]: "pick [] v = []" "pick (a # p) v = v ! a # pick p v" "length (pick p v) = length p"
  by (simp_all add: pick_def)

lemma pick_mixes:
  assumes "distinct p" and "set p \<subseteq> {..<length X}" and "\<forall>r \<in> set rs. 0 < r \<and> r < 64" and "length p = 2 * length rs"
  shows "pick p (mixes p rs X) = tf_mix rs (pick p X)"
  using assms
proof (induction p rs X rule: mixes.induct)
  case (1 a b p r rs X)
  let ?Y = "skein_mix a b r X"
  have Y: "?Y = X[a := X ! a + X ! b, b := word_rotl r (X ! b) XOR (X ! a + X ! b)]" "length ?Y = length X"
    using 1(2-) by (simp_all add: skein_mix_nth)
  have "mixes p rs ?Y ! a = ?Y ! a" "mixes p rs ?Y ! b = ?Y ! b"
    using 1(2-) mixes_other [of p ?Y rs a] mixes_other [of p ?Y rs b] Y(2) by auto
  moreover have "pick p ?Y = pick p X" using 1(2) by (simp add: Y(1) pick_update)
  ultimately show ?case using 1 Y by simp
qed simp_all

lemma pick_all: "length v = n \<Longrightarrow> pick [0..<n] v = v"
  unfolding pick_def by (rule nth_equalityI) simp_all

text \<open>Four rounds bring every word back to its place, so the code never moves a word.\<close>

definition four_rounds :: "nat \<Rightarrow> nat list list \<Rightarrow> u64 list \<Rightarrow> u64 list" where
  "four_rounds W rots X =
    (let q = tf_places W; p1 = q; p2 = map ((!) p1) q; p3 = map ((!) p2) q;
         X = mixes [0..<W] (rots ! 0) X; X = mixes p1 (rots ! 1) X; X = mixes p2 (rots ! 2) X
     in mixes p3 (rots ! 3) X)"

lemma four_rounds_places:
  assumes "W \<in> {4, 8, 16}" and "length X = W"
    and "\<forall>j < 4. length (rots ! j) = W div 2 \<and> (\<forall>r \<in> set (rots ! j). 0 < r \<and> r < 64)"
  shows "four_rounds W rots X =
    (let q = tf_places W in pick q (tf_mix (rots ! 3) (pick q (tf_mix (rots ! 2) (pick q (tf_mix (rots ! 1) (pick q (tf_mix (rots ! 0) X))))))))"
proof -
  define q p2 p3 where "q = tf_places W" and "p2 = map ((!) q) q" and "p3 = map ((!) p2) q"
  have perm: "distinct q" "distinct p2" "distinct p3" "set q \<subseteq> {..<W}" "set p2 \<subseteq> {..<W}" "set p3 \<subseteq> {..<W}"
      "length q = W" "length p2 = W" "length p3 = W" "map ((!) p3) q = [0..<W]"
    using assms(1) by (auto simp: p3_def p2_def q_def tf_places_def upt_rec)
  have r: "length (rots ! j) = W div 2" "\<forall>r \<in> set (rots ! j). 0 < r \<and> r < 64" if "j < 4" for j using assms(3) that by auto
  have W: "2 * (W div 2) = W" using assms(1) by auto
  define X0 X1 X2 X3 where "X0 = mixes [0..<W] (rots ! 0) X" and "X1 = mixes q (rots ! 1) X0" and "X2 = mixes p2 (rots ! 2) X1"
    and "X3 = mixes p3 (rots ! 3) X2"
  have len: "length X0 = W" "length X1 = W" "length X2 = W" "length X3 = W" by (simp_all add: X0_def X1_def X2_def X3_def assms(2))
  have move: "pick q (pick p Y) = pick (map ((!) p) q) Y" if "length p = W" for p and Y :: "u64 list"
    using that perm(4) by (intro pick_pick) auto
  have 0: "X0 = tf_mix (rots ! 0) X"
    using pick_mixes [of "[0..<W]" X "rots ! 0"] r [of 0] W assms(2) len pick_all [of X0 W] pick_all [of X W] by (simp add: X0_def atLeast0LessThan)
  have 1: "pick q X1 = tf_mix (rots ! 1) (pick q X0)"
    using pick_mixes [of q X0 "rots ! 1"] r [of 1] W perm len by (simp add: X1_def)
  have 2: "pick p2 X2 = tf_mix (rots ! 2) (pick p2 X1)"
    using pick_mixes [of p2 X1 "rots ! 2"] r [of 2] W perm len by (simp add: X2_def)
  have 3: "pick p3 X3 = tf_mix (rots ! 3) (pick p3 X2)"
    using pick_mixes [of p3 X2 "rots ! 3"] r [of 3] W perm len by (simp add: X3_def)
  have "pick q (pick p3 X3) = X3" using move [of p3 X3] perm pick_all [OF len(4)] by simp
  moreover have "pick q (pick q X1) = pick p2 X1" "pick q (pick p2 X2) = pick p3 X2" using move perm by (simp_all add: p2_def p3_def)
  ultimately have "X3 = pick q (tf_mix (rots ! 3) (pick q (tf_mix (rots ! 2) (pick q (tf_mix (rots ! 1) (pick q (tf_mix (rots ! 0) X)))))))"
    using 0 1 2 3 by simp
  then show ?thesis by (simp add: four_rounds_def Let_def X3_def X2_def X1_def X0_def p3_def p2_def q_def)
qed

lemma length_four_rounds [simp]: "length (four_rounds W rots X) = length X"
  by (simp add: four_rounds_def Let_def)

lemma rotations_ok:
  assumes "W \<in> {4, 8, 16}" and "j < 8"
  shows "length (tf_rotations W ! j) = W div 2 \<and> (\<forall>r \<in> set (tf_rotations W ! j). 0 < r \<and> r < 64)"
proof -
  have "j = 0 \<or> j = 1 \<or> j = 2 \<or> j = 3 \<or> j = 4 \<or> j = 5 \<or> j = 6 \<or> j = 7" using assms(2) by linarith
  then show ?thesis using assms(1) by (elim disjE) (auto simp: tf_rotations_def R_256_def R_512_def R1024_def)
qed

definition low_rounds :: "nat \<Rightarrow> u64 list \<Rightarrow> u64 list" where
  "low_rounds W = four_rounds W (take 4 (tf_rotations W))"

definition high_rounds :: "nat \<Rightarrow> u64 list \<Rightarrow> u64 list" where
  "high_rounds W = four_rounds W (drop 4 (tf_rotations W))"

lemma length_half_rounds [simp]: "length (low_rounds W X) = length X" "length (high_rounds W X) = length X"
  by (simp_all add: low_rounds_def high_rounds_def)

lemma half_rounds:
  assumes "W \<in> {4, 8, 16}" and "length X = W"
  shows "tf_round W (8 * R + 3) (tf_round W (8 * R + 2) (tf_round W (8 * R + 1) (tf_round W (8 * R) X))) = low_rounds W X"
    and "tf_round W (8 * R + 7) (tf_round W (8 * R + 6) (tf_round W (8 * R + 5) (tf_round W (8 * R + 4) X))) = high_rounds W X"
proof -
  have "length (tf_rotations W) = 8" using assms(1) by (auto simp: tf_rotations_def R_256_def R_512_def R1024_def)
  then have n: "take 4 (tf_rotations W) ! j = tf_rotations W ! j" "drop 4 (tf_rotations W) ! j = tf_rotations W ! (4 + j)" if "j < 4" for j
    using that by simp_all
  have ok: "\<forall>j < 4. length (take 4 (tf_rotations W) ! j) = W div 2 \<and> (\<forall>r \<in> set (take 4 (tf_rotations W) ! j). 0 < r \<and> r < 64)"
    "\<forall>j < 4. length (drop 4 (tf_rotations W) ! j) = W div 2 \<and> (\<forall>r \<in> set (drop 4 (tf_rotations W) ! j). 0 < r \<and> r < 64)"
    by (intro allI impI, simp only: n, rule rotations_ok [OF assms(1)], simp)+
  have m: "(8 * R + j) mod 8 = j" if "j < 8" for j using that by simp
  show "tf_round W (8 * R + 3) (tf_round W (8 * R + 2) (tf_round W (8 * R + 1) (tf_round W (8 * R) X))) = low_rounds W X"
    using m [of 0] m [of 1] m [of 2] by (simp add: low_rounds_def four_rounds_places [OF assms ok(1)] Let_def tf_round_def m n)
  show "tf_round W (8 * R + 7) (tf_round W (8 * R + 6) (tf_round W (8 * R + 5) (tf_round W (8 * R + 4) X))) = high_rounds W X"
    by (simp add: high_rounds_def four_rounds_places [OF assms ok(2)] Let_def tf_round_def m n)
qed

lemma length_tf_mix: "2 * length rs = length v \<Longrightarrow> length (tf_mix rs v) = length v"
  by (induction rs v rule: tf_mix.induct) auto

lemma length_tf_round: "W \<in> {4, 8, 16} \<Longrightarrow> length (tf_round W d v) = W"
  by (auto simp: tf_round_def tf_places_def)

text \<open>The rounds in groups of eight, each key added at the end of its four rounds.\<close>

lemma threefish_eights:
  assumes W: "W \<in> {4, 8, 16}" and v: "length v = W" and n: "tf_rounds W = 8 * n"
    and eight: "\<And>R X. R < n \<Longrightarrow> length X = W \<Longrightarrow> eight R X =
      add_words (high_rounds W (add_words (low_rounds W X) (tf_subkey W K t0 t1 (2 * R + 1)))) (tf_subkey W K t0 t1 (2 * R + 2))"
  shows "threefish W K t0 t1 v = fold eight [0..<n] (add_words v (tf_subkey W K t0 t1 0))"
proof -
  let ?sk = "tf_subkey W K t0 t1"
  define f where "f = (\<lambda>d v. tf_round W d (if d mod 4 = 0 then add_words v (?sk (d div 4)) else v))"
  have len: "length (fold f ds u) = W" if "length u = W" for ds u
    using that by (induction ds arbitrary: u) (simp_all add: f_def length_tf_round [OF W])
  have group: "fold f [8 * R..<8 * R + 8] u = high_rounds W (add_words (low_rounds W (add_words u (?sk (2 * R)))) (?sk (2 * R + 1)))"
    if "length u = W" for R u
  proof -
    have "[8 * R..<8 * R + 8] = [8 * R, 8 * R + 1, 8 * R + 2, 8 * R + 3, 8 * R + 4, 8 * R + 5, 8 * R + 6, 8 * R + 7]" by (simp add: upt_rec)
    moreover have "8 * R mod 4 = 0" "8 * R div 4 = 2 * R" "(8 * R + 4) mod 4 = 0" "(8 * R + 4) div 4 = 2 * R + 1"
      "(8 * R + 1) mod 4 = 1" "(8 * R + 2) mod 4 = 2" "(8 * R + 3) mod 4 = 3" "(8 * R + 5) mod 4 = 1" "(8 * R + 6) mod 4 = 2" "(8 * R + 7) mod 4 = 3"
      by presburger+
    ultimately have "fold f [8 * R..<8 * R + 8] u = tf_round W (8 * R + 7) (tf_round W (8 * R + 6) (tf_round W (8 * R + 5) (tf_round W (8 * R + 4)
        (add_words (tf_round W (8 * R + 3) (tf_round W (8 * R + 2) (tf_round W (8 * R + 1) (tf_round W (8 * R) (add_words u (?sk (2 * R))))))
          ) (?sk (2 * R + 1))))))"
      by (simp only: fold.simps comp_apply id_apply f_def) simp
    also have "\<dots> = high_rounds W (add_words (low_rounds W (add_words u (?sk (2 * R)))) (?sk (2 * R + 1)))"
      using that by (simp only: half_rounds [OF W] length_add_words length_tf_subkey length_half_rounds min.idem)
    finally show ?thesis .
  qed
  have "fold eight [0..<m] (add_words v (?sk 0)) = add_words (fold f [0..<8 * m] v) (?sk (2 * m))" if "m \<le> n" for m
    using that
  proof (induction m)
    case (Suc m)
    let ?u = "fold f [0..<8 * m] v"
    have "fold eight [0..<Suc m] (add_words v (?sk 0)) = eight m (add_words ?u (?sk (2 * m)))" using Suc by simp
    also have "\<dots> = add_words (fold f [8 * m..<8 * m + 8] ?u) (?sk (2 * m + 2))"
      using Suc.prems len [OF v] by (subst eight) (simp_all add: group)
    also have "fold f [8 * m..<8 * m + 8] ?u = fold f ([0..<8 * m] @ [8 * m..<8 * m + 8]) v" by simp
    also have "[0..<8 * m] @ [8 * m..<8 * m + 8] = [0..<8 * Suc m]" using upt_add_eq_append [of 0 "8 * m" 8] by (simp add: add.commute)
    finally show ?case by simp
  qed simp
  from this [of n] show ?thesis by (simp add: threefish_def Let_def n f_def)
qed

section \<open>The block functions\<close>

definition key_words :: "u64 list \<Rightarrow> u64 list" where
  "key_words K = K @ [foldl (XOR) 0x1BD11BDAA9FC1A22 K]"

lemma parity: "SKEIN_KS_PARITY = 0x1BD11BDAA9FC1A22"
  by (simp add: SKEIN_KS_PARITY_def MK_64_def)

lemma key_nth:
  "length K = 4 \<Longrightarrow> key_words K = [K ! 0, K ! 1, K ! 2, K ! 3, K ! 0 XOR K ! 1 XOR K ! 2 XOR K ! 3 XOR SKEIN_KS_PARITY]"
  "length K = 8 \<Longrightarrow> key_words K = [K ! 0, K ! 1, K ! 2, K ! 3, K ! 4, K ! 5, K ! 6, K ! 7,
     K ! 0 XOR K ! 1 XOR K ! 2 XOR K ! 3 XOR K ! 4 XOR K ! 5 XOR K ! 6 XOR K ! 7 XOR SKEIN_KS_PARITY]"
  "length K = 16 \<Longrightarrow> key_words K = [K ! 0, K ! 1, K ! 2, K ! 3, K ! 4, K ! 5, K ! 6, K ! 7, K ! 8, K ! 9, K ! 10, K ! 11, K ! 12, K ! 13, K ! 14, K ! 15,
     K ! 0 XOR K ! 1 XOR K ! 2 XOR K ! 3 XOR K ! 4 XOR K ! 5 XOR K ! 6 XOR K ! 7 XOR
     K ! 8 XOR K ! 9 XOR K ! 10 XOR K ! 11 XOR K ! 12 XOR K ! 13 XOR K ! 14 XOR K ! 15 XOR SKEIN_KS_PARITY]"
  unfolding key_words_def parity
  by (subst (1 2) list_4, simp, simp, simp add: ac_simps) (subst (1 2) list_8, simp, simp, simp add: ac_simps,
    subst (1 2) list_16_words, simp, simp, simp add: ac_simps)

lemma subkey_256:
  "tf_subkey 4 K t0 t1 s =
    [key_words K ! (s mod 5), key_words K ! ((s + 1) mod 5) + [t0, t1, t0 XOR t1] ! (s mod 3),
     key_words K ! ((s + 2) mod 5) + [t0, t1, t0 XOR t1] ! ((s + 1) mod 3), key_words K ! ((s + 3) mod 5) + of_nat s]"
  unfolding tf_subkey_def Let_def key_words_def [symmetric] upt_0_4 list.map by simp

lemma I256_subkey:
  assumes "length X = 4"
  shows "I256 (key_words K) [t0, t1, t0 XOR t1] R X = add_words X (tf_subkey 4 K t0 t1 (R + 1))"
proof -
  have m: "R + 1 + 1 = R + 2" "R + 1 + 2 = R + 3" "R + 1 + 3 = R + 4" by simp_all
  have "add_words [X ! 0, X ! 1, X ! 2, X ! 3] (tf_subkey 4 K t0 t1 (R + 1)) = I256 (key_words K) [t0, t1, t0 XOR t1] R X"
    unfolding subkey_256 I256_def add_words_def m by (simp only: list.map zip_Cons_Cons zip_Nil prod.case of_nat_add of_nat_1 add.assoc)
  then show ?thesis using list_4 [OF assms] by simp
qed

lemma Round256_mixes: "length r = 2 \<Longrightarrow> Round256 p0 p1 p2 p3 r X = mixes [p0, p1, p2, p3] r X"
  by (auto simp: Round256_def Let_def length_Suc_conv numeral_2_eq_2)

lemma half_rounds_256:
  "low_rounds 4 X = Round256 0 3 2 1 (R_256 ! 3) (Round256 0 1 2 3 (R_256 ! 2) (Round256 0 3 2 1 (R_256 ! 1) (Round256 0 1 2 3 (R_256 ! 0) X)))"
  "high_rounds 4 X = Round256 0 3 2 1 (R_256 ! 7) (Round256 0 1 2 3 (R_256 ! 6) (Round256 0 3 2 1 (R_256 ! 5) (Round256 0 1 2 3 (R_256 ! 4) X)))"
  by (simp_all add: low_rounds_def high_rounds_def four_rounds_def Let_def tf_rotations_def tf_places_def R_256_def Round256_mixes upt_0_4)

lemma R256_eight:
  assumes "length X = 4"
  shows "R256_8_rounds (key_words K) [t0, t1, t0 XOR t1] R X =
    add_words (high_rounds 4 (add_words (low_rounds 4 X) (tf_subkey 4 K t0 t1 (2 * R + 1)))) (tf_subkey 4 K t0 t1 (2 * R + 2))"
proof -
  have l: "R256_8_rounds ks ts R X = I256 ks ts (2 * R + 1) (high_rounds 4 (I256 ks ts (2 * R) (low_rounds 4 X)))" for ks ts
    by (simp only: R256_8_rounds_def Let_def half_rounds_256)
  show ?thesis unfolding l using assms by (simp add: I256_subkey)
qed

lemma block_256_threefish:
  assumes "length K = 4" and "length w = 4"
  shows "block_256 K t0 t1 w = map2 (XOR) (threefish 4 K t0 t1 w) w"
proof -
  have "[w ! 0 + K ! 0, w ! 1 + K ! 1 + t0, w ! 2 + K ! 2 + t1, w ! 3 + K ! 3] = add_words w (tf_subkey 4 K t0 t1 0)"
    by (subst (5) list_4 [OF assms(2)]) (simp add: subkey_256 add_words_def key_nth assms(1) add.assoc)
  then have "block_256 K t0 t1 w = feed_forward (R256_rounds (key_words K) [t0, t1, t0 XOR t1] (add_words w (tf_subkey 4 K t0 t1 0))) w"
    by (simp add: block_256_def Let_def key_nth assms(1))
  also have "R256_rounds (key_words K) [t0, t1, t0 XOR t1] (add_words w (tf_subkey 4 K t0 t1 0)) = threefish 4 K t0 t1 w"
    unfolding R256_rounds_def
    by (subst threefish_eights [where n = 9 and eight = "R256_8_rounds (key_words K) [t0, t1, t0 XOR t1]"])
      (simp_all add: assms tf_rounds_def R256_eight upt_9)
  finally show ?thesis by (simp add: feed_forward_def)
qed

lemma subkey_512:
  "tf_subkey 8 K t0 t1 s =
    [key_words K ! (s mod 9), key_words K ! ((s + 1) mod 9), key_words K ! ((s + 2) mod 9), key_words K ! ((s + 3) mod 9),
     key_words K ! ((s + 4) mod 9), key_words K ! ((s + 5) mod 9) + [t0, t1, t0 XOR t1] ! (s mod 3),
     key_words K ! ((s + 6) mod 9) + [t0, t1, t0 XOR t1] ! ((s + 1) mod 3), key_words K ! ((s + 7) mod 9) + of_nat s]"
  unfolding tf_subkey_def Let_def key_words_def [symmetric] upt_8 list.map by simp

lemma I512_subkey:
  assumes "length X = 8"
  shows "I512 (key_words K) [t0, t1, t0 XOR t1] R X = add_words X (tf_subkey 8 K t0 t1 (R + 1))"
proof -
  have m: "R + 1 + 1 = R + 2" "R + 1 + 2 = R + 3" "R + 1 + 3 = R + 4" "R + 1 + 4 = R + 5" "R + 1 + 5 = R + 6" "R + 1 + 6 = R + 7"
    "R + 1 + 7 = R + 8" by simp_all
  have "add_words [X ! 0, X ! 1, X ! 2, X ! 3, X ! 4, X ! 5, X ! 6, X ! 7] (tf_subkey 8 K t0 t1 (R + 1)) = I512 (key_words K) [t0, t1, t0 XOR t1] R X"
    unfolding subkey_512 I512_def add_words_def m by (simp only: list.map zip_Cons_Cons zip_Nil prod.case of_nat_add of_nat_1 add.assoc)
  then show ?thesis using list_8 [OF assms] by simp
qed

lemma Round512_mixes: "length r = 4 \<Longrightarrow> Round512 p0 p1 p2 p3 p4 p5 p6 p7 r X = mixes [p0, p1, p2, p3, p4, p5, p6, p7] r X"
  by (auto simp: Round512_def Let_def length_Suc_conv numeral_eq_Suc)

lemma half_rounds_512:
  "low_rounds 8 X = Round512 6 1 0 7 2 5 4 3 (R_512 ! 3) (Round512 4 1 6 3 0 5 2 7 (R_512 ! 2)
     (Round512 2 1 4 7 6 5 0 3 (R_512 ! 1) (Round512 0 1 2 3 4 5 6 7 (R_512 ! 0) X)))"
  "high_rounds 8 X = Round512 6 1 0 7 2 5 4 3 (R_512 ! 7) (Round512 4 1 6 3 0 5 2 7 (R_512 ! 6)
     (Round512 2 1 4 7 6 5 0 3 (R_512 ! 5) (Round512 0 1 2 3 4 5 6 7 (R_512 ! 4) X)))"
  by (simp_all add: low_rounds_def high_rounds_def four_rounds_def Let_def tf_rotations_def tf_places_def R_512_def Round512_mixes upt_8)

lemma R512_eight:
  assumes "length X = 8"
  shows "R512_8_rounds (key_words K) [t0, t1, t0 XOR t1] R X =
    add_words (high_rounds 8 (add_words (low_rounds 8 X) (tf_subkey 8 K t0 t1 (2 * R + 1)))) (tf_subkey 8 K t0 t1 (2 * R + 2))"
proof -
  have l: "R512_8_rounds ks ts R X = I512 ks ts (2 * R + 1) (high_rounds 8 (I512 ks ts (2 * R) (low_rounds 8 X)))" for ks ts
    by (simp only: R512_8_rounds_def Let_def half_rounds_512)
  show ?thesis unfolding l using assms by (simp add: I512_subkey)
qed

lemma block_512_threefish:
  assumes "length K = 8" and "length w = 8"
  shows "block_512 K t0 t1 w = map2 (XOR) (threefish 8 K t0 t1 w) w"
proof -
  have "[w ! 0 + K ! 0, w ! 1 + K ! 1, w ! 2 + K ! 2, w ! 3 + K ! 3, w ! 4 + K ! 4, w ! 5 + K ! 5 + t0, w ! 6 + K ! 6 + t1, w ! 7 + K ! 7] =
      add_words w (tf_subkey 8 K t0 t1 0)"
    by (subst (9) list_8 [OF assms(2)]) (simp add: subkey_512 add_words_def key_nth assms(1) add.assoc)
  then have "block_512 K t0 t1 w = feed_forward (R512_rounds (key_words K) [t0, t1, t0 XOR t1] (add_words w (tf_subkey 8 K t0 t1 0))) w"
    by (simp add: block_512_def Let_def key_nth assms(1))
  also have "R512_rounds (key_words K) [t0, t1, t0 XOR t1] (add_words w (tf_subkey 8 K t0 t1 0)) = threefish 8 K t0 t1 w"
    unfolding R512_rounds_def
    by (subst threefish_eights [where n = 9 and eight = "R512_8_rounds (key_words K) [t0, t1, t0 XOR t1]"])
      (simp_all add: assms tf_rounds_def R512_eight upt_9)
  finally show ?thesis by (simp add: feed_forward_def)
qed

text \<open>Before injection \<open>s\<close> of Skein-1024 the array holds the key words \<open>s - 1\<close> to \<open>s + 15\<close> and the tweak words \<open>s - 1\<close> to
  \<open>s + 1\<close>, counted round and round.\<close>

definition kw_ok :: "u64 list \<Rightarrow> u64 \<Rightarrow> u64 \<Rightarrow> nat \<Rightarrow> u64 list \<Rightarrow> bool" where
  "kw_ok K t0 t1 s kw \<longleftrightarrow> length kw = s + 19 \<and> 0 < s \<and>
    (\<forall>j \<le> 16. kw ! (s + 2 + j) = key_words K ! ((s + 16 + j) mod 17)) \<and>
    (\<forall>j \<le> 2. kw ! (s - 1 + j) = [t0, t1, t0 XOR t1] ! ((s + 2 + j) mod 3))"

lemma subkey_1024:
  "tf_subkey 16 K t0 t1 s =
    [key_words K ! (s mod 17), key_words K ! ((s + 1) mod 17), key_words K ! ((s + 2) mod 17), key_words K ! ((s + 3) mod 17),
     key_words K ! ((s + 4) mod 17), key_words K ! ((s + 5) mod 17), key_words K ! ((s + 6) mod 17), key_words K ! ((s + 7) mod 17),
     key_words K ! ((s + 8) mod 17), key_words K ! ((s + 9) mod 17), key_words K ! ((s + 10) mod 17), key_words K ! ((s + 11) mod 17),
     key_words K ! ((s + 12) mod 17), key_words K ! ((s + 13) mod 17) + [t0, t1, t0 XOR t1] ! (s mod 3),
     key_words K ! ((s + 14) mod 17) + [t0, t1, t0 XOR t1] ! ((s + 1) mod 3), key_words K ! ((s + 15) mod 17) + of_nat s]"
  unfolding tf_subkey_def Let_def key_words_def [symmetric] upt_16_words list.map by simp

lemma I1024_subkey:
  assumes "kw_ok K t0 t1 s kw" and "r + R = s" and "length X = 16"
  shows "\<exists>kw'. I1024 r R (X, kw) = (add_words X (tf_subkey 16 K t0 t1 s), kw') \<and> kw_ok K t0 t1 (s + 1) kw'"
proof -
  have kw: "length kw = s + 19" "0 < s" and key: "\<And>j. j \<le> 16 \<Longrightarrow> kw ! (s + 2 + j) = key_words K ! ((s + 16 + j) mod 17)"
    and tweak: "\<And>j. j \<le> 2 \<Longrightarrow> kw ! (s - 1 + j) = [t0, t1, t0 XOR t1] ! ((s + 2 + j) mod 3)"
    using assms(1) by (auto simp: kw_ok_def)
  have k: "kw ! (3 + (s + i)) = key_words K ! ((s + i) mod 17)" if "i \<le> 15" for i
  proof -
    have e: "s + 16 + (i + 1) = (s + i) + 17" "s + 2 + (i + 1) = 3 + (s + i)" by simp_all
    have "i + 1 \<le> 16" using that by simp
    from key [OF this] show ?thesis by (simp only: e mod_add_self2)
  qed
  have t: "kw ! (s + i) = [t0, t1, t0 XOR t1] ! ((s + i) mod 3)" if "i \<le> 1" for i
  proof -
    have "s + 2 + (i + 1) = (s + i) + 3" "s - 1 + (i + 1) = s + i" using kw(2) by simp_all
    then show ?thesis using tweak [of "i + 1"] that by (simp only: mod_add_self2)
  qed
  define kw1 where "kw1 = kw @ [kw ! (s + 2)]"
  define kw2 where "kw2 = kw1[s + 2 := kw1 ! (s - 1)]"
  have fst: "fst (I1024 r R (X, kw)) = add_words X (tf_subkey 16 K t0 t1 s)"
  proof -
    have "add_words [X ! 0, X ! 1, X ! 2, X ! 3, X ! 4, X ! 5, X ! 6, X ! 7, X ! 8, X ! 9, X ! 10, X ! 11, X ! 12, X ! 13, X ! 14, X ! 15]
        (tf_subkey 16 K t0 t1 s) = fst (I1024 r R (X, kw))"
      unfolding subkey_1024 I1024_def KW_KEY_BASE_def KW_TWK_BASE_def Let_def prod.case assms(2) add_words_def
      using k [of 0] k [of 1] k [of 2] k [of 3] k [of 4] k [of 5] k [of 6] k [of 7] k [of 8] k [of 9] k [of 10] k [of 11] k [of 12] k [of 13]
        k [of 14] k [of 15] t [of 0] t [of 1]
      by (simp del: add_Suc_right)
    then show ?thesis using list_16_words [OF assms(3)] by simp
  qed
  have snd: "snd (I1024 r R (X, kw)) = kw2"
  proof -
    have "KW_KEY_BASE + (s + 16) = length kw" "KW_KEY_BASE + (s - 1) = s + 2" "KW_TWK_BASE + (s + 2) = s + 2" "s + 2 \<noteq> length kw1"
      using kw by (simp_all add: KW_KEY_BASE_def KW_TWK_BASE_def kw1_def)
    then show ?thesis
      by (simp add: I1024_def Let_def assms(2) set_kw_def kw1_def kw2_def KW_TWK_BASE_def)
  qed
  have "kw_ok K t0 t1 (s + 1) kw2"
    unfolding kw_ok_def
  proof (intro conjI allI impI)
    show "length kw2 = s + 1 + 19" "0 < s + 1" using kw by (simp_all add: kw2_def kw1_def)
  next
    fix j :: nat assume j: "j \<le> 16"
    show "kw2 ! (s + 1 + 2 + j) = key_words K ! ((s + 1 + 16 + j) mod 17)"
    proof (cases "j = 16")
      case True
      have "s + 1 + 16 + 16 = (s + 16 + 0) + 17" by simp
      then have "key_words K ! ((s + 1 + 16 + j) mod 17) = kw ! (s + 2)" using key [of 0] True by (simp only: mod_add_self2) simp
      then show ?thesis using True kw by (simp add: kw2_def kw1_def nth_append)
    next
      case False
      have e: "s + 16 + (j + 1) = s + 1 + 16 + j" and l: "j + 1 \<le> 16" using False j by simp_all
      have "kw2 ! (s + 1 + 2 + j) = kw ! (s + 2 + (j + 1))" using kw j False by (simp add: kw2_def kw1_def nth_append)
      then show ?thesis using key [OF l] by (simp only: e)
    qed
  next
    fix j :: nat assume j: "j \<le> 2"
    show "kw2 ! (s + 1 - 1 + j) = [t0, t1, t0 XOR t1] ! ((s + 1 + 2 + j) mod 3)"
    proof (cases "j = 2")
      case True
      have "s + 1 + 2 + 2 = (s + 2 + 0) + 3" by simp
      then have "[t0, t1, t0 XOR t1] ! ((s + 1 + 2 + j) mod 3) = kw ! (s - 1)" using tweak [of 0] True by (simp only: mod_add_self2) simp
      moreover have "s - 1 < s + 19" by linarith
      ultimately show ?thesis using True kw by (simp add: kw2_def kw1_def nth_append)
    next
      case False
      have e: "s + 2 + (j + 1) = s + 1 + 2 + j" and l: "j + 1 \<le> 2" using False j by simp_all
      have "kw2 ! (s + 1 - 1 + j) = kw ! (s - 1 + (j + 1))" using kw j False by (simp add: kw2_def kw1_def nth_append)
      then show ?thesis using tweak [OF l] by (simp only: e)
    qed
  qed
  then show ?thesis using fst snd by (metis prod.collapse)
qed

lemma Round1024_mixes: "length p = 16 \<Longrightarrow> length r = 8 \<Longrightarrow> Round1024 p r X = mixes p r X"
  by (subst (2) list_16_words, assumption, subst (2) list_8, assumption) (simp add: Round1024_def Let_def)

lemma half_rounds_1024:
  "low_rounds 16 X =
    Round1024 [0, 15, 2, 11, 6, 13, 4, 9, 14, 1, 8, 5, 10, 3, 12, 7] (R1024 ! 3)
     (Round1024 [0, 7, 2, 5, 4, 3, 6, 1, 12, 15, 14, 13, 8, 11, 10, 9] (R1024 ! 2)
     (Round1024 [0, 9, 2, 13, 6, 11, 4, 15, 10, 7, 12, 3, 14, 5, 8, 1] (R1024 ! 1)
     (Round1024 [0, 1, 2, 3, 4, 5, 6, 7, 8, 9, 10, 11, 12, 13, 14, 15] (R1024 ! 0) X)))"
  "high_rounds 16 X =
    Round1024 [0, 15, 2, 11, 6, 13, 4, 9, 14, 1, 8, 5, 10, 3, 12, 7] (R1024 ! 7)
     (Round1024 [0, 7, 2, 5, 4, 3, 6, 1, 12, 15, 14, 13, 8, 11, 10, 9] (R1024 ! 6)
     (Round1024 [0, 9, 2, 13, 6, 11, 4, 15, 10, 7, 12, 3, 14, 5, 8, 1] (R1024 ! 5)
     (Round1024 [0, 1, 2, 3, 4, 5, 6, 7, 8, 9, 10, 11, 12, 13, 14, 15] (R1024 ! 4) X)))"
  by (simp_all add: low_rounds_def high_rounds_def four_rounds_def Let_def tf_rotations_def tf_places_def R1024_def Round1024_mixes upt_16_words)

definition eight_1024 :: "u64 list \<Rightarrow> u64 \<Rightarrow> u64 \<Rightarrow> nat \<Rightarrow> u64 list \<Rightarrow> u64 list" where
  "eight_1024 K t0 t1 R X =
    add_words (high_rounds 16 (add_words (low_rounds 16 X) (tf_subkey 16 K t0 t1 (2 * R + 1)))) (tf_subkey 16 K t0 t1 (2 * R + 2))"

lemma length_eight_1024 [simp]: "length X = 16 \<Longrightarrow> length (eight_1024 K t0 t1 R X) = 16"
  by (simp add: eight_1024_def)

lemma R1024_eight:
  assumes "kw_ok K t0 t1 (2 * R + 1) kw" and "length X = 16"
  shows "\<exists>kw'. R1024_8_rounds (2 * R + 1) (X, kw) = (eight_1024 K t0 t1 R X, kw') \<and> kw_ok K t0 t1 (2 * (R + 1) + 1) kw'"
proof -
  have l: "R1024_8_rounds r (X, kw) = (case I1024 r 0 (low_rounds 16 X, kw) of (X, kw) \<Rightarrow> I1024 r 1 (high_rounds 16 X, kw))" for r
    by (simp only: R1024_8_rounds_def Let_def half_rounds_1024 prod.case)
  obtain kw1 where 1: "I1024 (2 * R + 1) 0 (low_rounds 16 X, kw) = (add_words (low_rounds 16 X) (tf_subkey 16 K t0 t1 (2 * R + 1)), kw1)"
      "kw_ok K t0 t1 (2 * R + 1 + 1) kw1"
    using I1024_subkey [OF assms(1), of "2 * R + 1" 0 "low_rounds 16 X"] assms(2) by auto
  obtain kw2 where 2: "I1024 (2 * R + 1) 1 (high_rounds 16 (add_words (low_rounds 16 X) (tf_subkey 16 K t0 t1 (2 * R + 1))), kw1) =
      (eight_1024 K t0 t1 R X, kw2)" "kw_ok K t0 t1 (2 * R + 1 + 1 + 1) kw2"
    using I1024_subkey [OF 1(2), of "2 * R + 1" 1 "high_rounds 16 (add_words (low_rounds 16 X) (tf_subkey 16 K t0 t1 (2 * R + 1)))"] assms(2)
    by (auto simp: eight_1024_def)
  have "2 * (R + 1) + 1 = 2 * R + 1 + 1 + 1" by simp
  then show ?thesis unfolding l 1(1) prod.case 2(1) using 2(2) by simp
qed

lemma R1024_eights:
  assumes "kw_ok K t0 t1 1 kw" and "length X = 16"
  shows "fst (fold R1024_8_rounds (map (\<lambda>R. 2 * R + 1) [0..<n]) (X, kw)) = fold (eight_1024 K t0 t1) [0..<n] X"
proof -
  have "\<exists>kw'. fold R1024_8_rounds (map (\<lambda>R. 2 * R + 1) [0..<n]) (X, kw) = (fold (eight_1024 K t0 t1) [0..<n] X, kw') \<and>
      kw_ok K t0 t1 (2 * n + 1) kw' \<and> length (fold (eight_1024 K t0 t1) [0..<n] X) = 16"
  proof (induction n)
    case (Suc n)
    then obtain kw' where "fold R1024_8_rounds (map (\<lambda>R. 2 * R + 1) [0..<n]) (X, kw) = (fold (eight_1024 K t0 t1) [0..<n] X, kw')"
        "kw_ok K t0 t1 (2 * n + 1) kw'" "length (fold (eight_1024 K t0 t1) [0..<n] X) = 16" by auto
    then show ?case using R1024_eight [of K t0 t1 n kw' "fold (eight_1024 K t0 t1) [0..<n] X"] by auto
  qed (use assms in simp)
  then show ?thesis by auto
qed

lemma kw_start:
  assumes "length K = 16"
  shows "kw_ok K t0 t1 1 ([t0, t1, t0 XOR t1] @ key_words K)"
proof -
  have c: "j = 0 \<or> j = 1 \<or> j = 2" if "j \<le> 2" for j :: nat using that by linarith
  have "length (key_words K) = 17" using assms by (simp add: key_words_def)
  then show ?thesis by (auto simp: kw_ok_def nth_append dest!: c)
qed

lemma block_1024_threefish:
  assumes "length K = 16" and "length w = 16"
  shows "block_1024 K t0 t1 w = map2 (XOR) (threefish 16 K t0 t1 w) w"
proof -
  have "[w ! 0 + K ! 0, w ! 1 + K ! 1, w ! 2 + K ! 2, w ! 3 + K ! 3, w ! 4 + K ! 4, w ! 5 + K ! 5, w ! 6 + K ! 6, w ! 7 + K ! 7,
       w ! 8 + K ! 8, w ! 9 + K ! 9, w ! 10 + K ! 10, w ! 11 + K ! 11, w ! 12 + K ! 12, w ! 13 + K ! 13 + t0, w ! 14 + K ! 14 + t1, w ! 15 + K ! 15] =
      add_words w (tf_subkey 16 K t0 t1 0)"
    by (subst (17) list_16_words [OF assms(2)]) (simp add: subkey_1024 add_words_def key_nth assms(1) add.assoc)
  then have "block_1024 K t0 t1 w = feed_forward (fst (R1024_rounds (add_words w (tf_subkey 16 K t0 t1 0), [t0, t1, t0 XOR t1] @ key_words K))) w"
    by (simp add: block_1024_def Let_def key_nth assms(1))
  also have "fst (R1024_rounds (add_words w (tf_subkey 16 K t0 t1 0), [t0, t1, t0 XOR t1] @ key_words K)) =
      fold (eight_1024 K t0 t1) [0..<10] (add_words w (tf_subkey 16 K t0 t1 0))"
  proof -
    have "[1, 3, 5, 7, 9, 11, 13, 15, 17, 19] = map (\<lambda>R. 2 * R + 1) [0..<10]" by code_simp
    then show ?thesis
      unfolding R1024_rounds_def by (simp only: R1024_eights [OF kw_start [OF assms(1)]] length_add_words length_tf_subkey assms(2) min.idem)
  qed
  also have "\<dots> = threefish 16 K t0 t1 w"
    by (rule threefish_eights [symmetric]) (simp_all add: assms tf_rounds_def eight_1024_def)
  finally show ?thesis by (simp add: feed_forward_def)
qed

end
