(* ===== verification/SkeinLaws.thy ===== *)
theory SkeinLaws
  imports SkeinSpec
begin

unbundle bit_operations_syntax

text \<open>
  Skein as it is specified: unique block iteration over padded blocks with a tweak that holds the position and
  flags, and the hash as the iterations over the configuration, the message and the output counters.  The contexts of
  \<^verbatim>\<open>skein.c\<close> compute it for all three block sizes; the proofs are done once, for any size and block function with
  the laws of the locale.
\<close>

section \<open>The specification\<close>

definition block_64 :: "nat \<Rightarrow> byte list \<Rightarrow> u64 list" where
  "block_64 W m = map (\<lambda>i. join_le (mem_slice m (8 * i) 8)) [0..<W]"

text \<open>The high word of the tweak: bit 55 for a last byte filled up with bits, the type from bit 56, bits 62 and 63 for the
  first and the final block.\<close>

definition tweak_flags :: "nat \<Rightarrow> bool \<Rightarrow> bool \<Rightarrow> bool \<Rightarrow> u64" where
  "tweak_flags typ first final pad = of_nat (typ * 2 ^ 56 + of_bool pad * 2 ^ 55 + of_bool first * 2 ^ 62 + of_bool final * 2 ^ 63)"

definition ubi_block :: "nat \<Rightarrow> u64 list \<Rightarrow> nat \<Rightarrow> u64 \<Rightarrow> byte list \<Rightarrow> u64 list" where
  "ubi_block W G pos flags m = map2 (XOR) (threefish W G (of_nat pos) flags (block_64 W m)) (block_64 W m)"

definition ubi :: "nat \<Rightarrow> nat \<Rightarrow> bool \<Rightarrow> u64 list \<Rightarrow> byte list \<Rightarrow> u64 list" where
  "ubi W typ pad G m =
    (let n = max 1 ((length m + 8 * W - 1) div (8 * W)); p = m @ replicate (8 * W * n - length m) 0
     in fold (\<lambda>i G. ubi_block W G (min (length m) (8 * W * (i + 1))) (tweak_flags typ (i = 0) (i + 1 = n) (pad \<and> i + 1 = n))
          (mem_slice p (8 * W * i) (8 * W))) [0..<n] G)"

definition skein_pad :: "byte list \<Rightarrow> nat \<Rightarrow> byte list" where
  "skein_pad d n =
    (if n mod 8 = 0 then d
     else d[n div 8 := d ! (n div 8) AND NOT (mask (8 - n mod 8)) OR push_bit (7 - n mod 8) 1])"

definition skein_config :: "nat \<Rightarrow> byte list" where
  "skein_config len = [0x53, 0x48, 0x41, 0x33, 1, 0, 0, 0] @ split_le 8 (of_nat len :: u64) @ replicate 16 0"

definition skein_chain :: "nat \<Rightarrow> nat \<Rightarrow> byte list \<Rightarrow> nat \<Rightarrow> u64 list" where
  "skein_chain W len d n = ubi W 48 (n mod 8 \<noteq> 0) (ubi W 4 False (replicate W 0) (skein_config len)) (skein_pad d n)"

definition skein_output :: "nat \<Rightarrow> u64 list \<Rightarrow> nat \<Rightarrow> byte list" where
  "skein_output W G n =
    take n (concat (map (\<lambda>i. concat (map (split_le 8) (ubi W 63 False G (split_le 8 (of_nat i :: u64)))) ) [0..<(n + 8 * W - 1) div (8 * W)]))"

definition skein_spec :: "nat \<Rightarrow> nat \<Rightarrow> byte list \<Rightarrow> nat \<Rightarrow> byte list" where
  "skein_spec W len d n = skein_output W (skein_chain W len d n) ((len + 7) div 8)"

section \<open>The flags\<close>

lemma flag_values:
  "SKEIN_T1_FLAG_FIRST = 2 ^ 62" "SKEIN_T1_FLAG_FINAL = 2 ^ 63" "SKEIN_T1_FLAG_BIT_PAD = 2 ^ 55"
  "SKEIN_T1_BLK_TYPE_MSG = 48 * 2 ^ 56" "SKEIN_T1_BLK_TYPE_CFG_FINAL = 4 * 2 ^ 56 + 2 ^ 63" "SKEIN_T1_BLK_TYPE_OUT_FINAL = 63 * 2 ^ 56 + 2 ^ 63"
  by (simp_all add: SKEIN_T1_FLAG_FIRST_def SKEIN_T1_FLAG_FINAL_def SKEIN_T1_FLAG_BIT_PAD_def SKEIN_T1_BIT_def SKEIN_T1_BLK_TYPE_def
    SKEIN_T1_BLK_TYPE_MSG_def SKEIN_T1_BLK_TYPE_CFG_FINAL_def SKEIN_T1_BLK_TYPE_OUT_FINAL_def SKEIN_T1_BLK_TYPE_CFG_def SKEIN_T1_BLK_TYPE_OUT_def)

lemma flags_start:
  "SKEIN_T1_FLAG_FIRST OR SKEIN_T1_BLK_TYPE_MSG = tweak_flags 48 True False False"
  "SKEIN_T1_FLAG_FIRST OR SKEIN_T1_BLK_TYPE_CFG_FINAL = tweak_flags 4 True True False"
  "SKEIN_T1_FLAG_FIRST OR SKEIN_T1_BLK_TYPE_OUT_FINAL = tweak_flags 63 True True False"
  by (simp_all add: flag_values tweak_flags_def)

lemma flags_change:
  "tweak_flags 48 first False False AND NOT SKEIN_T1_FLAG_FIRST = tweak_flags 48 False False False"
  "tweak_flags 48 first False False OR SKEIN_T1_FLAG_BIT_PAD = tweak_flags 48 first False True"
  "tweak_flags 48 first False pad OR SKEIN_T1_FLAG_FINAL = tweak_flags 48 first True pad"
  by (cases first; cases pad; simp add: flag_values tweak_flags_def)+

section \<open>Absorbing the message\<close>

definition full_blocks :: "nat \<Rightarrow> u64 list \<Rightarrow> byte list \<Rightarrow> nat \<Rightarrow> u64 list" where
  "full_blocks W G m k =
    fold (\<lambda>i G. ubi_block W G (8 * W * (i + 1)) (tweak_flags 48 (i = 0) False False) (mem_slice m (8 * W * i) (8 * W))) [0..<k] G"

lemma full_blocks_simps [simp]:
  "full_blocks W G m 0 = G"
  "full_blocks W G m (Suc k) = ubi_block W (full_blocks W G m k) (8 * W * (k + 1)) (tweak_flags 48 (k = 0) False False) (mem_slice m (8 * W * k) (8 * W))"
  by (simp_all add: full_blocks_def)

lemma full_blocks_append: "8 * W * k \<le> length m \<Longrightarrow> full_blocks W G (m @ x) k = full_blocks W G m k"
proof (induction k)
  case (Suc k)
  then have "8 * W * k + 8 * W \<le> length m" by (simp add: algebra_simps)
  then have "mem_slice (m @ x) (8 * W * k) (8 * W) = mem_slice m (8 * W * k) (8 * W)" by (simp add: mem_slice_def)
  then show ?case using Suc by simp
qed simp

text \<open>The chaining variables and the tweak after \<open>k\<close> blocks of the message \<open>m\<close>; and the whole context, with the rest
  of the message in the buffer.\<close>

definition chain_at :: "nat \<Rightarrow> u64 list \<Rightarrow> byte list \<Rightarrow> nat \<Rightarrow> skein_ctxt \<Rightarrow> bool" where
  "chain_at W G m k ctx \<longleftrightarrow> length (skein_X ctx) = W \<and> skein_X ctx = full_blocks W G m k \<and>
    skein_T0 ctx = of_nat (8 * W * k) \<and> skein_T1 ctx = tweak_flags 48 (k = 0) False False"

definition buffered :: "nat \<Rightarrow> u64 list \<Rightarrow> byte list \<Rightarrow> nat \<Rightarrow> skein_ctxt \<Rightarrow> bool" where
  "buffered W G m k ctx \<longleftrightarrow> chain_at W G m k ctx \<and> length m = 8 * W * k + unat (bCnt ctx) \<and> unat (bCnt ctx) \<le> 8 * W \<and>
    length (skein_b ctx) = 8 * W \<and> take (unat (bCnt ctx)) (skein_b ctx) = drop (8 * W * k) m"

definition skein_rep :: "nat \<Rightarrow> u64 list \<Rightarrow> byte list \<Rightarrow> nat \<Rightarrow> skein_ctxt \<Rightarrow> bool" where
  "skein_rep W G m k ctx \<longleftrightarrow> buffered W G m k ctx \<and> (k = 0 \<or> bCnt ctx \<noteq> 0)"

definition same_frame :: "skein_ctxt \<Rightarrow> skein_ctxt \<Rightarrow> bool" where
  "same_frame ctx ctx' \<longleftrightarrow> hashBitLen ctx' = hashBitLen ctx \<and> bCnt ctx' = bCnt ctx \<and> skein_b ctx' = skein_b ctx"

lemma block_64_take: "8 * W \<le> length p \<Longrightarrow> block_64 W (take (8 * W) p) = Skein_Get64_LSB_First p W"
proof -
  have "mem_slice (take (8 * W) p) (8 * i) 8 = mem_slice p (8 * i) 8" if "i < W" for i
  proof -
    have "min (8 * W) (8 * i + 8) = 8 * i + 8" using that by simp
    then show ?thesis by (simp add: mem_slice_def drop_take)
  qed
  then show ?thesis by (simp add: block_64_def Skein_Get64_LSB_First_def)
qed

lemma unat_64: "unat (v :: u64) < 2 ^ 64"
  using unsigned_less [of v] by simp

lemma append_b_buffered:
  assumes "buffered W G m k ctx" and "W \<le> 16" and "unat n \<le> length msg" and "unat (bCnt ctx) + unat n \<le> 8 * W"
  shows "\<exists>ctx'. append_b (8 * W) ctx msg n = Some ctx' \<and> buffered W G (m @ take (unat n) msg) k ctx' \<and>
    bCnt ctx' = bCnt ctx + n \<and> hashBitLen ctx' = hashBitLen ctx"
proof -
  let ?c = "ctx\<lparr>skein_b := blit (skein_b ctx) (unat (bCnt ctx)) (take (unat n) msg), bCnt := bCnt ctx + n\<rparr>"
  have u: "unat (bCnt ctx + n) = unat (bCnt ctx) + unat n"
    using assms(2,4) by (intro unat_add_lem [THEN iffD1]) simp
  have k: "8 * W * k \<le> length m" "drop (8 * W * k) m = take (unat (bCnt ctx)) (skein_b ctx)" using assms(1) by (auto simp: buffered_def)
  have "buffered W G (m @ take (unat n) msg) k ?c"
    using assms k by (auto simp: buffered_def chain_at_def u full_blocks_append blit_def)
  then show ?thesis using assms(3,4) by (simp add: append_b_def)
qed

definition absorb :: "nat \<Rightarrow> skein_ctxt \<Rightarrow> byte list \<Rightarrow> nat \<Rightarrow> skein_ctxt" where
  "absorb W ctx p pos =
    ctx\<lparr>skein_X := ubi_block W (skein_X ctx) pos (skein_T1 ctx) (take (8 * W) p), skein_T0 := of_nat pos,
      skein_T1 := skein_T1 ctx AND NOT SKEIN_T1_FLAG_FIRST\<rparr>"

lemma chain_atD:
  assumes "chain_at W G m k ctx"
  shows "length (skein_X ctx) = W" and "skein_T0 ctx + of_nat (8 * W) = of_nat (8 * W * Suc k)"
  using assms by (auto simp: chain_at_def algebra_simps)

lemma ubi_single:
  assumes "length m \<le> 8 * W" and "0 < W"
  shows "ubi W typ pad G m = ubi_block W G (length m) (tweak_flags typ True True pad) (m @ replicate (8 * W - length m) 0)"
proof -
  have "(length m + 8 * W - 1) div (8 * W) \<le> 1"
  proof -
    have "length m + 8 * W - 1 < 2 * (8 * W)" using assms by linarith
    then show ?thesis using assms(2) by (simp add: div_less_iff_less_mult less_Suc_eq_le [symmetric])
  qed
  then have n: "max 1 ((length m + 8 * W - 1) div (8 * W)) = 1" by simp
  show ?thesis unfolding ubi_def n using assms by (simp add: Let_def mem_slice_def)
qed

lemma ubi_message:
  assumes "length m = 8 * W * k + c" and "c \<le> 8 * W" and "k = 0 \<or> 0 < c" and "0 < W"
  shows "ubi W 48 pad G m =
    ubi_block W (full_blocks W G m k) (length m) (tweak_flags 48 (k = 0) True pad) (drop (8 * W * k) m @ replicate (8 * W - c) 0)"
proof -
  have n: "max 1 ((length m + 8 * W - 1) div (8 * W)) = k + 1"
  proof (cases "c = 0")
    case True
    then have "length m + 8 * W - 1 < 8 * W" using assms(1,3,4) by simp
    then have "(length m + 8 * W - 1) div (8 * W) = 0" by (rule div_less)
    then show ?thesis using True assms(3) by simp
  next
    case False
    then have "length m + 8 * W - 1 = 8 * W * (k + 1) + (c - 1)" "c - 1 < 8 * W" using assms by simp_all
    then have "(length m + 8 * W - 1) div (8 * W) = k + 1" by (simp only: div_mult_self4 div_less)
    then show ?thesis by simp
  qed
  define p where "p = m @ replicate (8 * W * (k + 1) - length m) 0"
  have p: "length p = 8 * W * (k + 1)" "mem_slice p (8 * W * k) (8 * W) = drop (8 * W * k) m @ replicate (8 * W - c) 0"
    using assms(1,2) by (simp_all add: p_def mem_slice_def)
  have "fold (\<lambda>i G. ubi_block W G (min (length m) (8 * W * (i + 1))) (tweak_flags 48 (i = 0) (i + 1 = k + 1) (pad \<and> i + 1 = k + 1))
        (mem_slice p (8 * W * i) (8 * W))) [0..<k] G = full_blocks W G m k"
    unfolding full_blocks_def
  proof (rule fold_cong)
    fix i assume "i \<in> set [0..<k]"
    then have i: "i < k" by simp
    then have le: "8 * W * (i + 1) \<le> 8 * W * k" by (intro mult_le_mono2) simp
    then have "8 * W * i + 8 * W \<le> length m" using assms(1) by (simp add: algebra_simps)
    then have "mem_slice p (8 * W * i) (8 * W) = mem_slice m (8 * W * i) (8 * W)" by (simp add: mem_slice_def p_def)
    moreover have "min (length m) (8 * W * (i + 1)) = 8 * W * (i + 1)" using le assms(1) by simp
    ultimately show "(\<lambda>G. ubi_block W G (min (length m) (8 * W * (i + 1))) (tweak_flags 48 (i = 0) (i + 1 = k + 1) (pad \<and> i + 1 = k + 1))
        (mem_slice p (8 * W * i) (8 * W))) = (\<lambda>G. ubi_block W G (8 * W * (i + 1)) (tweak_flags 48 (i = 0) False False) (mem_slice m (8 * W * i) (8 * W)))"
      using i by simp
  qed simp_all
  then show ?thesis
    unfolding ubi_def n Let_def p_def [symmetric] using p(2) assms(1,2) by simp
qed

text \<open>The laws of a block function, and what the code makes of any that keeps them.\<close>

locale skein_block =
  fixes W :: nat and block :: "u64 list \<Rightarrow> u64 \<Rightarrow> u64 \<Rightarrow> u64 list \<Rightarrow> u64 list"
  assumes size: "4 \<le> W" "W \<le> 16"
    and encrypts: "length G = W \<Longrightarrow> length w = W \<Longrightarrow> block G t0 t1 w = map2 (XOR) (threefish W G t0 t1 w) w"
    and keeps_length: "length G = W \<Longrightarrow> length w = W \<Longrightarrow> length (block G t0 t1 w) = W"
begin

lemma block_ubi:
  assumes "length G = W" and "8 * W \<le> length p"
  shows "block G (of_nat pos) flags (Skein_Get64_LSB_First p W) = ubi_block W G pos flags (take (8 * W) p)"
    and "length (ubi_block W G pos flags (take (8 * W) p)) = W"
proof -
  have w: "length (Skein_Get64_LSB_First p W) = W" by (simp add: Skein_Get64_LSB_First_def)
  then show b: "block G (of_nat pos) flags (Skein_Get64_LSB_First p W) = ubi_block W G pos flags (take (8 * W) p)"
    using assms by (simp add: encrypts ubi_block_def block_64_take)
  show "length (ubi_block W G pos flags (take (8 * W) p)) = W"
    unfolding b [symmetric] using keeps_length assms(1) w .
qed

lemma process_step:
  assumes "length (skein_X ctx) = W" and "8 * W \<le> length p" and "skein_T0 ctx + add = of_nat pos"
  shows "Process_Block W block ctx p n add =
    (if n = 1 then Some (absorb W ctx p pos) else Process_Block W block (absorb W ctx p pos) (drop (8 * W) p) (n - 1) add)"
  using assms by (subst Process_Block.simps) (simp add: Let_def block_ubi absorb_def)

lemma step_absorbs:
  assumes "chain_at W G m k ctx" and "length m = 8 * W * k" and "8 * W \<le> length p"
  shows "chain_at W G (m @ take (8 * W) p) (Suc k) (absorb W ctx p (8 * W * Suc k)) \<and> same_frame ctx (absorb W ctx p (8 * W * Suc k))"
proof -
  have "mem_slice (m @ take (8 * W) p) (8 * W * k) (8 * W) = take (8 * W) p" using assms(2,3) by (simp add: mem_slice_def)
  then show ?thesis
    using assms block_ubi(2) [of "skein_X ctx" p]
    by (auto simp: chain_at_def absorb_def same_frame_def full_blocks_append flags_change)
qed

lemma process_blocks:
  assumes "chain_at W G m k ctx" and "length m = 8 * W * k" and "unat n = Suc j" and "8 * W * Suc j \<le> length p"
  shows "\<exists>ctx'. Process_Block W block ctx p n (of_nat (8 * W)) = Some ctx' \<and>
    chain_at W G (m @ take (8 * W * Suc j) p) (k + Suc j) ctx' \<and> same_frame ctx ctx'"
  using assms
proof (induction j arbitrary: m k ctx n p)
  case (0 m k ctx n p)
  have "n = 1" using 0(3) by (simp add: word_unat_eq_iff)
  then have "Process_Block W block ctx p n (of_nat (8 * W)) = Some (absorb W ctx p (8 * W * Suc k))"
    using process_step [OF chain_atD(1) [OF 0(1)] _ chain_atD(2) [OF 0(1)], of p n] 0(4) by simp
  then show ?case using step_absorbs [OF 0(1,2), of p] 0(4) by simp
next
  case (Suc j m k ctx n p)
  let ?s = "absorb W ctx p (8 * W * Suc k)" and ?m = "m @ take (8 * W) p" and ?p = "drop (8 * W) p"
  have "n \<noteq> 0" using Suc(4) by auto
  then have n: "n \<noteq> 1" "unat (n - 1) = Suc j" using Suc(4) unat_minus_one [of n] by auto
  have l: "length ?m = 8 * W * Suc k" and pl: "8 * W * Suc j \<le> length ?p" using Suc(3,5) by simp_all
  have s: "chain_at W G ?m (Suc k) ?s" "same_frame ctx ?s" using step_absorbs [OF Suc(2,3), of p] Suc(5) by auto
  have "Process_Block W block ctx p n (of_nat (8 * W)) = Process_Block W block ?s ?p (n - 1) (of_nat (8 * W))"
    using process_step [OF chain_atD(1) [OF Suc(2)] _ chain_atD(2) [OF Suc(2)], of p n] Suc(5) n(1) by simp
  moreover obtain ctx' where c: "Process_Block W block ?s ?p (n - 1) (of_nat (8 * W)) = Some ctx'"
      "chain_at W G (?m @ take (8 * W * Suc j) ?p) (Suc k + Suc j) ctx'" "same_frame ?s ctx'"
    using Suc.IH [OF s(1) l n(2) pl] by blast
  moreover have "?m @ take (8 * W * Suc j) ?p = m @ take (8 * W * Suc (Suc j)) p"
    using take_add [of "8 * W" "8 * W * Suc j" p] by (simp add: algebra_simps)
  ultimately show ?case using s(2) by (auto simp: same_frame_def)
qed

lemma unat_size: "unat (of_nat (8 * W) :: u64) = 8 * W"
  using size by (simp add: unat_of_nat take_bit_nat_eq_self del: of_nat_mult)

lemma finish_buffered_full:
  assumes "buffered W G m k ctx" and "bCnt ctx \<noteq> 0" and "8 * W < unat n + unat (bCnt ctx)" and "unat n \<le> length msg"
  shows "\<exists>ctx' r. finish_buffered W (Process_Block W block) ctx msg n = Some (ctx', drop r msg, n - of_nat r) \<and> r < unat n \<and>
    buffered W G (m @ take r msg) (Suc k) ctx' \<and> bCnt ctx' = 0 \<and> hashBitLen ctx' = hashBitLen ctx"
proof -
  let ?c = "unat (bCnt ctx)" and ?sz = "of_nat (8 * W) :: u64"
  define r where "r = 8 * W - ?c"
  have c: "?c \<le> 8 * W" using assms(1) by (simp add: buffered_def)
  define e where "e = ?sz - bCnt ctx"
  have r: "unat e = r" unfolding e_def using c by (simp only: unat_sub word_le_nat_alt unat_size r_def)
  then have er: "e = of_nat r" by (simp flip: r)
  have rn: "r < unat n" and rl: "r \<le> length msg" using assms(3,4) c by (simp_all add: r_def)
  have "\<exists>ctx1. (if e \<noteq> 0 then do { ctx \<leftarrow> append_b (8 * W) ctx msg e; Some (ctx, drop (unat e) msg, n - e) } else Some (ctx, msg, n)) =
        Some (ctx1, drop r msg, n - of_nat r) \<and>
      buffered W G (m @ take r msg) k ctx1 \<and> unat (bCnt ctx1) = 8 * W \<and> hashBitLen ctx1 = hashBitLen ctx"
  proof (cases "e = 0")
    case True
    then have "r = 0" using r by simp
    then show ?thesis using True assms(1) c by (simp add: r_def)
  next
    case False
    have "unat e \<le> length msg" "unat (bCnt ctx) + unat e \<le> 8 * W" using r rl c by (simp_all add: r_def)
    from append_b_buffered [OF assms(1) size(2) this] obtain ctx1 where 1: "append_b (8 * W) ctx msg e = Some ctx1"
        "buffered W G (m @ take r msg) k ctx1" "bCnt ctx1 = bCnt ctx + e" "hashBitLen ctx1 = hashBitLen ctx"
      unfolding r by blast
    have "unat (bCnt ctx1) = 8 * W" using 1(3) unat_size by (simp add: e_def)
    then show ?thesis using 1(1,2,4) False r er by simp
  qed
  then obtain ctx1 where 1: "(if e \<noteq> 0 then do { ctx \<leftarrow> append_b (8 * W) ctx msg e; Some (ctx, drop (unat e) msg, n - e) } else Some (ctx, msg, n)) =
        Some (ctx1, drop r msg, n - of_nat r)"
      "buffered W G (m @ take r msg) k ctx1" "unat (bCnt ctx1) = 8 * W" "hashBitLen ctx1 = hashBitLen ctx" by blast
  define m1 where "m1 = m @ take r msg"
  have b: "chain_at W G m1 k ctx1" "length m1 = 8 * W * k + 8 * W" "length (skein_b ctx1) = 8 * W" "skein_b ctx1 = drop (8 * W * k) m1"
    using 1(2,3) by (auto simp: buffered_def m1_def)
  have "chain_at W G (take (8 * W * k) m1) k ctx1"
    using b(1,2) full_blocks_append [of W k "take (8 * W * k) m1" G "drop (8 * W * k) m1"] by (auto simp: chain_at_def)
  then obtain ctx2 where 2: "Process_Block W block ctx1 (skein_b ctx1) 1 ?sz = Some ctx2" "same_frame ctx1 ctx2"
      "chain_at W G (take (8 * W * k) m1 @ take (8 * W * Suc 0) (skein_b ctx1)) (k + Suc 0) ctx2"
    using process_blocks [of G "take (8 * W * k) m1" k ctx1 1 0 "skein_b ctx1"] b by auto
  have "buffered W G m1 (Suc k) (ctx2\<lparr>bCnt := 0\<rparr>)"
    using 2(2,3) b by (auto simp: buffered_def chain_at_def same_frame_def)
  moreover have "finish_buffered W (Process_Block W block) ctx msg n = Some (ctx2\<lparr>bCnt := 0\<rparr>, drop r msg, n - of_nat r)"
    unfolding finish_buffered_def Let_def e_def [symmetric] 1(1) using assms(2) 2(1) by simp
  ultimately show ?thesis using rn 1(4) 2(2) by (auto simp: m1_def same_frame_def)
qed

lemma direct_blocks_rest:
  assumes "buffered W G m k ctx" and "bCnt ctx = 0" and "0 < unat n" and "unat n \<le> length msg"
  shows "\<exists>ctx' r k'. direct_blocks W (Process_Block W block) ctx msg n = Some (ctx', drop r msg, n - of_nat r) \<and> r < unat n \<and>
    unat n - r \<le> 8 * W \<and> buffered W G (m @ take r msg) k' ctx' \<and> bCnt ctx' = 0 \<and> hashBitLen ctx' = hashBitLen ctx"
proof (cases "8 * W < unat n")
  case False
  then have "\<not> n > of_nat (8 * W)" by (simp add: word_less_nat_alt unat_size del: of_nat_mult)
  then have "direct_blocks W (Process_Block W block) ctx msg n = Some (ctx, drop 0 msg, n - of_nat 0)"
    by (simp add: direct_blocks_def Let_def)
  moreover have "buffered W G (m @ take 0 msg) k ctx" using assms(1) by simp
  ultimately show ?thesis using assms False by (intro exI [of _ ctx] exI [of _ 0] exI [of _ k]) simp
next
  case True
  let ?sz = "of_nat (8 * W) :: u64"
  have gt: "n > ?sz" using True by (simp only: word_less_nat_alt unat_size)
  define b where "b = (unat n - 1) div (8 * W)"
  have "n \<noteq> 0" using assms(3) by auto
  then have "unat (n - 1) = unat n - 1" by (rule unat_minus_one)
  then have u: "unat ((n - 1) div ?sz) = b" by (simp only: unat_div unat_size b_def)
  have bound: "8 * W * b < unat n" "unat n - 8 * W * b \<le> 8 * W"
  proof -
    have "8 * W * b + (unat n - 1) mod (8 * W) = unat n - 1" unfolding b_def by (rule mult_div_mod_eq)
    moreover have "(unat n - 1) mod (8 * W) < 8 * W" using size(1) by simp
    ultimately show "8 * W * b < unat n" "unat n - 8 * W * b \<le> 8 * W" using assms(3) by linarith+
  qed
  have "8 * W \<le> unat n - 1" using True by simp
  then have "0 < b" using size(1) by (simp add: b_def div_greater_zero_iff)
  then obtain j where j: "b = Suc j" by (cases b) simp_all
  have e: "(n - 1) div ?sz = of_nat b" by (simp flip: u)
  have prod: "(n - 1) div ?sz * ?sz = of_nat (8 * W * b)" unfolding e of_nat_mult [symmetric] by (simp only: mult.commute)
  have small: "unat (of_nat (8 * W * b) :: u64) = 8 * W * b"
    using bound(1) unat_64 [of n] by (simp add: unat_of_nat take_bit_nat_eq_self del: of_nat_mult)
  have start: "chain_at W G m k ctx" "length m = 8 * W * k" "unat ((n - 1) div ?sz) = Suc j" "8 * W * Suc j \<le> length msg"
    using assms(1,2,4) bound(1) u j by (simp_all add: buffered_def)
  from process_blocks [OF this] obtain ctx' where c: "Process_Block W block ctx msg ((n - 1) div ?sz) ?sz = Some ctx'"
      "chain_at W G (m @ take (8 * W * b) msg) (k + b) ctx'" "same_frame ctx ctx'"
    unfolding j by blast
  have "buffered W G (m @ take (8 * W * b) msg) (k + b) ctx'"
    using c(2,3) assms(1,2) start(2,4) j by (auto simp: buffered_def same_frame_def algebra_simps)
  moreover have "direct_blocks W (Process_Block W block) ctx msg n = Some (ctx', drop (8 * W * b) msg, n - of_nat (8 * W * b))"
    unfolding direct_blocks_def Let_def prod small c(1) using gt by simp
  ultimately show ?thesis using bound c(3) assms(2) by (auto simp: same_frame_def)
qed

lemma update_rep:
  assumes "skein_rep W G m k ctx" and "unat n \<le> length msg" and "unat n < 2 ^ 63"
  shows "\<exists>ctx' k'. ctxt_Update W (Process_Block W block) ctx msg n = Some ctx' \<and> skein_rep W G (m @ take (unat n) msg) k' ctx' \<and>
    hashBitLen ctx' = hashBitLen ctx"
proof -
  let ?P = "Process_Block W block"
  have b: "buffered W G m k ctx" and c: "unat (bCnt ctx) \<le> 8 * W" and pos: "k = 0 \<or> bCnt ctx \<noteq> 0"
    using assms(1) by (auto simp: skein_rep_def buffered_def)
  have u: "unat (bCnt ctx + n) = unat (bCnt ctx) + unat n" using assms(3) c size(2) by (intro unat_add_lem [THEN iffD1]) simp
  then have "unat (n + bCnt ctx) = unat n + unat (bCnt ctx)" by (simp add: add.commute)
  then have room: "n + bCnt ctx > of_nat (8 * W) \<longleftrightarrow> 8 * W < unat n + unat (bCnt ctx)" by (simp only: word_less_nat_alt unat_size)
  show ?thesis
  proof (cases "8 * W < unat n + unat (bCnt ctx)")
    case False
    show ?thesis
    proof (cases "n = 0")
      case True
      then show ?thesis using False room assms(1) by (auto simp: ctxt_Update_def)
    next
      case n: False
      from append_b_buffered [OF b size(2) assms(2)] False obtain ctx' where a: "append_b (8 * W) ctx msg n = Some ctx'"
          "buffered W G (m @ take (unat n) msg) k ctx'" "bCnt ctx' = bCnt ctx + n" "hashBitLen ctx' = hashBitLen ctx" by auto
      have "0 < unat n" using n by (simp add: unat_gt_0)
      then have "bCnt ctx' \<noteq> 0" using u a(3) by auto
      then show ?thesis using a n False room by (auto simp: ctxt_Update_def skein_rep_def)
    qed
  next
    case True
    have sub: "unat (v - of_nat r) = unat v - r" if "r < unat v" for v :: u64 and r
    proof -
      have "unat (of_nat r :: u64) = r" using that unat_64 [of v] by (simp add: unat_of_nat take_bit_nat_eq_self)
      then show ?thesis using that by (simp add: unat_sub word_le_nat_alt)
    qed
    have "\<exists>ctx1 r k1. finish_buffered W ?P ctx msg n = Some (ctx1, drop r msg, n - of_nat r) \<and> r < unat n \<and>
      buffered W G (m @ take r msg) k1 ctx1 \<and> bCnt ctx1 = 0 \<and> hashBitLen ctx1 = hashBitLen ctx"
    proof (cases "bCnt ctx = 0")
      case empty: True
      then have "finish_buffered W ?P ctx msg n = Some (ctx, drop 0 msg, n - of_nat 0)" by (simp add: finish_buffered_def Let_def)
      moreover have "buffered W G (m @ take 0 msg) k ctx" using b by simp
      ultimately show ?thesis using empty True by (intro exI [of _ ctx] exI [of _ 0] exI [of _ k]) simp
    next
      case False
      show ?thesis using finish_buffered_full [OF b False True assms(2)] by blast
    qed
    then obtain ctx1 r1 k1 where 1: "finish_buffered W ?P ctx msg n = Some (ctx1, drop r1 msg, n - of_nat r1)" "r1 < unat n"
      "buffered W G (m @ take r1 msg) k1 ctx1" "bCnt ctx1 = 0" "hashBitLen ctx1 = hashBitLen ctx" by blast
    note n1 = sub [OF 1(2)]
    have p1: "0 < unat (n - of_nat r1)" "unat (n - of_nat r1) \<le> length (drop r1 msg)" using n1 1(2) assms(2) by simp_all
    obtain ctx2 r2 k2 where 2: "direct_blocks W ?P ctx1 (drop r1 msg) (n - of_nat r1) = Some (ctx2, drop r2 (drop r1 msg), n - of_nat r1 - of_nat r2)"
      "r2 < unat (n - of_nat r1)" "unat (n - of_nat r1) - r2 \<le> 8 * W" "buffered W G ((m @ take r1 msg) @ take r2 (drop r1 msg)) k2 ctx2"
      "bCnt ctx2 = 0" "hashBitLen ctx2 = hashBitLen ctx1"
      using direct_blocks_rest [OF 1(3,4) p1] by blast
    let ?n = "n - of_nat r1 - of_nat r2"
    have n2: "unat ?n = unat n - r1 - r2" "0 < unat ?n" using sub [OF 2(2)] 2(2) n1 by simp_all
    have p2: "unat ?n \<le> length (drop r2 (drop r1 msg))" "unat (bCnt ctx2) + unat ?n \<le> 8 * W"
      using n2 n1 2(2,3,5) assms(2) by simp_all
    obtain ctx3 where 3: "append_b (8 * W) ctx2 (drop r2 (drop r1 msg)) ?n = Some ctx3"
      "buffered W G (((m @ take r1 msg) @ take r2 (drop r1 msg)) @ take (unat ?n) (drop r2 (drop r1 msg))) k2 ctx3"
      "bCnt ctx3 = bCnt ctx2 + ?n" "hashBitLen ctx3 = hashBitLen ctx2"
      using append_b_buffered [OF 2(4) size(2) p2] by blast
    have "((m @ take r1 msg) @ take r2 (drop r1 msg)) @ take (unat ?n) (drop r2 (drop r1 msg)) = m @ take (unat n) msg"
    proof -
      have "unat n = r1 + r2 + unat ?n" using n2 1(2) 2(2) n1 by simp
      then show ?thesis by (simp only: take_add append_assoc drop_drop add.commute)
    qed
    moreover have "bCnt ctx3 \<noteq> 0" "?n \<noteq> 0" using 3(3) 2(5) n2(2) by auto
    moreover have "ctxt_Update W ?P ctx msg n = Some ctx3"
      using True room 1(1) 2(1) 3(1) \<open>?n \<noteq> 0\<close> by (simp add: ctxt_Update_def)
    ultimately show ?thesis using 3 2(6) 1(5) by (auto simp: skein_rep_def)
  qed
qed

lemma config_ubi:
  assumes "len < 2 ^ 64"
  shows "\<exists>ctx'. process_config W (Process_Block W block) (of_nat len) ctx = Some ctx' \<and>
    skein_X ctx' = ubi W 4 False (replicate W 0) (skein_config len) \<and> skein_b ctx' = skein_b ctx \<and> hashBitLen ctx' = hashBitLen ctx"
proof -
  let ?c = "Skein_Start_New_Type SKEIN_T1_BLK_TYPE_CFG_FINAL ctx\<lparr>skein_X := replicate W 0\<rparr>"
  have "split_le 8 SKEIN_SCHEMA_VER = [0x53, 0x48, 0x41, 0x33, 1, 0, 0, 0 :: byte]"
    by (simp add: SKEIN_SCHEMA_VER_def MK_64_def split_le_def upt_rec)
  moreover have "split_le 8 SKEIN_CFG_TREE_INFO_SEQUENTIAL = replicate 8 (0 :: byte)"
    by (simp add: SKEIN_CFG_TREE_INFO_SEQUENTIAL_def SKEIN_CFG_TREE_INFO_def split_le_def upt_rec eval_nat_numeral)
  moreover have "replicate 8 0 @ replicate (8 * W - 24) (0 :: byte) = replicate 16 0 @ replicate (8 * W - 32) 0"
    unfolding replicate_add [symmetric] using size(1) by (intro arg_cong2 [where f = replicate]) simp_all
  ultimately have c: "config_block W (of_nat len) = skein_config len @ replicate (8 * W - 32) 0"
    by (simp add: config_block_def skein_config_def)
  have l: "length (skein_config len) = 32" by (simp add: skein_config_def)
  have "Process_Block W block ?c (config_block W (of_nat len)) 1 SKEIN_CFG_STR_LEN = Some (absorb W ?c (config_block W (of_nat len)) 32)"
    using process_step [of ?c "config_block W (of_nat len)" SKEIN_CFG_STR_LEN 32 1] size(1) l
    by (simp add: c Skein_Start_New_Type_def SKEIN_CFG_STR_LEN_def)
  then show ?thesis
    using size(1) l by (simp add: process_config_def Let_def absorb_def c ubi_single Skein_Start_New_Type_def flags_start)
qed

lemma output_step:
  assumes "length (skein_X ctx) = W" and "length (skein_b ctx) = 8 * W" and "drop 8 (skein_b ctx) = replicate (8 * W - 8) 0"
  shows "let c = Skein_Start_New_Type SKEIN_T1_BLK_TYPE_OUT_FINAL (ctx\<lparr>skein_b := blit (skein_b ctx) 0 (split_le 8 (of_nat i :: u64))\<rparr>)
    in \<exists>ctx'. Process_Block W block c (skein_b c) 1 8 = Some ctx' \<and>
      skein_X ctx' = ubi W 63 False (skein_X ctx) (split_le 8 (of_nat i :: u64)) \<and> skein_b ctx' = skein_b c"
proof -
  let ?i = "split_le 8 (of_nat i :: u64) :: byte list"
  let ?c = "Skein_Start_New_Type SKEIN_T1_BLK_TYPE_OUT_FINAL (ctx\<lparr>skein_b := blit (skein_b ctx) 0 ?i\<rparr>)"
  have b: "blit (skein_b ctx) 0 ?i = ?i @ replicate (8 * W - 8) 0" using assms(3) by (simp add: blit_def)
  have "Process_Block W block ?c (skein_b ?c) 1 8 = Some (absorb W ?c (skein_b ?c) 8)"
    using process_step [of ?c "skein_b ?c" 8 8 1] assms(1,2) size(1) by (simp add: b Skein_Start_New_Type_def)
  then show ?thesis
    using size(1) by (simp add: absorb_def b ubi_single Skein_Start_New_Type_def flags_start)
qed

lemma output_counts:
  assumes "length X = W" and "skein_X ctx = X" and "length (skein_b ctx) = 8 * W" and "drop 8 (skein_b ctx) = replicate (8 * W - 8) 0"
  shows "\<exists>ctx'. output_blocks W (Process_Block W block) X n i ctx =
    Some (ctx', take (n - i * (8 * W)) (concat (map (\<lambda>i. concat (map (split_le 8) (ubi W 63 False X (split_le 8 (of_nat i :: u64)))))
      [i..<(n + 8 * W - 1) div (8 * W)])))"
  using assms
proof (induction "n - i * (8 * W)" arbitrary: i ctx rule: less_induct)
  case less
  let ?blk = "\<lambda>i. concat (map (split_le 8) (ubi W 63 False X (split_le 8 (of_nat i :: u64)))) :: byte list"
  let ?c = "(n + 8 * W - 1) div (8 * W)"
  show ?case
  proof (cases "i * (8 * W) < n")
    case False
    then show ?thesis by (subst output_blocks.simps) simp
  next
    case True
    let ?s = "Skein_Start_New_Type SKEIN_T1_BLK_TYPE_OUT_FINAL (ctx\<lparr>skein_b := blit (skein_b ctx) 0 (split_le 8 (of_nat i :: u64))\<rparr>)"
    obtain c1 where c1: "Process_Block W block ?s (skein_b ?s) 1 8 = Some c1"
        "skein_X c1 = ubi W 63 False X (split_le 8 (of_nat i :: u64))" "skein_b c1 = skein_b ?s"
      using output_step [of ctx i] less(2-5) by (auto simp: Let_def)
    have b: "length (skein_b c1) = 8 * W" "drop 8 (skein_b c1) = replicate (8 * W - 8) 0"
      unfolding c1(3) using less(4,5) size(1) by (simp_all add: Skein_Start_New_Type_def blit_def)
    have "n - (i + 1) * (8 * W) < n - i * (8 * W)" using True size(1) by (simp add: diff_less_mono2)
    from less(1) [OF this less(2), of "c1\<lparr>skein_X := X\<rparr>"] b obtain c2 where c2:
        "output_blocks W (Process_Block W block) X n (i + 1) (c1\<lparr>skein_X := X\<rparr>) =
          Some (c2, take (n - (i + 1) * (8 * W)) (concat (map ?blk [i + 1..<?c])))" by auto
    have l: "length (?blk i) = 8 * W"
    proof -
      have "length (ubi W 63 False X (split_le 8 (of_nat i :: u64))) = W"
        unfolding ubi_single [of "split_le 8 (of_nat i :: u64)" W] using block_ubi(2) [of X "split_le 8 (of_nat i :: u64) @ replicate (8 * W - 8) 0"] less(2) size(1)
        by (simp add: ubi_single)
      then show ?thesis by (simp add: length_concat o_def sum_list_triv)
    qed
    have "(i + 1) * (8 * W) \<le> n + 8 * W - 1" using True by simp
    then have "i + 1 \<le> ?c" using size(1) by (subst less_eq_div_iff_mult_less_eq) simp_all
    then have "[i..<?c] = i # [i + 1..<?c]" by (simp add: upt_conv_Cons)
    moreover have "take (if 8 * W \<le> n - i * (8 * W) then 8 * W else n - i * (8 * W)) (?blk i) = take (n - i * (8 * W)) (?blk i)"
      using l by simp
    ultimately have "take (if 8 * W \<le> n - i * (8 * W) then 8 * W else n - i * (8 * W)) (?blk i) @ take (n - (i + 1) * (8 * W)) (concat (map ?blk [i + 1..<?c]))
      = take (n - i * (8 * W)) (concat (map ?blk [i..<?c]))"
      using l by (simp add: algebra_simps)
    then show ?thesis
      using True size(1) c1 c2 by (subst output_blocks.simps) (simp add: Let_def Skein_Put64_LSB_First_def)
  qed
qed

lemma final_output:
  assumes "skein_rep W G m k ctx"
  shows "\<exists>ctx'. ctxt_Final W (Process_Block W block) (ctx\<lparr>skein_T1 := tweak_flags 48 (k = 0) False pad\<rparr>) =
    Some (ctx', skein_output W (ubi W 48 pad G m) (unat (drop_bit 3 (hashBitLen ctx + 7))))"
proof -
  let ?n = "unat (bCnt ctx)"
  have r: "chain_at W G m k ctx" "length m = 8 * W * k + ?n" "?n \<le> 8 * W" "length (skein_b ctx) = 8 * W"
      "take ?n (skein_b ctx) = drop (8 * W * k) m" and pos: "k = 0 \<or> 0 < ?n"
    using assms by (auto simp: skein_rep_def buffered_def unat_gt_0)
  let ?c = "ctx\<lparr>skein_T1 := tweak_flags 48 (k = 0) True pad, skein_b := drop (8 * W * k) m @ replicate (8 * W - ?n) 0\<rparr>"
  have b: "(if ?n < 8 * W then blit (skein_b ctx) ?n (replicate (8 * W - ?n) 0) else skein_b ctx) = skein_b ?c"
    using r(3-5) by (auto simp: blit_def)
  have "length (skein_b ?c) = 8 * W" using r(2,3) by simp
  moreover have "skein_T0 ctx + bCnt ctx = of_nat (length m)" using r(1,2) by (simp add: chain_at_def)
  moreover have "length (skein_X ctx) = W" using chain_atD(1) [OF r(1)] .
  ultimately have p: "Process_Block W block ?c (skein_b ?c) 1 (bCnt ?c) = Some (absorb W ?c (skein_b ?c) (length m))"
    using process_step [of ?c "skein_b ?c" "bCnt ctx" "length m" 1] by simp
  have X: "skein_X (absorb W ?c (skein_b ?c) (length m)) = ubi W 48 pad G m"
    using ubi_message [OF r(2,3) pos] r(1,2,3) size(1) by (simp add: absorb_def chain_at_def)
  let ?a = "absorb W ?c (skein_b ?c) (length m)"
  have "length (skein_X ?a) = W"
    using block_ubi(2) [of "skein_X ctx" "skein_b ?c"] \<open>length (skein_X ctx) = W\<close> \<open>length (skein_b ?c) = 8 * W\<close> by (simp add: absorb_def)
  moreover have "skein_X (?a\<lparr>skein_b := replicate (8 * W) 0\<rparr>) = skein_X ?a" "length (skein_b (?a\<lparr>skein_b := replicate (8 * W) 0\<rparr>)) = 8 * W"
    "drop 8 (skein_b (?a\<lparr>skein_b := replicate (8 * W) 0\<rparr>)) = replicate (8 * W - 8) 0" by simp_all
  ultimately obtain ctx' where
    "output_blocks W (Process_Block W block) (skein_X ?a) (unat (drop_bit 3 (hashBitLen ctx + 7))) 0 (?a\<lparr>skein_b := replicate (8 * W) 0\<rparr>) =
      Some (ctx', skein_output W (ubi W 48 pad G m) (unat (drop_bit 3 (hashBitLen ctx + 7))))"
    using output_counts [of "skein_X ?a" "?a\<lparr>skein_b := replicate (8 * W) 0\<rparr>" "unat (drop_bit 3 (hashBitLen ctx + 7))" 0]
    unfolding X skein_output_def mult_zero_left diff_zero by blast
  moreover have "hashBitLen ?a = hashBitLen ctx" by (simp add: absorb_def)
  moreover have "(let ctx = ctx\<lparr>skein_T1 := tweak_flags 48 (k = 0) False pad\<rparr>; ctx = ctx\<lparr>skein_T1 := skein_T1 ctx OR SKEIN_T1_FLAG_FINAL\<rparr>; n = unat (bCnt ctx)
      in if n < 8 * W then ctx\<lparr>skein_b := blit (skein_b ctx) n (replicate (8 * W - n) 0)\<rparr> else ctx) = ?c"
    using b by (simp add: Let_def flags_change split: if_splits)
  ultimately show ?thesis
    using p unfolding ctxt_Final_def Let_def by simp
qed

end

end
