(* ===== verification/SkeinTables.thy ===== *)
theory SkeinTables
  imports SkeinLaws
begin

unbundle bit_operations_syntax

text \<open>
  The tables of \<^verbatim>\<open>skein.c\<close> hold the chaining variables after the configuration block.  They are recomputed here
  from Threefish, with words as lists of 64 bits, least significant first, that the simplifier can calculate with.
\<close>

section \<open>Words as bits\<close>

fun bits_add :: "bool \<Rightarrow> bool list \<Rightarrow> bool list \<Rightarrow> bool list" where
  "bits_add False (False # x) (False # y) = False # bits_add False x y"
| "bits_add False (False # x) (True # y) = True # bits_add False x y"
| "bits_add False (True # x) (False # y) = True # bits_add False x y"
| "bits_add False (True # x) (True # y) = False # bits_add True x y"
| "bits_add True (False # x) (False # y) = True # bits_add False x y"
| "bits_add True (False # x) (True # y) = False # bits_add True x y"
| "bits_add True (True # x) (False # y) = False # bits_add True x y"
| "bits_add True (True # x) (True # y) = True # bits_add True x y"
| "bits_add c x y = []"

fun bits_xor :: "bool list \<Rightarrow> bool list \<Rightarrow> bool list" where
  "bits_xor (False # x) (b # y) = b # bits_xor x y"
| "bits_xor (True # x) (False # y) = True # bits_xor x y"
| "bits_xor (True # x) (True # y) = False # bits_xor x y"
| "bits_xor x y = []"

definition bits_rotl :: "nat \<Rightarrow> bool list \<Rightarrow> bool list" where
  "bits_rotl n x = drop (64 - n) x @ take (64 - n) x"

primrec bits_of :: "nat \<Rightarrow> int \<Rightarrow> bool list" where
  "bits_of 0 v = []"
| "bits_of (Suc n) v = (v mod 2 = 1) # bits_of n (v div 2)"

definition bits_word :: "bool list \<Rightarrow> u64" where
  "bits_word x = horner_sum of_bool 2 x"

lemma bits_word_simps [simp]: "bits_word [] = 0" "bits_word (b # x) = of_bool b + 2 * bits_word x"
  by (simp_all add: bits_word_def)

lemma bit_bits_word [simp]: "bit (bits_word x) i \<longleftrightarrow> i < min 64 (length x) \<and> x ! i"
  by (simp add: bits_word_def bit_horner_sum_bit_word_iff)

lemma bits_add_Cons:
  "bits_add c (a # x) (b # y) = (a \<noteq> (b \<noteq> c)) # bits_add (if a then b \<or> c else b \<and> c) x y"
  by (cases a; cases b; cases c) simp_all

lemma bits_add_carry:
  "length x = length y \<Longrightarrow> length (bits_add c x y) = length y \<and>
    (\<exists>d. of_bool c + bits_word x + bits_word y = bits_word (bits_add c x y) + 2 ^ length x * of_bool d)"
proof (induction x y arbitrary: c rule: list_induct2)
  case Nil
  then show ?case by (intro conjI exI [of _ c]) simp_all
next
  case (Cons a x b y)
  let ?c = "if a then b \<or> c else b \<and> c" and ?s = "a \<noteq> (b \<noteq> c)"
  obtain d where d: "of_bool ?c + bits_word x + bits_word y = bits_word (bits_add ?c x y) + 2 ^ length x * of_bool d" using Cons.IH by blast
  have "of_bool c + (of_bool a + 2 * bits_word x) + (of_bool b + 2 * bits_word y) =
      (of_bool c + of_bool a + of_bool b) + 2 * (bits_word x + bits_word y)" by (simp only: ac_simps distrib_left)
  also have "of_bool c + of_bool a + of_bool b = of_bool ?s + 2 * (of_bool ?c :: u64)" by (cases a; cases b; cases c) simp_all
  also have "of_bool ?s + 2 * of_bool ?c + 2 * (bits_word x + bits_word y) = of_bool ?s + 2 * (of_bool ?c + bits_word x + bits_word y)"
    by (simp only: distrib_left add.assoc)
  finally have "of_bool c + bits_word (a # x) + bits_word (b # y) = bits_word (bits_add c (a # x) (b # y)) + 2 ^ length (a # x) * of_bool d"
    unfolding d by (simp add: bits_add_Cons distrib_left mult.assoc)
  then show ?case using Cons.IH [of ?c] by (intro conjI exI [of _ d]) (simp_all add: bits_add_Cons)
qed

lemma bits_add_word:
  assumes "length x = 64" and "length y = 64"
  shows "bits_word (bits_add False x y) = bits_word x + bits_word y" and "length (bits_add False x y) = 64"
  using bits_add_carry [of x y False] assms by auto

lemma bits_xor_map2: "bits_xor x y = map2 (\<noteq>) x y"
  by (induction x y rule: bits_xor.induct) auto

lemma bits_xor_word:
  assumes "length x = 64" and "length y = 64"
  shows "bits_word (bits_xor x y) = bits_word x XOR bits_word y" and "length (bits_xor x y) = 64"
  using assms by (auto simp: bits_xor_map2 bit_xor_iff intro!: bit_word_eqI)

lemma bits_rotl_word:
  assumes "length x = 64" and "0 < n" and "n < 64"
  shows "bits_word (bits_rotl n x) = word_rotl n (bits_word x)" and "length (bits_rotl n x) = 64"
proof -
  define k where "k = 64 - n"
  have k: "0 < k" "k < 64" "n mod 64 = n" "n = 64 - k" using assms(2,3) by (simp_all add: k_def)
  have "bit (bits_word (bits_rotl n x)) i = bit (word_rotl n (bits_word x)) i" if i: "i < 64" for i
  proof -
    have r: "bit (word_rotl n (bits_word x)) i = x ! ((i + k) mod 64)"
      using i assms(1) by (simp add: bit_word_rotl_iff k(3) flip: k_def)
    have l: "bit (bits_word (bits_rotl n x)) i = (drop k x @ take k x) ! i"
      using i assms(1) k(1,2) by (simp add: bits_rotl_def flip: k_def)
    show ?thesis
    proof (cases "i + k < 64")
      case True
      then have "i < 64 - k" by simp
      then show ?thesis using True l r assms(1) k(2) by (simp add: nth_append add.commute)
    next
      case False
      then have "(i + k) mod 64 = i + k - 64" using i k(2) by (simp add: mod_if)
      moreover have "\<not> i < 64 - k" "i - (64 - k) = i + k - 64" "i - (64 - k) < k" using False i k(2) by simp_all
      ultimately show ?thesis using l r assms(1) by (simp add: nth_append)
    qed
  qed
  then show "bits_word (bits_rotl n x) = word_rotl n (bits_word x)" by (intro bit_word_eqI) simp
  show "length (bits_rotl n x) = 64" using assms by (simp add: bits_rotl_def)
qed

lemma length_bits_of [simp]: "length (bits_of n v) = n"
  by (induction n arbitrary: v) simp_all

lemma bits_of_word: "bits_word (bits_of n v) = of_int (v mod 2 ^ n)"
proof (induction n arbitrary: v)
  case (Suc n)
  have "v mod 2 ^ Suc n = 2 * (v div 2 mod 2 ^ n) + v mod 2"
    using zmod_zmult2_eq [of "2 ^ n" v 2] by simp
  moreover have "v mod 2 = of_bool (v mod 2 = 1)" by (simp add: mod_2_eq_odd)
  ultimately have "v mod 2 ^ Suc n = of_bool (v mod 2 = 1) + 2 * (v div 2 mod 2 ^ n)" by linarith
  then have "(of_int (v mod 2 ^ Suc n) :: u64) = of_bool (v mod 2 = 1) + 2 * of_int (v div 2 mod 2 ^ n)"
    by (simp only: of_int_add of_int_mult of_int_numeral of_int_of_bool)
  then show ?case using Suc by (simp only: bits_of.simps bits_word_simps)
qed simp

section \<open>Threefish on bits\<close>

fun bits_mix :: "nat list \<Rightarrow> bool list list \<Rightarrow> bool list list" where
  "bits_mix (r # rs) (a # b # v) = (let s = bits_add False a b in s # bits_xor (bits_rotl r b) s # bits_mix rs v)"
| "bits_mix rs v = []"

definition bits_subkey :: "nat \<Rightarrow> bool list list \<Rightarrow> bool list list \<Rightarrow> nat \<Rightarrow> bool list list" where
  "bits_subkey W key tweak s =
    map (\<lambda>i. let k = key ! ((s + i) mod (W + 1)) in
         if i = W - 3 then bits_add False k (tweak ! (s mod 3)) else if i = W - 2 then bits_add False k (tweak ! ((s + 1) mod 3))
          else if i = W - 1 then bits_add False k (bits_of 64 (int s)) else k)
       [0..<W]"

fun bits_pick :: "'a list \<Rightarrow> 'a list" where
  "bits_pick [a0, a1, a2, a3] = [a0, a3, a2, a1]"
| "bits_pick [a0, a1, a2, a3, a4, a5, a6, a7] = [a2, a1, a4, a7, a6, a5, a0, a3]"
| "bits_pick [a0, a1, a2, a3, a4, a5, a6, a7, a8, a9, a10, a11, a12, a13, a14, a15] =
    [a0, a9, a2, a13, a6, a11, a4, a15, a10, a7, a12, a3, a14, a5, a8, a1]"
| "bits_pick v = []"

definition bits_round :: "nat \<Rightarrow> nat \<Rightarrow> bool list list \<Rightarrow> bool list list" where
  "bits_round W d v = bits_pick (bits_mix (tf_rotations W ! (d mod 8)) v)"

definition bits_add_words :: "bool list list \<Rightarrow> bool list list \<Rightarrow> bool list list" where
  "bits_add_words v k = map2 (bits_add False) v k"

definition bits_threefish :: "nat \<Rightarrow> bool list list \<Rightarrow> bool list list \<Rightarrow> bool list list \<Rightarrow> bool list list" where
  "bits_threefish W key tweak v =
    (let v = fold (\<lambda>d v. bits_round W d (if d mod 4 = 0 then bits_add_words v (bits_subkey W key tweak (d div 4)) else v)) [0..<tf_rounds W] v
     in bits_add_words v (bits_subkey W key tweak (tf_rounds W div 4)))"

text \<open>The lists of bits \<open>v\<close> stand for the words \<open>w\<close>.\<close>

definition bits_rep :: "nat \<Rightarrow> bool list list \<Rightarrow> u64 list \<Rightarrow> bool" where
  "bits_rep W v w \<longleftrightarrow> length v = W \<and> (\<forall>x \<in> set v. length x = 64) \<and> map bits_word v = w"

lemma bits_rep_nth: "bits_rep W v w \<Longrightarrow> i < W \<Longrightarrow> length (v ! i) = 64 \<and> bits_word (v ! i) = w ! i"
  by (auto simp: bits_rep_def)

lemma mix_bits:
  "\<forall>x \<in> set v. length x = 64 \<Longrightarrow> \<forall>r \<in> set rs. 0 < r \<and> r < 64 \<Longrightarrow>
    map bits_word (bits_mix rs v) = tf_mix rs (map bits_word v) \<and> (\<forall>x \<in> set (bits_mix rs v). length x = 64)"
  by (induction rs v rule: bits_mix.induct) (simp_all add: Let_def bits_add_word bits_xor_word bits_rotl_word)

lemma bits_pick_places:
  assumes "W \<in> {4, 8, 16}" and "length v = W"
  shows "bits_pick v = pick (tf_places W) v"
proof -
  have "bits_pick v = pick (tf_places W) v" if "W = 4"
    using arg_cong [OF list_4, of v bits_pick] assms(2) that by (simp add: tf_places_def)
  moreover have "bits_pick v = pick (tf_places W) v" if "W = 8"
    using arg_cong [OF list_8, of v bits_pick] assms(2) that by (simp add: tf_places_def)
  moreover have "bits_pick v = pick (tf_places W) v" if "W = 16"
    using arg_cong [OF list_16_words, of v bits_pick] assms(2) that by (simp add: tf_places_def)
  ultimately show ?thesis using assms(1) by blast
qed

lemma bits_rep_round:
  assumes "W \<in> {4, 8, 16}" and "bits_rep W v w"
  shows "bits_rep W (bits_round W d v) (tf_round W d w)"
proof -
  let ?r = "tf_rotations W ! (d mod 8)"
  have r: "length ?r = W div 2" "\<forall>r \<in> set ?r. 0 < r \<and> r < 64" using rotations_ok [OF assms(1), of "d mod 8"] by simp_all
  have v: "length v = W" "\<forall>x \<in> set v. length x = 64" "w = map bits_word v" using assms(2) by (auto simp: bits_rep_def)
  have m: "map bits_word (bits_mix ?r v) = tf_mix ?r w" "\<forall>x \<in> set (bits_mix ?r v). length x = 64" using mix_bits [OF v(2) r(2)] v(3) by simp_all
  have "length (tf_mix ?r w) = W" using length_tf_mix [of ?r w] r(1) v(1,3) assms(1) by auto
  then have l: "length (bits_mix ?r v) = W" unfolding m(1) [symmetric] by simp
  have p: "bits_round W d v = pick (tf_places W) (bits_mix ?r v)" by (simp add: bits_round_def bits_pick_places [OF assms(1) l])
  have places: "length (tf_places W) = W" "\<forall>i \<in> set (tf_places W). i < W" using assms(1) by (auto simp: tf_places_def)
  show ?thesis
    unfolding bits_rep_def p tf_round_def m(1) [symmetric] using m(2) l places by (auto simp: pick_def)
qed

lemma bits_rep_add: "bits_rep W v w \<Longrightarrow> bits_rep W k u \<Longrightarrow> bits_rep W (bits_add_words v k) (add_words w u)"
  unfolding bits_rep_def bits_add_words_def add_words_def
  by (auto simp: in_set_zip bits_add_word intro!: nth_equalityI)

lemma of_int_mod_word: "(of_int (v mod 2 ^ 64) :: u64) = of_int v"
  by (rule word_of_int_eq_iff [THEN iffD2]) (simp add: take_bit_eq_mod)

lemma bits_rep_subkey:
  assumes "bits_rep (W + 1) key (K @ [foldl (XOR) 0x1BD11BDAA9FC1A22 K])" and "bits_rep 3 tweak [t0, t1, t0 XOR t1]"
  shows "bits_rep W (bits_subkey W key tweak s) (tf_subkey W K t0 t1 s)"
proof -
  let ?k = "\<lambda>i. key ! ((s + i) mod (W + 1))"
  have k: "length (?k i) = 64 \<and> bits_word (?k i) = (K @ [foldl (XOR) 0x1BD11BDAA9FC1A22 K]) ! ((s + i) mod (W + 1))" for i
    by (rule bits_rep_nth [OF assms(1)]) simp
  have t: "length (tweak ! (j mod 3)) = 64 \<and> bits_word (tweak ! (j mod 3)) = [t0, t1, t0 XOR t1] ! (j mod 3)" for j
    by (rule bits_rep_nth [OF assms(2)]) simp
  have n: "bits_word (bits_of 64 (int s)) = of_nat s" by (simp only: bits_of_word of_int_mod_word of_int_of_nat_eq)
  have add: "length (if a then bits_add False x y else if b then bits_add False x z else if c then bits_add False x u else x) = 64 \<and>
      bits_word (if a then bits_add False x y else if b then bits_add False x z else if c then bits_add False x u else x) =
        bits_word x + (if a then bits_word y else if b then bits_word z else if c then bits_word u else 0)"
    if "length x = 64" "length y = 64" "length z = 64" "length u = 64" for a b c x y z u
    using that by (simp add: bits_add_word)
  let ?f = "\<lambda>i. if i = W - 3 then bits_add False (?k i) (tweak ! (s mod 3)) else if i = W - 2 then bits_add False (?k i) (tweak ! ((s + 1) mod 3))
    else if i = W - 1 then bits_add False (?k i) (bits_of 64 (int s)) else ?k i"
  let ?g = "\<lambda>i. (K @ [foldl (XOR) 0x1BD11BDAA9FC1A22 K]) ! ((s + i) mod (W + 1)) +
    (if i = W - 3 then [t0, t1, t0 XOR t1] ! (s mod 3) else if i = W - 2 then [t0, t1, t0 XOR t1] ! ((s + 1) mod 3) else if i = W - 1 then of_nat s else 0)"
  have f: "length (?f i) = 64 \<and> bits_word (?f i) = ?g i" for i
    using add [OF k [THEN conjunct1] t [THEN conjunct1] t [THEN conjunct1] length_bits_of] unfolding k [THEN conjunct2] t [THEN conjunct2] n [symmetric] .
  then have "map bits_word (map ?f [0..<W]) = map ?g [0..<W]" by (simp only: map_map comp_def)
  moreover have "\<forall>x \<in> set (map ?f [0..<W]). length x = 64" using f by (simp only: list.set_map ball_simps) simp
  ultimately show ?thesis unfolding bits_rep_def bits_subkey_def tf_subkey_def Let_def by simp
qed

theorem bits_threefish_rep:
  assumes "W \<in> {4, 8, 16}" and "bits_rep W v w"
    and "bits_rep (W + 1) key (K @ [foldl (XOR) 0x1BD11BDAA9FC1A22 K])" and "bits_rep 3 tweak [t0, t1, t0 XOR t1]"
  shows "bits_rep W (bits_threefish W key tweak v) (threefish W K t0 t1 w)"
proof -
  note k = bits_rep_subkey [OF assms(3,4)]
  have "bits_rep W (fold (\<lambda>d v. bits_round W d (if d mod 4 = 0 then bits_add_words v (bits_subkey W key tweak (d div 4)) else v)) ds v)
    (fold (\<lambda>d v. tf_round W d (if d mod 4 = 0 then add_words v (tf_subkey W K t0 t1 (d div 4)) else v)) ds w)" for ds
    using assms(2)
  proof (induction ds arbitrary: v w)
    case (Cons d ds)
    show ?case using Cons.prems by (auto intro!: Cons.IH bits_rep_round assms(1) bits_rep_add k)
  qed simp
  then show ?thesis unfolding bits_threefish_def threefish_def Let_def by (intro bits_rep_add k)
qed

section \<open>The tables\<close>

definition bits_config :: "nat \<Rightarrow> int \<Rightarrow> bool list list" where
  "bits_config W len =
    (let z = bits_of 64 0; v = [bits_of 64 0x133414853, bits_of 64 len] @ replicate (W - 2) z
     in map2 bits_xor
       (bits_threefish W (replicate W z @ [bits_of 64 0x1BD11BDAA9FC1A22]) [bits_of 64 32, bits_of 64 0xC400000000000000, bits_of 64 0xC400000000000020] v) v)"

lemma word_of_bits: "bits_word (bits_of 64 v) = of_int v"
  by (simp only: bits_of_word of_int_mod_word)

lemma bits_rep_of: "bits_rep (length vs) (map (bits_of 64) vs) (map of_int vs)"
  by (simp add: bits_rep_def word_of_bits)

lemma bits_rep_xor: "bits_rep W v w \<Longrightarrow> bits_rep W k u \<Longrightarrow> bits_rep W (map2 bits_xor v k) (map2 (XOR) w u)"
  unfolding bits_rep_def by (auto simp: in_set_zip bits_xor_word intro!: nth_equalityI)

lemma config_words:
  assumes "4 \<le> W"
  shows "block_64 W (skein_config len @ replicate (8 * W - 32) 0) = map of_int ([0x133414853, int len] @ replicate (W - 2) 0)"
proof (rule nth_equalityI)
  show "length (block_64 W (skein_config len @ replicate (8 * W - 32) 0)) = length (map of_int ([0x133414853, int len] @ replicate (W - 2) 0) :: u64 list)"
    using assms by (simp add: block_64_def)
next
  let ?m = "skein_config len @ replicate (8 * W - 32) 0 :: byte list"
  have "replicate 16 (0 :: byte) @ replicate (8 * W - 32) 0 = replicate (8 * W - 16) 0" using assms by (simp flip: replicate_add)
  then have z: "?m = [0x53, 0x48, 0x41, 0x33, 1, 0, 0, 0] @ split_le 8 (of_nat len :: u64) @ replicate (8 * W - 16) 0"
    by (simp add: skein_config_def)
  fix i assume "i < length (block_64 W ?m)"
  then have i: "i < W" by (simp add: block_64_def)
  then have m: "block_64 W ?m ! i = join_le (mem_slice ?m (8 * i) 8)" by (simp add: block_64_def)
  consider "i = 0" | "i = 1" | "2 \<le> i" by linarith
  then show "block_64 W ?m ! i = (map of_int ([0x133414853, int len] @ replicate (W - 2) 0)) ! i"
  proof cases
    case 1
    have "mem_slice ?m 0 8 = [0x53, 0x48, 0x41, 0x33, 1, 0, 0, 0]" unfolding z by (simp add: mem_slice_def)
    then show ?thesis unfolding m by (simp add: 1)
  next
    case 2
    have "mem_slice ?m 8 8 = split_le 8 (of_nat len :: u64)" unfolding z by (simp add: mem_slice_def)
    then show ?thesis unfolding m by (simp add: 2 join_split_le)
  next
    case 3
    then have "8 * i = 16 + 8 * (i - 2)" by simp
    moreover define q :: "byte list" where "q = [0x53, 0x48, 0x41, 0x33, 1, 0, 0, 0] @ split_le 8 (of_nat len :: u64)"
    moreover have "length q = 16" by (simp add: q_def)
    ultimately have "mem_slice ?m (8 * i) 8 = replicate (min 8 (8 * W - 16 - 8 * (i - 2))) 0"
      unfolding z append_assoc [symmetric] q_def [symmetric] by (simp add: mem_slice_def)
    then show ?thesis unfolding m using 3 i by (simp add: nth_append)
  qed
qed

lemma config_bits:
  assumes "W \<in> {4, 8, 16}"
  shows "ubi W 4 False (replicate W 0) (skein_config len) = map bits_word (bits_config W (int len))"
proof -
  let ?v = "[0x133414853, int len] @ replicate (W - 2) 0" and ?K = "replicate W (0 :: u64)"
  have W: "4 \<le> W" "length ?v = W" using assms by auto
  have v: "bits_rep W (map (bits_of 64) ?v) (map of_int ?v)" using bits_rep_of [of ?v] unfolding W(2) .
  have "foldl (XOR) 0x1BD11BDAA9FC1A22 (replicate n (0 :: u64)) = 0x1BD11BDAA9FC1A22" for n by (induction n) simp_all
  then have key: "bits_rep (W + 1) (replicate W (bits_of 64 0) @ [bits_of 64 0x1BD11BDAA9FC1A22]) (?K @ [foldl (XOR) 0x1BD11BDAA9FC1A22 ?K])"
    using bits_rep_of [of "replicate W 0 @ [0x1BD11BDAA9FC1A22]"] by simp
  have tweak: "bits_rep 3 [bits_of 64 32, bits_of 64 0xC400000000000000, bits_of 64 0xC400000000000020]
      [32, tweak_flags 4 True True False, 32 XOR tweak_flags 4 True True False]"
    using bits_rep_of [of "[32, 0xC400000000000000, 0xC400000000000020]"] by (simp add: tweak_flags_def numeral_3_eq_3)
  have "length (skein_config len) = 32" by (simp add: skein_config_def)
  then have "ubi W 4 False ?K (skein_config len) =
      map2 (XOR) (threefish W ?K 32 (tweak_flags 4 True True False) (map of_int ?v)) (map of_int ?v)"
    using W by (simp only: ubi_single ubi_block_def config_words) simp
  moreover have "bits_rep W (bits_config W (int len)) (map2 (XOR) (threefish W ?K 32 (tweak_flags 4 True True False) (map of_int ?v)) (map of_int ?v))"
    using bits_rep_xor [OF bits_threefish_rep [OF assms v key tweak] v] by (simp add: bits_config_def Let_def)
  ultimately show ?thesis by (simp add: bits_rep_def)
qed

lemma table_words: "map bits_word (map (\<lambda>w. bits_of 64 (uint w)) T) = T"
  by (simp add: word_of_bits comp_def)

text \<open>The tables for the lengths that have one: 224, 256, 384 and 512 bits for the state of 512 bits, and 1024 bits for the
  state of 1024.\<close>

lemma bits_512_512: "bits_config 8 512 = map (\<lambda>w. bits_of 64 (uint w)) SKEIN_512_IV_512"
  by code_simp

lemma bits_512_384: "bits_config 8 384 = map (\<lambda>w. bits_of 64 (uint w)) SKEIN_512_IV_384"
  by code_simp

lemma bits_512_256: "bits_config 8 256 = map (\<lambda>w. bits_of 64 (uint w)) SKEIN_512_IV_256"
  by code_simp

lemma bits_512_224: "bits_config 8 224 = map (\<lambda>w. bits_of 64 (uint w)) SKEIN_512_IV_224"
  by code_simp

lemma bits_1024_1024: "bits_config 16 1024 = map (\<lambda>w. bits_of 64 (uint w)) SKEIN1024_IV_1024"
  by code_simp

lemma table_ubi:
  assumes "W \<in> {4, 8, 16}" and "bits_config W (int len) = map (\<lambda>w. bits_of 64 (uint w)) T"
  shows "ubi W 4 False (replicate W 0) (skein_config len) = T"
  unfolding config_bits [OF assms(1)] assms(2) table_words ..

lemma skein_tables:
  "ubi 8 4 False (replicate 8 0) (skein_config 512) = SKEIN_512_IV_512"
  "ubi 8 4 False (replicate 8 0) (skein_config 384) = SKEIN_512_IV_384"
  "ubi 8 4 False (replicate 8 0) (skein_config 256) = SKEIN_512_IV_256"
  "ubi 8 4 False (replicate 8 0) (skein_config 224) = SKEIN_512_IV_224"
  "ubi 16 4 False (replicate 16 0) (skein_config 1024) = SKEIN1024_IV_1024"
  by (rule table_ubi; simp add: bits_512_512 bits_512_384 bits_512_256 bits_512_224 bits_1024_1024)+

end
