(* ===== verification/SkeinHash.thy ===== *)
theory SkeinHash
  imports SkeinTables
begin

unbundle bit_operations_syntax

text \<open>
  The hash functions of \<^verbatim>\<open>skein.c\<close> compute Skein as it is specified: the laws of a block function hold for the three of
  the code, the chaining variables after the initialisation are those of the configuration block, and update and
  final put out the counters encrypted under the chain of the message.
\<close>

section \<open>The block functions of the code\<close>

lemma threefish_length: "W \<in> {4, 8, 16} \<Longrightarrow> length (threefish W K t0 t1 v) = W"
  unfolding threefish_def Let_def
proof -
  assume W: "W \<in> {4, 8, 16}"
  have "length (fold (\<lambda>d v. tf_round W d (if d mod 4 = 0 then add_words v (tf_subkey W K t0 t1 (d div 4)) else v)) [0..<Suc n] v) = W" for n
    by (simp add: length_tf_round [OF W])
  moreover have "tf_rounds W \<noteq> 0" by (simp add: tf_rounds_def)
  then obtain n where "tf_rounds W = Suc n" using not0_implies_Suc by blast
  ultimately show "length (add_words (fold (\<lambda>d v. tf_round W d (if d mod 4 = 0 then add_words v (tf_subkey W K t0 t1 (d div 4)) else v)) [0..<tf_rounds W] v)
    (tf_subkey W K t0 t1 (tf_rounds W div 4))) = W" by (simp del: upt_Suc)
qed

interpretation skein_256: skein_block 4 block_256
  by unfold_locales (simp_all add: block_256_threefish threefish_length)

interpretation skein_512: skein_block 8 block_512
  by unfold_locales (simp_all add: block_512_threefish threefish_length)

interpretation skein_1024: skein_block 16 block_1024
  by unfold_locales (simp_all add: block_1024_threefish threefish_length)

section \<open>Update and final\<close>

lemma pad_byte:
  assumes "r < 8"
  shows "(b AND (0 - ucast (push_bit (7 - r) (1 :: u32)))) OR ucast (push_bit (7 - r) (1 :: u32)) =
    (b AND NOT (mask (8 - r)) OR push_bit (7 - r) 1 :: byte)"
proof -
  define k where "k = 7 - r"
  have k: "k < 8" "8 - r = Suc k" using assms by (simp_all add: k_def)
  have u: "ucast (push_bit k (1 :: u32)) = (push_bit k 1 :: byte)"
    using k(1) by (intro bit_word_eqI) (auto simp: bit_simps)
  have n: "0 - push_bit k 1 = (NOT (mask k) :: byte)" by (simp add: mask_eq_exp_minus_1 minus_eq_not_minus_1 push_bit_eq_mult)
  show ?thesis
    unfolding k_def [symmetric] k(2) u n by (rule bit_word_eqI) (auto simp: bit_simps less_Suc_eq)
qed

lemma low_bits: "unat ((of_nat n :: u64) AND 7) = n mod 8"
proof -
  have "(7 :: u64) = mask 3" by (simp add: mask_eq_exp_minus_1)
  then have "(of_nat n :: u64) AND 7 = take_bit 3 (of_nat n)" by (simp only: take_bit_eq_mask)
  also have "\<dots> = of_nat (n mod 8)" by (simp only: take_bit_of_nat) (simp add: take_bit_eq_mod)
  finally have "(of_nat n :: u64) AND 7 = of_nat (n mod 8)" .
  then show ?thesis by (simp add: unat_of_nat take_bit_nat_eq_self)
qed

lemma byte_count: "n < 2 ^ 64 \<Longrightarrow> unat (drop_bit 3 (of_nat n :: u64)) = n div 8"
  by (simp add: drop_bit_eq_div unat_div unat_of_nat take_bit_nat_eq_self)

lemma init_rep:
  assumes "length G = W" and "skein_X ctx = G" and "length (skein_b ctx) = 8 * W"
  shows "skein_rep W G [] 0 (Skein_Start_New_Type SKEIN_T1_BLK_TYPE_MSG ctx)"
  using assms by (auto simp: skein_rep_def buffered_def chain_at_def Skein_Start_New_Type_def flags_start)

lemma rep_flags:
  assumes "skein_rep W G m k ctx"
  shows "ctx = ctx\<lparr>skein_T1 := tweak_flags 48 (k = 0) False False\<rparr>"
    and "Skein_Set_Bit_Pad_Flag ctx = ctx\<lparr>skein_T1 := tweak_flags 48 (k = 0) False True\<rparr>"
  using assms by (auto simp: skein_rep_def buffered_def chain_at_def Skein_Set_Bit_Pad_Flag_def flags_change)

lemma output_bytes:
  assumes "len < 2 ^ 31"
  shows "unat (drop_bit 3 (of_nat len + 7 :: u64)) = (len + 7) div 8"
proof -
  have "unat (of_nat (len + 7) :: u64) = len + 7" using assms by (simp add: unat_of_nat take_bit_nat_eq_self del: of_nat_add)
  then show ?thesis by (simp add: drop_bit_eq_div unat_div)
qed

lemma bytes_up:
  assumes "n mod 8 \<noteq> 0"
  shows "(n + 7) div 8 = Suc (n div 8)"
proof -
  obtain r where r: "n mod 8 = Suc r" using assms not0_implies_Suc by blast
  then have "r < 8" using mod_less_divisor [of 8 n] by simp
  moreover have "n + 7 = 8 * Suc (n div 8) + r" using mult_div_mod_eq [of 8 n] r by simp
  ultimately show ?thesis by (simp only: div_mult_self4 div_less)
qed

context skein_block begin

lemma config_length: "length (ubi W 4 False (replicate W 0) (skein_config len)) = W"
proof -
  have l: "length (skein_config len) = 32" by (simp add: skein_config_def)
  show ?thesis
    using size(1) block_ubi(2) [of "replicate W 0" "skein_config len @ replicate (8 * W - 32) 0" 32 "tweak_flags 4 True True False"] l
    by (simp add: ubi_single)
qed

lemma final_digest:
  assumes "skein_rep W G m k ctx" and "hashBitLen ctx = of_nat len" and "len < 2 ^ 31"
  shows "\<exists>ctx'. ctxt_Final W (Process_Block W block) (if pad then Skein_Set_Bit_Pad_Flag ctx else ctx) =
    Some (ctx', skein_output W (ubi W 48 pad G m) ((len + 7) div 8))"
  using final_output [OF assms(1), of pad] output_bytes [OF assms(3)] rep_flags [OF assms(1)] assms(2) by (cases pad) auto

lemma update_bytes:
  assumes "skein_rep W G [] 0 ctx" and "length d = (n + 7) div 8" and "n < 2 ^ 64" and "n mod 8 = 0"
  shows "\<exists>ctx' k. ctxt_Update W (Process_Block W block) ctx d (drop_bit 3 (of_nat n)) = Some ctx' \<and> skein_rep W G d k ctx' \<and>
    hashBitLen ctx' = hashBitLen ctx"
proof -
  let ?c = "drop_bit 3 (of_nat n) :: u64"
  have c: "unat ?c = n div 8" using byte_count [OF assms(3)] .
  then have "unat ?c = length d" "unat ?c < 2 ^ 63" using assms(2-4) by auto
  then show ?thesis using update_rep [OF assms(1), of ?c d] by auto
qed

lemma update_bits:
  assumes "skein_rep W G [] 0 ctx" and "length d = (n + 7) div 8" and "n < 2 ^ 64" and "n mod 8 \<noteq> 0"
  shows "\<exists>ctx1 ctx2 k. ctxt_Update W (Process_Block W block) ctx d (drop_bit 3 (of_nat n)) = Some ctx1 \<and>
    ctxt_Update W (Process_Block W block) ctx1 [skein_pad d n ! (n div 8)] 1 = Some ctx2 \<and> skein_rep W G (skein_pad d n) k ctx2 \<and>
    hashBitLen ctx2 = hashBitLen ctx"
proof -
  let ?c = "drop_bit 3 (of_nat n) :: u64" and ?d = "take (n div 8) d" and ?b = "skein_pad d n ! (n div 8)"
  have c: "unat ?c = n div 8" using byte_count [OF assms(3)] .
  have l: "length d = Suc (n div 8)" using bytes_up [OF assms(4)] assms(2) by simp
  have "unat ?c \<le> length d" "unat ?c < 2 ^ 63" using l c assms(3) by auto
  from update_rep [OF assms(1) this] obtain ctx1 k1 where 1: "ctxt_Update W (Process_Block W block) ctx d ?c = Some ctx1"
      "skein_rep W G ?d k1 ctx1" "hashBitLen ctx1 = hashBitLen ctx" unfolding c by auto
  obtain ctx2 k2 where 2: "ctxt_Update W (Process_Block W block) ctx1 [?b] 1 = Some ctx2"
      "skein_rep W G (?d @ [?b]) k2 ctx2" "hashBitLen ctx2 = hashBitLen ctx1" using update_rep [OF 1(2), of 1 "[?b]"] by auto
  have "?d @ [?b] = skein_pad d n"
    using l assms(4) by (intro nth_equalityI) (auto simp: skein_pad_def nth_append less_Suc_eq)
  then show ?thesis using 1 2 by auto
qed

lemma digest:
  assumes "skein_rep W G [] 0 ctx" and "hashBitLen ctx = of_nat len" and "len < 2 ^ 31" and "length d = (n + 7) div 8" and "n < 2 ^ 64"
  defines "update \<equiv> ctxt_Update W (Process_Block W block)" and "final \<equiv> ctxt_Final W (Process_Block W block)"
    and "out \<equiv> skein_output W (ubi W 48 (n mod 8 \<noteq> 0) G (skein_pad d n)) ((len + 7) div 8)"
  shows "n mod 8 = 0 \<Longrightarrow> \<exists>ctx1 ctx2. update ctx d (drop_bit 3 (of_nat n)) = Some ctx1 \<and> final ctx1 = Some (ctx2, out)"
    and "n mod 8 \<noteq> 0 \<Longrightarrow> \<exists>ctx1 ctx2 ctx3. update ctx d (drop_bit 3 (of_nat n)) = Some ctx1 \<and>
      update ctx1 [skein_pad d n ! (n div 8)] 1 = Some ctx2 \<and> final (Skein_Set_Bit_Pad_Flag ctx2) = Some (ctx3, out)"
proof -
  assume n: "n mod 8 = 0"
  obtain ctx1 k where 1: "update ctx d (drop_bit 3 (of_nat n)) = Some ctx1" "skein_rep W G d k ctx1" "hashBitLen ctx1 = of_nat len"
    using update_bytes [OF assms(1,4,5) n] assms(2) unfolding update_def by auto
  have "skein_pad d n = d" using n by (simp add: skein_pad_def)
  then show "\<exists>ctx1 ctx2. update ctx d (drop_bit 3 (of_nat n)) = Some ctx1 \<and> final ctx1 = Some (ctx2, out)"
    using 1(1) final_digest [OF 1(2,3) assms(3), of False] n unfolding final_def out_def by auto
next
  assume n: "n mod 8 \<noteq> 0"
  obtain ctx1 ctx2 k where 2: "update ctx d (drop_bit 3 (of_nat n)) = Some ctx1" "update ctx1 [skein_pad d n ! (n div 8)] 1 = Some ctx2"
      "skein_rep W G (skein_pad d n) k ctx2" "hashBitLen ctx2 = of_nat len"
    using update_bits [OF assms(1,4,5) n] assms(2) unfolding update_def by auto
  show "\<exists>ctx1 ctx2 ctx3. update ctx d (drop_bit 3 (of_nat n)) = Some ctx1 \<and>
      update ctx1 [skein_pad d n ! (n div 8)] 1 = Some ctx2 \<and> final (Skein_Set_Bit_Pad_Flag ctx2) = Some (ctx3, out)"
    using 2(1,2) final_digest [OF 2(3,4) assms(3), of True] n unfolding final_def out_def by auto
qed

end

section \<open>The hash\<close>

lemma of_nat_length: "len < 2 ^ 31 \<Longrightarrow> c < 2 ^ 31 \<Longrightarrow> (of_nat len = (of_nat c :: u64)) = (len = c)"
  by (simp add: word_unat_eq_iff unat_of_nat take_bit_nat_eq_self)

lemma Skein_512_Init_rep:
  assumes "length (skein_b ctx) = 64" and "len < 2 ^ 31"
  shows "\<exists>ctx'. Skein_512_Init ctx (of_nat len) = Some ctx' \<and>
    skein_rep 8 (ubi 8 4 False (replicate 8 0) (skein_config len)) [] 0 ctx' \<and> hashBitLen ctx' = of_nat len"
proof -
  let ?c = "ctx\<lparr>hashBitLen := of_nat len\<rparr>" and ?G = "ubi 8 4 False (replicate 8 0) (skein_config len)"
  note eq = of_nat_length [OF assms(2), of 512] of_nat_length [OF assms(2), of 384] of_nat_length [OF assms(2), of 256] of_nat_length [OF assms(2), of 224]
  obtain c where "Skein_512_Process_Block = Process_Block 8 block_512 \<and> process_config 8 (Process_Block 8 block_512) (of_nat len) ?c = Some c \<and> skein_X c = ?G \<and>
      skein_b c = skein_b ctx \<and> hashBitLen c = of_nat len"
    using skein_512.config_ubi [of len ?c] assms(2) by (auto simp: Skein_512_Process_Block_def)
  then have "\<exists>c. Skein_512_Init ctx (of_nat len) = Some (Skein_Start_New_Type SKEIN_T1_BLK_TYPE_MSG c) \<and> skein_X c = ?G \<and>
      length (skein_b c) = 8 * 8 \<and> hashBitLen c = of_nat len"
    using assms(1) eq by (auto simp: Skein_512_Init_def skein_tables)
  then show ?thesis using init_rep [OF skein_512.config_length [of len]] by (auto simp: Skein_Start_New_Type_def)
qed

lemma Skein1024_Init_rep:
  assumes "length (skein_b ctx) = 128" and "512 < len" and "len < 2 ^ 31"
  shows "\<exists>ctx'. Skein1024_Init ctx (of_nat len) = Some ctx' \<and>
    skein_rep 16 (ubi 16 4 False (replicate 16 0) (skein_config len)) [] 0 ctx' \<and> hashBitLen ctx' = of_nat len"
proof -
  let ?c = "ctx\<lparr>hashBitLen := of_nat len\<rparr>" and ?G = "ubi 16 4 False (replicate 16 0) (skein_config len)"
  note eq = of_nat_length [OF assms(3), of 512] of_nat_length [OF assms(3), of 384] of_nat_length [OF assms(3), of 1024]
  obtain c where "Skein1024_Process_Block = Process_Block 16 block_1024 \<and> process_config 16 (Process_Block 16 block_1024) (of_nat len) ?c = Some c \<and> skein_X c = ?G \<and>
      skein_b c = skein_b ctx \<and> hashBitLen c = of_nat len"
    using skein_1024.config_ubi [of len ?c] assms(3) by (auto simp: Skein1024_Process_Block_def)
  then have "\<exists>c. Skein1024_Init ctx (of_nat len) = Some (Skein_Start_New_Type SKEIN_T1_BLK_TYPE_MSG c) \<and> skein_X c = ?G \<and>
      length (skein_b c) = 8 * 16 \<and> hashBitLen c = of_nat len"
    using assms(1,2) eq by (auto simp: Skein1024_Init_def skein_tables)
  then show ?thesis using init_rep [OF skein_1024.config_length [of len]] by (auto simp: Skein_Start_New_Type_def)
qed

lemma skein_Init_rep:
  assumes "length (skein_b (skein_u state)) = (if len \<le> 512 then 64 else 128)" and "len < 2 ^ 31"
  shows "\<exists>ctx. skein_Init state (int len) = Some (SKEIN_SUCCESS, \<lparr>statebits = (if len \<le> 512 then 512 else 1024), skein_u = ctx\<rparr>) \<and>
    skein_rep (if len \<le> 512 then 8 else 16) (let W = if len \<le> 512 then 8 else 16 in ubi W 4 False (replicate W 0) (skein_config len)) [] 0 ctx \<and>
    hashBitLen ctx = of_nat len"
proof (cases "len \<le> 512")
  case True
  then show ?thesis
    using Skein_512_Init_rep [of "skein_u state" len] assms by (cases state) (auto simp: skein_Init_def SKEIN_512_NIST_MAX_HASHBITS_def)
next
  case False
  then show ?thesis
    using Skein1024_Init_rep [of "skein_u state" len] assms by (cases state) (auto simp: skein_Init_def SKEIN_512_NIST_MAX_HASHBITS_def)
qed

lemma skein_Update_cases:
  assumes "statebits state = (if small then 512 else 1024)"
  shows "n mod 8 = 0 \<Longrightarrow> skein_Update state d (of_nat n) =
      map_option (\<lambda>ctx. (SKEIN_SUCCESS, state\<lparr>skein_u := ctx\<rparr>)) ((if small then Skein_512_Update else Skein1024_Update) (skein_u state) d (drop_bit 3 (of_nat n)))"
    and "n mod 8 \<noteq> 0 \<Longrightarrow> length d = (n + 7) div 8 \<Longrightarrow> n < 2 ^ 64 \<Longrightarrow> skein_Update state d (of_nat n) =
      map_option (\<lambda>ctx. (SKEIN_SUCCESS, state\<lparr>skein_u := Skein_Set_Bit_Pad_Flag ctx\<rparr>))
        (Option.bind ((if small then Skein_512_Update else Skein1024_Update) (skein_u state) d (drop_bit 3 (of_nat n)))
          (\<lambda>ctx. (if small then Skein_512_Update else Skein1024_Update) ctx [skein_pad d n ! (n div 8)] 1))"
proof -
  let ?u = "if small then Skein_512_Update else Skein1024_Update" and ?b = "of_nat n :: u64"
  let ?s = "drop_bit 8 (statebits state) AND 3"
  have sel: "(if ?s = 2 then Some Skein_512_Update else if ?s = 1 then Some Skein_256_Update else if ?s = 0 then Some Skein1024_Update else None) = Some ?u"
    using assms by simp
  have bits: "?b AND 7 = 0 \<longleftrightarrow> n mod 8 = 0" by (simp only: word_unat_eq_iff low_bits unat_0)
  show "skein_Update state d ?b = map_option (\<lambda>ctx. (SKEIN_SUCCESS, state\<lparr>skein_u := ctx\<rparr>)) (?u (skein_u state) d (drop_bit 3 ?b))" if "n mod 8 = 0"
    unfolding skein_Update_def Let_def sel using that by (simp add: bits map_conv_bind_option comp_def)
  assume n: "n mod 8 \<noteq> 0" "length d = (n + 7) div 8" "n < 2 ^ 64"
  have "n div 8 < length d" using bytes_up [OF n(1)] n(2) by simp
  then have "skein_pad d n ! (n div 8) = (d ! (n div 8) AND NOT (mask (8 - n mod 8))) OR push_bit (7 - n mod 8) 1" using n(1) by (simp add: skein_pad_def)
  then have b: "skein_pad d n ! (n div 8) = (d ! (n div 8) AND (0 - ucast (push_bit (7 - unat (?b AND 7)) (1 :: u32)))) OR ucast (push_bit (7 - unat (?b AND 7)) (1 :: u32))"
    unfolding low_bits by (simp only: pad_byte mod_less_divisor zero_less_numeral)
  have c: "drop_bit 3 ?b + 1 - 1 = drop_bit 3 ?b" "unat (drop_bit 3 ?b) = n div 8" using byte_count [OF n(3)] by simp_all
  show "skein_Update state d ?b = map_option (\<lambda>ctx. (SKEIN_SUCCESS, state\<lparr>skein_u := Skein_Set_Bit_Pad_Flag ctx\<rparr>))
      (Option.bind (?u (skein_u state) d (drop_bit 3 ?b)) (\<lambda>ctx. ?u ctx [skein_pad d n ! (n div 8)] 1))"
    unfolding skein_Update_def Let_def sel b c bits using n(1) \<open>n div 8 < length d\<close> by (simp add: map_conv_bind_option comp_def)
qed

lemma skein_Final_cases:
  assumes "statebits state = (if small then 512 else 1024)"
  shows "skein_Final state =
    map_option (\<lambda>(ctx, hashval). (SKEIN_SUCCESS, state\<lparr>skein_u := ctx\<rparr>, hashval)) ((if small then Skein_512_Final else Skein1024_Final) (skein_u state))"
  using assms by (simp add: skein_Final_def Let_def map_option_case split: option.splits prod.splits)

lemma hash_from_init:
  fixes W process
  defines "update \<equiv> ctxt_Update W process" and "final \<equiv> ctxt_Final W process"
  assumes "skein_Init stack (int len) = Some (SKEIN_SUCCESS, \<lparr>statebits = (if small then 512 else 1024), skein_u = ctx\<rparr>)"
    and "update = (if small then Skein_512_Update else Skein1024_Update)" and "final = (if small then Skein_512_Final else Skein1024_Final)"
    and "length d = (n + 7) div 8" and "n < 2 ^ 64"
    and "n mod 8 = 0 \<Longrightarrow> \<exists>ctx1 ctx2. update ctx d (drop_bit 3 (of_nat n)) = Some ctx1 \<and> final ctx1 = Some (ctx2, out)"
    and "n mod 8 \<noteq> 0 \<Longrightarrow> \<exists>ctx1 ctx2 ctx3. update ctx d (drop_bit 3 (of_nat n)) = Some ctx1 \<and>
      update ctx1 [skein_pad d n ! (n div 8)] 1 = Some ctx2 \<and> final (Skein_Set_Bit_Pad_Flag ctx2) = Some (ctx3, out)"
  shows "skein_hash stack (int len) d (of_nat n) = Some (SKEIN_SUCCESS, out)"
proof -
  let ?s = "\<lparr>statebits = (if small then 512 else 1024), skein_u = ctx\<rparr>"
  have "\<exists>ctx' ctx''. skein_Update ?s d (of_nat n) = Some (SKEIN_SUCCESS, ?s\<lparr>skein_u := ctx'\<rparr>) \<and> final ctx' = Some (ctx'', out)"
  proof (cases "n mod 8 = 0")
    case True
    then show ?thesis using assms(8) skein_Update_cases(1) [of ?s small n d] by (auto simp flip: assms(4))
  next
    case False
    then show ?thesis using assms(9) skein_Update_cases(2) [of ?s small n d] assms(6,7) by (auto simp flip: assms(4))
  qed
  then obtain ctx' ctx'' where u: "skein_Update ?s d (of_nat n) = Some (SKEIN_SUCCESS, ?s\<lparr>skein_u := ctx'\<rparr>)" "final ctx' = Some (ctx'', out)" by blast
  then have "skein_Final (?s\<lparr>skein_u := ctx'\<rparr>) = Some (SKEIN_SUCCESS, ?s\<lparr>skein_u := ctx''\<rparr>, out)"
    using skein_Final_cases [of "?s\<lparr>skein_u := ctx'\<rparr>" small] by (simp flip: assms(5))
  then show ?thesis unfolding skein_hash_def assms(3) using u(1) by simp
qed

lemma skein_hash_spec:
  assumes "length (skein_b (skein_u stack)) = (if len \<le> 512 then 64 else 128)" and "len < 2 ^ 31"
    and "length d = (n + 7) div 8" and "n < 2 ^ 64"
  shows "skein_hash stack (int len) d (of_nat n) = Some (SKEIN_SUCCESS, skein_spec (if len \<le> 512 then 8 else 16) len d n)"
proof -
  obtain ctx where init: "skein_Init stack (int len) = Some (SKEIN_SUCCESS, \<lparr>statebits = (if len \<le> 512 then 512 else 1024), skein_u = ctx\<rparr>)"
    and rep: "skein_rep (if len \<le> 512 then 8 else 16) (let W = if len \<le> 512 then 8 else 16 in ubi W 4 False (replicate W 0) (skein_config len)) [] 0 ctx"
    and hb: "hashBitLen ctx = of_nat len"
    using skein_Init_rep [OF assms(1,2)] by blast
  show ?thesis
  proof (cases "len \<le> 512")
    case True
    have r: "skein_rep 8 (ubi 8 4 False (replicate 8 0) (skein_config len)) [] 0 ctx" using rep True by (simp add: Let_def)
    show ?thesis
      using hash_from_init [OF init _ _ assms(3,4), OF _ _ skein_512.digest [OF r hb assms(2-4)]] True
      by (simp add: Skein_512_Update_def Skein_512_Final_def Skein_512_Process_Block_def skein_spec_def skein_chain_def)
  next
    case False
    have r: "skein_rep 16 (ubi 16 4 False (replicate 16 0) (skein_config len)) [] 0 ctx" using rep False by (simp add: Let_def)
    show ?thesis
      using hash_from_init [OF init _ _ assms(3,4), OF _ _ skein_1024.digest [OF r hb assms(2-4)]] False
      by (simp add: Skein1024_Update_def Skein1024_Final_def Skein1024_Process_Block_def skein_spec_def skein_chain_def)
  qed
qed

text \<open>The hash has as many bytes as the length asks for.\<close>

lemma length_ubi: "W \<in> {4, 8, 16} \<Longrightarrow> length (ubi W typ pad G m) = W"
proof -
  assume W: "W \<in> {4, 8, 16}"
  obtain k where k: "max 1 ((length m + 8 * W - 1) div (8 * W)) = Suc k" using not0_implies_Suc [of "max 1 ((length m + 8 * W - 1) div (8 * W))"] by auto
  show ?thesis unfolding ubi_def k Let_def by (simp add: ubi_block_def threefish_length [OF W] block_64_def)
qed

lemma length_skein_output: "W \<in> {4, 8, 16} \<Longrightarrow> length (skein_output W G n) = n"
proof -
  assume W: "W \<in> {4, 8, 16}"
  have "length (concat (map (split_le 8) (ubi W 63 False G m) :: byte list list)) = 8 * W" for m
    by (simp add: length_concat comp_def sum_list_triv length_ubi [OF W])
  then have "length (concat (map (\<lambda>i. concat (map (split_le 8) (ubi W 63 False G (split_le 8 (of_nat i :: u64)))) :: byte list) [0..<c])) = c * (8 * W)" for c
    by (simp add: length_concat comp_def sum_list_triv)
  moreover have "n \<le> (n + 8 * W - 1) div (8 * W) * (8 * W)"
  proof -
    have "0 < 8 * W" using W by auto
    then have "(n + 8 * W - 1) mod (8 * W) < 8 * W" by (rule mod_less_divisor)
    then show ?thesis using div_mult_mod_eq [of "n + 8 * W - 1" "8 * W"] by linarith
  qed
  ultimately show ?thesis by (simp add: skein_output_def)
qed

lemma length_skein_spec: "W \<in> {4, 8, 16} \<Longrightarrow> length (skein_spec W len d n) = (len + 7) div 8"
  by (simp add: skein_spec_def length_skein_output)

text \<open>C8: \<open>skein_hash\<close> computes Skein of every length, with a state of 512 bits up to 512 bits of hash and with one of
  1024 bits above, for every number of bits and whatever the state on the stack holds; it succeeds and writes as many
  bytes as the length asks for.\<close>

theorem skein_digest:
  assumes "length (skein_b (skein_u stack)) = (if len \<le> 512 then 64 else 128)" and "len < 2 ^ 31"
    and "length d = (n + 7) div 8" and "n < 2 ^ 64"
  shows "skein_hash stack (int len) d (of_nat n) = Some (SKEIN_SUCCESS, skein_spec (if len \<le> 512 then 8 else 16) len d n) \<and>
    length (skein_spec (if len \<le> 512 then 8 else 16) len d n) = (len + 7) div 8"
  using skein_hash_spec [OF assms] by (simp add: length_skein_spec)

text \<open>A state on the stack before the call.\<close>

definition skein_stack :: "nat \<Rightarrow> skein_state" where
  "skein_stack sz = \<lparr>statebits = 7, skein_u = \<lparr>hashBitLen = 3, bCnt = 5, skein_T0 = 1, skein_T1 = 2, skein_X = [], skein_b = replicate sz 0xaa\<rparr>\<rparr>"

lemma skein_digest_witness:
  "skein_hash (skein_stack 64) 256 [0x61, 0x62, 0x63] 24 = Some (SKEIN_SUCCESS, skein_spec 8 256 [0x61, 0x62, 0x63] 24) \<and>
   skein_hash (skein_stack 128) 1024 [0x61, 0xe0] 11 = Some (SKEIN_SUCCESS, skein_spec 16 1024 [0x61, 0xe0] 11) \<and>
   length (skein_spec 16 1024 [0x61, 0xe0] 11) = 128"
  using skein_digest [of "skein_stack 64" 256 "[0x61, 0x62, 0x63]" 24] skein_digest [of "skein_stack 128" 1024 "[0x61, 0xe0]" 11]
  by (simp add: skein_stack_def)

lemma skein_hash_bytes:
  assumes "length (skein_b (skein_u stack)) = 64" and "length d = len" and "len < 2 ^ 61"
  shows "hash_extra_skein stack d len = Some (skein_spec 8 256 d (8 * len))"
proof -
  have "(8 * len + 7) div 8 = len" by simp
  moreover have "skein_hash stack (int 256) d (of_nat (8 * len)) = Some (SKEIN_SUCCESS, skein_spec (if (256 :: nat) \<le> 512 then 8 else 16) 256 d (8 * len))"
    by (rule skein_hash_spec) (use assms calculation in simp_all)
  ultimately show ?thesis by (simp add: hash_extra_skein_def)
qed

end
