(* ===== verification/SlowHash.thy ===== *)
theory SlowHash
  imports Oaes Keccak IntUtil
begin

unbundle bit_operations_syntax

text \<open>
  CryptoNight: \<^verbatim>\<open>src/src/hash/monero/slow-hash.c\<close>, the branches for x86-64 and the portable one.
  Memory is a list of bytes on a little-endian host; an array of two 64-bit words is a list.  A register
  \<open>__m128i\<close> is the list of its 16 bytes in memory order, on which loads, stores, \<open>xor\<close>, byte shifts and
  shuffles of dwords are operations of lists.  The instructions for AES and the wide multiplication are
  those of a processor, the record \<open>x86\<close>, and the four final hashes are a table, as in the code.
\<close>

section \<open>Constants and macros\<close>

definition MEMORY :: nat where "MEMORY = 2 ^ 21"
definition ITER :: nat where "ITER = 2 ^ 20"
definition AES_BLOCK_SIZE :: nat where "AES_BLOCK_SIZE = 16"
definition AES_KEY_SIZE :: nat where "AES_KEY_SIZE = 32"
definition INIT_SIZE_BLK :: nat where "INIT_SIZE_BLK = 8"
definition INIT_SIZE_BYTE :: nat where "INIT_SIZE_BYTE = INIT_SIZE_BLK * AES_BLOCK_SIZE"
definition TOTALBLOCKS :: nat where "TOTALBLOCKS = MEMORY div AES_BLOCK_SIZE"

text \<open>The errors: \<open>_exit(1)\<close> for data that is too short for a variant, a failed assertion, an abort of
  Keccak, a null pointer and a copy past the end of the state.\<close>

datatype cn_error = Exit_1 | Assertion_failed | Keccak_abort | Null_pointer | State_overflow

type_synonym extra_hash = "byte list \<Rightarrow> nat \<Rightarrow> byte list"

text \<open>The 64-bit words of a block and the block of two words: \<open>U64(x)[0]\<close>, \<open>U64(x)[1]\<close>.\<close>

definition U64 :: "byte list \<Rightarrow> u64 list" where
  "U64 x = [join_le (mem_slice x 0 8), join_le (mem_slice x 8 8)]"

definition block_of :: "u64 list \<Rightarrow> byte list" where
  "block_of ws = split_le 8 (ws ! 0) @ split_le 8 (ws ! 1)"

text \<open>\<open>VARIANT1_1(p)\<close> with \<open>p\<close> the offset of a block in the scratchpad.\<close>

definition VARIANT1_1 :: "int \<Rightarrow> nat \<Rightarrow> byte list \<Rightarrow> byte list" where
  "VARIANT1_1 variant p mem =
    (if variant > 0 then
       let tmp = mem ! (p + 11);
           table = (0x75310 :: u32);
           index = push_bit 1 ((drop_bit 3 tmp AND 6) OR (tmp AND 1))
       in mem[p + 11 := tmp XOR ucast (drop_bit (unat index) table AND 0x30)]
     else mem)"

definition xor64_at :: "nat \<Rightarrow> u64 \<Rightarrow> byte list \<Rightarrow> byte list" where
  "xor64_at p b mem = blit mem p (split_le 8 (join_le (mem_slice mem p 8) XOR b))"

definition VARIANT1_2 :: "int \<Rightarrow> u64 \<Rightarrow> nat \<Rightarrow> byte list \<Rightarrow> byte list" where
  "VARIANT1_2 variant tweak1_2 p mem = (if variant > 0 then xor64_at p tweak1_2 mem else mem)"

definition VARIANT1_CHECK :: "nat \<Rightarrow> bool" where
  "VARIANT1_CHECK len \<longleftrightarrow> \<not> len < 43"

definition VARIANT1_INIT64 :: "int \<Rightarrow> byte list \<Rightarrow> nat \<Rightarrow> byte list \<Rightarrow> cn_error + u64" where
  "VARIANT1_INIT64 variant data len state =
    (if variant > 0 \<and> \<not> VARIANT1_CHECK len then Inl Exit_1
     else Inr (if variant > 0 then join_le (mem_slice state 192 8) XOR join_le (mem_slice data 35 8) else 0))"

text \<open>Step 1: the state of 200 bytes, or the caller's, over what the stack holds.\<close>

definition initial_state :: "byte list \<Rightarrow> byte list \<Rightarrow> nat \<Rightarrow> bool \<Rightarrow> cn_error + byte list" where
  "initial_state stack data len prehashed =
    (if prehashed then (if len \<le> 200 then Inr (blit stack 0 (take len data)) else Inl State_overflow)
     else (case hash_process (take len data) of Some (Inr st) \<Rightarrow> Inr st | _ \<Rightarrow> Inl Keccak_abort))"

section \<open>x86-64\<close>

text \<open>The instructions \<open>aesenc\<close> (state and round key), \<open>aeskeygenassist\<close>, and the product of two words as
  its high and low halves.\<close>

record x86 =
  aesenc :: "byte list \<Rightarrow> byte list \<Rightarrow> byte list"
  aeskeygenassist :: "byte list \<Rightarrow> byte \<Rightarrow> byte list"
  mulq :: "u64 \<Rightarrow> u64 \<Rightarrow> u64 \<times> u64"

definition shuffle_epi32 :: "byte list \<Rightarrow> nat \<Rightarrow> byte list" where
  "shuffle_epi32 x imm = concat (map (\<lambda>i. mem_slice x (4 * (imm div 4 ^ i mod 4)) 4) [0..<4])"

definition slli_si128 :: "byte list \<Rightarrow> nat \<Rightarrow> byte list" where
  "slli_si128 x n = take 16 (replicate n 0 @ x)"

definition state_index :: "u64 \<Rightarrow> nat" where
  "state_index x = unat (push_bit 4 (drop_bit 4 x AND (of_nat TOTALBLOCKS - 1)))"

definition aes_256_assist1 :: "byte list \<Rightarrow> byte list \<Rightarrow> byte list" where
  "aes_256_assist1 t1 t2 =
    (let t2 = shuffle_epi32 t2 0xff;
         t4 = slli_si128 t1 4;
         t1 = xor_list t1 t4;
         t4 = slli_si128 t4 4;
         t1 = xor_list t1 t4;
         t4 = slli_si128 t4 4;
         t1 = xor_list t1 t4
     in xor_list t1 t2)"

definition aes_256_assist2 :: "x86 \<Rightarrow> byte list \<Rightarrow> byte list \<Rightarrow> byte list" where
  "aes_256_assist2 X t1 t3 =
    (let t4 = aeskeygenassist X t1 0x00;
         t2 = shuffle_epi32 t4 0xaa;
         t4 = slli_si128 t3 4;
         t3 = xor_list t3 t4;
         t4 = slli_si128 t4 4;
         t3 = xor_list t3 t4;
         t4 = slli_si128 t4 4;
         t3 = xor_list t3 t4
     in xor_list t3 t2)"

definition aes_expand_key :: "x86 \<Rightarrow> byte list \<Rightarrow> byte list \<Rightarrow> byte list" where
  "aes_expand_key X key ek =
    (let t1 = mem_slice key 0 16;
         t3 = mem_slice key 16 16;
         ek = blit ek 0 t1;
         ek = blit ek 16 t3;
         t1 = aes_256_assist1 t1 (aeskeygenassist X t3 0x01);
         ek = blit ek 32 t1;
         t3 = aes_256_assist2 X t1 t3;
         ek = blit ek 48 t3;
         t1 = aes_256_assist1 t1 (aeskeygenassist X t3 0x02);
         ek = blit ek 64 t1;
         t3 = aes_256_assist2 X t1 t3;
         ek = blit ek 80 t3;
         t1 = aes_256_assist1 t1 (aeskeygenassist X t3 0x04);
         ek = blit ek 96 t1;
         t3 = aes_256_assist2 X t1 t3;
         ek = blit ek 112 t3;
         t1 = aes_256_assist1 t1 (aeskeygenassist X t3 0x08);
         ek = blit ek 128 t1;
         t3 = aes_256_assist2 X t1 t3;
         ek = blit ek 144 t3;
         t1 = aes_256_assist1 t1 (aeskeygenassist X t3 0x10);
         ek = blit ek 160 t1
     in ek)"

text \<open>Ten rounds on one block, and on \<open>nblocks\<close> blocks.\<close>

definition ten_aesenc :: "x86 \<Rightarrow> byte list \<Rightarrow> byte list \<Rightarrow> byte list" where
  "ten_aesenc X k d = fold (\<lambda>i d. aesenc X d (mem_slice k (16 * i) 16)) [0, 1, 2, 3, 4, 5, 6, 7, 8, 9] d"

definition aes_pseudo_round :: "x86 \<Rightarrow> byte list \<Rightarrow> byte list \<Rightarrow> byte list \<Rightarrow> nat \<Rightarrow> byte list" where
  "aes_pseudo_round X inp out k nblocks =
    fold (\<lambda>i out. blit out (i * AES_BLOCK_SIZE) (ten_aesenc X k (mem_slice inp (i * AES_BLOCK_SIZE) 16))) [0..<nblocks] out"

definition aes_pseudo_round_xor :: "x86 \<Rightarrow> byte list \<Rightarrow> byte list \<Rightarrow> byte list \<Rightarrow> byte list \<Rightarrow> nat \<Rightarrow> byte list" where
  "aes_pseudo_round_xor X inp out k xors nblocks =
    fold (\<lambda>i out.
        let d = mem_slice inp (i * AES_BLOCK_SIZE) 16; d = xor_list d (mem_slice xors (16 * i) 16)
        in blit out (i * AES_BLOCK_SIZE) (ten_aesenc X k d)) [0..<nblocks] out"


definition post_aes :: "x86 \<Rightarrow> int \<Rightarrow> u64 \<Rightarrow> nat \<Rightarrow> byte list \<Rightarrow> u64 list \<times> byte list \<times> byte list \<Rightarrow>
    u64 list \<times> byte list \<times> byte list" where
  "post_aes X variant tweak1_2 j rc st =
    (let (a, rb, hp) = st;
         c = U64 rc;
         rb = xor_list rb rc;
         hp = blit hp j rb;
         hp = VARIANT1_1 variant j hp;
         j = state_index (c ! 0);
         b = U64 (mem_slice hp j 16);
         (hi, lo) = mulq X (c ! 0) (b ! 0);
         a = [a ! 0 + hi, a ! 1 + lo];
         hp = blit hp j (block_of a);
         a = [a ! 0 XOR b ! 0, a ! 1 XOR b ! 1];
         hp = VARIANT1_2 variant tweak1_2 (j + 8) hp
     in (a, rc, hp))"

text \<open>One pass of the main loop, with the instruction or with the tables.\<close>

definition mix_step :: "x86 \<Rightarrow> bool \<Rightarrow> int \<Rightarrow> u64 \<Rightarrow> u64 list \<times> byte list \<times> byte list \<Rightarrow> u64 list \<times> byte list \<times> byte list" where
  "mix_step X useAes variant tweak1_2 st =
    (let (a, rb, hp) = st;
         j = state_index (a ! 0);
         rc = mem_slice hp j 16;
         ra = block_of a;
         rc = (if useAes then aesenc X rc ra else aesb_single_round rc ra)
     in post_aes X variant tweak1_2 j rc st)"

text \<open>The scratchpad is filled by encrypting the text again and again, and read back into it.\<close>

definition fill_hw :: "x86 \<Rightarrow> byte list \<Rightarrow> byte list \<times> byte list \<Rightarrow> byte list \<times> byte list" where
  "fill_hw X ek st =
    fold (\<lambda>i (text, hp). let text = aes_pseudo_round X text text ek INIT_SIZE_BLK in (text, blit hp (i * INIT_SIZE_BYTE) text))
      [0..<MEMORY div INIT_SIZE_BYTE] st"

definition pseudo_blocks :: "byte list \<Rightarrow> byte list \<Rightarrow> byte list" where
  "pseudo_blocks ek text =
    fold (\<lambda>j text. blit text (AES_BLOCK_SIZE * j) (aesb_pseudo_round (mem_slice text (AES_BLOCK_SIZE * j) 16) ek))
      [0..<INIT_SIZE_BLK] text"

definition fill_sw :: "byte list \<Rightarrow> byte list \<times> byte list \<Rightarrow> byte list \<times> byte list" where
  "fill_sw ek st =
    fold (\<lambda>i (text, hp). let text = pseudo_blocks ek text in (text, blit hp (i * INIT_SIZE_BYTE) text))
      [0..<MEMORY div INIT_SIZE_BYTE] st"

definition absorb_hw :: "x86 \<Rightarrow> byte list \<Rightarrow> byte list \<Rightarrow> byte list \<Rightarrow> byte list" where
  "absorb_hw X ek hp text =
    fold (\<lambda>i text. aes_pseudo_round_xor X text text ek (mem_slice hp (i * INIT_SIZE_BYTE) INIT_SIZE_BYTE) INIT_SIZE_BLK)
      [0..<MEMORY div INIT_SIZE_BYTE] text"

text \<open>\<open>xor_blocks(&a[p], &b[q])\<close> on 64-bit words.\<close>

definition xor_blocks :: "byte list \<Rightarrow> nat \<Rightarrow> byte list \<Rightarrow> nat \<Rightarrow> byte list" where
  "xor_blocks a p b q =
    (let x = U64 (mem_slice a p 16); y = U64 (mem_slice b q 16)
     in blit a p (block_of [x ! 0 XOR y ! 0, x ! 1 XOR y ! 1]))"

definition absorb_sw :: "byte list \<Rightarrow> byte list \<Rightarrow> byte list \<Rightarrow> byte list" where
  "absorb_sw ek hp text =
    fold (\<lambda>i text.
        fold (\<lambda>j text.
            let text = xor_blocks text (j * AES_BLOCK_SIZE) hp (i * INIT_SIZE_BYTE + j * AES_BLOCK_SIZE)
            in blit text (AES_BLOCK_SIZE * j) (aesb_pseudo_round (mem_slice text (AES_BLOCK_SIZE * j) 16) ek))
          [0..<INIT_SIZE_BLK] text)
      [0..<MEMORY div INIT_SIZE_BYTE] text"

text \<open>What a host answers: the instructions, the environment variable, \<open>cpuid\<close>, the memory that \<open>mmap\<close> and
  \<open>malloc\<close> give for the scratchpad, whether the n-th allocation of the OAES library succeeds, its random
  numbers, and what the stack holds.\<close>

record cn_host =
  instr :: x86
  getenv_aes :: "string option"
  cpuid1_ecx :: u32
  mmap_pad :: "byte list option"
  malloc_pad :: "byte list option"
  heap_ok :: "nat \<Rightarrow> bool"
  random :: "nat \<Rightarrow> byte \<times> nat"
  stack_state :: "byte list"
  stack_key :: "byte list"

text \<open>The static and thread-local variables: \<open>hp_state\<close>, with the call that it came from, \<open>hp_allocated\<close>,
  \<open>use\<close> and \<open>supported\<close>.\<close>

datatype origin = Mmap | Malloc

record cn_thread =
  hp_state :: "(origin \<times> byte list) option"
  hp_allocated :: bool
  use_software :: int
  supported_hw :: int

definition fresh_thread :: cn_thread where
  "fresh_thread = \<lparr>hp_state = None, hp_allocated = False, use_software = -1, supported_hw = -1\<rparr>"

definition force_software_aes :: "cn_host \<Rightarrow> cn_thread \<Rightarrow> cn_thread \<times> bool" where
  "force_software_aes H T =
    (if use_software T \<noteq> -1 then (T, use_software T \<noteq> 0)
     else
       let use = (case getenv_aes H of None \<Rightarrow> 0 | Some env \<Rightarrow> if env = ''0'' \<or> env = ''no'' then 0 else 1)
       in (T\<lparr>use_software := use\<rparr>, use \<noteq> 0))"

definition check_aes_hw :: "cn_host \<Rightarrow> cn_thread \<Rightarrow> cn_thread \<times> bool" where
  "check_aes_hw H T =
    (if supported_hw T \<ge> 0 then (T, supported_hw T \<noteq> 0)
     else
       let supported = uint (cpuid1_ecx H AND push_bit 25 1)
       in (T\<lparr>supported_hw := supported\<rparr>, supported \<noteq> 0))"

definition slow_hash_allocate_state :: "cn_host \<Rightarrow> cn_thread \<Rightarrow> cn_thread" where
  "slow_hash_allocate_state H T =
    (if hp_state T \<noteq> None then T
     else
       let T = T\<lparr>hp_state := map_option (Pair Mmap) (mmap_pad H), hp_allocated := True\<rparr>
       in if hp_state T = None
          then T\<lparr>hp_allocated := False, hp_state := map_option (Pair Malloc) (malloc_pad H)\<rparr> else T)"

text \<open>The call that frees the scratchpad, if any.\<close>

definition slow_hash_free_state :: "cn_thread \<Rightarrow> cn_thread \<times> origin option" where
  "slow_hash_free_state T =
    (if hp_state T = None then (T, None)
     else
       let call = (if \<not> hp_allocated T then Malloc else Mmap)
       in (T\<lparr>hp_state := None, hp_allocated := False\<rparr>, Some call))"

text \<open>\<open>oaes_key_import_data(aes_ctx, key, AES_KEY_SIZE)\<close> and the expanded key of the context.\<close>

definition import_key :: "cn_host \<Rightarrow> nat \<Rightarrow> oaes_ctx option \<Rightarrow> byte list \<Rightarrow> cn_error + oaes_ctx option \<times> byte list" where
  "import_key H n ctx key =
    (let ctx = snd (oaes_key_import_data (heap_ok H n) (heap_ok H (n + 1)) (heap_ok H (n + 2)) ctx (Some key) AES_KEY_SIZE)
     in case ctx of None \<Rightarrow> Inl Null_pointer
        | Some c \<Rightarrow> (case ctx_key c of None \<Rightarrow> Inl Null_pointer | Some k \<Rightarrow> Inr (ctx, exp_data k)))"

definition initial_a :: "byte list \<Rightarrow> u64 list" where
  "initial_a state = (let x = U64 (mem_slice state 0 16); y = U64 (mem_slice state 32 16) in [x ! 0 XOR y ! 0, x ! 1 XOR y ! 1])"

definition initial_b :: "byte list \<Rightarrow> u64 list" where
  "initial_b state = (let x = U64 (mem_slice state 16 16); y = U64 (mem_slice state 48 16) in [x ! 0 XOR y ! 0, x ! 1 XOR y ! 1])"

definition final_hash :: "extra_hash list \<Rightarrow> byte list \<Rightarrow> byte list \<Rightarrow> byte list" where
  "final_hash extra_hashes state text =
    (let state = blit state 64 text;
         state = hash_permutation state
     in (extra_hashes ! unat (state ! 0 AND 3)) state 200)"

definition bind_cn :: "cn_error + 'a \<Rightarrow> ('a \<Rightarrow> cn_error + 'b) \<Rightarrow> cn_error + 'b" where
  "bind_cn r f = (case r of Inl e \<Rightarrow> Inl e | Inr x \<Rightarrow> f x)"

text \<open>Steps 2 to 5 for a state of Step 1, on a scratchpad; the result is the hash and the scratchpad.\<close>

definition cn_hw :: "cn_host \<Rightarrow> extra_hash list \<Rightarrow> byte list \<Rightarrow> int \<Rightarrow> u64 \<Rightarrow> byte list \<Rightarrow> byte list \<times> byte list" where
  "cn_hw H extra_hashes hp variant tweak1_2 state =
    (let X = instr H;
         text = mem_slice state 64 INIT_SIZE_BYTE;
         expandedKey = aes_expand_key X state (stack_key H);
         (text, hp) = fill_hw X expandedKey (text, hp);
         a = initial_a state;
         b = initial_b state;
         (a, rb, hp) = (mix_step X True variant tweak1_2 ^^ (ITER div 2)) (a, block_of b, hp);
         text = mem_slice state 64 INIT_SIZE_BYTE;
         expandedKey = aes_expand_key X (drop 32 state) expandedKey;
         text = absorb_hw X expandedKey hp text
     in (final_hash extra_hashes state text, hp))"

definition cn_sw :: "cn_host \<Rightarrow> extra_hash list \<Rightarrow> byte list \<Rightarrow> int \<Rightarrow> u64 \<Rightarrow> byte list \<Rightarrow> cn_error + byte list \<times> byte list" where
  "cn_sw H extra_hashes hp variant tweak1_2 state =
    (let X = instr H;
         text = mem_slice state 64 INIT_SIZE_BYTE;
         aes_ctx = fst (oaes_alloc (random H) 0 (heap_ok H 0))
     in bind_cn (import_key H 1 aes_ctx state) (\<lambda>(aes_ctx, exp_data).
     let (text, hp) = fill_sw exp_data (text, hp);
         a = initial_a state;
         b = initial_b state;
         (a, rb, hp) = (mix_step X False variant tweak1_2 ^^ (ITER div 2)) (a, block_of b, hp);
         text = mem_slice state 64 INIT_SIZE_BYTE
     in bind_cn (import_key H 4 aes_ctx (drop 32 state)) (\<lambda>(aes_ctx, exp_data).
     let text = absorb_sw exp_data hp text
     in Inr (final_hash extra_hashes state text, hp))))"

definition cn_slow_hash :: "cn_host \<Rightarrow> extra_hash list \<Rightarrow> cn_thread \<Rightarrow> byte list \<Rightarrow> nat \<Rightarrow> int \<Rightarrow> bool \<Rightarrow>
    (cn_error + byte list) \<times> cn_thread" where
  "cn_slow_hash H extra_hashes T data len variant prehashed =
    (let (T, forced) = force_software_aes H T;
         (T, useAes) = (if forced then (T, False) else check_aes_hw H T);
         T = (if hp_state T = None then slow_hash_allocate_state H T else T)
     in case bind_cn (initial_state (stack_state H) data len prehashed) (\<lambda>state.
          bind_cn (VARIANT1_INIT64 variant data len state) (\<lambda>tweak1_2.
          case hp_state T of None \<Rightarrow> Inl Null_pointer
          | Some (origin, hp) \<Rightarrow>
              bind_cn (if useAes then Inr (cn_hw H extra_hashes hp variant tweak1_2 state)
                   else cn_sw H extra_hashes hp variant tweak1_2 state) (\<lambda>(hash, hp).
              Inr (hash, T\<lparr>hp_state := Some (origin, hp)\<rparr>)))) of
        Inl e \<Rightarrow> (Inl e, T)
      | Inr (hash, T) \<Rightarrow> (Inr hash, T))"

end
