(* ===== verification/SlowHashArmv8.thy ===== *)
theory SlowHashArmv8
  imports SlowHash
begin

unbundle bit_operations_syntax

text \<open>
  The branch of \<^verbatim>\<open>src/src/hash/monero/slow-hash.c\<close> for ARMv8-A with the crypto extension.  A register
  \<open>uint8x16_t\<close> is the list of its 16 bytes; \<open>ext\<close>, \<open>tbl\<close>, \<open>dup\<close>, \<open>shl\<close> and \<open>eor\<close> are operations of lists, and
  \<open>aese\<close>, \<open>aesmc\<close>, \<open>mul\<close> and \<open>umulh\<close> are those of a processor.  The scratchpad and the key are arrays on the
  stack.
\<close>

section \<open>Instructions\<close>

record armv8 =
  aese :: "byte list \<Rightarrow> byte list \<Rightarrow> byte list"
  aesmc :: "byte list \<Rightarrow> byte list"
  mul_low :: "u64 \<Rightarrow> u64 \<Rightarrow> u64"
  umulh :: "u64 \<Rightarrow> u64 \<Rightarrow> u64"

definition neon_zero :: "byte list" where
  "neon_zero = replicate 16 0"

definition neon_tbl :: "byte list \<Rightarrow> byte list \<Rightarrow> byte list" where
  "neon_tbl table index = map (\<lambda>i. if unat i < 16 then table ! unat i else 0) index"

definition neon_ext :: "byte list \<Rightarrow> byte list \<Rightarrow> nat \<Rightarrow> byte list" where
  "neon_ext x y n = take 16 (drop n (x @ y))"

definition neon_shl :: "byte list \<Rightarrow> nat \<Rightarrow> byte list" where
  "neon_shl x n = map (push_bit n) x"

definition neon_dup :: "byte list \<Rightarrow> nat \<Rightarrow> byte list" where
  "neon_dup x n = concat (replicate 4 (mem_slice x (4 * n) 4))"

section \<open>The expansion of a key\<close>

definition armv8_rcon :: "u32 list" where
  "armv8_rcon = [0x01, 0x01, 0x01, 0x01, 0x0c0f0e0d, 0x0c0f0e0d, 0x0c0f0e0d, 0x0c0f0e0d, 0x1b, 0x1b, 0x1b, 0x1b]"

text \<open>The registers \<open>v1\<close>, \<open>v3\<close>, \<open>v4\<close>, the expanded key and the place where \<open>st1\<close> stores next.  The loop from the
  label 1 to the branch, and from there to its end.\<close>

type_synonym expand_regs = "byte list \<times> byte list \<times> byte list \<times> byte list \<times> nat"

fun expand_even :: "armv8 \<Rightarrow> byte list \<Rightarrow> expand_regs \<Rightarrow> expand_regs" where
  "expand_even A v2 (v1, v3, v4, ek, p) =
    (let v0 = neon_zero;
         v6 = neon_tbl v4 v2;
         v5 = neon_ext v0 v3 12;
         ek = blit ek p v4;
         p = p + 16;
         v6 = aese A v6 v0;
         v3 = xor_list v3 v5;
         v5 = neon_ext v0 v5 12;
         v3 = xor_list v3 v5;
         v5 = neon_ext v0 v5 12;
         v6 = xor_list v6 v1;
         v3 = xor_list v3 v5;
         v1 = neon_shl v1 1;
         v3 = xor_list v3 v6;
         ek = blit ek p v3
     in (v1, v3, v4, ek, p + 16))"

fun expand_odd :: "armv8 \<Rightarrow> expand_regs \<Rightarrow> expand_regs" where
  "expand_odd A (v1, v3, v4, ek, p) =
    (let v0 = neon_zero;
         v6 = neon_dup v3 3;
         v5 = neon_ext v0 v4 12;
         v6 = aese A v6 v0;
         v4 = xor_list v4 v5;
         v5 = neon_ext v0 v5 12;
         v4 = xor_list v4 v5;
         v5 = neon_ext v0 v5 12;
         v4 = xor_list v4 v5;
         v4 = xor_list v4 v6
     in (v1, v3, v4, ek, p))"

text \<open>The loop with \<open>Suc n\<close> in the counter \<open>w2\<close>.\<close>

primrec expand_loop :: "armv8 \<Rightarrow> byte list \<Rightarrow> nat \<Rightarrow> expand_regs \<Rightarrow> expand_regs" where
  "expand_loop A v2 0 regs = expand_even A v2 regs"
| "expand_loop A v2 (Suc n) regs = expand_loop A v2 n (expand_odd A (expand_even A v2 regs))"

definition armv8_expand_key :: "armv8 \<Rightarrow> byte list \<Rightarrow> byte list \<Rightarrow> byte list" where
  "armv8_expand_key A key ek =
    (let v3 = mem_slice key 0 16;
         v1 = concat (map (split_le 4) (take 4 armv8_rcon));
         v2 = concat (map (split_le 4) (take 4 (drop 4 armv8_rcon)));
         v4 = mem_slice key 16 16;
         w2 = 5;
         ek = blit ek 0 v3;
         (v1, v3, v4, ek, p) = expand_loop A v2 (w2 - 1) (v1, v3, v4, ek, 16)
     in ek)"

section \<open>Rounds and the main loop\<close>

text \<open>The ten rounds on a block; \<open>first\<close> is the vector of zeros, or what is mixed in.\<close>

definition ten_aese :: "armv8 \<Rightarrow> byte list \<Rightarrow> byte list \<Rightarrow> byte list \<Rightarrow> byte list" where
  "ten_aese A k first tmp =
    (let tmp = aese A tmp first;
         tmp = aesmc A tmp;
         tmp = fold (\<lambda>i tmp. aesmc A (aese A tmp (mem_slice k (16 * i) 16))) [0, 1, 2, 3, 4, 5, 6, 7, 8] tmp
     in xor_list tmp (mem_slice k (16 * 9) 16))"

definition armv8_pseudo_round :: "armv8 \<Rightarrow> byte list \<Rightarrow> byte list \<Rightarrow> byte list \<Rightarrow> nat \<Rightarrow> byte list" where
  "armv8_pseudo_round A inp out k nblocks =
    fold (\<lambda>i out. blit out (i * AES_BLOCK_SIZE) (ten_aese A k neon_zero (mem_slice inp (i * AES_BLOCK_SIZE) 16))) [0..<nblocks] out"

definition armv8_pseudo_round_xor :: "armv8 \<Rightarrow> byte list \<Rightarrow> byte list \<Rightarrow> byte list \<Rightarrow> byte list \<Rightarrow> nat \<Rightarrow> byte list" where
  "armv8_pseudo_round_xor A inp out k xors nblocks =
    fold (\<lambda>i out. blit out (i * AES_BLOCK_SIZE) (ten_aese A k (mem_slice xors (16 * i) 16) (mem_slice inp (i * AES_BLOCK_SIZE) 16)))
      [0..<nblocks] out"

definition armv8_post_aes :: "armv8 \<Rightarrow> int \<Rightarrow> u64 \<Rightarrow> nat \<Rightarrow> byte list \<Rightarrow> u64 list \<times> byte list \<times> byte list \<Rightarrow>
    u64 list \<times> byte list \<times> byte list" where
  "armv8_post_aes A variant tweak1_2 j rc st =
    (let (a, rb, hp) = st;
         c = U64 rc;
         rb = xor_list rb rc;
         hp = blit hp j rb;
         hp = VARIANT1_1 variant j hp;
         j = state_index (c ! 0);
         b = U64 (mem_slice hp j 16);
         lo = mul_low A (c ! 0) (b ! 0);
         hi = umulh A (c ! 0) (b ! 0);
         a = [a ! 0 + hi, a ! 1 + lo];
         hp = blit hp j (block_of a);
         a = [a ! 0 XOR b ! 0, a ! 1 XOR b ! 1];
         hp = VARIANT1_2 variant tweak1_2 (j + 8) hp
     in (a, rc, hp))"

definition armv8_step :: "armv8 \<Rightarrow> int \<Rightarrow> u64 \<Rightarrow> u64 list \<times> byte list \<times> byte list \<Rightarrow> u64 list \<times> byte list \<times> byte list" where
  "armv8_step A variant tweak1_2 st =
    (let (a, rb, hp) = st;
         j = state_index (a ! 0);
         rc = mem_slice hp j 16;
         ra = block_of a;
         rc = aese A rc neon_zero;
         rc = aesmc A rc;
         rc = xor_list rc ra
     in armv8_post_aes A variant tweak1_2 j rc st)"

definition armv8_fill :: "armv8 \<Rightarrow> byte list \<Rightarrow> byte list \<times> byte list \<Rightarrow> byte list \<times> byte list" where
  "armv8_fill A ek st =
    fold (\<lambda>i (text, hp). let text = armv8_pseudo_round A text text ek INIT_SIZE_BLK in (text, blit hp (i * INIT_SIZE_BYTE) text))
      [0..<MEMORY div INIT_SIZE_BYTE] st"

definition armv8_absorb :: "armv8 \<Rightarrow> byte list \<Rightarrow> byte list \<Rightarrow> byte list \<Rightarrow> byte list" where
  "armv8_absorb A ek hp text =
    fold (\<lambda>i text. armv8_pseudo_round_xor A text text ek (mem_slice hp (i * INIT_SIZE_BYTE) INIT_SIZE_BYTE) INIT_SIZE_BLK)
      [0..<MEMORY div INIT_SIZE_BYTE] text"

text \<open>The function; \<open>stack\<close>, \<open>expandedKey\<close> and \<open>hp\<close> are what its local arrays hold at first.\<close>

definition cn_slow_hash_armv8 :: "armv8 \<Rightarrow> byte list \<Rightarrow> byte list \<Rightarrow> byte list \<Rightarrow> extra_hash list \<Rightarrow> byte list \<Rightarrow> nat \<Rightarrow> int \<Rightarrow> bool \<Rightarrow>
    cn_error + byte list" where
  "cn_slow_hash_armv8 A stack expandedKey hp extra_hashes data len variant prehashed =
    bind_cn (initial_state stack data len prehashed) (\<lambda>state.
    let text = mem_slice state 64 INIT_SIZE_BYTE
    in bind_cn (VARIANT1_INIT64 variant data len state) (\<lambda>tweak1_2.
    let expandedKey = armv8_expand_key A state expandedKey;
        (text, hp) = armv8_fill A expandedKey (text, hp);
        a = initial_a state;
        b = initial_b state;
        (a, rb, hp) = (armv8_step A variant tweak1_2 ^^ (ITER div 2)) (a, block_of b, hp);
        text = mem_slice state 64 INIT_SIZE_BYTE;
        expandedKey = armv8_expand_key A (drop 32 state) expandedKey;
        text = armv8_absorb A expandedKey hp text
    in Inr (final_hash extra_hashes state text)))"

text \<open>The product of the other branch for ARM on a 64-bit processor without the extension.\<close>

definition mul_arm64 :: "armv8 \<Rightarrow> byte list \<Rightarrow> byte list \<Rightarrow> byte list" where
  "mul_arm64 A a b =
    (let lo = mul_low A (U64 a ! 0) (U64 b ! 0);
         hi = umulh A (U64 a ! 0) (U64 b ! 0)
     in block_of [hi, lo])"

end
