(* ===== verification/SlowHashPortable.thy ===== *)
theory SlowHashPortable
  imports SlowHash
begin

unbundle bit_operations_syntax

text \<open>
  The other two branches of \<^verbatim>\<open>src/src/hash/monero/slow-hash.c\<close> that use no instructions for AES: the
  portable one, on blocks copied out of the scratchpad, and the one for ARM, on blocks in place, with its
  product of 32-bit halves.  \<open>SWAP64LE\<close> is the identity on a little-endian host.  The OAES context is
  made in the order of the code.
\<close>

section \<open>The portable branch\<close>

definition e2i :: "byte list \<Rightarrow> nat \<Rightarrow> nat" where
  "e2i a count = unat (U64 a ! 0 div of_nat AES_BLOCK_SIZE AND (of_nat count - 1))"

definition mul :: "byte list \<Rightarrow> byte list \<Rightarrow> byte list option" where
  "mul a b =
    (let a0 = U64 a ! 0; b0 = U64 b ! 0
     in case mul128 a0 b0 of None \<Rightarrow> None | Some (lo, hi) \<Rightarrow> Some (block_of [hi, lo]))"

definition sum_half_blocks :: "byte list \<Rightarrow> byte list \<Rightarrow> byte list" where
  "sum_half_blocks a b =
    (let a0 = U64 a ! 0; a1 = U64 a ! 1; b0 = U64 b ! 0; b1 = U64 b ! 1;
         a0 = a0 + b0;
         a1 = a1 + b1
     in block_of [a0, a1])"

text \<open>The new first and second block.\<close>

definition swap_blocks :: "byte list \<Rightarrow> byte list \<Rightarrow> byte list \<times> byte list" where
  "swap_blocks a b = (let t = U64 a; a = block_of (U64 b); b = block_of t in (a, b))"

definition xor_bytes :: "nat \<Rightarrow> byte list \<Rightarrow> byte list \<Rightarrow> byte list" where
  "xor_bytes n a b = update_loop n (\<lambda>i x. x XOR b ! i) a"

definition portable_tweak :: "int \<Rightarrow> byte list \<Rightarrow> byte list \<Rightarrow> nat \<Rightarrow> byte list \<Rightarrow> cn_error + byte list" where
  "portable_tweak variant stack data len state =
    (if variant > 0 then
       if \<not> VARIANT1_CHECK len then Inl Exit_1
       else Inr (xor_bytes 8 (mem_slice state 192 8) (drop 35 data))
     else Inr stack)"

text \<open>One pass of the main loop; \<open>None\<close> if an assertion fails.\<close>

definition portable_step :: "int \<Rightarrow> byte list \<Rightarrow> byte list \<times> byte list \<times> byte list \<Rightarrow> (byte list \<times> byte list \<times> byte list) option" where
  "portable_step variant tweak1_2 st =
    (let (a, b, long_state) = st;
         j = e2i a (MEMORY div AES_BLOCK_SIZE);
         c = mem_slice long_state (j * AES_BLOCK_SIZE) AES_BLOCK_SIZE;
         c = aesb_single_round c a;
         b = xor_bytes 16 b c;
         (b, c) = swap_blocks b c;
         long_state = blit long_state (j * AES_BLOCK_SIZE) c
     in if j \<noteq> e2i a (MEMORY div AES_BLOCK_SIZE) then None else
     let (a, b) = swap_blocks a b;
         long_state = VARIANT1_1 variant (j * AES_BLOCK_SIZE) long_state;
         j = e2i a (MEMORY div AES_BLOCK_SIZE);
         c = mem_slice long_state (j * AES_BLOCK_SIZE) AES_BLOCK_SIZE
     in case mul a c of None \<Rightarrow> None
        | Some d \<Rightarrow>
     let b = sum_half_blocks b d;
         (b, c) = swap_blocks b c;
         b = xor_bytes 16 b c;
         c = (if variant > 0 then take 8 c @ xor_bytes 8 (drop 8 c) tweak1_2 else c);
         long_state = blit long_state (j * AES_BLOCK_SIZE) c
     in if j \<noteq> e2i a (MEMORY div AES_BLOCK_SIZE) then None else
     let (a, b) = swap_blocks a b
     in Some (a, b, long_state))"

primrec repeat_step :: "('s \<Rightarrow> 's option) \<Rightarrow> nat \<Rightarrow> 's \<Rightarrow> 's option" where
  "repeat_step f 0 s = Some s"
| "repeat_step f (Suc n) s = (case f s of None \<Rightarrow> None | Some s \<Rightarrow> repeat_step f n s)"

definition xor_halves :: "byte list \<Rightarrow> nat \<Rightarrow> byte list" where
  "xor_halves k p = map (\<lambda>i. k ! (p + i) XOR k ! (p + 32 + i)) [0..<16]"

definition portable_absorb :: "byte list \<Rightarrow> byte list \<Rightarrow> byte list \<Rightarrow> byte list" where
  "portable_absorb ek long_state text =
    fold (\<lambda>i text.
        fold (\<lambda>j text.
            let text = blit text (j * AES_BLOCK_SIZE) (xor_bytes AES_BLOCK_SIZE (mem_slice text (j * AES_BLOCK_SIZE) 16)
                  (drop (i * INIT_SIZE_BYTE + j * AES_BLOCK_SIZE) long_state))
            in blit text (AES_BLOCK_SIZE * j) (aesb_pseudo_round (mem_slice text (AES_BLOCK_SIZE * j) 16) ek))
          [0..<INIT_SIZE_BLK] text)
      [0..<MEMORY div INIT_SIZE_BYTE] text"

definition cn_slow_hash_portable :: "cn_host \<Rightarrow> byte list \<Rightarrow> byte list \<Rightarrow> extra_hash list \<Rightarrow> byte list \<Rightarrow> nat \<Rightarrow> int \<Rightarrow> bool \<Rightarrow>
    cn_error + byte list" where
  "cn_slow_hash_portable H long_state tweak_stack extra_hashes data len variant prehashed =
    bind_cn (initial_state (stack_state H) data len prehashed) (\<lambda>state.
    let text = mem_slice state 64 INIT_SIZE_BYTE;
        aes_key = take AES_KEY_SIZE state;
        aes_ctx = fst (oaes_alloc (random H) 0 (heap_ok H 0))
    in bind_cn (portable_tweak variant tweak_stack data len state) (\<lambda>tweak1_2.
    bind_cn (import_key H 1 aes_ctx aes_key) (\<lambda>(aes_ctx, exp_data).
    let (text, long_state) = fill_sw exp_data (text, long_state);
        a = xor_halves state 0;
        b = xor_halves state 16
    in case repeat_step (portable_step variant tweak1_2) (ITER div 2) (a, b, long_state) of
         None \<Rightarrow> Inl Assertion_failed
       | Some (a, b, long_state) \<Rightarrow>
    let text = mem_slice state 64 INIT_SIZE_BYTE
    in bind_cn (import_key H 4 aes_ctx (drop 32 state)) (\<lambda>(aes_ctx, exp_data).
    let text = portable_absorb exp_data long_state text
    in Inr (final_hash extra_hashes state text)))))"

section \<open>The branch for ARM\<close>

text \<open>The halves of the words of \<open>ltmp\<close> are those of \<open>tmp\<close>, the lower one first.\<close>

definition lo32 :: "u64 \<Rightarrow> u64" where "lo32 x = ucast (ucast x :: u32)"
definition hi32 :: "u64 \<Rightarrow> u64" where "hi32 x = ucast (ucast (drop_bit 32 x) :: u32)"

definition mul_arm :: "byte list \<Rightarrow> byte list \<Rightarrow> byte list" where
  "mul_arm ca cb =
    (let aa = map (\<lambda>i. join_le (mem_slice ca (4 * i) 4) :: u32) [0..<2];
         bb = map (\<lambda>i. join_le (mem_slice cb (4 * i) 4) :: u32) [0..<2];
         A = ucast (aa ! 1) :: u64; a = ucast (aa ! 0) :: u64;
         B = ucast (bb ! 1) :: u64; b = ucast (bb ! 0) :: u64;
         ltmp0 = a * b;
         ltmp1 = a * B;
         ltmp2 = A * b;
         ltmp3 = A * B;
         res2 = lo32 ltmp0;
         ltmp1 = ltmp1 + hi32 ltmp0;
         ltmp1 = ltmp1 + lo32 ltmp2;
         ltmp3 = ltmp3 + hi32 ltmp1;
         ltmp3 = ltmp3 + hi32 ltmp2;
         res3 = lo32 ltmp1;
         res0 = lo32 ltmp3;
         res1 = hi32 ltmp3
     in concat (map (split_le 4) [ucast res0 :: u32, ucast res1, ucast res2, ucast res3]))"

text \<open>The same for a 32-bit ARM, whose product is inline assembly, with the instructions that it uses: long products,
  without and with accumulation, and additions that set and use the carry.\<close>

definition umull :: "u32 \<Rightarrow> u32 \<Rightarrow> u32 \<times> u32" where
  "umull x y = (let p = ucast x * ucast y :: u64 in (ucast p, ucast (drop_bit 32 p)))"

definition umlal :: "u32 \<Rightarrow> u32 \<Rightarrow> u32 \<Rightarrow> u32 \<Rightarrow> u32 \<times> u32" where
  "umlal lo hi x y = (let p = (push_bit 32 (ucast hi) OR ucast lo) + ucast x * ucast y :: u64 in (ucast p, ucast (drop_bit 32 p)))"

definition adds :: "u32 \<Rightarrow> u32 \<Rightarrow> u32 \<times> bool" where
  "adds x y = (x + y, unat x + unat y \<ge> 2 ^ 32)"

definition adc :: "u32 \<Rightarrow> u32 \<Rightarrow> bool \<Rightarrow> u32" where
  "adc x y carry = x + y + (if carry then 1 else 0)"

definition mul_arm32 :: "byte list \<Rightarrow> byte list \<Rightarrow> byte list" where
  "mul_arm32 ca cb =
    (let aa = map (\<lambda>i. join_le (mem_slice ca (4 * i) 4) :: u32) [0..<2];
         bb = map (\<lambda>i. join_le (mem_slice cb (4 * i) 4) :: u32) [0..<2];
         A = aa ! 1; a = aa ! 0; B = bb ! 1; b = bb ! 0;
         t2 = 0; t3 = 0;
         (t0, t1) = umull a b;
         ll = t0;
         t0 = t0 XOR t0;
         (t1, t0) = umlal t1 t0 a B;
         (t1, t2) = umlal t1 t2 A b;
         lh = t1;
         (t0, t3) = umlal t0 t3 A B;
         (t0, carry) = adds t0 t2;
         t1 = adc t3 0 carry;
         hl = t0;
         hh = t1
     in concat (map (split_le 4) [hl, hh, ll, lh]))"

definition MASK :: u32 where
  "MASK = push_bit 4 (of_nat (MEMORY div AES_BLOCK_SIZE) - 1)"

definition arm_state_index :: "byte list \<Rightarrow> nat" where
  "arm_state_index x = unat ((join_le (mem_slice x 0 4) :: u32) AND MASK)"

text \<open>\<open>swap_blocks(a, p)\<close> and the \<open>xor_blocks(b, p)\<close> of words, with \<open>p\<close> a place in the scratchpad.\<close>

definition swap_with :: "byte list \<Rightarrow> nat \<Rightarrow> byte list \<Rightarrow> byte list \<times> byte list" where
  "swap_with a p mem = (let (x, y) = swap_blocks a (mem_slice mem p 16) in (x, blit mem p y))"

definition arm_step :: "(byte list \<Rightarrow> byte list \<Rightarrow> byte list) \<Rightarrow> int \<Rightarrow> u64 \<Rightarrow> byte list \<times> byte list \<times> byte list \<Rightarrow> byte list \<times> byte list \<times> byte list" where
  "arm_step product variant tweak1_2 st =
    (let (a, b, long_state) = st;
         p = arm_state_index a;
         long_state = blit long_state p (aesb_single_round (mem_slice long_state p 16) a);
         b = xor_blocks b 0 long_state p;
         (b, long_state) = swap_with b p long_state;
         (a, b) = swap_blocks a b;
         long_state = VARIANT1_1 variant p long_state;
         p = arm_state_index a;
         d = product a (mem_slice long_state p 16);
         b = sum_half_blocks b d;
         (b, long_state) = swap_with b p long_state;
         b = xor_blocks b 0 long_state p;
         (a, b) = swap_blocks a b;
         long_state = VARIANT1_2 variant tweak1_2 (p + 8) long_state
     in (a, b, long_state))"

text \<open>\<open>product\<close> is the \<open>mul\<close> that the compiler chooses for the processor.\<close>

definition cn_slow_hash_arm :: "(byte list \<Rightarrow> byte list \<Rightarrow> byte list) \<Rightarrow> cn_host \<Rightarrow> byte list \<Rightarrow> byte list \<Rightarrow> extra_hash list \<Rightarrow> byte list \<Rightarrow> nat \<Rightarrow> int \<Rightarrow> bool \<Rightarrow>
    cn_error + byte list" where
  "cn_slow_hash_arm product H long_state expandedKey extra_hashes data len variant prehashed =
    bind_cn (initial_state (stack_state H) data len prehashed) (\<lambda>state.
    let text = mem_slice state 64 INIT_SIZE_BYTE
    in bind_cn (VARIANT1_INIT64 variant data len state) (\<lambda>tweak1_2.
    let aes_ctx = fst (oaes_alloc (random H) 0 (heap_ok H 0))
    in bind_cn (import_key H 1 aes_ctx state) (\<lambda>(aes_ctx, exp_data).
    let expandedKey = blit expandedKey 0 exp_data;
        (text, long_state) = fill_sw expandedKey (text, long_state);
        a = initial_a state;
        b = initial_b state;
        (a, b, long_state) = (arm_step product variant tweak1_2 ^^ (ITER div 2)) (block_of a, block_of b, long_state);
        text = mem_slice state 64 INIT_SIZE_BYTE
    in bind_cn (import_key H 4 aes_ctx (drop 32 state)) (\<lambda>(aes_ctx, exp_data).
    let expandedKey = blit expandedKey 0 exp_data;
        text = absorb_sw expandedKey long_state text
    in Inr (final_hash extra_hashes state text)))))"

end
