(* ===== verification/SlowHashSpec.thy ===== *)
theory SlowHashSpec
  imports SlowHashPortable OaesLaws
begin

unbundle bit_operations_syntax

text \<open>
  What the branches of \<^verbatim>\<open>slow-hash.c\<close> and \<^verbatim>\<open>monero.cpp\<close> have in common: CryptoNight (CNS 008) with variant 1
  of Monero, on blocks of two words, and the lemmas that relate memory and instructions to it.
\<close>

section \<open>Blocks\<close>

type_synonym block = "u64 \<times> u64"

fun block_bytes :: "block \<Rightarrow> byte list" where
  "block_bytes (x, y) = split_le 8 x @ split_le 8 y"

definition bytes_block :: "byte list \<Rightarrow> block" where
  "bytes_block bs = (join_le (mem_slice bs 0 8), join_le (mem_slice bs 8 8))"

fun xor_pair :: "block \<Rightarrow> block \<Rightarrow> block" where
  "xor_pair (x, y) (x', y') = (x XOR x', y XOR y')"

definition pad_bytes :: "block list \<Rightarrow> byte list" where
  "pad_bytes pad = concat (map block_bytes pad)"

lemma length_block_bytes [simp]: "length (block_bytes b) = 16"
  by (cases b) simp

lemma bytes_block_bytes [simp]: "bytes_block (block_bytes b) = b"
  by (cases b) (simp add: bytes_block_def mem_slice_def join_split_le)

lemma block_bytes_block [simp]: "length bs = 16 \<Longrightarrow> block_bytes (bytes_block bs) = bs"
  by (simp add: bytes_block_def split_join_le mem_slice_def)

lemma U64_block [simp]: "U64 (block_bytes b) = [fst b, snd b]"
  by (cases b) (simp add: U64_def mem_slice_def join_split_le)

lemma block_of_list [simp]: "block_of [x, y] = block_bytes (x, y)"
  by (simp add: block_of_def)

lemma xor_list_split_le: "xor_list (split_le n x) (split_le n y) = split_le n (x XOR y)"
  by (intro nth_equalityI) (auto intro!: bit_word_eqI simp: bit_simps)

lemma xor_list_append2:
  "length a = length c \<Longrightarrow> xor_list (a @ b) (c @ d) = xor_list a c @ xor_list b d"
  by (simp add: xor_list_def)

lemma xor_list_blocks [simp]: "xor_list (block_bytes a) (block_bytes b) = block_bytes (xor_pair a b)"
  by (cases a, cases b) (simp add: xor_list_append2 xor_list_split_le)

lemma length_pad_bytes [simp]: "length (pad_bytes pad) = 16 * length pad"
  unfolding pad_bytes_def by (rule length_pieces) simp

lemma pad_slice [simp]: "i < length pad \<Longrightarrow> mem_slice (pad_bytes pad) (16 * i) 16 = block_bytes (pad ! i)"
  unfolding pad_bytes_def by (rule mem_slice_pieces) simp_all

lemma pad_bytes_append: "pad_bytes (xs @ ys) = pad_bytes xs @ pad_bytes ys"
  by (simp add: pad_bytes_def)

lemma pad_bytes_Cons: "pad_bytes (b # pad) = block_bytes b @ pad_bytes pad"
  by (simp add: pad_bytes_def)

lemma pad_split:
  assumes "i < length pad"
  shows "pad_bytes pad = pad_bytes (take i pad) @ block_bytes (pad ! i) @ pad_bytes (drop (Suc i) pad)"
  using assms by (simp flip: pad_bytes_Cons pad_bytes_append add: Cons_nth_drop_Suc)

lemma pad_update:
  assumes "i < length pad"
  shows "pad_bytes (pad[i := b]) = pad_bytes (take i pad) @ block_bytes b @ pad_bytes (drop (Suc i) pad)"
  using assms by (simp add: upd_conv_take_nth_drop pad_bytes_append pad_bytes_Cons)

lemma blit_pad [simp]:
  assumes "i < length pad"
  shows "blit (pad_bytes pad) (16 * i) (block_bytes b) = pad_bytes (pad[i := b])"
  unfolding pad_split [OF assms] pad_update [OF assms] using assms by (simp add: blit_def)

lemma pad_nth:
  assumes "i < length pad" and "k < 16"
  shows "pad_bytes pad ! (16 * i + k) = block_bytes (pad ! i) ! k"
  unfolding pad_split [OF assms(1)] using assms by (simp add: nth_append)

lemma pad_put:
  assumes "i < length pad" and "k < 16" and "(block_bytes (pad ! i))[k := v] = block_bytes b"
  shows "(pad_bytes pad)[16 * i + k := v] = pad_bytes (pad[i := b])"
  unfolding pad_split [OF assms(1)] pad_update [OF assms(1)] using assms
  by (simp add: list_update_append)

lemma blocks_of_bytes:
  assumes "length mem = 16 * n"
  shows "\<exists>pad. length pad = n \<and> mem = pad_bytes pad"
proof -
  have "mem_slice mem 0 (16 * n) = concat (map (\<lambda>j. mem_slice mem (16 * j) 16) [0..<n])"
    using mem_slice_concat [of mem 0 16 n] by simp
  also have "map (\<lambda>j. mem_slice mem (16 * j) 16) [0..<n] = map block_bytes (map (\<lambda>j. bytes_block (mem_slice mem (16 * j) 16)) [0..<n])"
    using assms by simp
  finally show ?thesis
    using assms by (intro exI [of _ "map (\<lambda>j. bytes_block (mem_slice mem (16 * j) 16)) [0..<n]"]) (simp add: pad_bytes_def)
qed

section \<open>The specification\<close>

text \<open>The tweak of variant 1 works on byte 11 of a block, which is byte 3 of its second word.\<close>

definition tweak_bits :: "byte \<Rightarrow> byte" where
  "tweak_bits x =
    (let i = unat (drop_bit 3 x AND 6 OR (x AND 1)) in push_bit 4 (of_nat ([1, 0, 3, 0, 1, 1, 3, 1] ! i)))"

lemma tweak_bits_table:
  "ucast (drop_bit (unat (push_bit 1 ((drop_bit 3 tmp AND 6) OR (tmp AND 1)) :: byte)) (0x75310 :: u32) AND 0x30) = tweak_bits tmp"
proof -
  have "list_all (\<lambda>tmp. ucast (drop_bit (unat (push_bit 1 ((drop_bit 3 tmp AND 6) OR (tmp AND 1)) :: byte)) (0x75310 :: u32) AND 0x30) = tweak_bits tmp)
      all_bytes"
    by code_simp
  from byte_cases [OF this] show ?thesis .
qed

definition spec_index :: "u64 \<Rightarrow> nat" where
  "spec_index x = unat x div 16 mod 2 ^ 17"

lemma spec_index_less: "spec_index x < 2 ^ 17"
  by (simp add: spec_index_def)

lemma state_index_spec: "state_index x = 16 * spec_index x"
proof -
  have "(of_nat TOTALBLOCKS - 1 :: u64) = mask 17"
    by (simp add: TOTALBLOCKS_def MEMORY_def AES_BLOCK_SIZE_def mask_eq_exp_minus_1)
  then have "state_index x = unat (push_bit 4 (take_bit 17 (drop_bit 4 x)))"
    by (simp add: state_index_def take_bit_eq_mask)
  also have "\<dots> = 16 * unat (take_bit 17 (drop_bit 4 x))"
  proof -
    have "unat (take_bit 17 (drop_bit 4 x)) < 2 ^ 17"
      by (simp add: unsigned_take_bit_eq take_bit_nat_less_exp [of 17, simplified])
    then show ?thesis
      unfolding unsigned_push_bit_eq by (simp add: push_bit_eq_mult take_bit_nat_eq_self)
  qed
  finally show ?thesis
    by (simp add: spec_index_def unsigned_take_bit_eq unsigned_drop_bit_eq take_bit_eq_mod drop_bit_eq_div unat_div unat_mod)
qed

lemma e2i_spec: "e2i (block_bytes b) (MEMORY div AES_BLOCK_SIZE) = spec_index (fst b)"
proof -
  have "(of_nat (MEMORY div AES_BLOCK_SIZE) - 1 :: u64) = mask 17"
    by (simp add: MEMORY_def AES_BLOCK_SIZE_def mask_eq_exp_minus_1)
  then show ?thesis
    by (simp add: e2i_def spec_index_def flip: take_bit_eq_mask)
       (simp add: AES_BLOCK_SIZE_def take_bit_eq_mod unat_div unat_mod)
qed

lemma arm_state_index_spec: "arm_state_index (block_bytes b) = 16 * spec_index (fst b)"
proof -
  let ?w = "push_bit 4 (drop_bit 4 (fst b) AND (of_nat TOTALBLOCKS - 1))"
  have le: "(join_le (mem_slice (block_bytes b) 0 4) :: u32) = ucast (fst b)"
  proof (rule bit_word_eqI)
    fix n assume "n < LENGTH(32)"
    then have "n div 8 < 4" by simp
    then show "bit (join_le (mem_slice (block_bytes b) 0 4) :: u32) n \<longleftrightarrow> bit (ucast (fst b) :: u32) n"
      using \<open>n < LENGTH(32)\<close> by (cases b) (simp add: mem_slice_def bit_simps nth_append)
  qed
  have "(ucast (fst b) AND MASK :: u32) = ucast ?w"
    by (rule u32_bit_eqI) (simp add: upt_32 MASK_def MEMORY_def AES_BLOCK_SIZE_def TOTALBLOCKS_def bit_eval)
  moreover have "unat ?w < 2 ^ LENGTH(32)"
    using state_index_spec [of "fst b"] spec_index_less [of "fst b"] by (simp add: state_index_def)
  ultimately have "arm_state_index (block_bytes b) = unat ?w"
    by (simp only: arm_state_index_def le unat_ucast_fits)
  then show ?thesis
    using state_index_spec [of "fst b"] by (simp only: state_index_def)
qed

text \<open>A pass of the main loop on blocks: \<open>a\<close>, \<open>b\<close> and the scratchpad.\<close>

definition spec_tweak1 :: "int \<Rightarrow> block \<Rightarrow> block" where
  "spec_tweak1 variant b =
    (if variant > 0 then (fst b, snd b XOR push_bit 24 (ucast (tweak_bits (ucast (drop_bit 24 (snd b)))))) else b)"

definition spec_tweak2 :: "int \<Rightarrow> u64 \<Rightarrow> block \<Rightarrow> block" where
  "spec_tweak2 variant tweak b = (if variant > 0 then (fst b, snd b XOR tweak) else b)"

definition spec_aes :: "block \<Rightarrow> block \<Rightarrow> block" where
  "spec_aes k b = bytes_block (byte_round (block_bytes k) (block_bytes b))"

definition wide_product :: "u64 \<Rightarrow> u64 \<Rightarrow> u64 \<times> u64" where
  "wide_product x y = (of_nat (unat x * unat y div 2 ^ 64), of_nat (unat x * unat y))"

fun spec_step :: "int \<Rightarrow> u64 \<Rightarrow> block \<times> block \<times> block list \<Rightarrow> block \<times> block \<times> block list" where
  "spec_step variant tweak (a, b, pad) =
    (let i = spec_index (fst a);
         c = spec_aes a (pad ! i);
         pad = pad[i := spec_tweak1 variant (xor_pair b c)];
         j = spec_index (fst c);
         d = pad ! j;
         (hi, lo) = wide_product (fst c) (fst d);
         s = (fst a + hi, snd a + lo);
         pad = pad[j := spec_tweak2 variant tweak s]
     in (xor_pair s d, c, pad))"

lemma split_le_put_byte: "split_le 8 (y XOR push_bit 24 (ucast t) :: u64) = (split_le 8 y)[3 := ucast (drop_bit 24 y) XOR t :: byte]"
proof (rule nth_equalityI)
  fix m assume "m < length (split_le 8 (y XOR push_bit 24 (ucast t) :: u64) :: byte list)"
  then have m: "m < 8" by simp
  have "ucast (drop_bit (8 * m) (y XOR push_bit 24 (ucast t) :: u64)) = (if m = 3 then ucast (drop_bit 24 y) XOR t else ucast (drop_bit (8 * m) y) :: byte)"
  proof (rule bit_word_eqI)
    fix n assume n: "n < LENGTH(8)"
    have "\<not> (24 \<le> 8 * m + n \<and> bit t (8 * m + n - 24))" if "m \<noteq> 3"
    proof (cases "m < 3")
      case False
      with that have "8 \<le> 8 * m + n - 24" by simp
      then show ?thesis using bit_imp_le_length [of t] by fastforce
    qed (use n in simp)
    with n m show "bit (ucast (drop_bit (8 * m) (y XOR push_bit 24 (ucast t) :: u64)) :: byte) n =
        bit (if m = 3 then ucast (drop_bit 24 y) XOR t else ucast (drop_bit (8 * m) y) :: byte) n"
      by (auto simp: bit_simps)
  qed
  with m show "split_le 8 (y XOR push_bit 24 (ucast t) :: u64) ! m = (split_le 8 y)[3 := ucast (drop_bit 24 y) XOR t :: byte] ! m"
    by (auto simp: nth_list_update)
qed simp

lemma VARIANT1_1_pad:
  assumes "i < length pad"
  shows "VARIANT1_1 variant (16 * i) (pad_bytes pad) = pad_bytes (pad[i := spec_tweak1 variant (pad ! i)])"
proof (cases "variant > 0")
  case True
  obtain x y where b: "pad ! i = (x, y)" by force
  have byte: "pad_bytes pad ! (16 * i + 11) = ucast (drop_bit 24 y)"
    using pad_nth [OF assms, of 11] by (simp add: b nth_append)
  have "(block_bytes (pad ! i))[11 := ucast (drop_bit 24 y) XOR t] = block_bytes (x, y XOR push_bit 24 (ucast t))" for t
    using split_le_put_byte [of y t] by (simp add: b list_update_append)
  from pad_put [OF assms _ this] show ?thesis
    using True by (simp only: VARIANT1_1_def Let_def byte tweak_bits_table spec_tweak1_def b fst_conv snd_conv if_True)
qed (simp add: VARIANT1_1_def spec_tweak1_def)

lemma xor64_at_pad:
  assumes "i < length pad"
  shows "xor64_at (16 * i + 8) t (pad_bytes pad) = pad_bytes (pad[i := (fst (pad ! i), snd (pad ! i) XOR t)])"
proof -
  obtain x y where b: "pad ! i = (x, y)" by force
  show ?thesis
    unfolding xor64_at_def pad_split [OF assms] pad_update [OF assms] using assms
    by (simp add: b mem_slice_def blit_def join_split_le)
qed

lemma VARIANT1_2_pad:
  assumes "i < length pad"
  shows "VARIANT1_2 variant t (16 * i + 8) (pad_bytes pad) = pad_bytes (pad[i := spec_tweak2 variant t (pad ! i)])"
  using xor64_at_pad [OF assms, of t] by (simp add: VARIANT1_2_def spec_tweak2_def)

section \<open>The branches on blocks\<close>

declare block_bytes.simps [simp del] xor_pair.simps [simp del]

lemma length_spec_step: "length (snd (snd (spec_step variant t (a, b, pad)))) = length pad"
  by (simp add: Let_def split: prod.split)

lemma spec_aes_bytes [simp]: "block_bytes (spec_aes k b) = byte_round (block_bytes k) (block_bytes b)"
  by (simp add: spec_aes_def)

lemma block_round_bytes [simp]: "byte_round (block_bytes k) (block_bytes b) = block_bytes (spec_aes k b)"
  by simp

declare spec_aes_bytes [simp del]

lemma aesb_single_round_block [simp]: "aesb_single_round (block_bytes b) (block_bytes k) = block_bytes (spec_aes k b)"
  by (simp add: aesb_single_round_bytes)

text \<open>What Intel documents of the instructions.\<close>

definition key_assist :: "byte list \<Rightarrow> byte \<Rightarrow> byte list" where
  "key_assist x r =
    (let w1 = map oaes_sub_byte (mem_slice x 4 4); w3 = map oaes_sub_byte (mem_slice x 12 4);
         rot = (\<lambda>w. [w ! 1 XOR r, w ! 2, w ! 3, w ! 0])
     in w1 @ rot w1 @ w3 @ rot w3)"

lemma split_product:
  assumes "unat hi * 2 ^ 64 + unat lo = unat x * unat y"
  shows "(hi, lo) = wide_product x y"
proof -
  have p: "unat x * unat y = unat hi * 2 ^ 64 + unat lo" using assms by simp
  have "unat hi = unat x * unat y div 2 ^ 64" "unat lo = unat x * unat y mod 2 ^ 64"
    unfolding p using unat_u64_less [of lo] by simp_all
  moreover have "of_nat (unat w) = w" for w :: u64 by simp
  moreover have "of_nat (n mod 2 ^ 64) = (of_nat n :: u64)" for n
    by (simp only: word_of_nat_eq_iff take_bit_eq_mod) simp
  ultimately have "hi = of_nat (unat x * unat y div 2 ^ 64)" "lo = of_nat (unat x * unat y)" by metis+
  then show ?thesis by (simp add: wide_product_def)
qed

locale x86_documented =
  fixes X :: x86
  assumes aesenc_law: "length s = 16 \<Longrightarrow> length k = 16 \<Longrightarrow> aesenc X s k = byte_round k s"
    and assist_law: "length s = 16 \<Longrightarrow> aeskeygenassist X s r = key_assist s r"
    and mulq_law: "unat (fst (mulq X x y)) * 2 ^ 64 + unat (snd (mulq X x y)) = unat x * unat y"
begin

lemma aesenc_block [simp]: "aesenc X (block_bytes b) (block_bytes k) = block_bytes (spec_aes k b)"
  by (simp add: aesenc_law)

lemma mulq_product: "mulq X x y = wide_product x y"
  using split_product [of "fst (mulq X x y)" "snd (mulq X x y)" x y] mulq_law [of x y] by simp

end

lemma xor_pair_simp: "xor_pair a b = (fst a XOR fst b, snd a XOR snd b)"
  by (cases a, cases b) (simp add: xor_pair.simps)

lemma mul_product: "mul (block_bytes a) (block_bytes b) = Some (block_bytes (wide_product (fst a) (fst b)))"
proof -
  obtain lo hi where m: "mul128 (fst a) (fst b) = Some (lo, hi)" and p: "unat hi * 2 ^ 64 + unat lo = unat (fst a) * unat (fst b)"
    using mul128_product [of "fst a" "fst b"] by metis
  show ?thesis
    by (simp add: mul_def m split_product [OF p])
qed

lemma dwords_of_block:
  "(join_le (mem_slice (block_bytes b) 0 4) :: u32) = ucast (fst b)"
  "(join_le (mem_slice (block_bytes b) 4 4) :: u32) = ucast (drop_bit 32 (fst b))"
proof -
  have "bit (join_le (mem_slice (block_bytes b) k 4) :: u32) n = bit (ucast (drop_bit (8 * k) (fst b)) :: u32) n"
    if "n < 32" "k = 0 \<or> k = 4" for n k
  proof -
    from that(1) have "n div 8 < 4" by simp
    with that show ?thesis by (cases b) (auto simp: block_bytes.simps mem_slice_def bit_simps nth_append add.commute [of n 32])
  qed
  from this [of _ 0] this [of _ 4]
  show "(join_le (mem_slice (block_bytes b) 0 4) :: u32) = ucast (fst b)"
    "(join_le (mem_slice (block_bytes b) 4 4) :: u32) = ucast (drop_bit 32 (fst b))"
    by (auto intro: bit_word_eqI)
qed

lemma lo_dword_take: "lo_dword w = take_bit 32 w"
  by (rule u64_bit_eqI) (simp add: upt_64 lo_dword_def bit_eval)

lemma halves_dwords: "lo32 w = lo_dword w" "hi32 w = hi_dword w"
  by (rule bit_word_eqI; auto simp: lo32_def hi32_def lo_dword_take hi_dword_def bit_simps dest: bit_imp_le_length)+

lemma ucast_dwords: "ucast (ucast w :: u32) = lo_dword w" "lo_dword (drop_bit 32 w) = hi_dword w" "lo_dword (lo_dword w) = lo_dword w"
  by (rule bit_word_eqI; auto simp: lo_dword_take hi_dword_def bit_simps dest: bit_imp_le_length)+

lemma dwords_u64: "push_bit 32 (hi_dword w) OR lo_dword w = w"
  by (rule u64_bit_eqI) (simp add: upt_64 lo_dword_def hi_dword_def bit_eval)

lemma split_two_dwords:
  "split_le 4 (ucast x :: u32) @ split_le 4 (ucast y :: u32) = (split_le 8 (push_bit 32 y OR lo_dword x) :: byte list)"
proof -
  have "bit (ucast (drop_bit (8 * i) (push_bit 32 y OR lo_dword x)) :: byte) n \<longleftrightarrow>
      bit (if i < 4 then ucast (drop_bit (8 * i) (ucast x :: u32)) else ucast (drop_bit (8 * (i - 4)) (ucast y :: u32)) :: byte) n"
    if "i < 8" "n < 8" for i n
    using that by (auto simp: lo_dword_take bit_simps diff_mult_distrib2 dest: bit_imp_le_length)
  then show ?thesis
    by (intro nth_equalityI bit_word_eqI) (auto simp: nth_append)
qed

lemma mul_arm_halves:
  fixes A a B b p0 p1 p2 :: nat
  assumes "p0 = a * b" and "p1 = a * B + p0 div k + p2 mod k" and "p2 = A * b"
  shows "(A * B + p1 div k + p2 div k) * (k * k) + (p1 mod k * k + p0 mod k) = (A * k + a) * (B * k + b)"
proof -
  have "x = x div k * k + x mod k" for x by simp
  from this [of p0] this [of p1] this [of p2] assms show ?thesis by algebra
qed

lemma mul_arm_product: "mul_arm (block_bytes x) (block_bytes y) = block_bytes (wide_product (fst x) (fst y))"
proof -
  let ?A = "hi_dword (fst x)" and ?a = "lo_dword (fst x)" and ?B = "hi_dword (fst y)" and ?b = "lo_dword (fst y)"
  define p0 where "p0 = ?a * ?b"
  define p1 where "p1 = ?a * ?B + hi_dword p0 + lo_dword (?A * ?b)"
  define p3 where "p3 = ?A * ?B + hi_dword p1 + hi_dword (?A * ?b)"
  have ups: "[0..<2] = [0, 1]" by (simp add: upt_rec)
  have eq: "mul_arm (block_bytes x) (block_bytes y) = block_bytes (p3, push_bit 32 (lo_dword p1) OR lo_dword p0)"
    using split_two_dwords [of "lo_dword p3" "hi_dword p3"] split_two_dwords [of "lo_dword p0" "lo_dword p1"]
    by (simp add: mul_arm_def Let_def ups dwords_of_block ucast_dwords halves_dwords block_bytes.simps dwords_u64
        flip: p0_def p1_def p3_def)
  note less = hi_dword_less lo_dword_less
  have p0: "unat p0 = unat ?a * unat ?b" unfolding p0_def by (rule unat_mult_dword) (rule less)+
  have bound: "unat v * unat w + u1 + u2 < 2 ^ 64" if "unat v < 2 ^ 32" "unat w < 2 ^ 32" "u1 < 2 ^ 32" "u2 < 2 ^ 32" for v w :: u64 and u1 u2
  proof -
    have "unat v * unat w \<le> (2 ^ 32 - 1) * (2 ^ 32 - 1)" using that by (intro mult_le_mono) simp_all
    then show ?thesis using that by simp
  qed
  have sum: "unat (v * w + h + l) = unat v * unat w + unat h + unat l"
    if "unat v < 2 ^ 32" "unat w < 2 ^ 32" "unat h < 2 ^ 32" "unat l < 2 ^ 32" for v w h l :: u64
  proof -
    have m: "unat (v * w) = unat v * unat w" using that(1,2) by (rule unat_mult_dword)
    have "unat (v * w + h) = unat v * unat w + unat h"
      using unat_plus_exact [of "v * w" h] bound [OF that] by (simp only: m)
    then show ?thesis using unat_plus_exact [of "v * w + h" l] bound [OF that] by simp
  qed
  have p1: "unat p1 = unat ?a * unat ?B + unat p0 div 2 ^ 32 + unat (?A * ?b) mod 2 ^ 32"
    unfolding p1_def by (simp only: sum less unat_hi_dword [symmetric] unat_lo_dword [symmetric])
  have p3: "unat p3 = unat ?A * unat ?B + unat p1 div 2 ^ 32 + unat (?A * ?b) div 2 ^ 32"
    unfolding p3_def by (simp only: sum less unat_hi_dword [symmetric])
  have "unat p3 * (2 ^ 32 * 2 ^ 32) + (unat p1 mod 2 ^ 32 * 2 ^ 32 + unat p0 mod 2 ^ 32) =
      (unat ?A * 2 ^ 32 + unat ?a) * (unat ?B * 2 ^ 32 + unat ?b)"
    unfolding p3 by (rule mul_arm_halves [OF p0 p1]) (intro unat_mult_dword less)
  moreover have "unat (push_bit 32 (lo_dword p1) OR lo_dword p0) = unat p1 mod 2 ^ 32 * 2 ^ 32 + unat p0 mod 2 ^ 32"
    using push_or_dwords [OF lo_dword_less lo_dword_less, of p1 p0] by (simp only: unat_lo_dword)
  moreover have "(2 :: nat) ^ 64 = 2 ^ 32 * 2 ^ 32" by simp
  ultimately have "unat p3 * 2 ^ 64 + unat (push_bit 32 (lo_dword p1) OR lo_dword p0) = unat (fst x) * unat (fst y)"
    by (simp only: hi_lo_dword [of "fst x"] hi_lo_dword [of "fst y"])
  from split_product [OF this] show ?thesis by (simp add: eq)
qed

text \<open>The long products of 32-bit ARM: nothing overflows, and the carry is added.\<close>

lemma unat_dwords: "unat (ucast w :: u32) = unat (lo_dword w)" "unat (ucast (drop_bit 32 w) :: u32) = unat (hi_dword w)"
proof -
  have "unat w div 2 ^ 32 < 2 ^ 32" using unat_u64_less [of w] by (intro less_mult_imp_div_less) simp
  then show "unat (ucast w :: u32) = unat (lo_dword w)" "unat (ucast (drop_bit 32 w) :: u32) = unat (hi_dword w)"
    by (simp_all only: unat_lo_dword unat_hi_dword unsigned_ucast_eq unat_drop_bit_eq) (simp_all add: take_bit_eq_mod drop_bit_eq_div)
qed

lemma unat_dword_pair:
  assumes "n < 2 ^ 64"
  shows "unat (ucast (drop_bit 32 (of_nat n :: u64)) :: u32) * 2 ^ 32 + unat (ucast (of_nat n :: u64) :: u32) = n"
proof -
  have "unat (of_nat n :: u64) = n" using assms by (simp add: unat_of_nat)
  then show ?thesis
    unfolding unat_dwords(2) unfolding unat_dwords(1) unfolding hi_lo_dword [of "of_nat n :: u64", symmetric] .
qed

lemma dword_less: "unat (x :: u32) < 2 ^ 32"
  using unsigned_less [of x, where ?'a = nat] by simp

lemma mult_dwords: "unat (x :: u32) * unat (y :: u32) \<le> (2 ^ 32 - 1) * (2 ^ 32 - 1)"
  using dword_less [of x] dword_less [of y] by (intro mult_le_mono) simp_all

lemma ucast_of_nat: "(ucast (x :: u32) :: u64) = of_nat (unat x)"
  by simp

lemma umlal_exact:
  assumes "umlal lo 0 x y = (lo', hi')"
  shows "unat hi' * 2 ^ 32 + unat lo' = unat lo + unat x * unat y"
proof -
  have "umlal lo 0 x y = (ucast (of_nat (unat lo + unat x * unat y) :: u64), ucast (drop_bit 32 (of_nat (unat lo + unat x * unat y) :: u64)))"
    by (simp add: umlal_def Let_def)
  moreover have "unat lo + unat x * unat y < 2 ^ 64" using mult_dwords [of x y] dword_less [of lo] by simp
  ultimately show ?thesis using unat_dword_pair [of "unat lo + unat x * unat y"] assms by simp
qed

lemma umull_exact:
  assumes "umull x y = (lo, hi)"
  shows "unat hi * 2 ^ 32 + unat lo = unat x * unat y"
  using umlal_exact [of 0 x y lo hi] assms by (simp add: umull_def umlal_def)

lemma adds_exact:
  assumes "adds x y = (s, c)"
  shows "unat s + of_bool c * 2 ^ 32 = unat x + unat y"
proof -
  have "unat (x + y) = (if unat x + unat y < 2 ^ 32 then unat x + unat y else unat x + unat y - 2 ^ 32)"
    using unat_add_lem [of x y] dword_less [of x] dword_less [of y] by (simp add: unat_word_ariths mod_if)
  then show ?thesis using assms by (auto simp: adds_def)
qed

lemma arm32_sum:
  fixes a A b B p1 p2 p3 q0 q1 q2 ll lh hl hh c k :: nat
  assumes "p1 * k + ll = a * b" "q0 * k + q1 = p1 + a * B" "p2 * k + lh = q1 + A * b" "p3 * k + q2 = q0 + A * B"
    "hl + c * k = q2 + p2" "hh = p3 + c"
  shows "(hh * k + hl) * (k * k) + (lh * k + ll) = (A * k + a) * (B * k + b)"
  using assms by algebra

lemma join_dwords:
  fixes x y :: u32
  shows "unat (push_bit 32 (ucast x) OR ucast y :: u64) = unat x * 2 ^ 32 + unat y"
    and "split_le 4 y @ split_le 4 x = (split_le 8 (push_bit 32 (ucast x) OR ucast y :: u64) :: byte list)"
proof -
  have u: "unat (ucast z :: u64) = unat z" for z :: u32 using dword_less [of z] by (simp add: unsigned_ucast_eq take_bit_nat_eq_self)
  show "unat (push_bit 32 (ucast x) OR ucast y :: u64) = unat x * 2 ^ 32 + unat y"
    using push_or_dwords [of "ucast x" "ucast y"] dword_less [of x] dword_less [of y] by (simp only: u)
  have down: "ucast (ucast z :: u64) = z" for z :: u32 by (rule bit_word_eqI) (simp add: bit_simps)
  have "lo_dword (ucast y) = ucast y"
    by (rule bit_word_eqI) (auto simp: lo_dword_take bit_simps dest: bit_imp_le_length)
  then show "split_le 4 y @ split_le 4 x = (split_le 8 (push_bit 32 (ucast x) OR ucast y :: u64) :: byte list)"
    using split_two_dwords [of "ucast y" "ucast x"] by (simp add: down)
qed

lemma mul_arm32_product: "mul_arm32 (block_bytes x) (block_bytes y) = block_bytes (wide_product (fst x) (fst y))"
proof -
  let ?A = "ucast (drop_bit 32 (fst x)) :: u32" and ?a = "ucast (fst x) :: u32"
    and ?B = "ucast (drop_bit 32 (fst y)) :: u32" and ?b = "ucast (fst y) :: u32"
  obtain ll p1 where 1: "umull ?a ?b = (ll, p1)" by force
  obtain q1 q0 where 2: "umlal p1 0 ?a ?B = (q1, q0)" by force
  obtain lh p2 where 3: "umlal q1 0 ?A ?b = (lh, p2)" by force
  obtain q2 p3 where 4: "umlal q0 0 ?A ?B = (q2, p3)" by force
  obtain hl c where 5: "adds q2 p2 = (hl, c)" by force
  define hh where "hh = adc p3 0 c"
  have ups: "[0..<2] = [0, 1]" by (simp add: upt_rec)
  have eq: "mul_arm32 (block_bytes x) (block_bytes y) =
      block_bytes (push_bit 32 (ucast hh) OR ucast hl, push_bit 32 (ucast lh) OR ucast ll)"
    using join_dwords(2) [of hl hh] join_dwords(2) [of ll lh]
    by (simp add: mul_arm32_def Let_def ups dwords_of_block 1 2 3 4 5 hh_def block_bytes.simps)
  note e = umull_exact [OF 1] umlal_exact [OF 2] umlal_exact [OF 3] umlal_exact [OF 4] adds_exact [OF 5]
  have "unat hh = unat p3 + of_bool c"
  proof -
    have "unat hl + (unat p3 + of_bool c) * 2 ^ 32 = unat q0 + unat ?A * unat ?B + unat p2"
      using e(4,5) by (simp add: algebra_simps)
    moreover have "unat q0 + unat ?A * unat ?B + unat p2 < 2 ^ 32 * 2 ^ 32"
      using mult_dwords [of ?A ?B] dword_less [of q0] dword_less [of p2] by simp
    ultimately have "(unat p3 + of_bool c) * 2 ^ 32 < 2 ^ 32 * 2 ^ 32" by linarith
    then have "unat p3 + of_bool c < 2 ^ 32" by (simp only: mult_less_cancel2)
    then have "unat p3 + unat (of_bool c :: u32) < 2 ^ 32" by (cases c) simp_all
    then have "unat (p3 + of_bool c) = unat p3 + unat (of_bool c :: u32)" by (intro unat_plus_simple [THEN iffD1]) (simp add: no_olen_add_nat)
    then show ?thesis by (cases c) (simp_all add: hh_def adc_def)
  qed
  from arm32_sum [OF e this] have "(unat hh * 2 ^ 32 + unat hl) * (2 ^ 32 * 2 ^ 32) + (unat lh * 2 ^ 32 + unat ll) =
      (unat ?A * 2 ^ 32 + unat ?a) * (unat ?B * 2 ^ 32 + unat ?b)" .
  then have "unat (push_bit 32 (ucast hh) OR ucast hl :: u64) * 2 ^ 64 + unat (push_bit 32 (ucast lh) OR ucast ll :: u64) = unat (fst x) * unat (fst y)"
    unfolding join_dwords(1) hi_lo_dword [of "fst x"] hi_lo_dword [of "fst y"] unat_dwords(2) unfolding unat_dwords(1) by simp
  from split_product [OF this] show ?thesis by (simp add: eq)
qed

text \<open>What the branch for ARM needs of its product.\<close>

definition multiplies :: "(byte list \<Rightarrow> byte list \<Rightarrow> byte list) \<Rightarrow> bool" where
  "multiplies product \<longleftrightarrow> (\<forall>x y. product (block_bytes x) (block_bytes y) = block_bytes (wide_product (fst x) (fst y)))"

lemma products_multiply: "multiplies mul_arm" "multiplies mul_arm32"
  by (simp_all add: multiplies_def mul_arm_product mul_arm32_product)

lemma sum_half_blocks_block: "sum_half_blocks (block_bytes a) (block_bytes b) = block_bytes (fst a + fst b, snd a + snd b)"
  by (simp add: sum_half_blocks_def)

lemma swap_blocks_block: "swap_blocks (block_bytes a) (block_bytes b) = (block_bytes b, block_bytes a)"
  by (simp add: swap_blocks_def)

lemma xor_bytes_take: "length xs = n \<Longrightarrow> n \<le> length ys \<Longrightarrow> xor_bytes n xs ys = xor_list xs (take n ys)"
  using update_loop_nth [of n xs "\<lambda>i x. x XOR ys ! i"] unfolding xor_bytes_def
  by (intro nth_equalityI) simp_all

lemma xor_bytes_list: "length xs = n \<Longrightarrow> length ys = n \<Longrightarrow> xor_bytes n xs ys = xor_list xs ys"
  by (simp add: xor_bytes_take)

lemma xor_bytes_block: "xor_bytes 16 (block_bytes a) (block_bytes b) = block_bytes (xor_pair a b)"
  by (simp add: xor_bytes_list)

definition flat :: "block \<times> block \<times> block list \<Rightarrow> u64 list \<times> byte list \<times> byte list" where
  "flat st = (case st of (a, b, pad) \<Rightarrow> ([fst a, snd a], block_bytes b, pad_bytes pad))"

definition flat_bytes :: "block \<times> block \<times> block list \<Rightarrow> byte list \<times> byte list \<times> byte list" where
  "flat_bytes st = (case st of (a, b, pad) \<Rightarrow> (block_bytes a, block_bytes b, pad_bytes pad))"

lemma post_aes_flat:
  assumes "length pad = 2 ^ 17" and "x86_documented X"
  shows "post_aes X variant t (16 * spec_index (fst a)) (block_bytes c) ([fst a, snd a], block_bytes b, pad_bytes pad) =
    flat (let pad = pad[spec_index (fst a) := spec_tweak1 variant (xor_pair b c)];
         j = spec_index (fst c);
         d = pad ! j;
         (hi, lo) = wide_product (fst c) (fst d);
         s = (fst a + hi, snd a + lo);
         pad = pad[j := spec_tweak2 variant t s]
     in (xor_pair s d, c, pad))"
proof -
  have i: "spec_index x < length pad" for x using spec_index_less assms(1) by simp
  show ?thesis
    by (simp add: post_aes_def Let_def state_index_spec i VARIANT1_1_pad VARIANT1_2_pad
        x86_documented.mulq_product [OF assms(2)] flat_def xor_pair_simp case_prod_unfold)
qed

lemma mix_step_flat:
  assumes "length pad = 2 ^ 17" and "x86_documented X"
  shows "mix_step X useAes variant t (flat (a, b, pad)) = flat (spec_step variant t (a, b, pad))"
proof -
  have i: "spec_index x < length pad" for x using spec_index_less assms(1) by simp
  show ?thesis
    by (simp add: mix_step_def flat_def [of "(a, b, pad)"] Let_def state_index_spec i
        x86_documented.aesenc_block [OF assms(2)] post_aes_flat [OF assms, unfolded Let_def])
qed

lemma half_tweak: "take 8 (block_bytes b) @ xor_bytes 8 (drop 8 (block_bytes b)) (split_le 8 t) = block_bytes (fst b, snd b XOR t)"
  by (cases b) (simp add: block_bytes.simps xor_bytes_list xor_list_split_le)

lemma portable_step_flat:
  assumes "length pad = 2 ^ 17" and "variant > 0 \<longrightarrow> tweak = split_le 8 t"
  shows "portable_step variant tweak (flat_bytes (a, b, pad)) = Some (flat_bytes (spec_step variant t (a, b, pad)))"
proof -
  have i: "spec_index x < length pad" for x using spec_index_less assms(1) by simp
  have e: "e2i (block_bytes b) (MEMORY div 16) = spec_index (fst b)" for b
    using e2i_spec by (simp add: AES_BLOCK_SIZE_def)
  note simps = portable_step_def flat_bytes_def AES_BLOCK_SIZE_def mult.commute [of _ 16] e i
      xor_bytes_block swap_blocks_block VARIANT1_1_pad mul_product sum_half_blocks_block
      xor_pair_simp case_prod_unfold Let_def spec_tweak2_def half_tweak
  show ?thesis
  proof (cases "variant > 0")
    case True
    with assms(2) show ?thesis by (simp add: simps) (simp only: xor.commute)
  next
    case False
    then show ?thesis by (simp add: simps) (simp only: xor.commute)
  qed
qed

lemma arm_step_flat:
  assumes "length pad = 2 ^ 17" and "multiplies product"
  shows "arm_step product variant t (flat_bytes (a, b, pad)) = flat_bytes (spec_step variant t (a, b, pad))"
proof -
  have i: "spec_index x < length pad" for x using spec_index_less assms(1) by simp
  have x: "xor_blocks (block_bytes b) 0 (pad_bytes pad) (16 * j) = block_bytes (xor_pair b (pad ! j))" if "j < length pad" for b pad j
    using that by (simp add: xor_blocks_def xor_pair_simp)
  show ?thesis
    by (simp add: arm_step_def flat_bytes_def arm_state_index_spec i x swap_with_def
        swap_blocks_block VARIANT1_1_pad VARIANT1_2_pad assms(2) [unfolded multiplies_def] sum_half_blocks_block
        xor_pair_simp case_prod_unfold Let_def) (simp only: xor.commute)
qed

end
