(* ===== verification/SlowHashKeys.thy ===== *)
theory SlowHashKeys
  imports SlowHashSpec
begin

unbundle bit_operations_syntax

text \<open>
  The keys that the instructions expand, in \<^verbatim>\<open>slow-hash.c\<close> and in \<^verbatim>\<open>monero.cpp\<close>, are the first 176 bytes of
  the expansion of FIPS 197 for a key of 32 bytes, as \<^verbatim>\<open>oaes_lib.c\<close> computes it.
\<close>

definition round_key :: "byte list \<Rightarrow> nat \<Rightarrow> byte list" where
  "round_key key r = mem_slice (expanded 32 key) (16 * r) 16"

lemma length_round_key [simp]: "length key = 32 \<Longrightarrow> r < 15 \<Longrightarrow> length (round_key key r) = 16"
  by (simp add: round_key_def)

lemma round_key_columns: "round_key key r = column (expanded 32 key) (4 * r) @ column (expanded 32 key) (4 * r + 1) @
    column (expanded 32 key) (4 * r + 2) @ column (expanded 32 key) (4 * r + 3)"
proof -
  have "[0..<4] = [0, 1, 2, 3::nat]" by (simp add: upt_rec)
  then show ?thesis
    using mem_slice_concat [of "expanded 32 key" "16 * r" 4 4]
    by (simp add: round_key_def column_def algebra_simps)
qed

text \<open>The next four words, from those two round keys before and a word that is mixed into the first.\<close>

fun chain_words :: "byte list list \<Rightarrow> byte list \<Rightarrow> byte list" where
  "chain_words [] t = []"
| "chain_words (w # ws) t = xor_list w t @ chain_words ws (xor_list w t)"

lemma assist_words:
  assumes "length c0 = 4" "length c1 = 4" "length c2 = 4" "length c3 = 4" "length g = 4"
  shows "(let x = c0 @ c1 @ c2 @ c3; t4 = slli_si128 x 4; t1 = xor_list x t4; t4 = slli_si128 t4 4; t1 = xor_list t1 t4;
      t4 = slli_si128 t4 4; t1 = xor_list t1 t4 in xor_list t1 (g @ g @ g @ g)) = chain_words [c0, c1, c2, c3] g"
proof -
  obtain a0 a1 a2 a3 where a: "c0 = [a0, a1, a2, a3]" using assms(1) by (rule length4_cases)
  obtain b0 b1 b2 b3 where b: "c1 = [b0, b1, b2, b3]" using assms(2) by (rule length4_cases)
  obtain d0 d1 d2 d3 where d: "c2 = [d0, d1, d2, d3]" using assms(3) by (rule length4_cases)
  obtain e0 e1 e2 e3 where e: "c3 = [e0, e1, e2, e3]" using assms(4) by (rule length4_cases)
  obtain g0 g1 g2 g3 where g: "g = [g0, g1, g2, g3]" using assms(5) by (rule length4_cases)
  show ?thesis
    by (simp add: a b d e g slli_si128_def xor_list_def eval_nat_numeral Let_def ac_simps)
qed

lemma shuffled_assist:
  assumes "length d = 12" and "length w = 4"
  shows "shuffle_epi32 (key_assist (d @ w) r) 0xff = (let g = xor_list (map oaes_sub_byte (rotate1 w)) [r, 0, 0, 0] in g @ g @ g @ g)"
    and "shuffle_epi32 (key_assist (d @ w) r) 0xaa = (let g = map oaes_sub_byte w in g @ g @ g @ g)"
proof -
  obtain w0 w1 w2 w3 where w: "w = [w0, w1, w2, w3]" using assms(2) by (rule length4_cases)
  have u: "[0..<4] = [0, 1, 2, 3::nat]" by (simp add: upt_rec)
  have v: "map oaes_sub_byte (mem_slice (d @ w) 12 4) = map oaes_sub_byte w" using assms by (simp add: mem_slice_def)
  have "length (map oaes_sub_byte (mem_slice (d @ w) 4 4)) = 4" using assms by simp
  then obtain x0 x1 x2 x3 where x: "map oaes_sub_byte (mem_slice (d @ w) 4 4) = [x0, x1, x2, x3]" by (rule length4_cases)
  show "shuffle_epi32 (key_assist (d @ w) r) 0xff = (let g = xor_list (map oaes_sub_byte (rotate1 w)) [r, 0, 0, 0] in g @ g @ g @ g)"
    "shuffle_epi32 (key_assist (d @ w) r) 0xaa = (let g = map oaes_sub_byte w in g @ g @ g @ g)"
    unfolding key_assist_def Let_def v x shuffle_epi32_def u
    by (simp_all add: w mem_slice_def xor_list_def)
qed

lemma assist1_words:
  assumes "length c0 = 4" "length c1 = 4" "length c2 = 4" "length c3 = 4" "length d = 12" "length w = 4"
  shows "aes_256_assist1 (c0 @ c1 @ c2 @ c3) (key_assist (d @ w) r) =
    chain_words [c0, c1, c2, c3] (xor_list (map oaes_sub_byte (rotate1 w)) [r, 0, 0, 0])"
  using assist_words [of c0 c1 c2 c3 "xor_list (map oaes_sub_byte (rotate1 w)) [r, 0, 0, 0]"] assms
  by (simp add: aes_256_assist1_def shuffled_assist Let_def)

lemma assist2_words:
  assumes "x86_documented X" "length c0 = 4" "length c1 = 4" "length c2 = 4" "length c3 = 4" "length d = 12" "length w = 4"
  shows "aes_256_assist2 X (d @ w) (c0 @ c1 @ c2 @ c3) = chain_words [c0, c1, c2, c3] (map oaes_sub_byte w)"
  using assist_words [of c0 c1 c2 c3 "map oaes_sub_byte w"] assms
  by (simp add: aes_256_assist2_def shuffled_assist x86_documented.assist_law Let_def)

lemma schedule_words:
  assumes "length key = 32" and "2 \<le> r" and "r < 15"
  shows "round_key key r = chain_words (map (\<lambda>j. column (expanded 32 key) (4 * (r - 2) + j)) [0, 1, 2, 3])
    (fips_temp 8 (4 * r) (column (expanded 32 key) (4 * (r - 1) + 3)))"
proof -
  let ?c = "column (expanded 32 key)"
  have s: "?c i = xor_list (?c (i - 8)) (fips_temp 8 i (?c (i - 1)))" if "8 \<le> i" "i < 60" for i
    using expanded_schedule(2) [of 32 key 8 i] assms(1) that by simp
  have t: "fips_temp 8 (4 * r + j) w = w" if "j \<in> {1, 2, 3}" for j w
  proof -
    have "(4 * r + j) mod 4 \<noteq> 0" using that by auto
    then have "(4 * r + j) mod 8 \<noteq> 0" "(4 * r + j) mod 8 \<noteq> 4" by presburger+
    then show ?thesis by (simp add: fips_temp_def)
  qed
  obtain q where r: "r = q + 2" using assms(2) by (metis add.commute le_Suc_ex)
  have "?c (4 * r) = xor_list (?c (4 * q)) (fips_temp 8 (4 * r) (?c (4 * (r - 1) + 3)))"
    using s [of "4 * r"] assms(2,3) by (simp add: r algebra_simps)
  moreover have "?c (4 * r + j) = xor_list (?c (4 * q + j)) (?c (4 * r + (j - 1)))" if "j \<in> {1, 2, 3}" for j
    using s [of "4 * r + j"] t [OF that] that assms(2,3) by (auto simp: r algebra_simps)
  from this [of 1] this [of 2] this [of 3] have
    "?c (4 * r + 1) = xor_list (?c (4 * q + 1)) (?c (4 * r))"
    "?c (4 * r + 2) = xor_list (?c (4 * q + 2)) (?c (4 * r + 1))"
    "?c (4 * r + 3) = xor_list (?c (4 * q + 3)) (?c (4 * r + 2))" by simp_all
  ultimately show ?thesis by (simp only: round_key_columns) (simp add: r)
qed

lemma length_columns: "length key = 32 \<Longrightarrow> i < 60 \<Longrightarrow> length (column (expanded 32 key) i) = 4"
  by (simp add: column_def)

lemma round_key_even:
  assumes "length key = 32" and "q < 7"
  shows "aes_256_assist1 (round_key key (2 * q)) (key_assist (round_key key (2 * q + 1)) (rcon (Suc q))) = round_key key (2 * q + 2)"
proof -
  have "fips_temp 8 (4 * (2 * q + 2)) w = xor_list (map oaes_sub_byte (rotate1 w)) [rcon (Suc q), 0, 0, 0]" for w
  proof -
    have "4 * (2 * q + 2) = 8 * Suc q" by simp
    then show ?thesis by (simp add: fips_temp_def del: mult_Suc_right)
  qed
  then show ?thesis
    using schedule_words [of key "2 * q + 2"] assms length_columns [OF assms(1)]
      round_key_columns [of key "2 * q"] round_key_columns [of key "2 * q + 1"]
    by (simp add: assist1_words [where d = "a @ b @ c" for a b c, simplified])
qed

lemma round_key_odd:
  assumes "x86_documented X" and "length key = 32" and "q < 6"
  shows "aes_256_assist2 X (round_key key (2 * q + 2)) (round_key key (2 * q + 1)) = round_key key (2 * q + 3)"
proof -
  have "fips_temp 8 (4 * (2 * q + 3)) w = map oaes_sub_byte w" for w
  proof -
    have "4 * (2 * q + 3) = 8 * Suc q + 4" by simp
    then have "4 * (2 * q + 3) mod 8 = 4" by presburger
    then show ?thesis by (simp add: fips_temp_def)
  qed
  then show ?thesis
    using schedule_words [of key "2 * q + 3"] assms length_columns [OF assms(2)]
      round_key_columns [of key "2 * q + 1"] round_key_columns [of key "2 * q + 2"]
    by (simp add: assist2_words [OF assms(1), where d = "a @ b @ c" for a b c, simplified])
qed

lemma round_key_first:
  assumes "length key = 32"
  shows "mem_slice key 0 16 = round_key key 0" "mem_slice key 16 16 = round_key key 1"
proof -
  have e: "mem_slice (expanded 32 key) 0 32 = key" using expanded_schedule(1) [of 32 key 8] assms by simp
  have "mem_slice (mem_slice (expanded 32 key) 0 32) 0 16 = round_key key 0"
    "mem_slice (mem_slice (expanded 32 key) 0 32) 16 16 = round_key key 1"
    by (simp_all add: round_key_def)
  then show "mem_slice key 0 16 = round_key key 0" "mem_slice key 16 16 = round_key key 1"
    by (simp_all only: e)
qed

lemma round_key_steps:
  assumes "x86_documented X" and "length key = 32"
  shows "aes_256_assist1 (round_key key 0) (aeskeygenassist X (round_key key 1) 0x01) = round_key key 2"
    "aes_256_assist2 X (round_key key 2) (round_key key 1) = round_key key 3"
    "aes_256_assist1 (round_key key 2) (aeskeygenassist X (round_key key 3) 0x02) = round_key key 4"
    "aes_256_assist2 X (round_key key 4) (round_key key 3) = round_key key 5"
    "aes_256_assist1 (round_key key 4) (aeskeygenassist X (round_key key 5) 0x04) = round_key key 6"
    "aes_256_assist2 X (round_key key 6) (round_key key 5) = round_key key 7"
    "aes_256_assist1 (round_key key 6) (aeskeygenassist X (round_key key 7) 0x08) = round_key key 8"
    "aes_256_assist2 X (round_key key 8) (round_key key 7) = round_key key 9"
    "aes_256_assist1 (round_key key 8) (aeskeygenassist X (round_key key 9) 0x10) = round_key key 10"
proof -
  let ?r = "round_key key"
  have r: "rcon (Suc 0) = 0x01" "rcon 2 = 0x02" "rcon 3 = 0x04" "rcon 4 = 0x08" "rcon 5 = 0x10" by code_simp+
  have assist: "aeskeygenassist X (?r n) c = key_assist (?r n) c" if "n < 15" for n c
    using x86_documented.assist_law [OF assms(1)] that assms(2) by simp
  have even: "aes_256_assist1 (?r n) (aeskeygenassist X (?r m) c) = ?r l"
    if "n = 2 * q" "m = 2 * q + 1" "l = 2 * q + 2" "q' = Suc q" "rcon q' = c" "q < 7" for n m l q q' c
    using round_key_even [OF assms(2) that(6)] that by (simp add: assist)
  have odd: "aes_256_assist2 X (?r m) (?r n) = ?r l" if "n = 2 * q + 1" "m = 2 * q + 2" "l = 2 * q + 3" "q < 6" for n m l q
    using round_key_odd [OF assms that(4)] that by simp
  show "aes_256_assist1 (?r 0) (aeskeygenassist X (?r 1) 0x01) = ?r 2" "aes_256_assist2 X (?r 2) (?r 1) = ?r 3"
    "aes_256_assist1 (?r 2) (aeskeygenassist X (?r 3) 0x02) = ?r 4" "aes_256_assist2 X (?r 4) (?r 3) = ?r 5"
    "aes_256_assist1 (?r 4) (aeskeygenassist X (?r 5) 0x04) = ?r 6" "aes_256_assist2 X (?r 6) (?r 5) = ?r 7"
    "aes_256_assist1 (?r 6) (aeskeygenassist X (?r 7) 0x08) = ?r 8" "aes_256_assist2 X (?r 8) (?r 7) = ?r 9"
    "aes_256_assist1 (?r 8) (aeskeygenassist X (?r 9) 0x10) = ?r 10"
    by (rule even [where q = 0 and q' = 1] odd [where q = 0] even [where q = 1 and q' = 2] odd [where q = 1]
      even [where q = 2 and q' = 3] odd [where q = 2] even [where q = 3 and q' = 4] odd [where q = 3]
      even [where q = 4 and q' = 5]; simp add: r)+
qed

lemma aes_expand_key_eq:
  assumes "x86_documented X" and "32 \<le> length key" and "176 \<le> length ek"
  shows "aes_expand_key X key ek = blit ek 0 (concat (map (round_key (take 32 key)) [0..<11]))"
proof -
  let ?k = "take 32 key"
  have k: "length ?k = 32" using assms(2) by simp
  have f: "mem_slice key 0 16 = round_key ?k 0" "mem_slice key 16 16 = round_key ?k 1"
    using round_key_first [OF k] assms(2) by (simp_all add: mem_slice_def drop_take)
  have u: "[0..<11] = [0, 1, 2, 3, 4, 5, 6, 7, 8, 9, 10::nat]" by (simp add: upt_rec)
  have bl: "blit (blit ek 0 a) n b = blit ek 0 (a @ b)" if "length a = n" "n \<le> length ek" for a n b
    using blit_blit_after [of a ek b] that by simp
  have lr: "length (round_key ?k n) = 16" if "n < 15" for n using k that by (rule length_round_key)
  show ?thesis
    using assms(3) by (simp add: aes_expand_key_def f u bl lr round_key_steps [OF assms(1) k] Let_def del: One_nat_def)
qed

section \<open>Keys as blocks\<close>

definition keys_of :: "byte list \<Rightarrow> block list" where
  "keys_of ek = map (\<lambda>r. bytes_block (mem_slice ek (16 * r) 16)) [0..<10]"

definition spec_keys :: "byte list \<Rightarrow> block list" where
  "spec_keys key = map (\<lambda>r. bytes_block (round_key key r)) [0..<10]"

lemma keys_of_expanded: "keys_of (expanded 32 key) = spec_keys key"
  by (simp add: keys_of_def spec_keys_def round_key_def)

lemma keys_of_prefix:
  assumes "\<And>r. r < 10 \<Longrightarrow> mem_slice ek (16 * r) 16 = round_key key r"
  shows "keys_of ek = spec_keys key"
  using assms by (simp add: keys_of_def spec_keys_def)

lemma keys_of_instructions:
  assumes "x86_documented X" and "32 \<le> length key" and "176 \<le> length ek"
  shows "keys_of (aes_expand_key X key ek) = spec_keys (take 32 key)"
    and "length (aes_expand_key X key ek) = length ek"
proof -
  let ?k = "concat (map (round_key (take 32 key)) [0..<11])"
  have k: "\<forall>r \<in> set [0..<11]. length (round_key (take 32 key) r) = 16" using assms(2) by simp
  then have len: "length ?k = 176" using length_pieces [of "[0..<11]" "round_key (take 32 key)" 16] by simp
  have "mem_slice (blit ek 0 ?k) (16 * r) 16 = round_key (take 32 key) r" if "r < 10" for r
  proof -
    have "mem_slice (blit ek 0 ?k) (16 * r) 16 = mem_slice ?k (16 * r) 16"
      using that len by (simp add: mem_slice_def blit_def)
    also have "\<dots> = round_key (take 32 key) ([0..<11] ! r)" using k that by (intro mem_slice_pieces) simp_all
    finally show ?thesis using that by simp
  qed
  then show "keys_of (aes_expand_key X key ek) = spec_keys (take 32 key)"
    unfolding aes_expand_key_eq [OF assms] by (rule keys_of_prefix)
  show "length (aes_expand_key X key ek) = length ek"
    unfolding aes_expand_key_eq [OF assms] using len assms(3) by simp
qed

lemma keys_of_copy:
  assumes "length key = 32" and "240 \<le> length ek"
  shows "keys_of (blit ek 0 (expanded 32 key)) = spec_keys key"
  using assms by (intro keys_of_prefix) (simp add: mem_slice_def blit_def round_key_def)

end
