(* ===== verification/SlowHashLaws.thy ===== *)
theory SlowHashLaws
  imports SlowHashKeys
begin

unbundle bit_operations_syntax

text \<open>
  The branches of \<^verbatim>\<open>slow-hash.c\<close> compute CryptoNight: the keys made by instructions are those of the OAES
  library, the scratchpad is filled and absorbed in the same way, and every pass of the main loop is the
  pass of the specification.
\<close>

section \<open>The main loop\<close>

lemma length_cn_steps [simp]: "length (snd (snd ((spec_step variant t ^^ n) s))) = length (snd (snd s))"
proof (induction n)
  case (Suc n)
  obtain a b pad where "(spec_step variant t ^^ n) s = (a, b, pad)" by (metis prod_cases3)
  with Suc show ?case by (simp add: length_spec_step del: spec_step.simps)
qed simp

lemma loop_on_blocks:
  assumes "\<And>a b pad. length pad = 2 ^ 17 \<Longrightarrow> f (g (a, b, pad)) = g (spec_step variant t (a, b, pad))"
    and "length (snd (snd s)) = 2 ^ 17"
  shows "(f ^^ n) (g s) = g ((spec_step variant t ^^ n) s)"
proof (induction n)
  case (Suc n)
  obtain a b pad where s: "(spec_step variant t ^^ n) s = (a, b, pad)" by (metis prod_cases3)
  with length_cn_steps [where n = n] assms(2) have "length pad = 2 ^ 17" by (metis snd_conv)
  with Suc s show ?case by (simp add: assms(1) del: spec_step.simps)
qed simp

lemma repeat_step_on_blocks:
  assumes "\<And>a b pad. length pad = 2 ^ 17 \<Longrightarrow> f (g (a, b, pad)) = Some (g (spec_step variant t (a, b, pad)))"
    and "length (snd (snd s)) = 2 ^ 17"
  shows "repeat_step f n (g s) = Some (g ((spec_step variant t ^^ n) s))"
  using assms(2)
proof (induction n arbitrary: s)
  case (Suc n)
  obtain a b pad where s: "s = (a, b, pad)" by (metis prod_cases3)
  with Suc.prems have "length pad = 2 ^ 17" by simp
  with assms(1) have "f (g s) = Some (g (spec_step variant t s))" by (simp only: s)
  moreover have "length (snd (snd (spec_step variant t s))) = 2 ^ 17"
    using Suc.prems by (simp only: s length_spec_step snd_conv)
  ultimately show ?case using Suc.IH by (simp add: funpow_swap1)
qed simp

section \<open>Rounds\<close>

definition spec_encrypt :: "block list \<Rightarrow> block \<Rightarrow> block" where
  "spec_encrypt ks b = fold spec_aes ks b"

lemma fold_rounds:
  assumes "\<forall>r \<in> set rs. 16 * r + 16 \<le> length ek" and "\<And>k b. f (block_bytes k) (block_bytes b) = block_bytes (spec_aes k b)"
  shows "fold (\<lambda>r. f (mem_slice ek (16 * r) 16)) rs (block_bytes b) =
    block_bytes (fold spec_aes (map (\<lambda>r. bytes_block (mem_slice ek (16 * r) 16)) rs) b)"
  using assms(1)
proof (induction rs arbitrary: b)
  case (Cons r rs)
  have "f (mem_slice ek (16 * r) 16) (block_bytes b) = block_bytes (spec_aes (bytes_block (mem_slice ek (16 * r) 16)) b)"
    using assms(2) [of "bytes_block (mem_slice ek (16 * r) 16)" b] Cons.prems by simp
  with Cons show ?case by simp
qed simp

lemma aesb_pseudo_round_block:
  "160 \<le> length ek \<Longrightarrow> aesb_pseudo_round (block_bytes b) ek = block_bytes (spec_encrypt (keys_of ek) b)"
  using fold_rounds [of "[0..<10]" ek byte_round b]
  by (simp add: aesb_pseudo_round_bytes spec_encrypt_def keys_of_def)

lemma ten_aesenc_block:
  assumes "x86_documented X" and "160 \<le> length ek"
  shows "ten_aesenc X ek (block_bytes b) = block_bytes (spec_encrypt (keys_of ek) b)"
proof -
  have "[0, 1, 2, 3, 4, 5, 6, 7, 8, 9] = [0..<10::nat]" by (simp add: upt_rec)
  then show ?thesis
    using fold_rounds [of "[0..<10]" ek "\<lambda>k d. aesenc X d k" b] assms(2) x86_documented.aesenc_block [OF assms(1)]
    by (simp add: ten_aesenc_def spec_encrypt_def keys_of_def)
qed

text \<open>A loop that rewrites each block of a buffer once.\<close>

lemma blocks_loop:
  assumes "\<And>i. i < length text \<Longrightarrow> f i (block_bytes (text ! i)) = block_bytes (g i (text ! i))" and "n = length text"
  shows "fold (\<lambda>i out. blit out (16 * i) (f i (mem_slice out (16 * i) 16))) [0..<n] (pad_bytes text) =
    pad_bytes (map (\<lambda>i. g i (text ! i)) [0..<n])"
proof -
  have "fold (\<lambda>i out. blit out (16 * i) (f i (mem_slice out (16 * i) 16))) [0..<k] (pad_bytes text) =
      pad_bytes (map (\<lambda>i. g i (text ! i)) [0..<k] @ drop k text)" if "k \<le> length text" for k
    using that
  proof (induction k)
    case (Suc k)
    let ?t = "map (\<lambda>i. g i (text ! i)) [0..<k] @ drop k text"
    have k: "k < length ?t" "?t ! k = text ! k" using Suc.prems by (simp_all add: nth_append)
    have "?t[k := g k (text ! k)] = map (\<lambda>i. g i (text ! i)) [0..<Suc k] @ drop (Suc k) text"
      using Suc.prems by (simp add: list_update_append Cons_nth_drop_Suc [symmetric])
    moreover have "pad_bytes (?t[k := g k (text ! k)]) = blit (pad_bytes ?t) (16 * k) (f k (mem_slice (pad_bytes ?t) (16 * k) 16))"
      using k Suc.prems by (simp only: blit_pad pad_slice assms(1))
    ultimately show ?case using Suc by simp
  qed simp
  from this [of n] assms(2) show ?thesis by simp
qed

lemma blocks_store:
  assumes "\<And>i. i < n \<Longrightarrow> f i = block_bytes (h i)" and "n \<le> length text"
  shows "fold (\<lambda>i out. blit out (16 * i) (f i)) [0..<n] (pad_bytes text) = pad_bytes (map h [0..<n] @ drop n text)"
  using assms
proof (induction n)
  case (Suc n)
  have "(map h [0..<n] @ drop n text)[n := h n] = map h [0..<Suc n] @ drop (Suc n) text"
    using Suc.prems by (simp add: list_update_append Cons_nth_drop_Suc [symmetric])
  moreover have "blit (pad_bytes (map h [0..<n] @ drop n text)) (16 * n) (f n) = pad_bytes ((map h [0..<n] @ drop n text)[n := h n])"
    using Suc.prems by simp
  ultimately show ?case using Suc by simp
qed simp

lemma map_blocks: "length bs = 8 \<Longrightarrow> map (\<lambda>i. g (bs ! i)) [0..<8] = map g bs"
  by (intro nth_equalityI) simp_all

lemma pseudo_blocks_pad:
  assumes "160 \<le> length ek" and "length text = 8"
  shows "pseudo_blocks ek (pad_bytes text) = pad_bytes (map (spec_encrypt (keys_of ek)) text)"
proof -
  have "fold (\<lambda>i out. blit out (16 * i) (aesb_pseudo_round (mem_slice out (16 * i) 16) ek)) [0..<8] (pad_bytes text) =
      pad_bytes (map (\<lambda>i. spec_encrypt (keys_of ek) (text ! i)) [0..<8])"
    by (rule blocks_loop) (simp_all add: assms aesb_pseudo_round_block)
  then show ?thesis
    by (simp only: pseudo_blocks_def AES_BLOCK_SIZE_def INIT_SIZE_BLK_def map_blocks [OF assms(2)])
qed

lemma aes_pseudo_round_pad:
  assumes "x86_documented X" and "160 \<le> length ek" and "length text = 8"
  shows "aes_pseudo_round X (pad_bytes text) (pad_bytes text) ek INIT_SIZE_BLK = pad_bytes (map (spec_encrypt (keys_of ek)) text)"
proof -
  have "fold (\<lambda>i out. blit out (16 * i) (ten_aesenc X ek (mem_slice (pad_bytes text) (16 * i) 16))) [0..<8] (pad_bytes text) =
      pad_bytes (map (\<lambda>i. spec_encrypt (keys_of ek) (text ! i)) [0..<8] @ drop 8 text)"
    using assms by (intro blocks_store) (simp_all add: ten_aesenc_block)
  also have "map (\<lambda>i. spec_encrypt (keys_of ek) (text ! i)) [0..<8] = map (spec_encrypt (keys_of ek)) text"
    using assms(3) by (rule map_blocks)
  finally show ?thesis
    using assms(3) by (simp add: aes_pseudo_round_def AES_BLOCK_SIZE_def INIT_SIZE_BLK_def mult.commute [of _ 16])
qed

section \<open>Filling and absorbing the scratchpad\<close>

definition spec_fill :: "block list \<Rightarrow> nat \<Rightarrow> block list \<Rightarrow> block list" where
  "spec_fill ks n text = concat (map (\<lambda>i. map (spec_encrypt ks ^^ Suc i) text) [0..<n])"

definition spec_absorb :: "block list \<Rightarrow> nat \<Rightarrow> block list \<Rightarrow> block list \<Rightarrow> block list" where
  "spec_absorb ks n pad text =
    fold (\<lambda>i text. map (\<lambda>j. spec_encrypt ks (xor_pair (text ! j) (pad ! (8 * i + j)))) [0..<8]) [0..<n] text"

lemma length_spec_fill [simp]: "length text = 8 \<Longrightarrow> length (spec_fill ks n text) = 8 * n"
  by (induction n) (simp_all add: spec_fill_def)

lemma length_spec_absorb [simp]: "length text = 8 \<Longrightarrow> length (spec_absorb ks n pad text) = 8"
  by (induction n) (simp_all add: spec_absorb_def)

lemma fill_loop:
  assumes "\<And>t. length t = 8 \<Longrightarrow> f (pad_bytes t) = pad_bytes (map (spec_encrypt ks) t)"
    and "length text = 8" and "128 * n \<le> length hp"
  shows "fold (\<lambda>i (text, hp). let text = f text in (text, blit hp (i * INIT_SIZE_BYTE) text)) [0..<n] (pad_bytes text, hp) =
    (pad_bytes (map (spec_encrypt ks ^^ n) text), blit hp 0 (pad_bytes (spec_fill ks n text)))"
  using assms(3)
proof (induction n)
  case (Suc n)
  have "blit (blit hp 0 (pad_bytes (spec_fill ks n text))) (128 * n) b = blit hp 0 (pad_bytes (spec_fill ks n text) @ b)" for b
    using blit_blit_after [of "pad_bytes (spec_fill ks n text)" hp b] Suc.prems assms(2) by simp
  moreover have "spec_fill ks (Suc n) text = spec_fill ks n text @ map (spec_encrypt ks ^^ Suc n) text"
    by (simp add: spec_fill_def)
  ultimately show ?case
    using Suc assms(1,2)
    by (simp add: INIT_SIZE_BYTE_def INIT_SIZE_BLK_def AES_BLOCK_SIZE_def mult.commute [of _ 128] pad_bytes_append Let_def comp_def)
qed (simp add: spec_fill_def pad_bytes_def blit_def)

lemma MEMORY_blocks: "MEMORY = 16 * 2 ^ 17" "MEMORY div INIT_SIZE_BYTE = 2 ^ 14" "TOTALBLOCKS = 2 ^ 17"
  by (simp_all add: MEMORY_def INIT_SIZE_BYTE_def INIT_SIZE_BLK_def AES_BLOCK_SIZE_def TOTALBLOCKS_def)

lemma fill_whole:
  assumes "length text = 8" and "length hp = MEMORY"
  shows "blit hp 0 (pad_bytes (spec_fill ks (2 ^ 14) text)) = pad_bytes (spec_fill ks (2 ^ 14) text)"
  using assms by (intro blit_full) (simp add: MEMORY_blocks)

lemma fill_sw_pad:
  assumes "160 \<le> length ek" and "length text = 8" and "length hp = MEMORY"
  shows "snd (fill_sw ek (pad_bytes text, hp)) = pad_bytes (spec_fill (keys_of ek) (2 ^ 14) text)"
  using fill_loop [where f = "pseudo_blocks ek" and n = "2 ^ 14", OF pseudo_blocks_pad, OF assms(1) _ assms(2), of hp] assms
  unfolding fill_sw_def MEMORY_blocks(2) by (simp add: fill_whole [OF assms(2,3), simplified] MEMORY_blocks(1))

lemma fill_hw_pad:
  assumes "x86_documented X" and "160 \<le> length ek" and "length text = 8" and "length hp = MEMORY"
  shows "snd (fill_hw X ek (pad_bytes text, hp)) = pad_bytes (spec_fill (keys_of ek) (2 ^ 14) text)"
  using fill_loop [where f = "\<lambda>t. aes_pseudo_round X t t ek INIT_SIZE_BLK" and n = "2 ^ 14", OF aes_pseudo_round_pad, OF assms(1,2) _ assms(3), of hp] assms
  unfolding fill_hw_def MEMORY_blocks(2) by (simp add: fill_whole [OF assms(3,4), simplified] MEMORY_blocks(1))

text \<open>The rounds of the absorption.\<close>

lemma pad_part:
  assumes "8 * i + 8 \<le> length pad" and "j < 8"
  shows "mem_slice (mem_slice (pad_bytes pad) (i * INIT_SIZE_BYTE) INIT_SIZE_BYTE) (16 * j) 16 = block_bytes (pad ! (8 * i + j))"
proof -
  have "mem_slice (mem_slice (pad_bytes pad) (i * 128) 128) (16 * j) 16 = mem_slice (pad_bytes pad) (16 * (8 * i + j)) 16"
    using assms by (simp add: algebra_simps)
  also have "\<dots> = block_bytes (pad ! (8 * i + j))" using assms by (intro pad_slice) simp
  finally show ?thesis by (simp add: INIT_SIZE_BYTE_def INIT_SIZE_BLK_def AES_BLOCK_SIZE_def)
qed

lemma absorb_loop:
  assumes "\<And>i t. i < n \<Longrightarrow> length t = 8 \<Longrightarrow> f i (pad_bytes t) = pad_bytes (map (\<lambda>j. spec_encrypt ks (xor_pair (t ! j) (pad ! (8 * i + j)))) [0..<8])"
    and "length text = 8"
  shows "fold f [0..<n] (pad_bytes text) = pad_bytes (spec_absorb ks n pad text)"
  using assms(1)
proof (induction n)
  case (Suc n)
  have "fold f [0..<n] (pad_bytes text) = pad_bytes (spec_absorb ks n pad text)" using Suc by simp
  moreover have "length (spec_absorb ks n pad text) = 8" using assms(2) by simp
  ultimately have "fold f [0..<Suc n] (pad_bytes text) =
      pad_bytes (map (\<lambda>j. spec_encrypt ks (xor_pair (spec_absorb ks n pad text ! j) (pad ! (8 * n + j)))) [0..<8])"
    using Suc.prems [of n "spec_absorb ks n pad text"] by simp
  then show ?case by (simp add: spec_absorb_def)
qed (simp add: spec_absorb_def)

lemma absorb_hw_pad:
  assumes "x86_documented X" and "160 \<le> length ek" and "length text = 8" and "length pad = 2 ^ 17"
  shows "absorb_hw X ek (pad_bytes pad) (pad_bytes text) = pad_bytes (spec_absorb (keys_of ek) (2 ^ 14) pad text)"
  unfolding absorb_hw_def MEMORY_blocks(2)
proof (rule absorb_loop)
  fix i :: nat and t :: "block list"
  assume i: "i < 2 ^ 14" and t: "length t = 8"
  let ?x = "mem_slice (pad_bytes pad) (i * INIT_SIZE_BYTE) INIT_SIZE_BYTE"
  have "fold (\<lambda>j out. blit out (16 * j) (ten_aesenc X ek (xor_list (mem_slice (pad_bytes t) (16 * j) 16) (mem_slice ?x (16 * j) 16)))) [0..<8] (pad_bytes t) =
      pad_bytes (map (\<lambda>j. spec_encrypt (keys_of ek) (xor_pair (t ! j) (pad ! (8 * i + j)))) [0..<8] @ drop 8 t)"
    using assms(1,2) i t by (intro blocks_store) (simp_all add: pad_part assms(4) ten_aesenc_block)
  then show "aes_pseudo_round_xor X (pad_bytes t) (pad_bytes t) ek ?x INIT_SIZE_BLK =
      pad_bytes (map (\<lambda>j. spec_encrypt (keys_of ek) (xor_pair (t ! j) (pad ! (8 * i + j)))) [0..<8])"
    using t by (simp add: aes_pseudo_round_xor_def AES_BLOCK_SIZE_def INIT_SIZE_BLK_def mult.commute [of _ 16] Let_def)
qed (rule assms(3))

lemma absorb_block:
  assumes "160 \<le> length ek" and "length text = 8" and "8 * i + 8 \<le> length pad"
    and x: "\<And>j t. j < 8 \<Longrightarrow> length t = 8 \<Longrightarrow> f j (pad_bytes t) = pad_bytes (t[j := xor_pair (t ! j) (pad ! (8 * i + j))])"
  shows "fold (\<lambda>j text. let text = f j text in blit text (16 * j) (aesb_pseudo_round (mem_slice text (16 * j) 16) ek)) [0..<8] (pad_bytes text) =
    pad_bytes (map (\<lambda>j. spec_encrypt (keys_of ek) (xor_pair (text ! j) (pad ! (8 * i + j)))) [0..<8])"
proof -
  let ?g = "\<lambda>j. spec_encrypt (keys_of ek) (xor_pair (text ! j) (pad ! (8 * i + j)))"
  have "fold (\<lambda>j text. let text = f j text in blit text (16 * j) (aesb_pseudo_round (mem_slice text (16 * j) 16) ek)) [0..<n] (pad_bytes text) =
      pad_bytes (map ?g [0..<n] @ drop n text)" if "n \<le> 8" for n
    using that
  proof (induction n)
    case (Suc n)
    let ?t = "map ?g [0..<n] @ drop n text"
    have t: "length ?t = 8" "?t ! n = text ! n" using Suc.prems assms(2) by (simp_all add: nth_append)
    have "?t[n := ?g n] = map ?g [0..<Suc n] @ drop (Suc n) text"
      using Suc.prems assms(2) by (simp add: list_update_append Cons_nth_drop_Suc [symmetric])
    moreover have "(let text = f n (pad_bytes ?t) in blit text (16 * n) (aesb_pseudo_round (mem_slice text (16 * n) 16) ek)) = pad_bytes (?t[n := ?g n])"
    proof -
      have "f n (pad_bytes ?t) = pad_bytes (?t[n := xor_pair (text ! n) (pad ! (8 * i + n))])"
        using x [OF _ t(1), of n] Suc.prems by (simp only: t(2))
      moreover have "n < length ?t" using Suc.prems t(1) by simp
      ultimately show ?thesis using assms(1) by (simp only: Let_def) (simp add: aesb_pseudo_round_block)
    qed
    ultimately show ?case using Suc by simp
  qed simp
  from this [of 8] assms(2) show ?thesis by simp
qed

lemma absorb_sw_pad:
  assumes "160 \<le> length ek" and "length text = 8" and "length pad = 2 ^ 17"
  shows "absorb_sw ek (pad_bytes pad) (pad_bytes text) = pad_bytes (spec_absorb (keys_of ek) (2 ^ 14) pad text)"
  unfolding absorb_sw_def MEMORY_blocks(2) AES_BLOCK_SIZE_def INIT_SIZE_BLK_def
proof (rule absorb_loop [OF _ assms(2)], simp only: mult.commute [of _ 16], rule absorb_block [OF assms(1)])
  fix i j :: nat and t :: "block list"
  assume i: "i < 2 ^ 14" and j: "j < 8" and t: "length t = 8"
  have "mem_slice (pad_bytes pad) (i * INIT_SIZE_BYTE + 16 * j) 16 = mem_slice (pad_bytes pad) (16 * (8 * i + j)) 16"
    by (simp add: INIT_SIZE_BYTE_def INIT_SIZE_BLK_def AES_BLOCK_SIZE_def algebra_simps)
  also have "\<dots> = block_bytes (pad ! (8 * i + j))" using i j assms(3) by (intro pad_slice) simp
  finally show "xor_blocks (pad_bytes t) (16 * j) (pad_bytes pad) (i * INIT_SIZE_BYTE + 16 * j) =
      pad_bytes (t[j := xor_pair (t ! j) (pad ! (8 * i + j))])"
    using j t by (simp add: xor_blocks_def xor_pair_simp)
qed (use assms(3) in simp_all)

lemma portable_absorb_pad:
  assumes "160 \<le> length ek" and "length text = 8" and "length pad = 2 ^ 17"
  shows "portable_absorb ek (pad_bytes pad) (pad_bytes text) = pad_bytes (spec_absorb (keys_of ek) (2 ^ 14) pad text)"
  unfolding portable_absorb_def MEMORY_blocks(2) AES_BLOCK_SIZE_def INIT_SIZE_BLK_def
proof (rule absorb_loop [OF _ assms(2)], simp only: mult.commute [of _ 16], rule absorb_block [OF assms(1)])
  fix i j :: nat and t :: "block list"
  assume i: "i < 2 ^ 14" and j: "j < 8" and t: "length t = 8"
  have "drop (i * INIT_SIZE_BYTE + 16 * j) (pad_bytes pad) = drop (16 * (8 * i + j)) (pad_bytes pad)"
    by (simp add: INIT_SIZE_BYTE_def INIT_SIZE_BLK_def AES_BLOCK_SIZE_def algebra_simps)
  moreover have "take 16 (drop (16 * (8 * i + j)) (pad_bytes pad)) = block_bytes (pad ! (8 * i + j))"
    using i j assms(3) pad_slice [of "8 * i + j" pad] by (simp add: mem_slice_def)
  ultimately have "xor_bytes 16 b (drop (i * INIT_SIZE_BYTE + 16 * j) (pad_bytes pad)) = xor_list b (block_bytes (pad ! (8 * i + j)))"
    if "length b = 16" for b
    using that i j assms(3) xor_bytes_take [of b 16 "drop (16 * (8 * i + j)) (pad_bytes pad)"] by simp
  then show "blit (pad_bytes t) (16 * j) (xor_bytes 16 (mem_slice (pad_bytes t) (16 * j) 16) (drop (i * INIT_SIZE_BYTE + 16 * j) (pad_bytes pad))) =
      pad_bytes (t[j := xor_pair (t ! j) (pad ! (8 * i + j))])"
    using j t by simp
qed (use assms(3) in simp_all)

section \<open>The whole function\<close>

definition state_block :: "byte list \<Rightarrow> nat \<Rightarrow> block" where
  "state_block state p = bytes_block (mem_slice state p 16)"

definition state_text :: "byte list \<Rightarrow> block list" where
  "state_text state = map (\<lambda>i. state_block state (64 + 16 * i)) [0..<8]"

text \<open>Steps 2 to 5 of CryptoNight on a state of Keccak: the blocks and the scratchpad before the main loop,
  the scratchpad after it, and the hash.\<close>

definition spec_start :: "byte list \<Rightarrow> block \<times> block \<times> block list" where
  "spec_start state =
    (xor_pair (state_block state 0) (state_block state 32), xor_pair (state_block state 16) (state_block state 48),
     spec_fill (spec_keys (mem_slice state 0 32)) (2 ^ 14) (state_text state))"

definition spec_pad :: "int \<Rightarrow> u64 \<Rightarrow> byte list \<Rightarrow> block list" where
  "spec_pad variant tweak state = snd (snd ((spec_step variant tweak ^^ 2 ^ 19) (spec_start state)))"

definition spec_core :: "extra_hash list \<Rightarrow> int \<Rightarrow> u64 \<Rightarrow> byte list \<Rightarrow> byte list" where
  "spec_core extra_hashes variant tweak state =
    final_hash extra_hashes state
      (pad_bytes (spec_absorb (spec_keys (mem_slice state 32 32)) (2 ^ 14) (spec_pad variant tweak state) (state_text state)))"

lemma state_block_bytes [simp]: "p + 16 \<le> length state \<Longrightarrow> block_bytes (state_block state p) = mem_slice state p 16"
  by (simp add: state_block_def)

lemma length_state_text [simp]: "length (state_text state) = 8"
  by (simp add: state_text_def)

lemma state_text_bytes:
  assumes "length state = 200"
  shows "mem_slice state 64 INIT_SIZE_BYTE = pad_bytes (state_text state)"
proof -
  have "mem_slice state 64 (16 * 8) = concat (map (\<lambda>j. mem_slice state (64 + 16 * j) 16) [0..<8])"
    by (rule mem_slice_concat)
  also have "map (\<lambda>j. mem_slice state (64 + 16 * j) 16) [0..<8] = map block_bytes (state_text state)"
    using assms by (simp add: state_text_def)
  finally show ?thesis by (simp add: pad_bytes_def INIT_SIZE_BYTE_def INIT_SIZE_BLK_def AES_BLOCK_SIZE_def)
qed

lemma U64_state: "length state = 200 \<Longrightarrow> p + 16 \<le> 200 \<Longrightarrow> U64 (mem_slice state p 16) = [fst (state_block state p), snd (state_block state p)]"
  by (simp flip: state_block_bytes)

lemma length_spec_start [simp]: "length (snd (snd (spec_start state))) = 2 ^ 17"
  by (simp add: spec_start_def)

lemma length_spec_pad [simp]: "length (spec_pad variant tweak state) = 2 ^ 17"
  by (simp add: spec_pad_def)

lemma ITER_half: "ITER div 2 = 2 ^ 19"
  by (simp add: ITER_def)

lemma main_loop:
  assumes "\<And>a b pad. length pad = 2 ^ 17 \<Longrightarrow> f (g (a, b, pad)) = g (spec_step variant tweak (a, b, pad))"
  shows "\<exists>a b. (f ^^ (ITER div 2)) (g (spec_start state)) = g (a, b, spec_pad variant tweak state)"
proof -
  obtain a b pad where r: "(spec_step variant tweak ^^ 2 ^ 19) (spec_start state) = (a, b, pad)" by (metis prod_cases3)
  moreover from r have "pad = spec_pad variant tweak state" by (simp add: spec_pad_def)
  moreover have "(f ^^ (ITER div 2)) (g (spec_start state)) = g ((spec_step variant tweak ^^ 2 ^ 19) (spec_start state))"
    unfolding ITER_half by (rule loop_on_blocks [where f = f and g = g]) (rule assms, assumption, rule length_spec_start)
  ultimately show ?thesis by metis
qed

lemma initial_flat:
  assumes "length state = 200"
  shows "flat (spec_start state) = (initial_a state, block_of (initial_b state), pad_bytes (snd (snd (spec_start state))))"
    and "flat_bytes (spec_start state) =
      (block_of (initial_a state), block_of (initial_b state), pad_bytes (snd (snd (spec_start state))))"
  using assms by (simp_all add: spec_start_def flat_def flat_bytes_def initial_a_def initial_b_def U64_state xor_pair_simp Let_def)

lemma cn_hw_core:
  assumes "x86_documented (instr H)" and "length (stack_key H) = 240" and "length hp = MEMORY" and "length state = 200"
  shows "cn_hw H extra_hashes hp variant tweak state =
    (spec_core extra_hashes variant tweak state, pad_bytes (spec_pad variant tweak state))"
proof -
  let ?X = "instr H"
  let ?k = "aes_expand_key ?X state (stack_key H)"
  have k: "keys_of ?k = spec_keys (mem_slice state 0 32)" "160 \<le> length ?k" "176 \<le> length ?k"
    using keys_of_instructions [OF assms(1), of state "stack_key H"] assms(2,4) by (simp_all add: mem_slice_def)
  let ?k2 = "aes_expand_key ?X (drop 32 state) ?k"
  have k2: "keys_of ?k2 = spec_keys (mem_slice state 32 32)" "160 \<le> length ?k2"
    using keys_of_instructions [OF assms(1), of "drop 32 state" ?k] k(2,3) assms(4) by (simp_all add: mem_slice_def)
  obtain t hp' where f: "fill_hw ?X ?k (pad_bytes (state_text state), hp) = (t, hp')" by force
  have hp': "hp' = pad_bytes (snd (snd (spec_start state)))"
    using fill_hw_pad [OF assms(1) k(2) length_state_text [of state] assms(3)] f k(1) by (simp add: spec_start_def)
  obtain a b where "(mix_step ?X True variant tweak ^^ (ITER div 2)) (flat (spec_start state)) = flat (a, b, spec_pad variant tweak state)"
    using main_loop [where f = "mix_step ?X True variant tweak" and g = flat, OF mix_step_flat [OF _ assms(1)]] by blast
  then have loop: "(mix_step ?X True variant tweak ^^ (ITER div 2)) (initial_a state, block_of (initial_b state), hp') =
      ([fst a, snd a], block_bytes b, pad_bytes (spec_pad variant tweak state))"
    by (simp add: initial_flat assms(4) hp') (simp add: flat_def)
  show ?thesis
    by (simp add: cn_hw_def Let_def state_text_bytes assms(4) f loop k2 absorb_hw_pad assms(1) spec_core_def)
qed

lemma import_key_ok:
  assumes "heap_ok H n" "heap_ok H (n + 1)" "heap_ok H (n + 2)" and "32 \<le> length key"
  shows "import_key H n (Some c) key = Inr (Some (c\<lparr>ctx_key := Some (made_key 32 (take 32 key))\<rparr>), expanded 32 (take 32 key))"
  using assms by (simp add: import_key_def oaes_key_import_data_def AES_KEY_SIZE_def replace_key_eq mem_slice_def made_key_def)

lemma alloc_ok: "\<exists>c. fst (oaes_alloc r s True) = Some c"
  by (simp add: oaes_alloc_def oaes_set_option_def oaes_consts Let_def split: prod.split)

lemma fill_sw_state:
  assumes "length state = 200" and "length hp = MEMORY" and "keys_of ek = spec_keys (mem_slice state 0 32)" and "160 \<le> length ek"
  obtains t where "fill_sw ek (pad_bytes (state_text state), hp) = (t, pad_bytes (snd (snd (spec_start state))))"
  using fill_sw_pad [OF assms(4) length_state_text [of state] assms(2)] assms(3)
  by (cases "fill_sw ek (pad_bytes (state_text state), hp)") (simp add: spec_start_def)

lemma software_keys:
  assumes "length state = 200"
  shows "keys_of (expanded 32 (take 32 state)) = spec_keys (mem_slice state 0 32)" "160 \<le> length (expanded 32 (take 32 state))"
    "keys_of (expanded 32 (take 32 (drop 32 state))) = spec_keys (mem_slice state 32 32)" "160 \<le> length (expanded 32 (take 32 (drop 32 state)))"
  using assms by (simp_all add: keys_of_expanded mem_slice_def)

lemma import_keys:
  assumes "\<And>n. heap_ok H n" and "length state = 200"
  shows "import_key H n (Some c) state = Inr (Some (c\<lparr>ctx_key := Some (made_key 32 (take 32 state))\<rparr>), expanded 32 (take 32 state))"
    "import_key H n (Some c) (take AES_KEY_SIZE state) = Inr (Some (c\<lparr>ctx_key := Some (made_key 32 (take 32 state))\<rparr>), expanded 32 (take 32 state))"
    "import_key H n (Some c) (drop 32 state) =
      Inr (Some (c\<lparr>ctx_key := Some (made_key 32 (take 32 (drop 32 state)))\<rparr>), expanded 32 (take 32 (drop 32 state)))"
  using assms by (simp_all add: import_key_ok AES_KEY_SIZE_def)

lemma cn_sw_core:
  assumes "x86_documented (instr H)" and "\<And>n. heap_ok H n" and "length hp = MEMORY" and "length state = 200"
  shows "cn_sw H extra_hashes hp variant tweak state =
    Inr (spec_core extra_hashes variant tweak state, pad_bytes (spec_pad variant tweak state))"
proof -
  let ?X = "instr H"
  obtain c where c: "fst (oaes_alloc (random H) 0 True) = Some c" using alloc_ok [of "random H" 0] by blast
  note k = software_keys [OF assms(4)]
  obtain t where f: "fill_sw (expanded 32 (take 32 state)) (pad_bytes (state_text state), hp) = (t, pad_bytes (snd (snd (spec_start state))))"
    using fill_sw_state [OF assms(4,3) k(1,2)] by blast
  obtain a b where "(mix_step ?X False variant tweak ^^ (ITER div 2)) (flat (spec_start state)) = flat (a, b, spec_pad variant tweak state)"
    using main_loop [where f = "mix_step ?X False variant tweak" and g = flat, OF mix_step_flat [OF _ assms(1)]] by blast
  then have loop: "(mix_step ?X False variant tweak ^^ (ITER div 2)) (initial_a state, block_of (initial_b state), pad_bytes (snd (snd (spec_start state)))) =
      ([fst a, snd a], block_bytes b, pad_bytes (spec_pad variant tweak state))"
    by (simp add: initial_flat assms(4)) (simp add: flat_def)
  show ?thesis
    by (simp add: cn_sw_def Let_def state_text_bytes assms(2,4) c import_keys bind_cn_def f loop k absorb_sw_pad spec_core_def)
qed

lemma portable_halves:
  assumes "length state = 200"
  shows "xor_halves state 0 = block_of (initial_a state)" "xor_halves state 16 = block_of (initial_b state)"
proof -
  have h: "xor_halves state p = block_bytes (xor_pair (state_block state p) (state_block state (p + 32)))" if "p + 48 \<le> 200" for p
  proof -
    have "xor_halves state p = xor_list (mem_slice state p 16) (mem_slice state (p + 32) 16)"
      unfolding xor_halves_def using that assms by (intro nth_equalityI) simp_all
    also have "\<dots> = xor_list (block_bytes (state_block state p)) (block_bytes (state_block state (p + 32)))"
      using that assms by simp
    finally show ?thesis by simp
  qed
  show "xor_halves state 0 = block_of (initial_a state)" "xor_halves state 16 = block_of (initial_b state)"
    using h [of 0] h [of 16] assms by (simp_all add: initial_a_def initial_b_def U64_state xor_pair_simp)
qed

text \<open>The three branches, from a state and a scratchpad with any contents.\<close>

definition spec_tweak :: "int \<Rightarrow> byte list \<Rightarrow> byte list \<Rightarrow> u64" where
  "spec_tweak variant data state =
    (if variant > 0 then join_le (mem_slice state 192 8) XOR join_le (mem_slice data 35 8) else 0)"

lemma VARIANT1_INIT64_eq:
  "VARIANT1_INIT64 variant data len state = (if variant > 0 \<and> len < 43 then Inl Exit_1 else Inr (spec_tweak variant data state))"
  by (simp add: VARIANT1_INIT64_def VARIANT1_CHECK_def spec_tweak_def)

lemma portable_tweak_eq:
  assumes "length state = 200" and "len \<le> length data"
  shows "portable_tweak variant stack data len state =
    (if variant > 0 \<and> len < 43 then Inl Exit_1
     else Inr (if variant > 0 then split_le 8 (spec_tweak variant data state) else stack))"
proof -
  have "xor_bytes 8 (mem_slice state 192 8) (drop 35 data) = split_le 8 (join_le (mem_slice state 192 8) XOR join_le (mem_slice data 35 8) :: u64)"
    if "43 \<le> len"
  proof -
    have "xor_bytes 8 (mem_slice state 192 8) (drop 35 data) = xor_list (mem_slice state 192 8) (mem_slice data 35 8)"
      using that assms by (simp add: xor_bytes_take) (simp add: mem_slice_def)
    also have "\<dots> = split_le 8 (join_le (xor_list (mem_slice state 192 8) (mem_slice data 35 8)) :: u64)"
      using that assms by (intro split_join_le [symmetric]) simp_all
    finally show ?thesis using that assms by (simp add: join_le_xor_list)
  qed
  then show ?thesis by (simp add: portable_tweak_def VARIANT1_CHECK_def spec_tweak_def)
qed

lemma bind_cn_simps [simp]: "bind_cn (Inl e) f = Inl e" "bind_cn (Inr x) f = f x"
  by (simp_all add: bind_cn_def)

lemma hash_process_sponge:
  obtains st where "hash_process data = Some (Inr st)" and "length st = 200" and "st = take 200 (sponge 136 data)"
proof -
  have "\<exists>md. keccak data 200 = Some (Inr md) \<and> int (length md) = 200" using keccak_results [of data 200] by blast
  then obtain md where md: "keccak data 200 = Some (Inr md)" "length md = 200" by auto
  moreover have "md = take 200 (sponge 136 data)" using keccak_is_sponge [of 200 data] md by simp
  ultimately show ?thesis using that by (simp add: hash_process_def keccak1600_def)
qed

lemma initial_state_length:
  assumes "initial_state stack data len prehashed = Inr state" and "length stack = 200" and "len \<le> length data"
  shows "length state = 200"
proof (cases prehashed)
  case True
  with assms show ?thesis by (auto simp: initial_state_def split: if_splits)
next
  case False
  obtain st where "hash_process (take len data) = Some (Inr st)" "length st = 200" by (rule hash_process_sponge)
  with assms(1) False show ?thesis by (simp add: initial_state_def)
qed

lemma cn_slow_hash_portable_eq:
  assumes "\<And>n. heap_ok H n" and "length long_state = MEMORY" and "length (stack_state H) = 200" and "len \<le> length data"
  shows "cn_slow_hash_portable H long_state tweak_stack extra_hashes data len variant prehashed =
    bind_cn (initial_state (stack_state H) data len prehashed) (\<lambda>state.
      if variant > 0 \<and> len < 43 then Inl Exit_1
      else Inr (spec_core extra_hashes variant (spec_tweak variant data state) state))"
proof (cases "initial_state (stack_state H) data len prehashed")
  case (Inr state)
  note st = initial_state_length [OF Inr assms(3,4)]
  let ?t = "spec_tweak variant data state"
  let ?tw = "if variant > 0 then split_le 8 ?t else tweak_stack"
  obtain c where c: "fst (oaes_alloc (random H) 0 True) = Some c" using alloc_ok [of "random H" 0] by blast
  note k = software_keys [OF st]
  obtain t where f: "fill_sw (expanded 32 (take 32 state)) (pad_bytes (state_text state), long_state) = (t, pad_bytes (snd (snd (spec_start state))))"
    using fill_sw_state [OF st assms(2) k(1,2)] by blast
  obtain a b pad where r: "(spec_step variant ?t ^^ 2 ^ 19) (spec_start state) = (a, b, pad)" by (metis prod_cases3)
  then have pad: "pad = spec_pad variant ?t state" by (simp add: spec_pad_def)
  have "repeat_step (portable_step variant ?tw) (2 ^ 19) (flat_bytes (spec_start state)) =
      Some (flat_bytes ((spec_step variant ?t ^^ 2 ^ 19) (spec_start state)))"
    by (rule repeat_step_on_blocks [where g = flat_bytes]) (rule portable_step_flat, assumption, simp, rule length_spec_start)
  then have loop: "repeat_step (portable_step variant ?tw) (ITER div 2)
      (block_of (initial_a state), block_of (initial_b state), pad_bytes (snd (snd (spec_start state)))) =
      Some (block_bytes a, block_bytes b, pad_bytes (spec_pad variant ?t state))"
    by (simp only: ITER_half initial_flat st r pad) (simp add: flat_bytes_def)
  show ?thesis
  proof (cases "variant > 0 \<and> len < 43")
    case True
    then show ?thesis
      by (simp add: cn_slow_hash_portable_def Inr Let_def portable_tweak_eq st assms(4))
  next
    case False
    then show ?thesis
      by (simp add: cn_slow_hash_portable_def Inr Let_def portable_tweak_eq st assms(1,4) c import_keys state_text_bytes f
          portable_halves loop k portable_absorb_pad spec_core_def del: block_of_list)
  qed
qed (simp add: cn_slow_hash_portable_def)

lemma cn_slow_hash_arm_eq:
  assumes "\<And>n. heap_ok H n" and "length long_state = MEMORY" and "length (stack_state H) = 200" and "len \<le> length data"
    and "length expandedKey = 256" and "multiplies product"
  shows "cn_slow_hash_arm product H long_state expandedKey extra_hashes data len variant prehashed =
    bind_cn (initial_state (stack_state H) data len prehashed) (\<lambda>state.
      if variant > 0 \<and> len < 43 then Inl Exit_1
      else Inr (spec_core extra_hashes variant (spec_tweak variant data state) state))"
proof (cases "initial_state (stack_state H) data len prehashed")
  case (Inr state)
  note st = initial_state_length [OF Inr assms(3,4)]
  let ?t = "spec_tweak variant data state"
  let ?k = "blit expandedKey 0 (expanded 32 (take 32 state))"
  let ?k2 = "blit ?k 0 (expanded 32 (take 32 (drop 32 state)))"
  obtain c where c: "fst (oaes_alloc (random H) 0 True) = Some c" using alloc_ok [of "random H" 0] by blast
  have k: "keys_of ?k = spec_keys (mem_slice state 0 32)" "160 \<le> length ?k"
      "keys_of ?k2 = spec_keys (mem_slice state 32 32)" "160 \<le> length ?k2"
    using st assms(5) by (simp_all add: keys_of_copy mem_slice_def)
  obtain t where f: "fill_sw ?k (pad_bytes (state_text state), long_state) = (t, pad_bytes (snd (snd (spec_start state))))"
    using fill_sw_state [OF st assms(2) k(1,2)] by blast
  obtain a b where "(arm_step product variant ?t ^^ (ITER div 2)) (flat_bytes (spec_start state)) = flat_bytes (a, b, spec_pad variant ?t state)"
    using main_loop [where f = "arm_step product variant ?t" and g = flat_bytes, OF arm_step_flat [OF _ assms(6)]] by blast
  then have loop: "(arm_step product variant ?t ^^ (ITER div 2)) (block_of (initial_a state), block_of (initial_b state), pad_bytes (snd (snd (spec_start state)))) =
      (block_bytes a, block_bytes b, pad_bytes (spec_pad variant ?t state))"
    by (simp only: initial_flat st) (simp add: flat_bytes_def)
  show ?thesis
    by (simp add: cn_slow_hash_arm_def Inr Let_def VARIANT1_INIT64_eq st assms(1,4) c import_keys state_text_bytes f
          loop k absorb_sw_pad spec_core_def)
qed (simp add: cn_slow_hash_arm_def)

section \<open>The scratchpad of a thread\<close>

text \<open>The invariant of \<open>hp_state\<close> and \<open>hp_allocated\<close>, and what \<open>mmap\<close> and \<open>malloc\<close> give.\<close>

definition cn_thread_ok :: "cn_thread \<Rightarrow> bool" where
  "cn_thread_ok T \<longleftrightarrow>
    (case hp_state T of None \<Rightarrow> \<not> hp_allocated T
     | Some (origin, hp) \<Rightarrow> length hp = MEMORY \<and> (hp_allocated T \<longleftrightarrow> origin = Mmap))"

definition host_ok :: "cn_host \<Rightarrow> bool" where
  "host_ok H \<longleftrightarrow>
    x86_documented (instr H) \<and> (\<forall>hp. mmap_pad H = Some hp \<longrightarrow> length hp = MEMORY) \<and>
    (\<forall>hp. malloc_pad H = Some hp \<longrightarrow> length hp = MEMORY) \<and> length (stack_state H) = 200 \<and> length (stack_key H) = 240"

lemma cn_thread_ok_allocate:
  "host_ok H \<Longrightarrow> cn_thread_ok T \<Longrightarrow> cn_thread_ok (slow_hash_allocate_state H T)"
  by (auto simp: cn_thread_ok_def host_ok_def slow_hash_allocate_state_def Let_def split: option.splits)

lemma cn_thread_ok_free:
  assumes "cn_thread_ok T"
  shows "cn_thread_ok (fst (slow_hash_free_state T))" and "snd (slow_hash_free_state T) = map_option fst (hp_state T)"
proof -
  have "cn_thread_ok (fst (slow_hash_free_state T)) \<and> snd (slow_hash_free_state T) = map_option fst (hp_state T)"
  proof (cases "hp_state T")
    case (Some p)
    obtain source hp where "p = (source, hp)" by force
    with assms Some show ?thesis by (cases source) (simp_all add: cn_thread_ok_def slow_hash_free_state_def)
  qed (use assms in \<open>simp add: cn_thread_ok_def slow_hash_free_state_def\<close>)
  then show "cn_thread_ok (fst (slow_hash_free_state T))" "snd (slow_hash_free_state T) = map_option fst (hp_state T)" by simp_all
qed

lemma thread_flags:
  "hp_state (fst (force_software_aes H T)) = hp_state T" "hp_allocated (fst (force_software_aes H T)) = hp_allocated T"
  "hp_state (fst (check_aes_hw H T)) = hp_state T" "hp_allocated (fst (check_aes_hw H T)) = hp_allocated T"
  by (simp_all add: force_software_aes_def check_aes_hw_def Let_def)

text \<open>The function after the choice of the branch and the allocation.\<close>

lemma cn_slow_hash_cases:
  obtains T' useAes where
    "cn_slow_hash H extra_hashes T data len variant prehashed =
      (case bind_cn (initial_state (stack_state H) data len prehashed) (\<lambda>state.
          bind_cn (VARIANT1_INIT64 variant data len state) (\<lambda>tweak1_2.
          case hp_state T' of None \<Rightarrow> Inl Null_pointer
          | Some (origin, hp) \<Rightarrow>
              bind_cn (if useAes then Inr (cn_hw H extra_hashes hp variant tweak1_2 state)
                   else cn_sw H extra_hashes hp variant tweak1_2 state) (\<lambda>(hash, hp).
              Inr (hash, T'\<lparr>hp_state := Some (origin, hp)\<rparr>)))) of
        Inl e \<Rightarrow> (Inl e, T')
      | Inr (hash, T) \<Rightarrow> (Inr hash, T))"
    and "hp_state T' = hp_state (slow_hash_allocate_state H T)" and "hp_allocated T' = hp_allocated (slow_hash_allocate_state H T)"
proof -
  obtain T1 forced where 1: "force_software_aes H T = (T1, forced)" by force
  obtain T2 useAes where 2: "(if forced then (T1, False) else check_aes_hw H T1) = (T2, useAes)" by force
  have same: "hp_state T2 = hp_state T" "hp_allocated T2 = hp_allocated T"
    using thread_flags [of H T] thread_flags [of H T1] 1 2 by (auto split: if_splits)
  show ?thesis
    by (rule that [of "if hp_state T2 = None then slow_hash_allocate_state H T2 else T2" useAes])
       (cases "hp_state T"; simp add: cn_slow_hash_def 1 2 same slow_hash_allocate_state_def Let_def)+
qed

lemma cn_slow_hash_eq:
  assumes "host_ok H" and "cn_thread_ok T" and "\<And>n. heap_ok H n" and "len \<le> length data"
    and "hp_state (slow_hash_allocate_state H T) \<noteq> None"
  shows "fst (cn_slow_hash H extra_hashes T data len variant prehashed) =
    bind_cn (initial_state (stack_state H) data len prehashed) (\<lambda>state.
      if variant > 0 \<and> len < 43 then Inl Exit_1
      else Inr (spec_core extra_hashes variant (spec_tweak variant data state) state))"
    and "cn_thread_ok (snd (cn_slow_hash H extra_hashes T data len variant prehashed))"
proof -
  obtain T' useAes where T': "cn_slow_hash H extra_hashes T data len variant prehashed =
      (case bind_cn (initial_state (stack_state H) data len prehashed) (\<lambda>state.
          bind_cn (VARIANT1_INIT64 variant data len state) (\<lambda>tweak1_2.
          case hp_state T' of None \<Rightarrow> Inl Null_pointer
          | Some (origin, hp) \<Rightarrow>
              bind_cn (if useAes then Inr (cn_hw H extra_hashes hp variant tweak1_2 state)
                   else cn_sw H extra_hashes hp variant tweak1_2 state) (\<lambda>(hash, hp).
              Inr (hash, T'\<lparr>hp_state := Some (origin, hp)\<rparr>)))) of
        Inl e \<Rightarrow> (Inl e, T')
      | Inr (hash, T) \<Rightarrow> (Inr hash, T))"
    and hp: "hp_state T' = hp_state (slow_hash_allocate_state H T)" "hp_allocated T' = hp_allocated (slow_hash_allocate_state H T)"
    by (rule cn_slow_hash_cases)
  have ok: "cn_thread_ok T'"
    using cn_thread_ok_allocate [OF assms(1,2)] unfolding cn_thread_ok_def by (simp only: hp)
  obtain origin pad where p: "hp_state T' = Some (origin, pad)" using assms(5) hp by auto
  have pad: "length pad = MEMORY" "hp_allocated T' \<longleftrightarrow> origin = Mmap" using ok p by (simp_all add: cn_thread_ok_def)
  have body: "(if useAes then Inr (cn_hw H extra_hashes pad variant t state) else cn_sw H extra_hashes pad variant t state) =
      Inr (spec_core extra_hashes variant t state, pad_bytes (spec_pad variant t state))" if "length state = 200" for t state
    using cn_hw_core [of H pad state extra_hashes variant t] cn_sw_core [of H pad state extra_hashes variant t] assms(1,3) pad(1) that
    by (simp add: host_ok_def)
  have st: "length state = 200" if "initial_state (stack_state H) data len prehashed = Inr state" for state
    using initial_state_length [OF that _ assms(4)] assms(1) by (simp add: host_ok_def)
  show "fst (cn_slow_hash H extra_hashes T data len variant prehashed) =
    bind_cn (initial_state (stack_state H) data len prehashed) (\<lambda>state.
      if variant > 0 \<and> len < 43 then Inl Exit_1
      else Inr (spec_core extra_hashes variant (spec_tweak variant data state) state))"
    using st body by (cases "initial_state (stack_state H) data len prehashed") (simp_all add: T' p VARIANT1_INIT64_eq)
  have "cn_thread_ok (T'\<lparr>hp_state := Some (origin, pad_bytes (spec_pad variant t state))\<rparr>)" for t state
    using pad(2) by (simp add: cn_thread_ok_def MEMORY_blocks)
  then show "cn_thread_ok (snd (cn_slow_hash H extra_hashes T data len variant prehashed))"
    using st body ok by (cases "initial_state (stack_state H) data len prehashed") (simp_all add: T' p VARIANT1_INIT64_eq)
qed

text \<open>Neither allocation has succeeded: the result of \<open>malloc\<close> is not checked.\<close>

lemma cn_slow_hash_no_memory:
  assumes "hp_state (slow_hash_allocate_state H T) = None"
  obtains e T' where "cn_slow_hash H extra_hashes T data len variant prehashed = (Inl e, T')"
    and "hp_state T' = None" and "hp_allocated T' = hp_allocated (slow_hash_allocate_state H T)"
    and "initial_state (stack_state H) data len prehashed = Inr state \<Longrightarrow> \<not> (variant > 0 \<and> len < 43) \<Longrightarrow> e = Null_pointer"
proof -
  let ?e = "case initial_state (stack_state H) data len prehashed of Inl e \<Rightarrow> e
    | Inr state \<Rightarrow> if variant > 0 \<and> len < 43 then Exit_1 else Null_pointer"
  obtain T' useAes where T': "cn_slow_hash H extra_hashes T data len variant prehashed =
      (case bind_cn (initial_state (stack_state H) data len prehashed) (\<lambda>state.
          bind_cn (VARIANT1_INIT64 variant data len state) (\<lambda>tweak1_2.
          case hp_state T' of None \<Rightarrow> Inl Null_pointer
          | Some (origin, hp) \<Rightarrow>
              bind_cn (if useAes then Inr (cn_hw H extra_hashes hp variant tweak1_2 state)
                   else cn_sw H extra_hashes hp variant tweak1_2 state) (\<lambda>(hash, hp).
              Inr (hash, T'\<lparr>hp_state := Some (origin, hp)\<rparr>)))) of
        Inl e \<Rightarrow> (Inl e, T')
      | Inr (hash, T) \<Rightarrow> (Inr hash, T))"
    and hp: "hp_state T' = hp_state (slow_hash_allocate_state H T)" "hp_allocated T' = hp_allocated (slow_hash_allocate_state H T)"
    by (rule cn_slow_hash_cases)
  have none: "hp_state T' = None" using hp(1) assms by simp
  have "cn_slow_hash H extra_hashes T data len variant prehashed = (Inl ?e, T')"
    by (cases "initial_state (stack_state H) data len prehashed") (simp_all add: T' none VARIANT1_INIT64_eq)
  from that [OF this none hp(2)] show ?thesis by simp
qed

lemma cn_thread_ok_hash:
  assumes "host_ok H" and "cn_thread_ok T" and "\<And>n. heap_ok H n" and "len \<le> length data"
  shows "cn_thread_ok (snd (cn_slow_hash H extra_hashes T data len variant prehashed))"
proof (cases "hp_state (slow_hash_allocate_state H T) = None")
  case True
  obtain e T' where "cn_slow_hash H extra_hashes T data len variant prehashed = (Inl e, T')"
    and "hp_state T' = None" "hp_allocated T' = hp_allocated (slow_hash_allocate_state H T)"
    using cn_slow_hash_no_memory [OF True] by metis
  with True cn_thread_ok_allocate [OF assms(1,2)] show ?thesis by (simp add: cn_thread_ok_def)
next
  case False
  then show ?thesis using cn_slow_hash_eq(2) [OF assms] by blast
qed

text \<open>The calls of a thread.\<close>

datatype cn_call = Call_allocate | Call_free | Call_hash "byte list" nat int bool

fun after_call :: "cn_host \<Rightarrow> extra_hash list \<Rightarrow> cn_call \<Rightarrow> cn_thread \<Rightarrow> cn_thread" where
  "after_call H extra_hashes Call_allocate T = slow_hash_allocate_state H T"
| "after_call H extra_hashes Call_free T = fst (slow_hash_free_state T)"
| "after_call H extra_hashes (Call_hash data len variant prehashed) T = snd (cn_slow_hash H extra_hashes T data len variant prehashed)"

fun call_ok :: "cn_call \<Rightarrow> bool" where
  "call_ok (Call_hash data len variant prehashed) \<longleftrightarrow> len \<le> length data"
| "call_ok Call_allocate \<longleftrightarrow> True"
| "call_ok Call_free \<longleftrightarrow> True"

lemma cn_thread_ok_calls:
  assumes "host_ok H" and "\<And>n. heap_ok H n" and "list_all call_ok calls"
  shows "cn_thread_ok (fold (after_call H extra_hashes) calls fresh_thread)"
  using assms(3)
proof (induction calls rule: rev_induct)
  case Nil
  then show ?case by (simp add: cn_thread_ok_def fresh_thread_def)
next
  case (snoc c calls)
  then show ?case
    by (cases c) (simp_all add: cn_thread_ok_allocate cn_thread_ok_free cn_thread_ok_hash assms(1,2))
qed

section \<open>The instructions in software\<close>

text \<open>The functions of the repository behave as the instructions do.\<close>

definition soft_x86 :: x86 where
  "soft_x86 = \<lparr>aesenc = aesb_single_round, aeskeygenassist = key_assist,
     mulq = (\<lambda>x y. case mul128 x y of None \<Rightarrow> (0, 0) | Some (lo, hi) \<Rightarrow> (hi, lo))\<rparr>"

interpretation soft: x86_documented soft_x86
proof
  fix s k :: "byte list" and x y :: u64
  assume "length s = 16" "length k = 16"
  then show "aesenc soft_x86 s k = byte_round k s" by (simp add: soft_x86_def aesb_single_round_bytes)
next
  fix x y :: u64
  obtain lo hi where "mul128 x y = Some (lo, hi)" "unat x * unat y = unat hi * 2 ^ 64 + unat lo" using mul128_product [of x y] by blast
  then show "unat (fst (mulq soft_x86 x y)) * 2 ^ 64 + unat (snd (mulq soft_x86 x y)) = unat x * unat y"
    by (simp add: soft_x86_def)
qed (simp add: soft_x86_def)

definition demo_host :: cn_host where
  "demo_host = \<lparr>instr = soft_x86, getenv_aes = None, cpuid1_ecx = 0x02000000, mmap_pad = None, malloc_pad = Some (replicate MEMORY 0),
     heap_ok = (\<lambda>n. True), random = (\<lambda>n. (0, n)), stack_state = replicate 200 0, stack_key = replicate 240 0\<rparr>"

definition demo_hashes :: "extra_hash list" where
  "demo_hashes = replicate 4 (\<lambda>state n. take 32 state)"

lemma demo_host_ok: "host_ok demo_host" "heap_ok demo_host n"
  by (simp_all add: host_ok_def demo_host_def soft.x86_documented_axioms)

lemma fresh_thread_ok: "cn_thread_ok fresh_thread"
  by (simp add: cn_thread_ok_def fresh_thread_def)

lemma demo_host_allocates: "hp_state (slow_hash_allocate_state demo_host fresh_thread) = Some (Malloc, replicate MEMORY 0)"
  by (simp add: slow_hash_allocate_state_def fresh_thread_def demo_host_def)

section \<open>Properties\<close>

text \<open>CryptoNight of a message: the state of Keccak, the tweak of variant 1, and Steps 2 to 5.\<close>

definition cryptonight :: "extra_hash list \<Rightarrow> int \<Rightarrow> byte list \<Rightarrow> byte list" where
  "cryptonight extra_hashes variant data =
    (let state = take 200 (sponge 136 data) in spec_core extra_hashes variant (spec_tweak variant data state) state)"

lemma cn_slow_hash_cryptonight:
  assumes "host_ok H" and "cn_thread_ok T" and "\<forall>n. heap_ok H n" and "len \<le> length data"
    and "hp_state (slow_hash_allocate_state H T) \<noteq> None"
  shows "fst (cn_slow_hash H extra_hashes T data len variant False) =
    (if variant > 0 \<and> len < 43 then Inl Exit_1 else Inr (cryptonight extra_hashes variant (take len data)))"
proof -
  obtain st where st: "hash_process (take len data) = Some (Inr st)" "st = take 200 (sponge 136 (take len data))"
    by (rule hash_process_sponge)
  have "mem_slice (take len data) 35 8 = mem_slice data 35 8" if "\<not> len < 43"
    using that by (simp add: mem_slice_def drop_take min_def)
  then have "spec_tweak variant (take len data) st = spec_tweak variant data st" if "\<not> (variant > 0 \<and> len < 43)"
    using that by (simp add: spec_tweak_def)
  then show ?thesis
    using cn_slow_hash_eq(1) [OF assms(1,2) _ assms(4,5), of extra_hashes variant False] assms(3) st
    by (simp add: initial_state_def cryptonight_def Let_def)
qed

text \<open>C2: \<open>cn_slow_hash\<close> on x86-64 computes CryptoNight with variant 1, with the instructions or with the tables,
  whatever the scratchpad and the stack hold, and ends the process if a variant gets less than 43 bytes.\<close>

theorem cn_slow_hash_digest:
  assumes "host_ok H" and "cn_thread_ok T" and "\<forall>n. heap_ok H n" and "len \<le> length data"
    and "hp_state (slow_hash_allocate_state H T) \<noteq> None"
  shows "fst (cn_slow_hash H extra_hashes T data len variant False) =
    (if variant > 0 \<and> len < 43 then Inl Exit_1 else Inr (cryptonight extra_hashes variant (take len data)))"
  using assms by (rule cn_slow_hash_cryptonight)

lemma cn_slow_hash_digest_witness:
  "fst (cn_slow_hash demo_host demo_hashes fresh_thread (replicate 76 7) 76 1 False) = Inr (cryptonight demo_hashes 1 (replicate 76 7))"
  using cn_slow_hash_digest [OF demo_host_ok(1) fresh_thread_ok, of 76 "replicate 76 7" demo_hashes 1] by (simp add: demo_host_ok demo_host_allocates)

text \<open>C19: After any calls of a thread the scratchpad has 2 MB, \<open>hp_allocated\<close> tells whether \<open>mmap\<close> gave it, and
  \<open>slow_hash_free_state\<close> gives it back to the function that it came from.\<close>

theorem cn_scratchpad_owner:
  assumes "host_ok H" and "\<forall>n. heap_ok H n" and "list_all call_ok calls"
    and "T = fold (after_call H extra_hashes) calls fresh_thread"
  shows "cn_thread_ok T \<and> snd (slow_hash_free_state T) = map_option fst (hp_state T)"
  using cn_thread_ok_calls [OF assms(1) _ assms(3), of extra_hashes] cn_thread_ok_free(2) assms(2,4) by blast

lemma cn_scratchpad_owner_witness:
  "snd (slow_hash_free_state (fold (after_call demo_host demo_hashes) [Call_allocate, Call_free, Call_allocate] fresh_thread)) = Some Malloc"
  using cn_scratchpad_owner [OF demo_host_ok(1), of "[Call_allocate, Call_free, Call_allocate]" _ demo_hashes, OF _ _ refl]
  by (simp add: demo_host_ok demo_host_allocates slow_hash_free_state_def) (simp add: slow_hash_allocate_state_def demo_host_def fresh_thread_def)

text \<open>A state that the caller passes is copied with the length that it gives.\<close>

lemma cn_slow_hash_prehashed_overflow:
  "len > 200 \<Longrightarrow> fst (cn_slow_hash H extra_hashes T data len variant True) = Inl State_overflow"
  by (simp add: cn_slow_hash_def initial_state_def split: prod.split)

end
