(* ===== verification/SlowHashArmv8Laws.thy ===== *)
theory SlowHashArmv8Laws
  imports SlowHashArmv8 SlowHashLaws
begin

unbundle bit_operations_syntax

text \<open>
  The branch for ARMv8-A computes CryptoNight: its instructions give those of x86-64, its expansion of a key
  gives the keys of FIPS 197, and its rounds, which add a key before the substitution and not after the
  mixing, are those of the specification.  The last property joins the four branches of \<open>cn_slow_hash\<close>.
\<close>

section \<open>The instructions of x86-64\<close>

definition x86_of :: "armv8 \<Rightarrow> x86" where
  "x86_of A = \<lparr>aesenc = (\<lambda>s k. xor_list (aesmc A (aese A s neon_zero)) k), aeskeygenassist = key_assist,
     mulq = (\<lambda>x y. (umulh A x y, mul_low A x y))\<rparr>"

lemma xor_list_zero [simp]: "length s = 16 \<Longrightarrow> xor_list s neon_zero = s"
  by (intro nth_equalityI) (simp_all add: neon_zero_def)

lemma length_neon_zero [simp]: "length neon_zero = 16"
  by (simp add: neon_zero_def)

locale armv8_documented =
  fixes A :: armv8
  assumes aese_law: "length s = 16 \<Longrightarrow> length k = 16 \<Longrightarrow> aese A s k = oaes_shift_rows (map oaes_sub_byte (xor_list s k))"
    and aesmc_law: "length s = 16 \<Longrightarrow> aesmc A s = each_column oaes_mix_cols s"
    and mul_law: "mul_low A x y = x * y"
    and umulh_law: "unat (umulh A x y) = unat x * unat y div 2 ^ 64"
begin

lemma aese_aesmc:
  assumes "length s = 16" and "length k = 16" and "length k' = 16"
  shows "xor_list (aesmc A (aese A s k)) k' = byte_round k' (xor_list s k)"
  using assms by (simp add: aese_law aesmc_law byte_round_def add_key_xor mem_slice_def)

lemma length_aesmc [simp]: "length s = 16 \<Longrightarrow> length k = 16 \<Longrightarrow> length (aesmc A (aese A s k)) = 16"
  by (simp add: aese_law aesmc_law)

lemma split_words:
  assumes "length g = 4"
  shows "aese A (g @ g @ g @ g) neon_zero = (let h = map oaes_sub_byte g in h @ h @ h @ h)"
proof -
  obtain g0 g1 g2 g3 where g: "g = [g0, g1, g2, g3]" using assms by (rule length4_cases)
  show ?thesis by (simp add: aese_law g) (simp add: oaes_shift_rows_def)
qed

end

sublocale armv8_documented \<subseteq> x86: x86_documented "x86_of A"
proof
  fix s k :: "byte list"
  assume "length s = 16" "length k = 16"
  then show "aesenc (x86_of A) s k = byte_round k s" by (simp add: x86_of_def aese_aesmc)
next
  fix x y :: u64
  have "unat (x * y) = unat x * unat y mod 2 ^ 64" by (simp add: unat_word_ariths)
  then show "unat (fst (mulq (x86_of A) x y)) * 2 ^ 64 + unat (snd (mulq (x86_of A) x y)) = unat x * unat y"
    by (simp only: x86_of_def x86.simps fst_conv snd_conv mul_law umulh_law div_mult_mod_eq)
qed (simp add: x86_of_def)


section \<open>The keys\<close>

lemma four_copies: "concat (replicate 4 x) = x @ x @ x @ x"
  by (simp add: eval_nat_numeral)

lemma ext_slli: "length x = 16 \<Longrightarrow> neon_ext neon_zero x 12 = slli_si128 x 4"
  by (simp add: neon_ext_def neon_zero_def slli_si128_def)

lemma length_slli [simp]: "length x = 16 \<Longrightarrow> length (slli_si128 x n) = 16"
  by (simp add: slli_si128_def)

definition splat :: "byte \<Rightarrow> byte list" where
  "splat r = concat (replicate 4 [r, 0, 0, 0])"

lemma shl_splat: "neon_shl (splat r) (Suc 0) = splat (2 * r)"
  by (simp add: neon_shl_def splat_def four_copies mult.commute [of r])

lemma splat_words: "concat (map (split_le 4) (take 4 armv8_rcon)) = splat 1"
  by code_simp

lemma rotate_words: "concat (map (split_le 4) (take 4 (drop 4 armv8_rcon))) = concat (replicate 4 [13, 14, 15, 12 :: byte])"
  by code_simp

lemma last_word:
  assumes "length x = 16"
  obtains d w where "x = d @ w" and "length d = 12" and "length w = 4"
  using assms that [of "take 12 x" "drop 12 x"] by simp

lemma tbl_rotates:
  assumes "length w = 4" and "length d = 12"
  shows "neon_tbl (d @ w) (concat (replicate 4 [13, 14, 15, 12])) = (let g = rotate1 w in g @ g @ g @ g)"
proof -
  obtain w0 w1 w2 w3 where w: "w = [w0, w1, w2, w3]" using assms(1) by (rule length4_cases)
  show ?thesis using assms(2) by (simp add: neon_tbl_def w nth_append four_copies)
qed

lemma dup_last: "length d = 12 \<Longrightarrow> length w = 4 \<Longrightarrow> neon_dup (d @ w) 3 = w @ w @ w @ w"
  by (simp add: neon_dup_def mem_slice_def four_copies)

lemma xor_splat:
  assumes "length g = 4"
  shows "xor_list (g @ g @ g @ g) (splat r) = (let h = xor_list g [r, 0, 0, 0] in h @ h @ h @ h)"
proof -
  have "splat r = [r, 0, 0, 0] @ [r, 0, 0, 0] @ [r, 0, 0, 0] @ [r, 0, 0, 0]" by (simp add: splat_def four_copies)
  with assms show ?thesis by (simp add: xor_list_append2 Let_def del: append.simps)
qed

context armv8_documented
begin

lemma expand_even_assist:
  assumes "length v3 = 16" and "length v4 = 16"
  shows "expand_even A (concat (replicate 4 [13, 14, 15, 12])) (splat r, v3, v4, ek, p) =
    (let v3 = aes_256_assist1 v3 (key_assist v4 r) in (splat (2 * r), v3, v4, blit (blit ek p v4) (p + 16) v3, p + 16 + 16))"
proof -
  obtain d w where v4: "v4 = d @ w" "length d = 12" "length w = 4"
    using assms(2) by (rule last_word)
  show ?thesis
    using assms(1) v4(2,3)
    by (simp add: v4(1) aes_256_assist1_def shuffled_assist tbl_rotates split_words xor_splat shl_splat ext_slli Let_def)
qed

lemma expand_odd_assist:
  assumes "length v3 = 16" and "length v4 = 16"
  shows "expand_odd A (v1, v3, v4, ek, p) = (v1, v3, aes_256_assist2 (x86_of A) v3 v4, ek, p)"
proof -
  obtain d w where v3: "v3 = d @ w" "length d = 12" "length w = 4"
    using assms(1) by (rule last_word)
  show ?thesis
    using assms(2) v3(2,3)
    by (simp add: v3(1) aes_256_assist2_def shuffled_assist dup_last split_words ext_slli x86.assist_law Let_def)
qed

end


declare expand_even.simps [simp del] expand_odd.simps [simp del]

section \<open>The expanded key\<close>

definition keys_upto :: "byte list \<Rightarrow> nat \<Rightarrow> byte list" where
  "keys_upto key n = concat (map (round_key key) [0..<n])"

lemma length_keys_upto [simp]: "length key = 32 \<Longrightarrow> n \<le> 15 \<Longrightarrow> length (keys_upto key n) = 16 * n"
  unfolding keys_upto_def by (induction n) simp_all

lemma keys_upto_Suc: "keys_upto key (Suc n) = keys_upto key n @ round_key key n"
  by (simp add: keys_upto_def)

lemma blit_next_key:
  assumes "length key = 32" and "n \<le> 15" and "240 \<le> length ek" and "p = 16 * n"
  shows "blit (blit ek 0 (keys_upto key n)) p (round_key key n) = blit ek 0 (keys_upto key (Suc n))"
  using blit_blit_after [of "keys_upto key n" ek "round_key key n"] assms by (simp add: keys_upto_Suc)

lemma rcon_double: "q < 5 \<Longrightarrow> 2 * rcon (Suc q) = rcon (Suc (Suc q))"
proof -
  assume "q < 5"
  moreover have "list_all (\<lambda>q. 2 * rcon (Suc q) = rcon (Suc (Suc q))) [0..<5]" by code_simp
  ultimately show ?thesis by (simp add: list_all_iff)
qed

text \<open>The registers at the head of the loop.\<close>

definition key_regs :: "byte list \<Rightarrow> byte list \<Rightarrow> nat \<Rightarrow> expand_regs" where
  "key_regs key ek q =
    (splat (rcon (Suc q)), round_key key (2 * q), round_key key (2 * q + 1), blit ek 0 (keys_upto key (2 * q + 1)), 16 * (2 * q + 1))"

definition rotations :: "byte list" where
  "rotations = concat (replicate 4 [13, 14, 15, 12])"

context armv8_documented
begin

lemma expand_even_keys:
  assumes "length key = 32" and "240 \<le> length ek" and "q < 5"
  shows "expand_even A rotations (key_regs key ek q) =
    (splat (rcon (Suc (Suc q))), round_key key (2 * Suc q), round_key key (2 * q + 1), blit ek 0 (keys_upto key (2 * Suc q + 1)), 16 * (2 * Suc q + 1))"
proof -
  have "length (round_key key (2 * q)) = 16" "length (round_key key (2 * q + 1)) = 16" using assms by simp_all
  then show ?thesis
    using assms round_key_even [of key q] blit_next_key [of key "2 * q + 1" ek "16 * (2 * q + 1)"]
      blit_next_key [of key "2 * q + 2" ek "16 * (2 * q + 1) + 16"]
    by (simp add: key_regs_def rotations_def expand_even_assist rcon_double Let_def)
qed

lemma expand_odd_keys:
  assumes "length key = 32" and "240 \<le> length ek" and "q < 5"
  shows "expand_odd A (expand_even A rotations (key_regs key ek q)) = key_regs key ek (Suc q)"
  using assms round_key_odd [OF x86.x86_documented_axioms, of key q]
  by (simp add: expand_even_keys expand_odd_assist) (simp add: key_regs_def eval_nat_numeral)

lemma expand_loop_keys:
  assumes "length key = 32" and "240 \<le> length ek" and "q + n < 5"
  shows "fst (snd (snd (snd (expand_loop A rotations n (key_regs key ek q))))) = blit ek 0 (keys_upto key (2 * (q + n) + 3))"
  using assms(3)
proof (induction n arbitrary: q)
  case 0
  with assms show ?case by (simp add: expand_even_keys) (simp add: eval_nat_numeral)
next
  case (Suc n)
  then show ?case using Suc.IH [of "Suc q"] assms by (simp add: expand_odd_keys)
qed

lemma armv8_expand_key_eq:
  assumes "32 \<le> length key" and "240 \<le> length ek"
  shows "armv8_expand_key A key ek = aes_expand_key (x86_of A) key ek"
proof -
  let ?k = "take 32 key"
  have k: "length ?k = 32" using assms(1) by simp
  have f: "mem_slice key 0 16 = round_key ?k 0" "mem_slice key 16 16 = round_key ?k 1"
    using round_key_first [OF k] assms(1) by (simp_all add: mem_slice_def drop_take)
  have "key_regs ?k ek 0 = (splat 1, round_key ?k 0, round_key ?k 1, blit ek 0 (round_key ?k 0), 16)"
    by (simp add: key_regs_def keys_upto_def rcon_def)
  moreover have "fst (snd (snd (snd (expand_loop A rotations 4 (key_regs ?k ek 0))))) = blit ek 0 (keys_upto ?k 11)"
    using expand_loop_keys [OF k assms(2), of 0 4] by simp
  ultimately have "armv8_expand_key A key ek = blit ek 0 (keys_upto ?k 11)"
    by (simp add: armv8_expand_key_def f splat_words rotate_words rotations_def Let_def split_beta)
  then show ?thesis
    using assms aes_expand_key_eq [OF x86.x86_documented_axioms, of key ek] by (simp add: keys_upto_def)
qed

end


section \<open>The branch computes CryptoNight\<close>

text \<open>The instructions put the key of a round before the substitution, so the sequence is shifted by one key.\<close>

definition shifted_rounds :: "armv8 \<Rightarrow> block \<Rightarrow> block list \<Rightarrow> block \<Rightarrow> byte list" where
  "shifted_rounds A first ks b =
    xor_list (fold (\<lambda>k tmp. aesmc A (aese A tmp (block_bytes k))) (first # butlast ks) (block_bytes b)) (block_bytes (last ks))"

definition zero_block :: block where
  "zero_block = (0, 0)"

lemma neon_zero_block: "neon_zero = block_bytes zero_block"
  by code_simp

lemma xor_zero_block [simp]: "xor_pair b zero_block = b"
  by (simp add: xor_pair_simp zero_block_def)

lemma butlast_keys: "160 \<le> length ek \<Longrightarrow> map block_bytes (butlast (keys_of ek)) = map (\<lambda>i. mem_slice ek (16 * i) 16) [0, 1, 2, 3, 4, 5, 6, 7, 8]"
  and last_key: "160 \<le> length ek \<Longrightarrow> block_bytes (last (keys_of ek)) = mem_slice ek (16 * 9) 16"
  by (simp_all add: keys_of_def upt_rec)

context armv8_documented
begin

lemma aese_aesmc_block: "xor_list (aesmc A (aese A (block_bytes b) (block_bytes k))) (block_bytes k') = block_bytes (spec_aes k' (xor_pair b k))"
  by (simp add: aese_aesmc)

lemma shifted_rounds_encrypt:
  "ks \<noteq> [] \<Longrightarrow> shifted_rounds A k ks b = block_bytes (spec_encrypt ks (xor_pair b k))"
proof (induction ks arbitrary: k b)
  case (Cons k1 ks)
  show ?case
  proof (cases "ks = []")
    case True
    then show ?thesis by (simp add: shifted_rounds_def spec_encrypt_def aese_aesmc_block)
  next
    case False
    define b' where "b' = bytes_block (aesmc A (aese A (block_bytes b) (block_bytes k)))"
    then have b': "aesmc A (aese A (block_bytes b) (block_bytes k)) = block_bytes b'" by simp
    have "shifted_rounds A k (k1 # ks) b = shifted_rounds A k1 ks b'"
      using False by (simp add: shifted_rounds_def b')
    also have "\<dots> = block_bytes (spec_encrypt ks (xor_pair b' k1))"
      using Cons.IH False by simp
    also have "xor_pair b' k1 = spec_aes k1 (xor_pair b k)"
    proof -
      have "block_bytes (xor_pair b' k1) = block_bytes (spec_aes k1 (xor_pair b k))"
        using aese_aesmc_block [of b k k1] by (simp add: b')
      then show ?thesis by (metis bytes_block_bytes)
    qed
    finally show ?thesis by (simp add: spec_encrypt_def)
  qed
qed simp

lemma ten_aese_block:
  assumes "160 \<le> length ek"
  shows "ten_aese A ek (block_bytes k) (block_bytes b) = block_bytes (spec_encrypt (keys_of ek) (xor_pair b k))"
proof -
  have "ten_aese A ek (block_bytes k) (block_bytes b) =
      xor_list (fold (\<lambda>key tmp. aesmc A (aese A tmp key)) (map (\<lambda>i. mem_slice ek (16 * i) 16) [0, 1, 2, 3, 4, 5, 6, 7, 8])
        (aesmc A (aese A (block_bytes b) (block_bytes k)))) (mem_slice ek (16 * 9) 16)"
    by (simp add: ten_aese_def Let_def)
  also have "\<dots> = shifted_rounds A k (keys_of ek) b"
    by (simp only: shifted_rounds_def butlast_keys [OF assms, symmetric] last_key [OF assms, symmetric] fold_map comp_def fold_simps)
  also have "\<dots> = block_bytes (spec_encrypt (keys_of ek) (xor_pair b k))"
    by (rule shifted_rounds_encrypt) (simp add: keys_of_def)
  finally show ?thesis .
qed

lemma pseudo_round_pad:
  assumes "160 \<le> length ek" and "length text = 8"
  shows "armv8_pseudo_round A (pad_bytes text) (pad_bytes text) ek INIT_SIZE_BLK = pad_bytes (map (spec_encrypt (keys_of ek)) text)"
proof -
  have "fold (\<lambda>i out. blit out (16 * i) (ten_aese A ek neon_zero (mem_slice (pad_bytes text) (16 * i) 16))) [0..<8] (pad_bytes text) =
      pad_bytes (map (\<lambda>i. spec_encrypt (keys_of ek) (text ! i)) [0..<8] @ drop 8 text)"
    using assms by (intro blocks_store) (simp_all add: neon_zero_block ten_aese_block)
  also have "map (\<lambda>i. spec_encrypt (keys_of ek) (text ! i)) [0..<8] = map (spec_encrypt (keys_of ek)) text"
    using assms(2) by (rule map_blocks)
  finally show ?thesis
    using assms(2) by (simp add: armv8_pseudo_round_def AES_BLOCK_SIZE_def INIT_SIZE_BLK_def mult.commute [of _ 16])
qed

lemma fill_pad:
  assumes "160 \<le> length ek" and "length text = 8" and "length hp = MEMORY"
  shows "snd (armv8_fill A ek (pad_bytes text, hp)) = pad_bytes (spec_fill (keys_of ek) (2 ^ 14) text)"
  using fill_loop [where f = "\<lambda>t. armv8_pseudo_round A t t ek INIT_SIZE_BLK" and n = "2 ^ 14", OF pseudo_round_pad, OF assms(1) _ assms(2), of hp] assms
  unfolding armv8_fill_def MEMORY_blocks(2) by (simp add: fill_whole [OF assms(2,3), simplified] MEMORY_blocks(1))

lemma absorb_pad:
  assumes "160 \<le> length ek" and "length text = 8" and "length pad = 2 ^ 17"
  shows "armv8_absorb A ek (pad_bytes pad) (pad_bytes text) = pad_bytes (spec_absorb (keys_of ek) (2 ^ 14) pad text)"
  unfolding armv8_absorb_def MEMORY_blocks(2)
proof (rule absorb_loop)
  fix i :: nat and t :: "block list"
  assume i: "i < 2 ^ 14" and t: "length t = 8"
  let ?x = "mem_slice (pad_bytes pad) (i * INIT_SIZE_BYTE) INIT_SIZE_BYTE"
  have "fold (\<lambda>j out. blit out (16 * j) (ten_aese A ek (mem_slice ?x (16 * j) 16) (mem_slice (pad_bytes t) (16 * j) 16))) [0..<8] (pad_bytes t) =
      pad_bytes (map (\<lambda>j. spec_encrypt (keys_of ek) (xor_pair (t ! j) (pad ! (8 * i + j)))) [0..<8] @ drop 8 t)"
    using assms(1) i t by (intro blocks_store) (simp_all add: pad_part assms(3) ten_aese_block)
  then show "armv8_pseudo_round_xor A (pad_bytes t) (pad_bytes t) ek ?x INIT_SIZE_BLK =
      pad_bytes (map (\<lambda>j. spec_encrypt (keys_of ek) (xor_pair (t ! j) (pad ! (8 * i + j)))) [0..<8])"
    using t by (simp add: armv8_pseudo_round_xor_def AES_BLOCK_SIZE_def INIT_SIZE_BLK_def mult.commute [of _ 16] Let_def)
qed (rule assms(2))

lemma armv8_step_eq: "armv8_step A variant t = mix_step (x86_of A) True variant t"
  by (rule ext) (simp add: armv8_step_def mix_step_def armv8_post_aes_def post_aes_def x86_of_def Let_def split_beta)

lemma mul_arm64_multiplies: "multiplies (mul_arm64 A)"
  using x86.mulq_product by (simp add: multiplies_def mul_arm64_def x86_of_def)

lemma cn_slow_hash_armv8_eq:
  assumes "length stack = 200" and "length hp = MEMORY" and "length expandedKey = 240" and "len \<le> length data"
  shows "cn_slow_hash_armv8 A stack expandedKey hp extra_hashes data len variant prehashed =
    bind_cn (initial_state stack data len prehashed) (\<lambda>state.
      if variant > 0 \<and> len < 43 then Inl Exit_1
      else Inr (spec_core extra_hashes variant (spec_tweak variant data state) state))"
proof (cases "initial_state stack data len prehashed")
  case (Inr state)
  note st = initial_state_length [OF Inr assms(1,4)]
  let ?X = "x86_of A" and ?t = "spec_tweak variant data state"
  let ?k = "armv8_expand_key A state expandedKey"
  have k: "keys_of ?k = spec_keys (mem_slice state 0 32)" "160 \<le> length ?k" "length ?k = 240"
    using keys_of_instructions [OF x86.x86_documented_axioms, of state expandedKey] st assms(3)
    by (simp_all add: armv8_expand_key_eq mem_slice_def)
  let ?k2 = "armv8_expand_key A (drop 32 state) ?k"
  have k2: "keys_of ?k2 = spec_keys (mem_slice state 32 32)" "160 \<le> length ?k2"
    using keys_of_instructions [OF x86.x86_documented_axioms, of "drop 32 state" ?k] st k(3)
    by (simp_all add: armv8_expand_key_eq mem_slice_def)
  obtain t hp' where f: "armv8_fill A ?k (pad_bytes (state_text state), hp) = (t, hp')" by force
  have hp': "hp' = pad_bytes (snd (snd (spec_start state)))"
    using fill_pad [OF k(2) length_state_text [of state] assms(2)] f k(1) by (simp add: spec_start_def)
  obtain a b where "(mix_step ?X True variant ?t ^^ (ITER div 2)) (flat (spec_start state)) = flat (a, b, spec_pad variant ?t state)"
    using main_loop [where f = "mix_step ?X True variant ?t" and g = flat, OF mix_step_flat [OF _ x86.x86_documented_axioms]] by blast
  then have loop: "(mix_step ?X True variant ?t ^^ (ITER div 2)) (initial_a state, block_of (initial_b state), hp') =
      ([fst a, snd a], block_bytes b, pad_bytes (spec_pad variant ?t state))"
    by (simp add: initial_flat st hp') (simp add: flat_def)
  show ?thesis
    by (simp add: cn_slow_hash_armv8_def Inr VARIANT1_INIT64_eq Let_def state_text_bytes st f armv8_step_eq loop k2 absorb_pad spec_core_def)
qed (simp add: cn_slow_hash_armv8_def)

end

section \<open>The instructions in software\<close>

definition soft_armv8 :: armv8 where
  "soft_armv8 = \<lparr>aese = (\<lambda>s k. oaes_shift_rows (map oaes_sub_byte (xor_list s k))), aesmc = each_column oaes_mix_cols,
     mul_low = (\<lambda>x y. x * y), umulh = (\<lambda>x y. case mul128 x y of None \<Rightarrow> 0 | Some (lo, hi) \<Rightarrow> hi)\<rparr>"

interpretation soft_arm: armv8_documented soft_armv8
proof
  fix x y :: u64
  obtain lo hi where m: "mul128 x y = Some (lo, hi)" "unat x * unat y = unat hi * 2 ^ 64 + unat lo" using mul128_product [of x y] by blast
  then show "unat (umulh soft_armv8 x y) = unat x * unat y div 2 ^ 64"
    using unat_u64_less [of lo] by (simp add: soft_armv8_def)
qed (simp_all add: soft_armv8_def)

section \<open>Properties\<close>

text \<open>C4: The portable branch, the one for ARM with each of its three products and the one for ARMv8-A with the crypto extension give the result of
  the branch for x86-64, errors included, for any contents of the scratchpads; no assertion of the portable
  branch fails.\<close>

theorem cn_slow_hash_branches:
  assumes "host_ok H" and "cn_thread_ok T" and "\<forall>n. heap_ok H n" and "len \<le> length data"
    and "hp_state (slow_hash_allocate_state H T) \<noteq> None" and "armv8_documented A"
    and "product \<in> {mul_arm, mul_arm32, mul_arm64 A}"
    and "length long_state = MEMORY" and "length expandedKey = 256" and "length key = 240"
  shows "cn_slow_hash_portable H long_state tweak_stack extra_hashes data len variant prehashed =
      fst (cn_slow_hash H extra_hashes T data len variant prehashed) \<and>
    cn_slow_hash_arm product H long_state expandedKey extra_hashes data len variant prehashed =
      fst (cn_slow_hash H extra_hashes T data len variant prehashed) \<and>
    cn_slow_hash_armv8 A (stack_state H) key long_state extra_hashes data len variant prehashed =
      fst (cn_slow_hash H extra_hashes T data len variant prehashed)"
proof -
  have s: "length (stack_state H) = 200" using assms(1) by (simp add: host_ok_def)
  have m: "multiplies product"
    using assms(7) products_multiply armv8_documented.mul_arm64_multiplies [OF assms(6)] by auto
  show ?thesis
    using cn_slow_hash_eq(1) [OF assms(1,2) _ assms(4,5)] cn_slow_hash_portable_eq [OF _ assms(8) s assms(4)]
      cn_slow_hash_arm_eq [OF _ assms(8) s assms(4,9) m] armv8_documented.cn_slow_hash_armv8_eq [OF assms(6) s assms(8,10,4)] assms(3)
    by simp
qed

lemma cn_slow_hash_branches_witness:
  "cn_slow_hash_portable demo_host (replicate MEMORY 5) [] demo_hashes (replicate 76 7) 76 1 False =
      fst (cn_slow_hash demo_host demo_hashes fresh_thread (replicate 76 7) 76 1 False) \<and>
    cn_slow_hash_arm mul_arm32 demo_host (replicate MEMORY 5) (replicate 256 0) demo_hashes (replicate 76 7) 76 1 False =
      fst (cn_slow_hash demo_host demo_hashes fresh_thread (replicate 76 7) 76 1 False) \<and>
    cn_slow_hash_armv8 soft_armv8 (stack_state demo_host) (replicate 240 0) (replicate MEMORY 5) demo_hashes (replicate 76 7) 76 1 False =
      fst (cn_slow_hash demo_host demo_hashes fresh_thread (replicate 76 7) 76 1 False)"
  by (rule cn_slow_hash_branches [OF demo_host_ok(1) fresh_thread_ok])
     (simp_all add: demo_host_ok demo_host_allocates soft_arm.armv8_documented_axioms)

end
