(* ===== verification/SlowHashWindows.thy ===== *)
theory SlowHashWindows
  imports SlowHashLaws
begin

unbundle bit_operations_syntax

text \<open>
  What \<^verbatim>\<open>src/src/hash/monero/slow-hash.c\<close> compiles for Windows only: the privilege for large pages and the
  allocation of the scratchpad with it.  The calls of Windows are an argument; here \<open>Mmap\<close> stands for
  \<open>VirtualAlloc\<close>.  The scratchpad is that of the other hosts, but a token stays open if a call fails.
\<close>

text \<open>\<open>OpenProcessToken\<close>, \<open>LookupPrivilegeValue\<close>, \<open>AdjustTokenPrivileges\<close> of a token with attributes and a privilege,
  with the \<open>GetLastError\<close> after it, and \<open>VirtualAlloc\<close>.\<close>

record windows =
  OpenProcessToken :: "nat option"
  LookupPrivilegeValue :: "u64 option"
  AdjustTokenPrivileges :: "nat \<Rightarrow> u32 \<Rightarrow> u64 \<Rightarrow> bool \<times> u32"
  VirtualAlloc :: "byte list option"

definition SE_PRIVILEGE_ENABLED :: u32 where "SE_PRIVILEGE_ENABLED = 2"
definition ERROR_SUCCESS :: u32 where "ERROR_SUCCESS = 0"

text \<open>The result, and the handles that are open after the call.\<close>

definition SetLockPagesPrivilege :: "windows \<Rightarrow> bool \<Rightarrow> bool \<times> nat list" where
  "SetLockPagesPrivilege W bEnable =
    (case OpenProcessToken W of None \<Rightarrow> (False, [])
     | Some token \<Rightarrow>
         let attributes = (if bEnable then SE_PRIVILEGE_ENABLED else 0)
         in case LookupPrivilegeValue W of None \<Rightarrow> (False, [token])
            | Some luid \<Rightarrow>
                let (ok, last_error) = AdjustTokenPrivileges W token attributes luid
                in if \<not> ok then (False, [token])
                   else if last_error \<noteq> ERROR_SUCCESS then (False, [token])
                   else (True, []))"

definition windows_allocate_state :: "windows \<Rightarrow> cn_host \<Rightarrow> cn_thread \<Rightarrow> cn_thread \<times> nat list" where
  "windows_allocate_state W H T =
    (if hp_state T \<noteq> None then (T, [])
     else
       let (_, handles) = SetLockPagesPrivilege W True;
           T = T\<lparr>hp_state := map_option (Pair Mmap) (VirtualAlloc W), hp_allocated := True\<rparr>
       in (if hp_state T = None
           then T\<lparr>hp_allocated := False, hp_state := map_option (Pair Malloc) (malloc_pad H)\<rparr> else T, handles))"

lemma windows_scratchpad:
  "fst (windows_allocate_state W H T) = slow_hash_allocate_state (H\<lparr>mmap_pad := VirtualAlloc W\<rparr>) T"
  by (simp add: windows_allocate_state_def slow_hash_allocate_state_def Let_def split: prod.split)

lemma windows_scratchpad_owner:
  assumes "host_ok H" and "\<forall>hp. VirtualAlloc W = Some hp \<longrightarrow> length hp = MEMORY" and "cn_thread_ok T"
  shows "cn_thread_ok (fst (windows_allocate_state W H T))"
proof -
  have "host_ok (H\<lparr>mmap_pad := VirtualAlloc W\<rparr>)" using assms(1,2) by (simp add: host_ok_def)
  then show ?thesis using assms(3) by (simp add: windows_scratchpad cn_thread_ok_allocate)
qed

text \<open>A token that was opened is closed exactly if the privilege is granted.\<close>

lemma SetLockPagesPrivilege_leak:
  assumes "OpenProcessToken W = Some token"
  shows "SetLockPagesPrivilege W b = (True, []) \<or> SetLockPagesPrivilege W b = (False, [token])"
  using assms by (auto simp: SetLockPagesPrivilege_def Let_def split: option.splits prod.splits)

lemma windows_allocate_leaks:
  assumes "OpenProcessToken W = Some token" and "LookupPrivilegeValue W = None" and "hp_state T = None"
  shows "snd (windows_allocate_state W H T) = [token]"
  using assms by (simp add: windows_allocate_state_def SetLockPagesPrivilege_def Let_def)

end
