(* ===== verification/MoneroCpu.thy ===== *)
theory MoneroCpu
  imports SlowHashLaws
begin

unbundle bit_operations_syntax

text \<open>
  \<^verbatim>\<open>src/src/hash/monero.cpp\<close>: the entry \<open>monero_standard\<close>, which calls \<open>cn_slow_hash\<close>, and \<open>monero_cpu_fast\<close>,
  which computes variant 1 with eight registers at a time, and the proof that both give the same hash.
\<close>

section \<open>The standard entry\<close>

definition monero_standard :: "cn_host \<Rightarrow> extra_hash list \<Rightarrow> cn_thread \<Rightarrow> byte list \<Rightarrow> nat \<Rightarrow> (cn_error + byte list) \<times> cn_thread" where
  "monero_standard H extra_hashes T data len =
    (if len = 0 then (Inl Assertion_failed, T) else
     let major_version = data ! 0 in
     if \<not> unat major_version \<le> 127 then (Inl Assertion_failed, T) else
     let cn_variant = (if unat major_version \<ge> 7 then uint major_version - 6 else 0)
     in cn_slow_hash H extra_hashes T data len cn_variant False)"

section \<open>The fast entry\<close>

definition sl_xor :: "byte list \<Rightarrow> byte list" where
  "sl_xor tmp1 =
    (let tmp4 = slli_si128 tmp1 0x04;
         tmp1 = xor_list tmp1 tmp4;
         tmp4 = slli_si128 tmp4 0x04;
         tmp1 = xor_list tmp1 tmp4;
         tmp4 = slli_si128 tmp4 0x04
     in xor_list tmp1 tmp4)"

definition aes_genkey_sub :: "x86 \<Rightarrow> byte \<Rightarrow> byte list \<times> byte list \<Rightarrow> byte list \<times> byte list" where
  "aes_genkey_sub X r xout =
    (let (xout0, xout2) = xout;
         xout1 = aeskeygenassist X xout2 r;
         xout1 = shuffle_epi32 xout1 0xFF;
         xout0 = sl_xor xout0;
         xout0 = xor_list xout0 xout1;
         xout1 = aeskeygenassist X xout0 0x00;
         xout1 = shuffle_epi32 xout1 0xAA;
         xout2 = sl_xor xout2;
         xout2 = xor_list xout2 xout1
     in (xout0, xout2))"

text \<open>The registers \<open>k0\<close> to \<open>k9\<close>.\<close>

definition cpu_expand_key :: "x86 \<Rightarrow> byte list \<Rightarrow> byte list list" where
  "cpu_expand_key X memory =
    (let k0 = mem_slice memory 0 16; k1 = mem_slice memory 16 16;
         (k2, k3) = aes_genkey_sub X 0x01 (k0, k1);
         (k4, k5) = aes_genkey_sub X 0x02 (k2, k3);
         (k6, k7) = aes_genkey_sub X 0x04 (k4, k5);
         (k8, k9) = aes_genkey_sub X 0x08 (k6, k7)
     in [k0, k1, k2, k3, k4, k5, k6, k7, k8, k9])"

text \<open>Eight registers are a list of eight blocks, which are loaded and stored in order.\<close>

definition cpu_aes_round :: "x86 \<Rightarrow> byte list \<Rightarrow> byte list list \<Rightarrow> byte list list" where
  "cpu_aes_round X key xs = map (\<lambda>x. aesenc X x key) xs"

definition load_eight :: "byte list \<Rightarrow> nat \<Rightarrow> byte list list" where
  "load_eight mem i = map (\<lambda>j. mem_slice mem (16 * (i + j)) 16) [0..<8]"

definition store_eight :: "byte list \<Rightarrow> nat \<Rightarrow> byte list list \<Rightarrow> byte list" where
  "store_eight mem i xs = fold (\<lambda>j mem. blit mem (16 * (i + j)) (xs ! j)) [0..<8] mem"

definition cn_explode_scratchpad :: "x86 \<Rightarrow> byte list \<Rightarrow> byte list \<Rightarrow> byte list" where
  "cn_explode_scratchpad X inp out =
    (let ks = cpu_expand_key X inp;
         xin = load_eight inp 4
     in snd (fold (\<lambda>n (xin, out). let xin = fold (cpu_aes_round X) ks xin in (xin, store_eight out (8 * n) xin))
          [0..<MEMORY div 16 div 8] (xin, out)))"

definition cn_implode_scratchpad :: "x86 \<Rightarrow> byte list \<Rightarrow> byte list \<Rightarrow> byte list" where
  "cn_implode_scratchpad X inp out =
    (let ks = cpu_expand_key X (drop 32 out);
         xout = load_eight out 4;
         xout = fold (\<lambda>n xout. fold (cpu_aes_round X) ks (map2 xor_list (load_eight inp (8 * n)) xout))
           [0..<MEMORY div 16 div 8] xout
     in store_eight out 4 xout)"

definition fast_index :: "u64 \<Rightarrow> nat" where
  "fast_index idx = unat (idx AND 0x1FFFF0)"

text \<open>One pass: \<open>al0\<close>, \<open>ah0\<close>, \<open>bx0\<close>, \<open>idx0\<close> and the scratchpad.\<close>

definition fast_step :: "x86 \<Rightarrow> u64 \<Rightarrow> u64 \<times> u64 \<times> byte list \<times> u64 \<times> byte list \<Rightarrow> u64 \<times> u64 \<times> byte list \<times> u64 \<times> byte list" where
  "fast_step X tweak1_2_0 st =
    (let (al0, ah0, bx0, idx0, mem) = st;
         m = fast_index idx0;
         cx = mem_slice mem m 16;
         cx = aesenc X cx (block_of [al0, ah0]);
         tmp = xor_list bx0 cx;
         mem = blit mem m (split_le 8 (U64 tmp ! 0));
         vh = U64 tmp ! 1;
         x = (ucast (drop_bit 24 vh) :: byte);
         table = (0x7531 :: u32);
         index = push_bit 1 ((drop_bit 3 x AND 6) OR (x AND 1));
         vh = vh XOR ucast (push_bit 28 (drop_bit (unat index) table AND 0x3));
         mem = blit mem (m + 8) (split_le 8 vh);
         idx0 = U64 cx ! 0;
         m = fast_index idx0;
         bx0 = cx;
         cl = U64 (mem_slice mem m 16) ! 0;
         ch = U64 (mem_slice mem m 16) ! 1;
         (hi, lo) = mulq X idx0 cl;
         al0 = al0 + hi;
         ah0 = ah0 + lo;
         mem = blit mem m (split_le 8 al0);
         mem = blit mem (m + 8) (split_le 8 (ah0 XOR tweak1_2_0));
         al0 = al0 XOR cl;
         ah0 = ah0 XOR ch;
         idx0 = al0
     in (al0, ah0, bx0, idx0, mem))"

definition ITERATIONS :: nat where "ITERATIONS = 2 ^ 19"

definition monero_cpu_fast :: "x86 \<Rightarrow> extra_hash list \<Rightarrow> byte list \<Rightarrow> byte list \<Rightarrow> nat \<Rightarrow> cn_error + byte list" where
  "monero_cpu_fast X extra_hashes stack_memory block_blob len =
    (if \<not> (len \<ge> 76 \<and> len \<le> 80) then Inl Assertion_failed
     else if block_blob ! 0 \<noteq> 7 then Inl Assertion_failed
     else case keccak1600 (take len block_blob) of
       Some (Inr keccak_state) \<Rightarrow>
         let tweak1_2_0 = join_le (mem_slice keccak_state (8 * 24) 8) XOR join_le (mem_slice block_blob 35 8);
             memory = cn_explode_scratchpad X keccak_state stack_memory;
             h0 = (\<lambda>i. join_le (mem_slice keccak_state (8 * i) 8) :: u64);
             al0 = h0 0 XOR h0 4;
             ah0 = h0 1 XOR h0 5;
             bx0 = block_of [h0 2 XOR h0 6, h0 3 XOR h0 7];
             idx0 = al0;
             (al0, ah0, bx0, idx0, memory) = (fast_step X tweak1_2_0 ^^ ITERATIONS) (al0, ah0, bx0, idx0, memory);
             keccak_state = cn_implode_scratchpad X memory keccak_state;
             h = keccakf (map (\<lambda>i. join_le (mem_slice keccak_state (8 * i) 8)) [0..<25]) 24
         in Inr ((extra_hashes ! unat (h ! 0 AND 3)) (state_bytes h) 200)
     | _ \<Rightarrow> Inl Keccak_abort)"

section \<open>Keys and rounds\<close>

lemma aes_genkey_sub_assists:
  "aes_genkey_sub X r (x0, x2) =
    (let y = aes_256_assist1 x0 (aeskeygenassist X x2 r) in (y, aes_256_assist2 X y x2))"
  by (simp add: aes_genkey_sub_def sl_xor_def aes_256_assist1_def aes_256_assist2_def Let_def)

lemma cpu_expand_key_eq:
  assumes "x86_documented X" and "32 \<le> length memory"
  shows "cpu_expand_key X memory = map block_bytes (spec_keys (take 32 memory))"
proof -
  let ?k = "take 32 memory"
  have k: "length ?k = 32" using assms(2) by simp
  have f: "mem_slice memory 0 16 = round_key ?k 0" "mem_slice memory 16 16 = round_key ?k 1"
    using round_key_first [OF k] assms(2) by (simp_all add: mem_slice_def drop_take)
  have u: "[0..<10] = [0, 1, 2, 3, 4, 5, 6, 7, 8, 9::nat]" by (simp add: upt_rec)
  have "cpu_expand_key X memory = map (round_key ?k) [0..<10]"
    by (simp add: cpu_expand_key_def f u aes_genkey_sub_assists round_key_steps [OF assms(1) k] Let_def del: One_nat_def)
  also have "\<dots> = map block_bytes (spec_keys ?k)" using k by (simp add: spec_keys_def)
  finally show ?thesis .
qed

lemma cpu_rounds:
  assumes "x86_documented X"
  shows "fold (cpu_aes_round X) (map block_bytes ks) (map block_bytes bs) = map block_bytes (map (spec_encrypt ks) bs)"
proof (induction ks arbitrary: bs)
  case (Cons k ks)
  have "cpu_aes_round X (block_bytes k) (map block_bytes bs) = map block_bytes (map (spec_aes k) bs)"
    by (simp add: cpu_aes_round_def x86_documented.aesenc_block [OF assms])
  then have "fold (cpu_aes_round X) (map block_bytes (k # ks)) (map block_bytes bs) =
      map block_bytes (map (spec_encrypt ks) (map (spec_aes k) bs))"
    using Cons [of "map (spec_aes k) bs"] by (simp del: map_map)
  then show ?case by (simp add: spec_encrypt_def)
qed (simp add: spec_encrypt_def)

lemma load_eight_pad:
  assumes "8 * n + 8 \<le> length pad"
  shows "load_eight (pad_bytes pad) (8 * n) = map (\<lambda>j. block_bytes (pad ! (8 * n + j))) [0..<8]"
  unfolding load_eight_def by (rule map_cong [OF refl], rule pad_slice) (use assms in auto)

lemma store_eight_blocks:
  assumes "length bs = 8" and "16 * n + 128 \<le> length mem"
  shows "store_eight mem n (map block_bytes bs) = blit mem (16 * n) (pad_bytes bs)"
proof -
  have "fold (\<lambda>j mem. blit mem (16 * (n + j)) (map block_bytes bs ! j)) [0..<k] mem = blit mem (16 * n) (pad_bytes (take k bs))"
    if "k \<le> 8" for k
    using that
  proof (induction k)
    case (Suc k)
    have "blit (blit mem (16 * n) (pad_bytes (take k bs))) (16 * n + 16 * k) b = blit mem (16 * n) (pad_bytes (take k bs) @ b)" for b
      using blit_again_after [of "16 * n" "pad_bytes (take k bs)" mem b] Suc.prems assms by simp
    moreover have "take (Suc k) bs = take k bs @ [bs ! k]" using Suc.prems assms(1) by (simp add: take_Suc_conv_app_nth)
    ultimately show ?case
      using Suc assms(1) by (simp add: pad_bytes_append algebra_simps) (simp add: pad_bytes_def)
  qed (simp add: pad_bytes_def blit_def)
  from this [of 8] assms(1) show ?thesis by (simp add: store_eight_def)
qed

lemma explode_loop:
  assumes "x86_documented X" and "length bs = 8" and "128 * n \<le> length out"
  shows "fold (\<lambda>n (xin, out). let xin = fold (cpu_aes_round X) (map block_bytes ks) xin in (xin, store_eight out (8 * n) xin))
      [0..<n] (map block_bytes bs, out) =
    (map block_bytes (map (spec_encrypt ks ^^ n) bs), blit out 0 (pad_bytes (spec_fill ks n bs)))"
  using assms(3)
proof (induction n)
  case (Suc n)
  have "blit (blit out 0 (pad_bytes (spec_fill ks n bs))) (128 * n) b = blit out 0 (pad_bytes (spec_fill ks n bs) @ b)" for b
    using blit_blit_after [of "pad_bytes (spec_fill ks n bs)" out b] Suc.prems assms(2) by simp
  moreover have "spec_fill ks (Suc n) bs = spec_fill ks n bs @ map (spec_encrypt ks ^^ Suc n) bs"
    by (simp add: spec_fill_def)
  moreover have "length (blit out 0 (pad_bytes (spec_fill ks n bs))) = length out"
    using Suc.prems assms(2) by simp
  moreover have "map (spec_encrypt ks) (map (spec_encrypt ks ^^ n) bs) = map (spec_encrypt ks ^^ Suc n) bs" by simp
  ultimately show ?case
    using Suc assms(2) store_eight_blocks [of "map (spec_encrypt ks ^^ Suc n) bs" "8 * n" "blit out 0 (pad_bytes (spec_fill ks n bs))"]
    by (simp add: cpu_rounds [OF assms(1)] pad_bytes_append Let_def del: map_map funpow.simps)
qed (simp add: spec_fill_def pad_bytes_def blit_def)

lemma explode_state:
  assumes "x86_documented X" and "length state = 200" and "length out = MEMORY"
  shows "cn_explode_scratchpad X state out = pad_bytes (snd (snd (spec_start state)))"
proof -
  have n: "MEMORY div 16 div 8 = 2 ^ 14" by (simp add: MEMORY_def)
  have k: "cpu_expand_key X state = map block_bytes (spec_keys (mem_slice state 0 32))"
    using cpu_expand_key_eq [OF assms(1), of state] assms(2) by (simp add: mem_slice_def)
  have l: "load_eight state 4 = map block_bytes (state_text state)"
    using assms(2) by (simp add: load_eight_def state_text_def)
  have "128 * 2 ^ 14 \<le> length out" using assms(3) by (simp add: MEMORY_def)
  from explode_loop [OF assms(1) length_state_text [of state] this, of "spec_keys (mem_slice state 0 32)"]
  show ?thesis
    unfolding cn_explode_scratchpad_def n k l Let_def
    by (simp only: snd_conv fill_whole [OF length_state_text assms(3)] spec_start_def)
qed

lemma implode_loop:
  assumes "x86_documented X" and "length bs = 8" and "8 * n \<le> length pad"
  shows "fold (\<lambda>n xout. fold (cpu_aes_round X) (map block_bytes ks) (map2 xor_list (load_eight (pad_bytes pad) (8 * n)) xout))
      [0..<n] (map block_bytes bs) = map block_bytes (spec_absorb ks n pad bs)"
  using assms(3)
proof (induction n)
  case (Suc n)
  let ?t = "spec_absorb ks n pad bs"
  have "map2 xor_list (load_eight (pad_bytes pad) (8 * n)) (map block_bytes ?t) =
      map block_bytes (map (\<lambda>j. xor_pair (?t ! j) (pad ! (8 * n + j))) [0..<8])"
    using load_eight_pad [of n pad] Suc.prems assms(2)
    by (intro nth_equalityI) (simp_all add: xor_pair_simp xor.commute)
  moreover have "spec_absorb ks (Suc n) pad bs = map (spec_encrypt ks) (map (\<lambda>j. xor_pair (?t ! j) (pad ! (8 * n + j))) [0..<8])"
    by (simp add: spec_absorb_def)
  ultimately show ?case using Suc by (simp add: cpu_rounds [OF assms(1)] del: map_map)
qed (simp add: spec_absorb_def)

lemma implode_state:
  assumes "x86_documented X" and "length state = 200" and "length pad = 2 ^ 17"
  shows "cn_implode_scratchpad X (pad_bytes pad) state =
    blit state 64 (pad_bytes (spec_absorb (spec_keys (mem_slice state 32 32)) (2 ^ 14) pad (state_text state)))"
proof -
  have n: "MEMORY div 16 div 8 = 2 ^ 14" by (simp add: MEMORY_def)
  have k: "cpu_expand_key X (drop 32 state) = map block_bytes (spec_keys (mem_slice state 32 32))"
    using cpu_expand_key_eq [OF assms(1), of "drop 32 state"] assms(2) by (simp add: mem_slice_def)
  have l: "load_eight state 4 = map block_bytes (state_text state)"
    using assms(2) by (simp add: load_eight_def state_text_def)
  have p: "8 * 2 ^ 14 \<le> length pad" using assms(3) by simp
  show ?thesis
    unfolding cn_implode_scratchpad_def n k l Let_def implode_loop [OF assms(1) length_state_text p]
    using assms(2) by (subst store_eight_blocks) simp_all
qed

section \<open>The main loop\<close>

lemma fast_index_spec: "fast_index x = 16 * spec_index x"
proof -
  have "x AND 0x1FFFF0 = push_bit 4 (drop_bit 4 x AND (of_nat TOTALBLOCKS - 1))"
    by (rule u64_bit_eqI) (simp add: upt_64 TOTALBLOCKS_def MEMORY_def AES_BLOCK_SIZE_def bit_eval)
  then show ?thesis using state_index_spec [of x] by (simp only: fast_index_def state_index_def)
qed

text \<open>The word of a block is tweaked in place, with the table shifted by four bits.\<close>

lemma fast_tweak: "push_bit 28 (drop_bit (unat (push_bit 1 ((drop_bit 3 x AND 6) OR (x AND 1)) :: byte)) (0x7531 :: u32) AND 0x3) =
    push_bit 24 (ucast (tweak_bits x))"
proof -
  have "list_all (\<lambda>x. push_bit 28 (drop_bit (unat (push_bit 1 ((drop_bit 3 x AND 6) OR (x AND 1)) :: byte)) (0x7531 :: u32) AND 0x3) =
      push_bit 24 (ucast (tweak_bits x))) all_bytes"
    by code_simp
  from byte_cases [OF this] show ?thesis .
qed

lemma blit_halves:
  assumes "i < length pad"
  shows "blit (blit (pad_bytes pad) (16 * i) (split_le 8 x)) (16 * i + 8) (split_le 8 y) = pad_bytes (pad[i := (x, y)])"
  using assms blit_again_after [of "16 * i" "split_le 8 x :: byte list" "pad_bytes pad" "split_le 8 y"]
  by (simp add: block_bytes.simps flip: blit_pad)

definition flat_regs :: "block \<times> block \<times> block list \<Rightarrow> u64 \<times> u64 \<times> byte list \<times> u64 \<times> byte list" where
  "flat_regs st = (case st of (a, b, pad) \<Rightarrow> (fst a, snd a, block_bytes b, fst a, pad_bytes pad))"

lemma fast_step_flat:
  assumes "length pad = 2 ^ 17" and "x86_documented X" and "variant > 0"
  shows "fast_step X t (flat_regs (a, b, pad)) = flat_regs (spec_step variant t (a, b, pad))"
proof -
  have i: "spec_index x < length pad" for x using spec_index_less assms(1) by simp
  have w: "ucast (push_bit 28 (drop_bit (unat (push_bit 1 ((drop_bit 3 x AND 6) OR (x AND 1)) :: byte)) (0x7531 :: u32) AND 0x3)) =
      push_bit 24 (ucast (tweak_bits x) :: u64)" for x
  proof -
    have "ucast (push_bit 24 (ucast b :: u32)) = push_bit 24 (ucast b :: u64)" for b :: byte
      by (rule bit_word_eqI) (auto simp: bit_simps dest: bit_imp_le_length)
    then show ?thesis by (simp only: fast_tweak)
  qed
  show ?thesis
    by (simp only: fast_step_def flat_regs_def fast_index_spec Let_def prod.case w)
       (simp add: i blit_halves x86_documented.aesenc_block [OF assms(2)] x86_documented.mulq_product [OF assms(2)]
        spec_tweak1_def spec_tweak2_def assms(3) case_prod_unfold Let_def xor_pair_simp)
qed

section \<open>Both entries agree\<close>

lemma first_byte_mod_4:
  assumes "length h = 25"
  shows "unat (h ! 0 AND 3 :: u64) = unat (state_bytes h ! 0 AND 3)"
proof -
  have b: "state_bytes h ! 0 = ucast (h ! 0)"
    using assms by (cases h) (simp_all add: state_bytes_def nth_append)
  have m: "h ! 0 AND 3 = take_bit 2 (h ! 0)" "(ucast (h ! 0) AND 3 :: byte) = take_bit 2 (ucast (h ! 0))"
    by (simp_all add: take_bit_eq_mask mask_eq_exp_minus_1)
  show ?thesis unfolding b m by (simp add: unsigned_take_bit_eq unsigned_ucast_eq)
qed

lemma initial_flat_regs:
  assumes "length state = 200"
  defines "h0 \<equiv> \<lambda>i. join_le (mem_slice state (8 * i) 8) :: u64"
  shows "flat_regs (spec_start state) =
    (h0 0 XOR h0 4, h0 1 XOR h0 5, block_of [h0 2 XOR h0 6, h0 3 XOR h0 7], h0 0 XOR h0 4, pad_bytes (snd (snd (spec_start state))))"
  using assms(1) by (simp add: flat_regs_def spec_start_def state_block_def bytes_block_def xor_pair_simp h0_def)

lemma monero_cpu_fast_eq:
  assumes "x86_documented X" and "length stack_memory = MEMORY"
  shows "monero_cpu_fast X extra_hashes stack_memory data len =
    (if 76 \<le> len \<and> len \<le> 80 \<and> data ! 0 = 7
     then bind_cn (initial_state stack data len False) (\<lambda>state. Inr (spec_core extra_hashes 1 (spec_tweak 1 data state) state))
     else Inl Assertion_failed)"
proof (cases "76 \<le> len \<and> len \<le> 80 \<and> data ! 0 = 7")
  case True
  obtain state where st: "hash_process (take len data) = Some (Inr state)" "length state = 200" by (rule hash_process_sponge)
  then have kc: "keccak1600 (take len data) = Some (Inr state)" by (simp add: hash_process_def)
  let ?t = "spec_tweak 1 data state"
  have tweak: "join_le (mem_slice state (8 * 24) 8) XOR join_le (mem_slice data 35 8) = ?t" by (simp add: spec_tweak_def)
  have n: "ITERATIONS = ITER div 2" by (simp add: ITERATIONS_def ITER_half)
  have "\<exists>a b. (fast_step X ?t ^^ ITERATIONS) (flat_regs (spec_start state)) = flat_regs (a, b, spec_pad 1 ?t state)"
    unfolding n by (rule main_loop) (rule fast_step_flat [OF _ assms(1)], simp_all)
  then obtain a b where "(fast_step X ?t ^^ ITERATIONS) (flat_regs (spec_start state)) = flat_regs (a, b, spec_pad 1 ?t state)" by blast
  note loop = this [unfolded initial_flat_regs [OF st(2)]]
  let ?s = "blit state 64 (pad_bytes (spec_absorb (spec_keys (mem_slice state 32 32)) (2 ^ 14) (spec_pad 1 ?t state) (state_text state)))"
  let ?h = "keccakf (map (\<lambda>i. join_le (mem_slice ?s (8 * i) 8)) [0..<25]) 24"
  have "length ?h = 25" by (rule length_keccakf [unfolded KECCAK_ROUNDS_def]) simp
  then have final: "(extra_hashes ! unat (?h ! 0 AND 3)) (state_bytes ?h) 200 = spec_core extra_hashes 1 ?t state"
    unfolding spec_core_def final_hash_def hash_permutation_def Let_def by (simp only: first_byte_mod_4)
  have "monero_cpu_fast X extra_hashes stack_memory data len = Inr (spec_core extra_hashes 1 ?t state)"
    using True
    by (simp only: monero_cpu_fast_def kc Let_def option.case sum.case tweak explode_state [OF assms(1) st(2) assms(2)] loop
        flat_regs_def prod.case implode_state [OF assms(1) st(2) length_spec_pad] final) simp
  with True show ?thesis by (simp add: initial_state_def st(1))
qed (auto simp: monero_cpu_fast_def)

lemma monero_standard_eq:
  assumes "host_ok H" and "cn_thread_ok T" and "\<And>n. heap_ok H n" and "len \<le> length data"
    and "hp_state (slow_hash_allocate_state H T) \<noteq> None" and "43 \<le> len" and "data ! 0 = 7"
  shows "fst (monero_standard H extra_hashes T data len) =
    bind_cn (initial_state (stack_state H) data len False) (\<lambda>state. Inr (spec_core extra_hashes 1 (spec_tweak 1 data state) state))"
  using cn_slow_hash_eq(1) [OF assms(1-5), of extra_hashes 1 False] assms(6,7)
  by (auto simp: monero_standard_def Let_def)

text \<open>C3: For version 7 and 76 to 80 bytes \<open>monero_cpu_fast\<close> gives the hash of \<open>monero_standard\<close>, with instructions
  or tables and whatever its stack and the scratchpad of the thread hold; for all else it stops at an assertion.\<close>

theorem monero_cpu_fast_standard:
  assumes "x86_documented X" and "length stack_memory = MEMORY" and "host_ok H" and "cn_thread_ok T" and "\<forall>n. heap_ok H n"
    and "hp_state (slow_hash_allocate_state H T) \<noteq> None" and "len \<le> length data"
  shows "monero_cpu_fast X extra_hashes stack_memory data len =
    (if 76 \<le> len \<and> len \<le> 80 \<and> data ! 0 = 7 then fst (monero_standard H extra_hashes T data len) else Inl Assertion_failed)"
  using monero_cpu_fast_eq [OF assms(1,2), of extra_hashes data len "stack_state H"]
    monero_standard_eq [OF assms(3,4) _ assms(7,6), of extra_hashes] assms(5) by simp

lemma monero_cpu_fast_standard_witness:
  "monero_cpu_fast soft_x86 demo_hashes (replicate MEMORY 1) (7 # replicate 75 0) 76 =
    fst (monero_standard demo_host demo_hashes fresh_thread (7 # replicate 75 0) 76)"
  using monero_cpu_fast_standard [OF soft.x86_documented_axioms _ demo_host_ok(1) fresh_thread_ok, of "replicate MEMORY 1" 76 "7 # replicate 75 0" demo_hashes]
  by (simp add: demo_host_ok demo_host_allocates)

end
