(* ===== verification/MoneroHashes.thy ===== *)
theory MoneroHashes
  imports MoneroCpu SkeinHash JhLaws GroestlLaws BlakeLaws
begin

unbundle bit_operations_syntax

text \<open>
  The table \<open>extra_hashes\<close> of \<^verbatim>\<open>slow-hash.c\<close> and \<^verbatim>\<open>monero.cpp\<close> with the four hashes of the repository, and the hash of
  Monero they make of CryptoNight.  The hashes are functions of what their contexts on the stack hold before the call; the
  digests do not depend on it.
\<close>

section \<open>The table\<close>

record hash_stack =
  blake_stack :: blake_state
  groestl_stack :: groestl_state
  jh_context :: jh_state
  skein_context :: skein_state

definition extra_hashes :: "hash_stack \<Rightarrow> extra_hash list" where
  "extra_hashes S =
    [hash_extra_blake (blake_stack S),
     hash_extra_groestl (groestl_stack S),
     \<lambda>data n. the (hash_extra_jh (jh_context S) data n),
     \<lambda>data n. the (hash_extra_skein (skein_context S) data n)]"

text \<open>The buffers have their sizes.\<close>

definition stack_ok :: "hash_stack \<Rightarrow> bool" where
  "stack_ok S \<longleftrightarrow> length (st_buf (blake_stack S)) = 64 \<and> length (g_buffer (groestl_stack S)) = 64 \<and>
    length (jh_buffer (jh_context S)) = 64 \<and> length (skein_b (skein_u (skein_context S))) = 64"

section \<open>The digests\<close>

definition final_digests :: "extra_hash list" where
  "final_digests =
    [\<lambda>d n. BLAKE256 d, \<lambda>d n. groestl_spec d 0, \<lambda>d n. jh_spec 256 d (8 * n), \<lambda>d n. skein_spec 8 256 d (8 * n)]"

lemma length_BLAKE256: "length (BLAKE256 m) = 32"
  by (simp add: BLAKE256_def length_blake_digest iv256_def)

lemma length_groestl_spec: "length (groestl_spec d r) = 32"
proof -
  have mix: "length (groestl_mix s x) = 64" for s x by (simp add: groestl_mix_def length_concat comp_def sum_list_triv)
  then have p: "length (spec_P x) = 64" "length (spec_Q x) = 64" for x by (simp_all add: spec_P_def spec_Q_def)
  have "length (groestl_chain m n) = 64" for m n
    by (induction n) (simp_all add: groestl_chain_Suc spec_compress_def p, simp add: groestl_chain_def)
  then show ?thesis by (simp add: groestl_spec_def Let_def spec_output_def p)
qed

lemma length_jh_chain: "length H = 128 \<Longrightarrow> length (jh_chain H m) = 128"
proof (induction H m rule: jh_chain.induct)
  case (1 H m)
  show ?case
  proof (cases "length m < 64")
    case True
    then show ?thesis using 1(2) by (simp add: jh_chain.simps)
  next
    case False
    have "length (jh_compress H (take 64 m)) = 128" using False by (simp add: jh_compress_def Let_def spec_E8_def jh_degroup_def)
    then show ?thesis using 1(1) False by (subst jh_chain.simps) simp
  qed
qed

lemma length_jh_spec: "length (jh_spec 256 d n) = 32"
  by (simp add: jh_spec_def length_jh_chain)

text \<open>The final hash calls one of the four with the 200 bytes of the state.\<close>

lemma digest_index: "unat (b AND 3 :: byte) < 4"
proof -
  have "b AND 3 \<le> (3 :: byte)" by (rule word_and_le1)
  then show ?thesis by (simp add: word_le_nat_alt)
qed

lemma extra_hash_values:
  assumes "stack_ok S" and "length d = len" and "len < 2 ^ 31"
  shows "hash_extra_blake (blake_stack S) d len = BLAKE256 d"
    and "hash_extra_groestl (groestl_stack S) d len = groestl_spec d 0"
    and "hash_extra_jh (jh_context S) d len = Some (jh_spec 256 d (8 * len))"
    and "hash_extra_skein (skein_context S) d len = Some (skein_spec 8 256 d (8 * len))"
proof -
  show "hash_extra_blake (blake_stack S) d len = BLAKE256 d"
    using blake_hashes_whole(1) [of "blake_stack S" d] assms by (simp add: hash_extra_blake_def stack_ok_def fresh_buf_def)
  have "len * 8 mod 2 ^ 64 = len * 8" using assms(3) by simp
  then show "hash_extra_groestl (groestl_stack S) d len = groestl_spec d 0"
    using groestl_hash [of "groestl_stack S" "len * 8" d] assms by (simp add: hash_extra_groestl_def stack_ok_def bit_bytes_def)
  show "hash_extra_jh (jh_context S) d len = Some (jh_spec 256 d (8 * len))"
    using jh_hash_bytes [of "jh_context S" d len] assms by (simp add: stack_ok_def)
  show "hash_extra_skein (skein_context S) d len = Some (skein_spec 8 256 d (8 * len))"
    using skein_hash_bytes [of "skein_context S" d len] assms by (simp add: stack_ok_def)
qed

lemma final_digests_nth:
  assumes "stack_ok S" and "length d = 200" and "i < 4"
  shows "(extra_hashes S ! i) d 200 = (final_digests ! i) d 200" and "length ((final_digests ! i) d 200) = 32"
proof -
  have i: "i = 0 \<or> i = 1 \<or> i = 2 \<or> i = 3" using assms(3) by linarith
  then show "(extra_hashes S ! i) d 200 = (final_digests ! i) d 200"
    using extra_hash_values [OF assms(1,2)] by (elim disjE) (simp_all add: extra_hashes_def final_digests_def)
  show "length ((final_digests ! i) d 200) = 32"
    using i by (elim disjE) (simp_all add: final_digests_def length_BLAKE256 length_groestl_spec length_jh_spec length_skein_spec)
qed

lemma final_hash_digest:
  assumes "stack_ok S"
  shows "final_hash (extra_hashes S) state text = final_hash final_digests state text" and "length (final_hash final_digests state text) = 32"
proof -
  have "length (hash_permutation s) = 200" for s
    using length_keccakf [of "map (\<lambda>i. join_le (mem_slice s (8 * i) 8)) [0..<25]"] by (simp add: hash_permutation_def KECCAK_ROUNDS_def)
  then show "final_hash (extra_hashes S) state text = final_hash final_digests state text" "length (final_hash final_digests state text) = 32"
    using final_digests_nth [OF assms _ digest_index] by (simp_all add: final_hash_def Let_def)
qed

lemma cryptonight_digests:
  assumes "stack_ok S"
  shows "cryptonight (extra_hashes S) variant d = cryptonight final_digests variant d" and "length (cryptonight final_digests variant d) = 32"
  using final_hash_digest [OF assms] by (simp_all add: cryptonight_def Let_def spec_core_def)

text \<open>A stack before the calls.\<close>

definition demo_stack :: hash_stack where
  "demo_stack = \<lparr>blake_stack = any_state, groestl_stack = stack_context, jh_context = jh_stack, skein_context = skein_stack 64\<rparr>"

lemma demo_stack_ok: "stack_ok demo_stack"
  by (simp add: stack_ok_def demo_stack_def any_state_def stack_context_def jh_stack_def skein_stack_def)

text \<open>C1: with the four hashes of the repository \<open>monero_standard\<close> gives 32 bytes for every block of a version up to 127, whatever its
  memory holds: the CryptoNight hash that ends in BLAKE-256, Groestl-256, JH-256 or Skein-512-256.  It stops only at an
  assertion for an empty block or a greater version, and for less than 43 bytes from version 7 on.\<close>

theorem monero_standard_digest:
  assumes "host_ok H" and "cn_thread_ok T" and "\<forall>n. heap_ok H n" and "hp_state (slow_hash_allocate_state H T) \<noteq> None"
    and "stack_ok S" and "len \<le> length data"
  shows "fst (monero_standard H (extra_hashes S) T data len) =
    (if len = 0 \<or> 127 < unat (data ! 0) then Inl Assertion_failed
     else if 7 \<le> unat (data ! 0) \<and> len < 43 then Inl Exit_1
     else Inr (cryptonight final_digests (if 7 \<le> unat (data ! 0) then uint (data ! 0) - 6 else 0) (take len data))) \<and>
    length (cryptonight final_digests (if 7 \<le> unat (data ! 0) then uint (data ! 0) - 6 else 0) (take len data)) = 32"
proof -
  define b where "b = data ! 0"
  have "uint b = int (unat b)" by simp
  then have "6 < uint b" if "7 \<le> unat b" using that by linarith
  then have v: "(0 < (if 7 \<le> unat b then uint b - 6 else 0)) = (7 \<le> unat b)" by auto
  have c: "cryptonight (extra_hashes S) v d = cryptonight final_digests v d" "length (cryptonight final_digests v d) = 32" for v d
    using cryptonight_digests [OF assms(5)] by blast+
  have "fst (cn_slow_hash H (extra_hashes S) T data len (if 7 \<le> unat b then uint b - 6 else 0) False) =
      (if 7 \<le> unat b \<and> len < 43 then Inl Exit_1
       else Inr (cryptonight final_digests (if 7 \<le> unat b then uint b - 6 else 0) (take len data)))"
    using cn_slow_hash_cryptonight [OF assms(1-3,6,4), of "extra_hashes S" "if 7 \<le> unat b then uint b - 6 else 0"] unfolding v c .
  then show ?thesis
    unfolding monero_standard_def Let_def b_def [symmetric] by (simp add: c not_le)
qed

lemma monero_standard_digest_witness:
  "fst (monero_standard demo_host (extra_hashes demo_stack) fresh_thread (7 # replicate 75 0) 76) =
    Inr (cryptonight final_digests 1 (7 # replicate 75 0)) \<and>
   fst (monero_standard demo_host (extra_hashes demo_stack) fresh_thread [128] 1) = Inl Assertion_failed"
  using monero_standard_digest [OF demo_host_ok(1) fresh_thread_ok _ _ demo_stack_ok, of 76 "7 # replicate 75 0"]
    monero_standard_digest [OF demo_host_ok(1) fresh_thread_ok _ _ demo_stack_ok, of 1 "[128]"]
  by (simp add: demo_host_ok demo_host_allocates)

text \<open>C13: each of the four hashes returns 32 bytes for data of any length that fits an \<open>int\<close>: the digest of the
  specification, whatever its context on the stack holds; the assertions after JH and Skein never fail.\<close>

theorem extra_hashes_bytes:
  assumes "stack_ok S" and "length d = len" and "len < 2 ^ 31"
  shows "hash_extra_blake (blake_stack S) d len = BLAKE256 d \<and> length (BLAKE256 d) = 32 \<and>
    hash_extra_groestl (groestl_stack S) d len = groestl_spec d 0 \<and> length (groestl_spec d 0) = 32 \<and>
    hash_extra_jh (jh_context S) d len = Some (jh_spec 256 d (8 * len)) \<and> length (jh_spec 256 d (8 * len)) = 32 \<and>
    hash_extra_skein (skein_context S) d len = Some (skein_spec 8 256 d (8 * len)) \<and> length (skein_spec 8 256 d (8 * len)) = 32"
  using extra_hash_values [OF assms] by (simp add: length_BLAKE256 length_groestl_spec length_jh_spec length_skein_spec)

lemma extra_hashes_bytes_witness:
  "hash_extra_jh jh_stack [1, 2, 3] 3 = Some (jh_spec 256 [1, 2, 3] 24) \<and>
   hash_extra_skein (skein_stack 64) [1, 2, 3] 3 = Some (skein_spec 8 256 [1, 2, 3] 24) \<and> length (skein_spec 8 256 [1, 2, 3] 24) = 32"
  using extra_hashes_bytes [OF demo_stack_ok, of "[1, 2, 3]" 3] by (simp add: demo_stack_def)

end
