(* ===== verification/OclDevice.thy ===== *)
theory OclDevice
  imports Sha256 Hex "HOL-Library.Multiset"
begin

unbundle bit_operations_syntax

text \<open>
  The OpenCL host program, \<open>test_device\<close> of \<^verbatim>\<open>src/src/ocl/device.cpp\<close>: it runs the kernel of \<^verbatim>\<open>sha256.cl\<close> twice in 64
  work items and prints their digests.  The runtime, Boost.Compute over an OpenCL device, is an argument, the
  record \<open>opencl\<close>; the locale \<open>opencl_queue\<close> states what its documentation promises of an in-order queue on
  a little-endian device.  The items of a range run in an order that the device chooses.
\<close>

section \<open>The runtime\<close>

text \<open>A kernel maps the number of a work item and its buffers to the buffers that the item leaves.  Buffers are named
  by handles.\<close>

type_synonym kernel = "u32 \<Rightarrow> byte list list \<Rightarrow> byte list list"

record 'd opencl =
  create_buffer :: "nat \<Rightarrow> 'd \<Rightarrow> nat \<times> 'd"
  enqueue_write_buffer :: "nat \<Rightarrow> nat \<Rightarrow> byte list \<Rightarrow> 'd \<Rightarrow> 'd"
  enqueue_1d_range_kernel :: "kernel \<Rightarrow> nat list \<Rightarrow> nat \<Rightarrow> nat \<Rightarrow> nat \<Rightarrow> 'd \<Rightarrow> 'd"
  finish :: "'d \<Rightarrow> 'd"
  enqueue_read_buffer :: "nat \<Rightarrow> nat \<Rightarrow> nat \<Rightarrow> 'd \<Rightarrow> byte list \<times> 'd"

text \<open>The buffers as arrays of \<open>uint\<close>, and the kernel on them.\<close>

definition bytes_words :: "byte list \<Rightarrow> u32 list" where
  "bytes_words bs = map (\<lambda>j. join_le (mem_slice bs (4 * j) 4)) [0..<length bs div 4]"

definition words_bytes :: "u32 list \<Rightarrow> byte list" where
  "words_bytes ws = concat (map (split_le 4) ws)"

definition sha256_kernel :: kernel where
  "sha256_kernel global_id bufs =
    [bufs ! 0, words_bytes (sha256_process_trunk global_id (bytes_words (bufs ! 0)) (bytes_words (bufs ! 1)))]"

section \<open>The host program\<close>

definition sha256_single_block :: "byte list" where
  "sha256_single_block = 0x30 # 0x80 # replicate 54 0 @ [0x00, 0x00, 0x00, 0x00, 0x00, 0x00, 0x00, 0x08]"

definition global_work_size :: nat where
  "global_work_size = 64"

text \<open>The lines that are printed: the log of the compiler and the digests.\<close>

definition test_device :: "'d opencl \<Rightarrow> byte list \<Rightarrow> 'd \<Rightarrow> byte list list" where
  "test_device Q build_log d =
    (let (chunk, d) = create_buffer Q 64 d;
         (digest, d) = create_buffer Q (32 * 100) d;
         local_work_size = 1;
         d = enqueue_write_buffer Q chunk 0 sha256_single_block d;
         d = enqueue_1d_range_kernel Q sha256_kernel [chunk, digest] 0 global_work_size local_work_size d;
         d = finish Q d;
         data = replicate (32 * global_work_size) 0;
         (r, d) = enqueue_read_buffer Q digest 0 (32 * global_work_size) d;
         data = blit data 0 r;
         d = enqueue_write_buffer Q chunk 0 sha256_single_block d;
         d = enqueue_1d_range_kernel Q sha256_kernel [chunk, digest] 0 global_work_size local_work_size d;
         d = finish Q d;
         data = replicate (32 * global_work_size) 0;
         (r, d) = enqueue_read_buffer Q digest 0 (32 * global_work_size) d;
         data = blit data 0 r
     in build_log # map (\<lambda>i. to_hex_string True (mem_slice data (i * 32) 32)) [0..<global_work_size])"

section \<open>What the runtime promises\<close>

text \<open>\<open>bufs d h\<close> is what a buffer holds.\<close>

locale opencl_queue =
  fixes Q :: "'d opencl" and bufs :: "'d \<Rightarrow> nat \<Rightarrow> byte list option"
  assumes create_law: "create_buffer Q n d = (h, d') \<Longrightarrow> bufs d h = None \<and> (\<exists>bs. length bs = n \<and> bufs d' = (bufs d)(h \<mapsto> bs))"
    and write_law: "bufs d h = Some bs \<Longrightarrow> off + length data \<le> length bs \<Longrightarrow>
      bufs (enqueue_write_buffer Q h off data d) = (bufs d)(h \<mapsto> blit bs off data)"
    and range_law: "map (bufs d) hs = map Some args \<Longrightarrow> distinct hs \<Longrightarrow>
      \<exists>order. mset order = mset [off..<off + n] \<and>
        bufs (enqueue_1d_range_kernel Q k hs off n l d) = (bufs d)(hs [\<mapsto>] fold (\<lambda>i. k (of_nat i)) order args)"
    and finish_law: "bufs (finish Q d) = bufs d"
    and read_law: "bufs d h = Some bs \<Longrightarrow> off + n \<le> length bs \<Longrightarrow>
      fst (enqueue_read_buffer Q h off n d) = mem_slice bs off n \<and> bufs (snd (enqueue_read_buffer Q h off n d)) = bufs d"

section \<open>The digests\<close>

text \<open>The padding of FIPS 180-4 and the hash of a message of bytes.\<close>

definition fips_padded :: "byte list \<Rightarrow> byte list" where
  "fips_padded msg = msg @ 0x80 # replicate ((119 - length msg mod 64) mod 64) 0 @ split_be 8 (of_nat (8 * length msg) :: u64)"

definition fips_sha256 :: "byte list \<Rightarrow> byte list" where
  "fips_sha256 msg = concat (map (split_be 4) (fips_hash (map (\<lambda>i. mem_slice (fips_padded msg) (64 * i) 64) [0..<length (fips_padded msg) div 64])))"

lemma words_bytes_words:
  assumes "length bs = 4 * n"
  shows "words_bytes (bytes_words bs) = bs"
proof -
  have "words_bytes (bytes_words bs) = concat (map (\<lambda>j. mem_slice bs (0 + 4 * j) 4) [0..<n])"
    unfolding words_bytes_def bytes_words_def using assms by (intro arg_cong [where f = concat]) (simp add: split_join_le comp_def)
  also have "\<dots> = mem_slice bs 0 (4 * n)" by (rule mem_slice_concat [symmetric])
  finally show ?thesis using assms by simp
qed

lemma length_words_bytes [simp]: "length (words_bytes ws) = 4 * length ws"
  unfolding words_bytes_def by (rule length_pieces) simp

lemma bytes_words_bytes [simp]: "bytes_words (words_bytes ws) = ws"
  unfolding bytes_words_def
  by (rule nth_equalityI) (simp_all, simp_all add: words_bytes_def mem_slice_pieces join_split_le)

lemma length_bytes_words [simp]: "length (bytes_words bs) = length bs div 4"
  by (simp add: bytes_words_def)

lemma words_bytes_slice: "mem_slice (words_bytes ws) (4 * i) (4 * n) = words_bytes (mem_slice ws i n)"
proof -
  have d: "drop (4 * i) (words_bytes ws) = words_bytes (drop i ws)" for i ws
  proof (induction i arbitrary: ws)
    case (Suc i) then show ?case by (cases ws) (simp_all add: words_bytes_def)
  qed simp
  have t: "take (4 * i) (words_bytes ws) = words_bytes (take i ws)" for i ws
  proof (induction i arbitrary: ws)
    case (Suc i) then show ?case by (cases ws) (simp_all add: words_bytes_def)
  qed (simp add: words_bytes_def)
  show ?thesis by (simp add: mem_slice_def d t)
qed

lemma swap_byte_bytes: "split_le 4 (swap_byte w) = (split_be 4 w :: byte list)"
proof -
  have "swap_byte w = join_be (split_le 4 w :: byte list)"
    unfolding swap_byte_def join_be_def split_le_def
    by (rule u32_bit_eqI) (simp only: upt_32, simp add: bit_eval upt_rec impossible_bit)
  then show ?thesis by (simp add: join_be_def split_join_le split_be_def)
qed

text \<open>What the work item \<open>i\<close> stores.\<close>

definition item_digest :: "nat \<Rightarrow> u32 list" where
  "item_digest i = map swap_byte (fips_compress fips_iv (kernel_words (of_nat i) (bytes_words sha256_single_block)))"

lemma item_message: "i < 64 \<Longrightarrow> kernel_words (of_nat i) (bytes_words sha256_single_block) = block_words (fips_padded [0x30 + of_nat i])"
proof -
  have "list_all (\<lambda>i. kernel_words (of_nat i) (bytes_words sha256_single_block) = block_words (fips_padded [0x30 + of_nat i])) [0..<64]"
    by code_simp
  then show "i < 64 \<Longrightarrow> ?thesis" by (simp add: list_all_iff)
qed

lemma item_digest_bytes:
  assumes "i < 64"
  shows "words_bytes (item_digest i) = fips_sha256 [0x30 + of_nat i]" and "length (item_digest i) = 8"
proof -
  have "length (fips_padded [x]) = 64" for x by (simp add: fips_padded_def)
  then show "words_bytes (item_digest i) = fips_sha256 [0x30 + of_nat i]"
    using assms by (simp add: fips_sha256_def fips_hash_def item_digest_def item_message words_bytes_def comp_def swap_byte_bytes)
  show "length (item_digest i) = 8"
    by (simp add: item_digest_def kernel_stores(2) sha256_single_block_def)
qed

lemma items_any_order:
  assumes "mset order = mset [0..<64]" and "length ws = 800"
  defines "ws' \<equiv> fold (\<lambda>i. sha256_process_trunk (of_nat i) (bytes_words sha256_single_block)) order ws"
  shows "length ws' = 800" and "i < 64 \<Longrightarrow> mem_slice ws' (8 * i) 8 = item_digest i"
proof -
  let ?w = "map (\<lambda>i. (8 * i, item_digest i)) order"
  have o: "set order = {..<64}" using mset_eq_setD [OF assms(1)] by (simp only: set_upt atLeast0LessThan)
  have u: "unat (of_nat i * 8 :: u32) = 8 * i" if "i < 64" for i
    using that by (simp add: unat_word_ariths unat_of_nat)
  have "16 \<le> length (bytes_words sha256_single_block)" by (simp add: sha256_single_block_def)
  from kernel_stores(1) [OF this] have step: "sha256_process_trunk (of_nat i) (bytes_words sha256_single_block) ws = blit ws (8 * i) (item_digest i)"
    if "i < 64" for i ws
    by (simp only: item_digest_def u [OF that])
  have ws': "ws' = blits ?w ws"
    unfolding ws'_def blits_def fold_map comp_def prod.case
    by (rule fold_cong) (simp_all add: fun_eq_iff step o)
  have l: "length (item_digest i) = 8" if "i \<in> set order" for i using that o item_digest_bytes(2) by blast
  have fit: "\<forall>(a, bs) \<in> set ?w. a + length bs \<le> length ws"
    using o by (auto simp: assms(2) l)
  then show "length ws' = 800" by (simp only: ws' length_blits assms(2))
  assume i: "i < 64"
  then have li: "length (item_digest i) = 8" "i \<in> set order" using l o by simp_all
  have "mem_slice (blits ?w ws) (8 * i) (length (item_digest i)) = item_digest i"
  proof (rule mem_slice_blits [OF fit])
    show "(8 * i, item_digest i) \<in> set ?w" using li(2) by simp
    show "\<forall>(a', bs') \<in> set ?w. (a', bs') = (8 * i, item_digest i) \<or> 8 * i + length (item_digest i) \<le> a' \<or> a' + length bs' \<le> 8 * i"
    proof
      fix w assume "w \<in> set ?w"
      then obtain j where j: "w = (8 * j, item_digest j)" "j \<in> set order" by auto
      have "j = i \<or> 8 * i + 8 \<le> 8 * j \<or> 8 * j + 8 \<le> 8 * i" by arith
      then show "case w of (a', bs') \<Rightarrow> (a', bs') = (8 * i, item_digest i) \<or> 8 * i + length (item_digest i) \<le> a' \<or> a' + length bs' \<le> 8 * i"
        by (auto simp: j(1) l [OF j(2)] li(1))
    qed
  qed
  then show "mem_slice ws' (8 * i) 8 = item_digest i" by (simp only: ws' li(1))
qed

lemma kernel_items:
  "fold (\<lambda>i. sha256_kernel (of_nat i)) order [chunk, words_bytes ws] =
    [chunk, words_bytes (fold (\<lambda>i. sha256_process_trunk (of_nat i) (bytes_words chunk)) order ws)]"
  by (induction order arbitrary: ws) (simp_all add: sha256_kernel_def)

context opencl_queue
begin

lemma range_digests:
  assumes "bufs d c = Some cs" and "length cs = 64" and "bufs d g = Some gs" and "length gs = 3200" and "c \<noteq> g"
  defines "d' \<equiv> finish Q (enqueue_1d_range_kernel Q sha256_kernel [c, g] 0 64 1 (enqueue_write_buffer Q c 0 sha256_single_block d))"
  obtains gs' where "bufs d' c = Some sha256_single_block" and "bufs d' g = Some gs'" and "length gs' = 3200"
    and "\<And>i. i < 64 \<Longrightarrow> mem_slice gs' (32 * i) 32 = fips_sha256 [0x30 + of_nat i]"
proof -
  let ?d = "enqueue_write_buffer Q c 0 sha256_single_block d"
  have l: "length sha256_single_block = 64" by (simp add: sha256_single_block_def)
  have "bufs ?d = (bufs d)(c \<mapsto> sha256_single_block)"
    using write_law [OF assms(1), of 0 sha256_single_block] assms(2) l by (simp add: blit_full)
  then have "map (bufs ?d) [c, g] = map Some [sha256_single_block, gs]" using assms(3,5) by simp
  from range_law [OF this, where off = 0 and n = 64 and k = sha256_kernel and l = 1] obtain order where o: "mset order = mset [0..<64]"
    and b: "bufs (enqueue_1d_range_kernel Q sha256_kernel [c, g] 0 64 1 ?d) =
      (bufs ?d)([c, g] [\<mapsto>] fold (\<lambda>i. sha256_kernel (of_nat i)) order [sha256_single_block, gs])"
    using assms(5) by auto
  define ws where "ws = bytes_words gs"
  have ws: "gs = words_bytes ws" "length ws = 800"
    using words_bytes_words [of gs 800] assms(4) by (simp_all add: ws_def)
  let ?ws = "fold (\<lambda>i. sha256_process_trunk (of_nat i) (bytes_words sha256_single_block)) order ws"
  note items = items_any_order [OF o ws(2)]
  show ?thesis
  proof (rule that [of "words_bytes ?ws"])
    show "bufs d' c = Some sha256_single_block" "bufs d' g = Some (words_bytes ?ws)"
      using assms(5) by (simp_all add: d'_def finish_law b ws(1) kernel_items del: One_nat_def)
    show "length (words_bytes ?ws) = 3200" using items(1) by simp
    show "mem_slice (words_bytes ?ws) (32 * i) 32 = fips_sha256 [0x30 + of_nat i]" if "i < 64" for i
      using words_bytes_slice [of ?ws "8 * i" 8] items(2) [OF that] item_digest_bytes(1) [OF that] by simp
  qed
qed

lemma test_device_prints:
  "test_device Q build_log d = build_log # map (\<lambda>i. hex_of True (fips_sha256 [0x30 + of_nat i])) [0..<64]"
proof -
  obtain c d1 where 1: "create_buffer Q 64 d = (c, d1)" by force
  obtain g d2 where 2: "create_buffer Q 3200 d1 = (g, d2)" by force
  obtain cs where cs: "length cs = 64" "bufs d1 c = Some cs" using create_law [OF 1] by auto
  obtain gs where gs: "length gs = 3200" "bufs d2 g = Some gs" "bufs d2 = (bufs d1)(g \<mapsto> gs)" using create_law [OF 2] by auto
  have ne: "c \<noteq> g" using create_law [OF 2] cs by auto
  have c2: "bufs d2 c = Some cs" using gs cs ne by simp
  define run where "run d = finish Q (enqueue_1d_range_kernel Q sha256_kernel [c, g] 0 64 1 (enqueue_write_buffer Q c 0 sha256_single_block d))" for d
  obtain g1 where g1: "bufs (run d2) c = Some sha256_single_block" "bufs (run d2) g = Some g1" "length g1 = 3200"
    using range_digests [OF c2 cs(1) gs(2,1) ne] unfolding run_def by blast
  define d3 where "d3 = snd (enqueue_read_buffer Q g 0 2048 (run d2))"
  have d3: "bufs d3 = bufs (run d2)" using read_law [OF g1(2), of 0 2048] g1(3) by (simp add: d3_def)
  have l: "length sha256_single_block = 64" by (simp add: sha256_single_block_def)
  obtain g2 where g2: "bufs (run d3) g = Some g2" "length g2 = 3200"
    "\<And>i. i < 64 \<Longrightarrow> mem_slice g2 (32 * i) 32 = fips_sha256 [0x30 + of_nat i]"
    using range_digests [of d3 c sha256_single_block g g1] g1 l ne unfolding run_def d3 by metis
  have r: "fst (enqueue_read_buffer Q g 0 2048 (run d3)) = mem_slice g2 0 2048"
    using read_law [OF g2(1), of 0 2048] g2(2) by simp
  have "test_device Q build_log d = build_log # map (\<lambda>i. to_hex_string True (mem_slice (blit (replicate 2048 0) 0 (mem_slice g2 0 2048)) (i * 32) 32)) [0..<64]"
    unfolding test_device_def global_work_size_def r [symmetric] run_def d3_def by (simp add: 1 2 Let_def split_beta)
  also have "\<dots> = build_log # map (\<lambda>i. hex_of True (fips_sha256 [0x30 + of_nat i])) [0..<64]"
    using g2(2,3) by (simp add: blit_full to_hex_string_eq mult.commute [of _ 32])
  finally show ?thesis .
qed

end

section \<open>A device\<close>

text \<open>A device that runs the items of a range in descending order and hands out handles in order: its buffers and
  the next handle.\<close>

type_synonym demo_device = "(nat \<Rightarrow> byte list option) \<times> nat"

definition demo_bufs :: "demo_device \<Rightarrow> nat \<Rightarrow> byte list option" where
  "demo_bufs d h = (if h < snd d then fst d h else None)"

definition demo_opencl :: "demo_device opencl" where
  "demo_opencl = \<lparr>create_buffer = (\<lambda>n (m, next). (next, (m(next \<mapsto> replicate n 0), Suc next))),
     enqueue_write_buffer = (\<lambda>h off data (m, next). (m(h := map_option (\<lambda>bs. blit bs off data) (m h)), next)),
     enqueue_1d_range_kernel = (\<lambda>k hs off n l (m, next).
       (m(hs [\<mapsto>] fold (\<lambda>i. k (of_nat i)) (rev [off..<off + n]) (map (\<lambda>h. the (m h)) hs)), next)),
     finish = (\<lambda>d. d),
     enqueue_read_buffer = (\<lambda>h off n (m, next). (mem_slice (the (m h)) off n, (m, next)))\<rparr>"

lemma demo_bufs_upds:
  "\<forall>h \<in> set hs. h < next \<Longrightarrow> demo_bufs (m(hs [\<mapsto>] xs), next) = (demo_bufs (m, next))(hs [\<mapsto>] xs)"
proof (induction hs arbitrary: m xs)
  case (Cons h hs)
  have "demo_bufs (m(h \<mapsto> x), next) = (demo_bufs (m, next))(h \<mapsto> x)" for x
    using Cons.prems by (auto simp: demo_bufs_def)
  with Cons show ?case by (cases xs) simp_all
qed simp

interpretation demo_queue: opencl_queue demo_opencl demo_bufs
proof
  fix d :: demo_device and hs args n off l and k :: kernel
  assume a: "map (demo_bufs d) hs = map Some args" "distinct hs"
  obtain m k' where d: "d = (m, k')" by force
  have args: "(\<forall>h \<in> set hs. h < k') \<and> map (\<lambda>h. the (m h)) hs = args"
    using a(1) by (induction hs arbitrary: args) (auto simp: d demo_bufs_def split: if_splits)
  then have "demo_bufs (enqueue_1d_range_kernel demo_opencl k hs off n l d) =
      (demo_bufs d)(hs [\<mapsto>] fold (\<lambda>i. k (of_nat i)) (rev [off..<off + n]) args)"
    by (simp add: demo_opencl_def d demo_bufs_upds)
  then show "\<exists>order. mset order = mset [off..<off + n] \<and> demo_bufs (enqueue_1d_range_kernel demo_opencl k hs off n l d) =
      (demo_bufs d)(hs [\<mapsto>] fold (\<lambda>i. k (of_nat i)) order args)"
    by (intro exI [of _ "rev [off..<off + n]"]) simp
next
  fix n h and d d' :: demo_device
  assume "create_buffer demo_opencl n d = (h, d')"
  then show "demo_bufs d h = None \<and> (\<exists>bs. length bs = n \<and> demo_bufs d' = (demo_bufs d)(h \<mapsto> bs))"
    by (cases d) (auto simp: demo_opencl_def demo_bufs_def fun_eq_iff intro: exI [of _ "replicate n 0"])
next
  fix d :: demo_device and h bs off data
  assume "demo_bufs d h = Some bs"
  then show "demo_bufs (enqueue_write_buffer demo_opencl h off data d) = (demo_bufs d)(h \<mapsto> blit bs off data)"
    by (cases d) (auto simp: demo_opencl_def demo_bufs_def fun_eq_iff split: if_splits)
next
  fix d :: demo_device and h bs off n
  assume "demo_bufs d h = Some bs"
  then show "fst (enqueue_read_buffer demo_opencl h off n d) = mem_slice bs off n \<and>
      demo_bufs (snd (enqueue_read_buffer demo_opencl h off n d)) = demo_bufs d"
    by (cases d) (simp add: demo_opencl_def demo_bufs_def split: if_splits)
qed (simp add: demo_opencl_def)

section \<open>Properties\<close>

text \<open>C14: \<open>test_device\<close> prints the hexadecimal digests of the 64 messages of one byte from \<open>0x30\<close> on, in
  order, in whatever order the device runs the work items.\<close>

theorem test_device_lines:
  assumes "opencl_queue Q bufs"
  shows "test_device Q build_log d = build_log # map (\<lambda>i. hex_of True (fips_sha256 [0x30 + of_nat i])) [0..<64]"
  using assms by (rule opencl_queue.test_device_prints)

lemma test_device_lines_witness:
  "test_device demo_opencl [] (\<lambda>h. None, 0) ! Suc 1 = hex_of True (fips_sha256 [0x31])"
  unfolding test_device_lines [OF demo_queue.opencl_queue_axioms]
  by (subst nth_Cons_Suc, subst nth_map) (simp_all only: length_upt, simp_all add: nth_upt del: upt_Suc)

end
