(* ===== verification/Spec2Isabelle.thy ===== *)
theory Spec2Isabelle
  imports Prelude IntUtil Endian Hex Span Multiway Sha256 Keccak OaesLaws BlakeLaws GroestlLaws JhLaws StratumLaws CpuFeatures SkeinHash SlowHashArmv8Laws SlowHashWindows
    MoneroCpu MoneroHashes OclDevice
begin

text \<open>
  A verification library of fingera, a collection of helpers for a miner: C++ templates for bytes and registers under
  \<^verbatim>\<open>include/fingera\<close>, the hash of Monero in C under \<^verbatim>\<open>src/hash/monero\<close>, an OpenCL kernel and a client of the stratum
  protocol.  Paths are relative to \<^verbatim>\<open>src/\<close>, the repository.

  \<^bold>\<open>The program and its parts.\<close>  The hash of Monero is the largest part.  \<open>monero_standard\<close> in \<^verbatim>\<open>hash/monero.cpp\<close> calls
  \<open>cn_slow_hash\<close> in \<^verbatim>\<open>slow-hash.c\<close>: Keccak of the block fills a state of 200 bytes (\<^verbatim>\<open>keccak.c\<close>, \<^verbatim>\<open>hash.c\<close>), AES rounds make
  a scratchpad of 2 MB of it (by instructions, by the tables of \<^verbatim>\<open>aesb.c\<close> or the keys of \<^verbatim>\<open>oaes_lib.c\<close>), a loop mixes
  the scratchpad with AES rounds and 64-bit products (\<^verbatim>\<open>common/int-util.h\<close>), the scratchpad is absorbed again, and two
  bits of the state choose one of four final hashes (\<^verbatim>\<open>blake256.c\<close>, \<^verbatim>\<open>groestl.c\<close>, \<^verbatim>\<open>jh.c\<close>, \<^verbatim>\<open>skein.c\<close>).
  \<open>monero_cpu_fast\<close> is a second version of the same for variant 1.  Beside it stand SHA-256 of several blocks at once over
  registers of several integers, the same as an OpenCL kernel, endian accessors, hexadecimal text, spans, the detection of
  CPU features, and the stratum client, which feeds jobs to the miner.

  \<^bold>\<open>How the code is modelled.\<close>  Machine integers are words of their width, so all arithmetic wraps as in C; a size or index
  that cannot wrap is a \<open>nat\<close>.  Memory is a list of bytes; wider integers are read and written little-endian
  (\<open>Prelude.join_le\<close>, \<open>split_le\<close>), which is the host the program is built for.  Structures are records that every
  operation returns updated, whatever a local variable or a heap block holds before its first write is an argument.  Errors, aborts
  and failed assertions are values of sum or option types.  Loops are structural or have a termination proof; the one
  that need not end, the absorbing loop of \<open>keccak\<close>, is a partial function whose value \<open>None\<close> says so.

  \<^bold>\<open>Theories.\<close>
  \<^item> \<open>Prelude\<close>: types, bytes of words, slices and writes of memory, tables checked for all bytes.
  \<^item> \<open>IntUtil\<close>: \<^verbatim>\<open>common/int-util.h\<close>.  Products and divisions of 128 bits are exact and their assertions hold; the swaps
    in place reverse bytes.
  \<^item> \<open>Endian\<close>: \<^verbatim>\<open>endian.hpp\<close>, \<^verbatim>\<open>impl/endian.ipp\<close> over the conversions of Boost.Endian, whose laws are the locale
    \<open>boost_endian\<close>, interpreted on a little-endian host.  What is written is read back and no other byte changes.
  \<^item> \<open>Hex\<close>: \<^verbatim>\<open>hex.hpp\<close>, \<^verbatim>\<open>impl/hex.ipp\<close> over an output iterator (locale \<open>output_iterator\<close>), interpreted on containers and
    pointers.  Round trips, accepted texts, and the pointer that is not advanced.
  \<^item> \<open>Span\<close>: \<^verbatim>\<open>span.hpp\<close>, with its checked accesses.
  \<^item> \<open>Multiway\<close>: \<^verbatim>\<open>multiway_integer.hpp\<close> and the three vector units under \<^verbatim>\<open>instrinsic/\<close>; \<open>multiway_instr\<close> states what a
    register class owes, lane by lane, \<open>simd\<close> what the compiler's manual says of the intrinsics.
  \<^item> \<open>Sha256\<close>: \<^verbatim>\<open>hash/multiway_sha256.hpp\<close> and the kernel \<^verbatim>\<open>src/ocl/sha256.cl\<close>; their tables and unrolled rounds are those of
    FIPS 180-4 in every lane, for every register class.
  \<^item> \<open>Keccak\<close>: \<^verbatim>\<open>keccak.c\<close>, \<^verbatim>\<open>keccak.h\<close>, \<^verbatim>\<open>hash.c\<close>.  \<open>keccakf\<close> is the permutation of FIPS 202, \<open>keccak\<close> the sponge; which digest
    lengths abort or never return.
  \<^item> \<open>Aes\<close>, \<open>Oaes\<close>, \<open>OaesLaws\<close>: \<^verbatim>\<open>oaes_lib.c\<close> and \<^verbatim>\<open>aesb.c\<close>.  Tables against the field of AES, the round with tables against
    the one on bytes, the key schedule of FIPS 197, the context invariant over all calls, round trips of blocks, messages
    and keys.
  \<^item> \<open>Blake\<close>, \<open>BlakeLaws\<close>: \<^verbatim>\<open>blake256.c\<close>, \<^verbatim>\<open>hash-extra-blake.c\<close>.  The unrolled compression, padding and counter, the number of
    bits that wraps in the hashes, streams and HMAC; \<open>stream_hash\<close> is what the HMACs use of a hash.
  \<^item> \<open>Groestl\<close>, \<open>GroestlRounds\<close>, \<open>GroestlLaws\<close>: \<^verbatim>\<open>groestl.c\<close>, its table and \<^verbatim>\<open>hash-extra-groestl.c\<close>.  The table holds products of
    the S-box, the rounds on columns are those on bytes, the context stands for the message.
  \<^item> \<open>Jh\<close>, \<open>JhSpec\<close>, \<open>JhConsts\<close>, \<open>JhTables\<close>, \<open>JhLaws\<close>: \<^verbatim>\<open>jh.c\<close>, \<^verbatim>\<open>hash-extra-jh.c\<close>.  The bit-sliced rounds are those on 256
    nibbles, with constants generated from the first one; the four tables of initial values are recomputed from the length of the
    digest; every number of bits, where the bits of the last byte that are not of the message are 0, as \<^verbatim>\<open>jh.c\<close> assumes.
  \<^item> \<open>Skein\<close>, \<open>SkeinSpec\<close>, \<open>SkeinLaws\<close>, \<open>SkeinTables\<close>, \<open>SkeinHash\<close>: \<^verbatim>\<open>skein.c\<close>, \<^verbatim>\<open>skein.h\<close>, \<^verbatim>\<open>skein_port.h\<close>, \<^verbatim>\<open>hash-extra-skein.c\<close>.  The
    block functions are Threefish; update and final are proved once in \<open>skein_block\<close>, for any block function, which is
    interpreted on the three of the code; the tables of chaining values are recomputed.
  \<^item> \<open>SlowHash\<close>, \<open>SlowHashPortable\<close>, \<open>SlowHashArmv8\<close>, \<open>SlowHashKeys\<close>, \<open>SlowHashSpec\<close>, \<open>SlowHashLaws\<close>, \<open>SlowHashArmv8Laws\<close>:
    \<^verbatim>\<open>slow-hash.c\<close>.  All four branches (x86-64, portable, ARM, ARMv8 with crypto instructions) compute CryptoNight, which is
    specified on blocks of 16 bytes; who owns the scratchpad of a thread.  \<open>x86_documented\<close> and \<open>armv8_documented\<close> hold the
    documented behaviour of the instructions, the second gives the first, and each is interpreted on a software version.
    \<open>SlowHashWindows\<close>: the allocation of the scratchpad on Windows, and the handle that it leaks.
  \<^item> \<open>MoneroCpu\<close>, \<open>MoneroHashes\<close>: \<^verbatim>\<open>hash/monero.cpp\<close>.  Both entries agree; with the four final hashes of the repository in the
    table the result is 32 bytes, CryptoNight with the four specified digests.
  \<^item> \<open>OclDevice\<close>: \<open>test_device\<close> of \<^verbatim>\<open>src/ocl/device.cpp\<close>, which runs the kernel of \<open>Sha256\<close> and prints with \<open>Hex\<close>; \<open>opencl_queue\<close> states
    what the runtime promises, with work items in any order.
  \<^item> \<open>CpuFeatures\<close>: \<^verbatim>\<open>cpu_features.cpp\<close>.  The nested tests are a table of features; wide registers only if they are saved.
  \<^item> \<open>Stratum\<close>, \<open>StratumLaws\<close>: \<^verbatim>\<open>stratum/client.cpp\<close>.  Completion handlers are events of a step relation; every run follows a
    protocol of phases, with its invariants, recoveries and its two ways to get stuck; the jobs are those that the texts received
    announce, where \<open>received_texts\<close> reads the texts off the sequence of events.

  \<^bold>\<open>Specifications.\<close>  FIPS 180-4 (\<open>Sha256\<close>), FIPS 197 (\<open>OaesLaws\<close>), FIPS 202 (\<open>Keccak\<close>), BLAKE, Groestl, JH and Skein (in the laws
  of each), RFC 2104 (\<open>BlakeLaws\<close>), CNS 008 with variant 1 (\<open>SlowHashSpec\<close>) are written out on lists, without the unrolling,
  tables and buffers of the code; the digest theorems are refinements to them.

  \<^bold>\<open>Bounds and fuel.\<close>  Messages are as long as the types of the C code allow: fewer than \<open>2 ^ 64\<close> bits for JH and Skein, bytes that fit an
  \<open>int\<close> for Groestl; the \<open>int\<close> argument \<open>inlen\<close> of \<open>keccak\<close> is the length of the list, and no lemma needs a bound on it.
  The hashes of \<^verbatim>\<open>blake256.c\<close> multiply the number of bytes by 8 in 64 bits: \<open>blake_hash_digest\<close> holds for every argument and says
  which bytes are hashed, all of them below \<open>2 ^ 61\<close>; the HMACs are stated for keys and messages below that bound.  The loop of the block functions of Skein
  counts a word down to zero and ends for every count.  No definition has fuel: \<open>keccak_outcomes\<close> tells
  for which digest lengths the absorbing loop of \<open>keccak\<close> ends.  The stratum client runs on finite lists of events of any length.

  \<^bold>\<open>Not modelled.\<close>  What Visual C++ compiles instead in \<^verbatim>\<open>int-util.h\<close> and \<^verbatim>\<open>cpu_features.cpp\<close>; big-endian hosts, but for the portable accessors of Skein; what
  \<^verbatim>\<open>skein.c\<close> compiles out (keys, trees, Skein-256 initialisation); debugging output of \<^verbatim>\<open>oaes_lib.c\<close>, the seed it
  takes from the clock, and the console output of the client and of \<^verbatim>\<open>cpu_features.cpp\<close>; the
  lists of devices and platforms that \<^verbatim>\<open>src/ocl/device.cpp\<close> prints; build files, \<^verbatim>\<open>config.hpp.in\<close> and \<^verbatim>\<open>static_initializer.hpp\<close>; tests and benchmarks.  The
  compiler's intrinsics, processor instructions, random numbers, allocators, Boost's sockets, conversions and property
  trees are arguments of the definitions that use them, with their documented behaviour as named hypotheses.
\<close>

end
